(* ===== verification/Rust_Prelude.thy ===== *)
theory Rust_Prelude
  imports Main "HOL-Library.Word"
begin

section \<open>Shared vocabulary of the development\<close>

text \<open>
  This theory holds what every component of the CoinCync model shares:

  \<^item> the machine integers of the Rust sources. A \<open>u64\<close>, \<open>u128\<close> or \<open>usize\<close> value is
    a \<^typ>\<open>nat\<close> and every operation names its overflow behaviour: \<open>checked_*\<close> returns an
    option, \<open>saturating_*\<close> clamps, \<open>wrapping_*\<close> and the cast \<open>as_u64\<close> reduce modulo the
    width (the release profile of \<open>Cargo.toml\<close> does not set \<open>overflow-checks\<close>, so the
    plain operators wrap). Saturating subtraction is subtraction on \<^typ>\<open>nat\<close>;
  \<^item> byte strings (\<open>to_le_bytes\<close>, \<open>from_be_bytes\<close> and their inverses);
  \<^item> fallible code: \<open>Result<T, E>\<close> is the sum \<open>'e + 'a\<close> with \<open>Inl\<close> for the error, and a
    sequence of \<open>check(..)?;\<close> statements is \<open>run_checks\<close>;
  \<^item> the two map interfaces the sources use, \<open>HashMap\<close> (\<open>finite_map\<close>) and \<open>BTreeMap\<close>
    (\<open>ordered_map\<close>), as locales with their implementations by association lists.
\<close>

named_theorems width_defs "definitions of the machine-integer operations"

subsection \<open>Machine integers\<close>

type_synonym u8 = "8 word"
type_synonym bytes = "u8 list"

definition u64_max :: nat where
  "u64_max = 2 ^ 64 - 1"

definition u128_max :: nat where
  "u128_max = 2 ^ 128 - 1"

definition i32_max :: int where
  "i32_max = 2 ^ 31 - 1"

definition i128_max :: int where
  "i128_max = 2 ^ 127 - 1"

definition i128_min :: int where
  "i128_min = - (2 ^ 127)"

definition checked_add :: "nat \<Rightarrow> nat \<Rightarrow> nat \<Rightarrow> nat option" where
  "checked_add m a b = (if a + b \<le> m then Some (a + b) else None)"

definition checked_sub :: "nat \<Rightarrow> nat \<Rightarrow> nat option" where
  "checked_sub a b = (if b \<le> a then Some (a - b) else None)"

definition checked_mul :: "nat \<Rightarrow> nat \<Rightarrow> nat \<Rightarrow> nat option" where
  "checked_mul m a b = (if a * b \<le> m then Some (a * b) else None)"

definition saturating_add :: "nat \<Rightarrow> nat \<Rightarrow> nat \<Rightarrow> nat" where
  "saturating_add m a b = min m (a + b)"

definition saturating_mul :: "nat \<Rightarrow> nat \<Rightarrow> nat \<Rightarrow> nat" where
  "saturating_mul m a b = min m (a * b)"

definition wrapping_add :: "nat \<Rightarrow> nat \<Rightarrow> nat \<Rightarrow> nat" where
  "wrapping_add m a b = (a + b) mod (m + 1)"

definition wrapping_mul :: "nat \<Rightarrow> nat \<Rightarrow> nat \<Rightarrow> nat" where
  "wrapping_mul m a b = (a * b) mod (m + 1)"

definition as_u64 :: "nat \<Rightarrow> nat" where
  "as_u64 n = n mod 2 ^ 64"

definition clamp :: "'a::linorder \<Rightarrow> 'a \<Rightarrow> 'a \<Rightarrow> 'a" where
  "clamp lo hi x = (if x < lo then lo else if hi < x then hi else x)"

lemmas [width_defs] = u64_max_def u128_max_def checked_add_def checked_sub_def
  checked_mul_def saturating_add_def saturating_mul_def wrapping_add_def wrapping_mul_def
  as_u64_def

lemma as_u64_id [simp]: "n \<le> u64_max \<Longrightarrow> as_u64 n = n"
  by (simp add: as_u64_def u64_max_def)

lemma as_u64_le [simp]: "as_u64 n \<le> u64_max"
  by (simp add: as_u64_def u64_max_def)

lemma wrapping_add_id: "a + b \<le> m \<Longrightarrow> wrapping_add m a b = a + b"
  by (simp add: wrapping_add_def)

lemma wrapping_mul_id: "a * b \<le> m \<Longrightarrow> wrapping_mul m a b = a * b"
  by (simp add: wrapping_mul_def)

lemma clamp_bounds:
  "lo \<le> hi \<Longrightarrow> lo \<le> clamp lo hi x \<and> clamp lo hi x \<le> hi"
  by (auto simp: clamp_def)

lemma clamp_id [simp]: "lo \<le> x \<Longrightarrow> x \<le> hi \<Longrightarrow> clamp lo hi x = x"
  by (auto simp: clamp_def)

lemma clamp_mono: "x \<le> y \<Longrightarrow> lo \<le> hi \<Longrightarrow> clamp lo hi x \<le> clamp lo hi y"
  by (auto simp: clamp_def)

subsection \<open>Byte strings\<close>

primrec le_bytes :: "nat \<Rightarrow> nat \<Rightarrow> bytes" where
  "le_bytes 0 n = []"
| "le_bytes (Suc k) n = word_of_nat n # le_bytes k (n div 256)"

primrec from_le_bytes :: "bytes \<Rightarrow> nat" where
  "from_le_bytes [] = 0"
| "from_le_bytes (b # bs) = unat b + 256 * from_le_bytes bs"

definition be_bytes :: "nat \<Rightarrow> nat \<Rightarrow> bytes" where
  "be_bytes k n = rev (le_bytes k n)"

definition from_be_bytes :: "bytes \<Rightarrow> nat" where
  "from_be_bytes bs = from_le_bytes (rev bs)"

lemma length_le_bytes [simp]: "length (le_bytes k n) = k"
  by (induction k arbitrary: n) auto

lemma length_be_bytes [simp]: "length (be_bytes k n) = k"
  by (simp add: be_bytes_def)

lemma unat_u8_less [simp]: "unat (b :: u8) < 256"
  using unsigned_less [of b] by simp

lemma from_le_bytes_less: "from_le_bytes bs < 256 ^ length bs"
proof (induction bs)
  case (Cons b bs)
  have "unat b + 256 * from_le_bytes bs < 256 + 256 * from_le_bytes bs" by simp
  also have "\<dots> = 256 * Suc (from_le_bytes bs)" by simp
  also have "\<dots> \<le> 256 * 256 ^ length bs" using Cons.IH by (simp only: mult_le_mono2 Suc_leI)
  finally show ?case by simp
qed simp

lemma from_le_bytes_le_bytes: "from_le_bytes (le_bytes k n) = n mod 256 ^ k"
proof (induction k arbitrary: n)
  case (Suc k)
  have "from_le_bytes (le_bytes (Suc k) n) = n mod 256 + 256 * (n div 256 mod 256 ^ k)"
    by (simp add: Suc.IH unat_of_nat)
  also have "\<dots> = n mod (256 * 256 ^ k)"
    by (simp add: mod_mult2_eq)
  finally show ?case by simp
qed simp

lemma le_bytes_from_le_bytes: "le_bytes (length bs) (from_le_bytes bs) = bs"
proof (induction bs)
  case (Cons b bs)
  have "unat (word_of_nat (unat b + 256 * from_le_bytes bs) :: u8) = unat b"
    by (simp only: unat_of_nat) simp
  then have "word_of_nat (unat b + 256 * from_le_bytes bs) = b"
    by (simp only: word_unat_eq_iff)
  with Cons.IH show ?case by (simp add: div_add1_eq)
qed simp

lemma from_be_bytes_less: "from_be_bytes bs < 256 ^ length bs"
  using from_le_bytes_less [of "rev bs"] by (simp add: from_be_bytes_def)

lemma from_be_bytes_be_bytes: "from_be_bytes (be_bytes k n) = n mod 256 ^ k"
  by (simp add: from_be_bytes_def be_bytes_def from_le_bytes_le_bytes)

lemma be_bytes_from_be_bytes: "be_bytes (length bs) (from_be_bytes bs) = bs"
  using le_bytes_from_le_bytes [of "rev bs"] by (simp add: from_be_bytes_def be_bytes_def)

lemma from_le_bytes_append:
  "from_le_bytes (xs @ ys) = from_le_bytes xs + 256 ^ length xs * from_le_bytes ys"
  by (induction xs) (simp_all add: algebra_simps)

lemma from_be_bytes_Cons:
  "from_be_bytes (b # bs) = unat b * 256 ^ length bs + from_be_bytes bs"
  by (simp add: from_be_bytes_def from_le_bytes_append)

lemma from_be_bytes_append:
  "from_be_bytes (xs @ ys) = from_be_bytes xs * 256 ^ length ys + from_be_bytes ys"
  by (simp add: from_be_bytes_def from_le_bytes_append)

subsection \<open>Fallible code\<close>

text \<open>
  \<open>run_checks\<close> is a block of \<open>check(..)?;\<close> statements: the first error is returned, later
  checks do not run (they are pure, so not running them is not observable). \<open>and_then\<close> is
  the \<open>?\<close> operator on a value that is used afterwards.
\<close>

type_synonym 'e check = "'e + unit"

abbreviation ok :: "'e check" where
  "ok \<equiv> Inr ()"

fun run_checks :: "'e check list \<Rightarrow> 'e check" where
  "run_checks [] = ok"
| "run_checks (Inl e # cs) = Inl e"
| "run_checks (Inr u # cs) = run_checks cs"

definition and_then :: "'e + 'a \<Rightarrow> ('a \<Rightarrow> 'e + 'b) \<Rightarrow> 'e + 'b" where
  "and_then r f = (case r of Inl e \<Rightarrow> Inl e | Inr a \<Rightarrow> f a)"

definition ok_or :: "'a option \<Rightarrow> 'e \<Rightarrow> 'e + 'a" where
  "ok_or x e = (case x of None \<Rightarrow> Inl e | Some a \<Rightarrow> Inr a)"

definition ensure :: "bool \<Rightarrow> 'e \<Rightarrow> 'e check" where
  "ensure b e = (if b then ok else Inl e)"

lemma check_cases: obtains e where "c = Inl e" | "c = (ok :: 'e check)"
  by (cases c) auto

lemma run_checks_ok [simp]: "run_checks cs = ok \<longleftrightarrow> (\<forall>c \<in> set cs. c = ok)"
  by (induction cs rule: run_checks.induct) auto

lemma run_checks_append:
  "run_checks (cs @ ds) = (case run_checks cs of Inl e \<Rightarrow> Inl e | Inr _ \<Rightarrow> run_checks ds)"
  by (induction cs rule: run_checks.induct) auto

lemma ensure_ok [simp]: "ensure b e = ok \<longleftrightarrow> b"
  by (simp add: ensure_def)

lemma and_then_ok [simp]: "and_then r f = Inr b \<longleftrightarrow> (\<exists>a. r = Inr a \<and> f a = Inr b)"
  by (cases r) (auto simp: and_then_def)

subsection \<open>Duplicate detection\<close>

text \<open>
  The idiom \<open>if !seen.insert(x)\<close> over a sequence reports every element that occurred before;
  \<open>dups\<close> lists the positions it fires at, in order.
\<close>

fun dups_from :: "nat \<Rightarrow> 'a list \<Rightarrow> 'a list \<Rightarrow> nat list" where
  "dups_from i seen [] = []"
| "dups_from i seen (x # xs) =
     (if x \<in> set seen then i # dups_from (Suc i) seen xs
      else dups_from (Suc i) (x # seen) xs)"

definition dups :: "'a list \<Rightarrow> nat list" where
  "dups xs = dups_from 0 [] xs"

lemma dups_from_Nil:
  "dups_from i seen xs = [] \<longleftrightarrow> distinct xs \<and> set xs \<inter> set seen = {}"
  by (induction xs arbitrary: i seen) auto

lemma dups_Nil [simp]: "dups xs = [] \<longleftrightarrow> distinct xs"
  by (simp add: dups_def dups_from_Nil)

end
