(* ===== verification/Primitives.thy ===== *)
theory Primitives
  imports Rust_Prelude "HOL-Library.List_Lexorder"
begin

section \<open>Hashes and amounts\<close>

text \<open>
  The value types of \<open>src/primitives\<close>: the 32-byte \<open>Hash\<close> of \<open>hash.rs\<close> with its order and the
  proof-of-work comparison, and the \<open>Amount\<close> of \<open>amount.rs\<close> with its checked and saturating
  arithmetic, basis-point percentages, decimal printing and exact decimal parsing. The
  conversions of \<open>amount.rs\<close> through \<open>f64\<close> are not modelled. Text is ASCII: \<open>trim\<close> drops the
  ASCII white space that \<open>char::is_whitespace\<close> accepts.
\<close>

subsection \<open>Errors\<close>

text \<open>The variants of \<open>Error\<close> (\<open>src/error.rs\<close>) that the primitives return.\<close>

datatype prim_error =
    AmountOverflow
  | AmountUnderflow
  | InvalidAddress string

subsection \<open>Hash (primitives/hash.rs)\<close>

datatype hash = Hash (hash_bytes: bytes)

definition hash_from_slice :: "bytes \<Rightarrow> hash option" where
  "hash_from_slice sl = (if length sl \<noteq> 32 then None else Some (Hash sl))"

definition hash_zero :: hash where
  "hash_zero = Hash (replicate 32 0)"

definition hash_is_zero :: "hash \<Rightarrow> bool" where
  "hash_is_zero h = (hash_bytes h = replicate 32 0)"

text \<open>The derived \<open>Ord\<close> of \<open>Hash\<close> is the lexicographic order of the byte array.\<close>

instantiation hash :: linorder
begin

definition less_eq_hash :: "hash \<Rightarrow> hash \<Rightarrow> bool" where
  "less_eq_hash a b = (hash_bytes a \<le> hash_bytes b)"

definition less_hash :: "hash \<Rightarrow> hash \<Rightarrow> bool" where
  "less_hash a b = (hash_bytes a < hash_bytes b)"

instance
  by standard (auto simp: less_eq_hash_def less_hash_def hash.expand)

end

fun meets_loop :: "bytes \<Rightarrow> bytes \<Rightarrow> bool" where
  "meets_loop (a # as) (b # bs) =
     (if a < b then True else if b < a then False else meets_loop as bs)"
| "meets_loop _ _ = True"

definition meets_difficulty :: "hash \<Rightarrow> hash \<Rightarrow> bool" where
  "meets_difficulty h target = meets_loop (hash_bytes h) (hash_bytes target)"

text \<open>\<open>u64::leading_zeros\<close> and \<open>u8::leading_zeros\<close> are the width minus the bit length.\<close>

fun bit_len :: "nat \<Rightarrow> nat" where
  "bit_len n = (if n = 0 then 0 else Suc (bit_len (n div 2)))"

declare bit_len.simps [simp del]

definition from_difficulty :: "nat \<Rightarrow> hash" where
  "from_difficulty d =
     (if d = 0 then Hash (replicate 32 255)
      else
        let leading_zero_bits = 63 - (64 - bit_len d);
            full_zero_bytes = leading_zero_bits div 8;
            partial_bits = leading_zero_bits mod 8
        in Hash (map (\<lambda>i. if i < full_zero_bytes then 0
                          else if i = full_zero_bytes \<and> 0 < partial_bits
                               then drop_bit partial_bits 255
                          else 255) [0..<32]))"

fun leading_zero_bits :: "bytes \<Rightarrow> nat" where
  "leading_zero_bits [] = 0"
| "leading_zero_bits (b # bs) =
     (if b = 0 then 8 + leading_zero_bits bs else 8 - bit_len (unat b))"

definition to_difficulty :: "hash \<Rightarrow> nat" where
  "to_difficulty h =
     (let zero_bits = leading_zero_bits (hash_bytes h)
      in if zero_bits < 64 then 2 ^ zero_bits else u64_max)"

definition wf_hash :: "hash \<Rightarrow> bool" where
  "wf_hash h = (length (hash_bytes h) = 32)"

lemma meets_loop_le:
  "length xs = length ys \<Longrightarrow> meets_loop xs ys \<longleftrightarrow> from_be_bytes xs \<le> from_be_bytes ys"
proof (induction xs ys rule: list_induct2)
  case (Cons a as b bs)
  let ?n = "256 ^ length bs :: nat"
  have bounds: "from_be_bytes as < ?n" "from_be_bytes bs < ?n"
    using from_be_bytes_less [of as] from_be_bytes_less [of bs] Cons.hyps by simp_all
  have step: "unat x * ?n + p < unat y * ?n + q"
    if "unat x < unat y" and "p < ?n" for x y :: u8 and p q
  proof -
    have "Suc (unat x) * ?n \<le> unat y * ?n" using that(1) by (simp only: mult_le_mono1 Suc_leI)
    then show ?thesis using that(2) by simp
  qed
  consider "a < b" | "b < a" | "a = b" by fastforce
  then show ?case
  proof cases
    case 1
    then have "unat a < unat b" by (simp add: word_less_nat_alt)
    from step [OF this bounds(1)] 1 Cons.hyps show ?thesis
      by (simp add: from_be_bytes_Cons less_imp_le)
  next
    case 2
    then have "unat b < unat a" by (simp add: word_less_nat_alt)
    from step [OF this bounds(2), of "from_be_bytes as"] 2 Cons.hyps show ?thesis
      by (auto simp: from_be_bytes_Cons)
  next
    case 3
    with Cons show ?thesis by (simp add: from_be_bytes_Cons)
  qed
qed simp

lemma meets_loop_lex: "length xs = length ys \<Longrightarrow> meets_loop xs ys \<longleftrightarrow> xs \<le> ys"
  by (induction xs ys rule: list_induct2) (auto simp: list_le_def)

lemma bit_len_bounds: "0 < n \<Longrightarrow> 2 ^ (bit_len n - 1) \<le> n \<and> n < 2 ^ bit_len n"
proof (induction n rule: bit_len.induct)
  case (1 n)
  show ?case
  proof (cases "n = 1")
    case True
    then show ?thesis by (simp add: bit_len.simps)
  next
    case False
    with "1.prems" have h: "0 < n div 2" "n \<noteq> 0" by auto
    then obtain k where k: "bit_len (n div 2) = Suc k" by (subst (asm) bit_len.simps) simp
    from "1.IH" h k have "2 ^ k \<le> n div 2" "n div 2 < 2 * 2 ^ k" by auto
    then have "2 * 2 ^ k \<le> n" "n < 4 * 2 ^ k" by auto
    with h k show ?thesis by (simp add: bit_len.simps [of n])
  qed
qed

lemma bit_len_le: "n < 2 ^ k \<Longrightarrow> bit_len n \<le> k"
proof (induction n arbitrary: k rule: bit_len.induct)
  case (1 n)
  show ?case
  proof (cases "n = 0")
    case False
    with "1.prems" obtain j where "k = Suc j" by (cases k) auto
    with "1" False show ?thesis by (simp add: bit_len.simps [of n] less_mult_imp_div_less mult.commute)
  qed (simp add: bit_len.simps)
qed

lemma leading_zero_bits_replicate:
  "leading_zero_bits (replicate n 0 @ bs) = 8 * n + leading_zero_bits bs"
  by (induction n) auto

lemma difficulty_bytes_split:
  fixes f p :: nat
  assumes "f < 32"
  shows "map (\<lambda>i. if i < f then 0 else if i = f \<and> 0 < p then x else y) [0..<32]
    = replicate f (0 :: u8) @ (if 0 < p then x else y) # replicate (31 - f) y"
proof (rule nth_equalityI)
  show "length (map (\<lambda>i. if i < f then 0 else if i = f \<and> 0 < p then x else y) [0..<32])
    = length (replicate f (0 :: u8) @ (if 0 < p then x else y) # replicate (31 - f) y)"
    using assms by simp
qed (auto simp: nth_append nth_Cons')

lemma partial_bytes:
  "\<forall>p \<in> set [0..<8]. drop_bit p (255 :: u8) \<noteq> 0 \<and> bit_len (unat (drop_bit p (255 :: u8))) = 8 - p"
  by code_simp

lemma leading_zero_bits_from_difficulty:
  assumes "0 < d" and "d \<le> u64_max"
  shows "leading_zero_bits (hash_bytes (from_difficulty d)) = bit_len d - 1"
proof -
  have "d < 2 ^ 64" using assms(2) by (simp add: u64_max_def)
  then have len: "bit_len d \<le> 64" by (rule bit_len_le)
  have "bit_len d \<noteq> 0" using assms(1) by (simp add: bit_len.simps)
  with len have lz: "63 - (64 - bit_len d) = bit_len d - 1" by simp
  define z where "z = bit_len d - 1"
  have z: "z div 8 < 32" using len by (simp add: z_def)
  have "hash_bytes (from_difficulty d) =
      map (\<lambda>i. if i < z div 8 then 0
                else if i = z div 8 \<and> 0 < z mod 8 then drop_bit (z mod 8) 255 else 255) [0..<32]"
    using assms(1) by (simp only: from_difficulty_def Let_def lz z_def if_False hash.sel) simp
  also have "\<dots> = replicate (z div 8) 0 @
      (if 0 < z mod 8 then drop_bit (z mod 8) 255 else 255) # replicate (31 - z div 8) 255"
    by (rule difficulty_bytes_split [OF z])
  also have "leading_zero_bits \<dots> = 8 * (z div 8) + z mod 8"
    using partial_bytes [THEN bspec, of "z mod 8"] partial_bytes [THEN bspec, of 0]
    by (cases "z mod 8 = 0") (auto simp: leading_zero_bits_replicate)
  finally show ?thesis by (simp add: z_def)
qed

lemma wf_from_difficulty: "wf_hash (from_difficulty d)"
  by (simp add: wf_hash_def from_difficulty_def Let_def hash_zero_def)

text \<open>\<open>Hash::meets_difficulty\<close>, a byte loop with early exits, is the comparison of the two hashes
  as 256-bit big-endian numbers, and agrees with the derived order of the type.\<close>

theorem meets_difficulty_numeric:
  assumes "wf_hash h" and "wf_hash target"
  shows "(meets_difficulty h target \<longleftrightarrow> from_be_bytes (hash_bytes h) \<le> from_be_bytes (hash_bytes target))
       \<and> (meets_difficulty h target \<longleftrightarrow> h \<le> target)"
  using assms meets_loop_le [of "hash_bytes h" "hash_bytes target"]
    meets_loop_lex [of "hash_bytes h" "hash_bytes target"]
  by (simp add: meets_difficulty_def wf_hash_def less_eq_hash_def)

theorem meets_difficulty_numeric_witness:
  "wf_hash (Hash (7 # replicate 31 1)) \<and> wf_hash (Hash (9 # replicate 31 0))
   \<and> from_be_bytes (7 # replicate 31 1) \<le> from_be_bytes (9 # replicate 31 0)"
proof -
  have wf: "wf_hash (Hash (7 # replicate 31 1))" "wf_hash (Hash (9 # replicate 31 0))"
    by (simp_all add: wf_hash_def)
  have "meets_difficulty (Hash (7 # replicate 31 1)) (Hash (9 # replicate 31 0))"
    by (simp add: meets_difficulty_def)
  with wf meets_difficulty_numeric [OF wf] show ?thesis by simp
qed

text \<open>The bit-count difficulty of a target built from a difficulty is the largest power of two not
  above it: \<open>Hash::to_difficulty\<close> after \<open>Hash::from_difficulty\<close> underestimates by less than a
  factor of two, and is exact on powers of two.\<close>

theorem to_from_difficulty:
  assumes "0 < d" and "d \<le> u64_max"
  shows "to_difficulty (from_difficulty d) \<le> d \<and> d < 2 * to_difficulty (from_difficulty d)
       \<and> (d = 2 ^ k \<longrightarrow> to_difficulty (from_difficulty d) = d)"
proof -
  have "d < 2 ^ 64" using assms(2) by (simp add: u64_max_def)
  then have "bit_len d \<le> 64" by (rule bit_len_le)
  moreover obtain j where j: "bit_len d = Suc j"
    using assms(1) by (cases "bit_len d") (auto simp: bit_len.simps)
  ultimately have t: "to_difficulty (from_difficulty d) = 2 ^ j"
    using leading_zero_bits_from_difficulty [OF assms] by (simp add: to_difficulty_def)
  have b: "2 ^ j \<le> d" "d < 2 * 2 ^ j" using bit_len_bounds [OF assms(1)] j by auto
  have "2 ^ j = d" if "d = 2 ^ k"
  proof -
    from b that have "(2::nat) ^ j \<le> 2 ^ k" "(2::nat) ^ k < 2 ^ Suc j" by simp_all
    then have "j \<le> k" "k < Suc j" by (simp_all only: power_increasing_iff power_strict_increasing_iff
        one_less_numeral_iff semiring_norm)
    with that show ?thesis by simp
  qed
  with t b show ?thesis by auto
qed

theorem to_from_difficulty_witness:
  "(0::nat) < 1000 \<and> (1000::nat) \<le> u64_max \<and> to_difficulty (from_difficulty 1000) \<le> 1000
   \<and> 1000 < 2 * to_difficulty (from_difficulty 1000)"
  using to_from_difficulty [of 1000] by (simp add: u64_max_def)

end
