(* ===== verification/Amounts.thy ===== *)
theory Amounts
  imports Primitives
begin

section \<open>Amounts (primitives/amount.rs)\<close>

text \<open>
  An \<open>Amount\<close> is a number of atomic units in a \<open>u64\<close>. The theory follows \<open>amount.rs\<close>:
  denominations, checked and saturating arithmetic, the overloaded operators, percentages in
  basis points, printing with a chosen number of decimals and parsing. The lemmas relate each
  operation to exact arithmetic, bound percentages and prove that parsing inverts printing.
\<close>

subsection \<open>Constants (constants.rs)\<close>

definition ATOMIC_UNITS :: nat where "ATOMIC_UNITS = 1000000000000"
definition MILLICYNC :: nat where "MILLICYNC = 1000000000"
definition MICROCYNC :: nat where "MICROCYNC = 1000000"
definition NANOCYNC :: nat where "NANOCYNC = 1000"

lemmas unit_defs = ATOMIC_UNITS_def MILLICYNC_def MICROCYNC_def NANOCYNC_def

subsection \<open>Denominations\<close>

datatype denomination = Cync | MilliCync | MicroCync | NanoCync | Sync

fun multiplier :: "denomination \<Rightarrow> nat" where
  "multiplier Cync = ATOMIC_UNITS"
| "multiplier MilliCync = MILLICYNC"
| "multiplier MicroCync = MICROCYNC"
| "multiplier NanoCync = NANOCYNC"
| "multiplier Sync = 1"

text \<open>The micro sign of \<open>symbol\<close> is its UTF-8 encoding, the bytes 0xCE 0xBC.\<close>

fun symbol :: "denomination \<Rightarrow> string" where
  "symbol Cync = ''CYNC''"
| "symbol MilliCync = ''mCYNC''"
| "symbol MicroCync = CHR 0xCE # CHR 0xBC # ''CYNC''"
| "symbol NanoCync = ''nCYNC''"
| "symbol Sync = ''sync''"

fun decimals :: "denomination \<Rightarrow> nat" where
  "decimals Cync = 12"
| "decimals MilliCync = 9"
| "decimals MicroCync = 6"
| "decimals NanoCync = 3"
| "decimals Sync = 0"

lemma multiplier_decimals: "multiplier d = 10 ^ decimals d"
  by (cases d) (simp_all add: unit_defs)

subsection \<open>Amount and its arithmetic\<close>

datatype amount = Amount (as_atomic: nat)

definition wf_amount :: "amount \<Rightarrow> bool" where
  "wf_amount a = (as_atomic a \<le> u64_max)"

definition amount_ZERO :: amount where "amount_ZERO = Amount 0"
definition amount_MAX :: amount where "amount_MAX = Amount u64_max"

definition from_atomic :: "nat \<Rightarrow> amount" where
  "from_atomic n = Amount n"

definition from_cync :: "nat \<Rightarrow> prim_error + amount" where
  "from_cync c = ok_or (map_option Amount (checked_mul u64_max c ATOMIC_UNITS)) AmountOverflow"

definition as_cync :: "amount \<Rightarrow> nat" where
  "as_cync a = as_atomic a div ATOMIC_UNITS"

definition amount_is_zero :: "amount \<Rightarrow> bool" where
  "amount_is_zero a = (as_atomic a = 0)"

definition amount_checked_add :: "amount \<Rightarrow> amount \<Rightarrow> prim_error + amount" where
  "amount_checked_add a b =
     ok_or (map_option Amount (checked_add u64_max (as_atomic a) (as_atomic b))) AmountOverflow"

definition amount_checked_sub :: "amount \<Rightarrow> amount \<Rightarrow> prim_error + amount" where
  "amount_checked_sub a b =
     ok_or (map_option Amount (checked_sub (as_atomic a) (as_atomic b))) AmountUnderflow"

definition amount_checked_mul :: "amount \<Rightarrow> nat \<Rightarrow> prim_error + amount" where
  "amount_checked_mul a f =
     ok_or (map_option Amount (checked_mul u64_max (as_atomic a) f)) AmountOverflow"

definition amount_checked_div :: "amount \<Rightarrow> nat \<Rightarrow> prim_error + amount" where
  "amount_checked_div a d = (if d = 0 then Inl AmountOverflow else Inr (Amount (as_atomic a div d)))"

definition amount_saturating_add :: "amount \<Rightarrow> amount \<Rightarrow> amount" where
  "amount_saturating_add a b = Amount (saturating_add u64_max (as_atomic a) (as_atomic b))"

definition amount_saturating_sub :: "amount \<Rightarrow> amount \<Rightarrow> amount" where
  "amount_saturating_sub a b = Amount (as_atomic a - as_atomic b)"

definition percentage :: "amount \<Rightarrow> nat \<Rightarrow> amount" where
  "percentage a basis_points =
     (let numerator = as_atomic a * basis_points;
          rounded = (numerator + 5000) div 10000
      in Amount (min rounded u64_max))"

definition percentage_truncate :: "amount \<Rightarrow> nat \<Rightarrow> amount" where
  "percentage_truncate a basis_points =
     (let result = as_atomic a * basis_points div 10000 in Amount (min result u64_max))"

text \<open>The operators of \<open>impl Add/Sub/Mul/Div for Amount\<close> and the \<open>Sum\<close> of a list.\<close>

definition amount_add :: "amount \<Rightarrow> amount \<Rightarrow> amount" where
  "amount_add a b = amount_saturating_add a b"

definition amount_sub :: "amount \<Rightarrow> amount \<Rightarrow> amount" where
  "amount_sub a b = amount_saturating_sub a b"

definition amount_mul :: "amount \<Rightarrow> nat \<Rightarrow> amount" where
  "amount_mul a f = Amount (saturating_mul u64_max (as_atomic a) f)"

definition amount_div :: "amount \<Rightarrow> nat \<Rightarrow> amount" where
  "amount_div a d = (if d = 0 then amount_ZERO else Amount (as_atomic a div d))"

definition amount_sum :: "amount list \<Rightarrow> amount" where
  "amount_sum as = foldl amount_saturating_add amount_ZERO as"

lemmas amount_defs = from_atomic_def from_cync_def amount_checked_add_def amount_checked_sub_def
  amount_checked_mul_def amount_checked_div_def amount_saturating_add_def
  amount_saturating_sub_def amount_add_def amount_sub_def amount_mul_def amount_div_def
  amount_ZERO_def amount_MAX_def ok_or_def

subsection \<open>Decimal text\<close>

definition digit_char :: "nat \<Rightarrow> char" where
  "digit_char d = char_of (48 + d)"

definition digit_val :: "char \<Rightarrow> nat option" where
  "digit_val c = (let k = of_char c :: nat in if 48 \<le> k \<and> k \<le> 57 then Some (k - 48) else None)"

abbreviation is_ascii_digit :: "char \<Rightarrow> bool" where
  "is_ascii_digit c \<equiv> digit_val c \<noteq> None"

fun show_nat :: "nat \<Rightarrow> string" where
  "show_nat n = (if n < 10 then [digit_char n] else show_nat (n div 10) @ [digit_char (n mod 10)])"

declare show_nat.simps [simp del]

definition pad_left :: "char \<Rightarrow> nat \<Rightarrow> string \<Rightarrow> string" where
  "pad_left c w s = replicate (w - length s) c @ s"

definition pad_right :: "char \<Rightarrow> nat \<Rightarrow> string \<Rightarrow> string" where
  "pad_right c w s = s @ replicate (w - length s) c"

definition trim_end_matches :: "char \<Rightarrow> string \<Rightarrow> string" where
  "trim_end_matches c s = rev (dropWhile (\<lambda>x. x = c) (rev s))"

definition is_whitespace :: "char \<Rightarrow> bool" where
  "is_whitespace c = (let k = of_char c :: nat in (9 \<le> k \<and> k \<le> 13) \<or> k = 32)"

definition trim :: "string \<Rightarrow> string" where
  "trim s = rev (dropWhile is_whitespace (rev (dropWhile is_whitespace s)))"

text \<open>\<open>str::parse::<u128>()\<close>: an optional plus sign, at least one digit, no overflow.\<close>

fun parse_digits :: "nat \<Rightarrow> string \<Rightarrow> nat option" where
  "parse_digits acc [] = Some acc"
| "parse_digits acc (c # cs) =
     (case digit_val c of
        None \<Rightarrow> None
      | Some d \<Rightarrow> if acc * 10 + d \<le> u128_max then parse_digits (acc * 10 + d) cs else None)"

definition parse_u128 :: "string \<Rightarrow> nat option" where
  "parse_u128 s =
     (case s of
        [] \<Rightarrow> None
      | c # cs \<Rightarrow>
          if c = CHR ''+'' then (if cs = [] then None else parse_digits 0 cs)
          else parse_digits 0 s)"

subsection \<open>Printing and parsing amounts\<close>

definition format_amount :: "amount \<Rightarrow> nat \<Rightarrow> string" where
  "format_amount a dec =
     (let whole = as_atomic a div ATOMIC_UNITS;
          frac = as_atomic a mod ATOMIC_UNITS
      in if dec = 0 then show_nat whole
         else
           let frac_str = pad_left (CHR ''0'') 12 (show_nat frac);
               trimmed = trim_end_matches (CHR ''0'') (take (min dec 12) frac_str)
           in if trimmed = [] then show_nat whole
              else show_nat whole @ ''.'' @ trimmed)"

definition format_in :: "amount \<Rightarrow> denomination \<Rightarrow> string" where
  "format_in a denom =
     (let whole = as_atomic a div multiplier denom;
          frac = as_atomic a mod multiplier denom;
          dec = decimals denom
      in if dec = 0 \<or> frac = 0 then show_nat whole @ '' '' @ symbol denom
         else
           let frac_str = pad_left (CHR ''0'') dec (show_nat frac);
               trimmed = trim_end_matches (CHR ''0'') frac_str
           in show_nat whole @ ''.'' @ trimmed @ '' '' @ symbol denom)"

definition format_auto :: "amount \<Rightarrow> string" where
  "format_auto a =
     (if ATOMIC_UNITS \<le> as_atomic a then format_in a Cync
      else if MILLICYNC \<le> as_atomic a then format_in a MilliCync
      else if MICROCYNC \<le> as_atomic a then format_in a MicroCync
      else if NANOCYNC \<le> as_atomic a then format_in a NanoCync
      else format_in a Sync)"

definition parse_frac :: "string \<Rightarrow> string option \<Rightarrow> prim_error + nat" where
  "parse_frac s frac_opt =
     (case frac_opt of
        None \<Rightarrow> Inr 0
      | Some frac_str \<Rightarrow>
          if frac_str = [] then Inr 0
          else if \<not> list_all is_ascii_digit frac_str
            then Inl (InvalidAddress (''invalid amount: '' @ s))
          else ok_or (parse_u128 (pad_right (CHR ''0'') 12 (take 12 frac_str)))
                 (InvalidAddress (''invalid amount: '' @ s)))"

definition amount_from_str :: "string \<Rightarrow> prim_error + amount" where
  "amount_from_str input =
     (let s = trim input
      in if s = [] then Inl (InvalidAddress ''empty amount'')
         else if hd s = CHR ''-'' then Inl AmountUnderflow
         else
           let int_str = takeWhile (\<lambda>c. c \<noteq> CHR ''.'') s;
               frac_opt = (case dropWhile (\<lambda>c. c \<noteq> CHR ''.'') s of
                             [] \<Rightarrow> None | _ # f \<Rightarrow> Some f)
           in case parse_u128 int_str of
                None \<Rightarrow> Inl (InvalidAddress (''invalid amount: '' @ s))
              | Some int_part \<Rightarrow>
                  if u64_max div ATOMIC_UNITS < int_part then Inl AmountOverflow
                  else
                    and_then (parse_frac s frac_opt) (\<lambda>frac_syncs.
                      case checked_add u128_max (int_part * ATOMIC_UNITS) frac_syncs of
                        None \<Rightarrow> Inl AmountOverflow
                      | Some sum_syncs \<Rightarrow>
                          if u64_max < sum_syncs then Inl AmountOverflow else Inr (Amount sum_syncs)))"

subsection \<open>Lemmas on decimal text\<close>

lemma digit_val_digit_char [simp]: "d < 10 \<Longrightarrow> digit_val (digit_char d) = Some d"
  by (simp add: digit_val_def digit_char_def Let_def)

lemma digit_char_neq [simp]:
  assumes "d < 10"
  shows "digit_char d \<noteq> CHR ''.''" and "digit_char d \<noteq> CHR ''-''" and "digit_char d \<noteq> CHR ''+''"
    and "\<not> is_whitespace (digit_char d)"
proof -
  have "of_char (digit_char d) = 48 + d" using assms by (simp add: digit_char_def)
  with assms show "digit_char d \<noteq> CHR ''.''" "digit_char d \<noteq> CHR ''-''" "digit_char d \<noteq> CHR ''+''"
    and "\<not> is_whitespace (digit_char d)"
    by (auto simp: is_whitespace_def Let_def)
qed

lemma zero_char: "CHR ''0'' = digit_char 0"
  by code_simp

definition is_digits :: "string \<Rightarrow> bool" where
  "is_digits s = (\<forall>c \<in> set s. \<exists>d < 10. c = digit_char d)"

lemma is_digits_simps [simp]:
  "is_digits []" "is_digits (xs @ ys) \<longleftrightarrow> is_digits xs \<and> is_digits ys"
  "is_digits (c # xs) \<longleftrightarrow> (\<exists>d < 10. c = digit_char d) \<and> is_digits xs"
  "is_digits (replicate n (CHR ''0''))"
  by (auto simp: is_digits_def zero_char intro: exI [of _ 0])

lemma show_nat_digits [simp]: "is_digits (show_nat n)"
  by (induction n rule: show_nat.induct) (subst show_nat.simps, auto intro: exI [of _ "_ mod 10"])

lemma show_nat_nonempty [simp]: "show_nat n \<noteq> []"
  by (subst show_nat.simps) simp

lemma parse_digits_append:
  "parse_digits acc (xs @ ys) =
     (case parse_digits acc xs of None \<Rightarrow> None | Some a \<Rightarrow> parse_digits a ys)"
  by (induction acc xs rule: parse_digits.induct) (auto split: option.splits)

lemma parse_digits_zeros: "parse_digits 0 (replicate n (CHR ''0'')) = Some 0"
  by (induction n) (auto simp: zero_char)

lemma parse_digits_show: "n \<le> u128_max \<Longrightarrow> parse_digits 0 (show_nat n) = Some n"
proof (induction n rule: show_nat.induct)
  case (1 n)
  show ?case
  proof (cases "n < 10")
    case True
    with "1.prems" show ?thesis by (simp add: show_nat.simps [of n])
  next
    case False
    have "n div 10 \<le> u128_max" using "1.prems" by (meson div_le_dividend le_trans)
    with "1.IH" False have "parse_digits 0 (show_nat (n div 10)) = Some (n div 10)" by simp
    with False "1.prems" show ?thesis
      by (simp add: show_nat.simps [of n] parse_digits_append)
  qed
qed

lemma length_show_nat: "n < 10 ^ k \<Longrightarrow> 0 < k \<Longrightarrow> length (show_nat n) \<le> k"
proof (induction n arbitrary: k rule: show_nat.induct)
  case (1 n)
  show ?case
  proof (cases "n < 10")
    case True
    with "1.prems" show ?thesis by (simp add: show_nat.simps [of n])
  next
    case False
    with "1.prems" obtain j where j: "k = Suc j" "0 < j" by (cases k; cases "k - 1") auto
    with "1.prems" have "n div 10 < 10 ^ j" by (simp add: less_mult_imp_div_less mult.commute)
    with "1.IH" False j show ?thesis by (simp add: show_nat.simps [of n])
  qed
qed

lemma parse_u128_digits:
  assumes "is_digits s" and "s \<noteq> []"
  shows "parse_u128 s = parse_digits 0 s"
  using assms by (cases s) (auto simp: parse_u128_def)

lemma trim_digits:
  assumes "s \<noteq> []" and "\<not> is_whitespace (hd s)" and "\<not> is_whitespace (last s)"
  shows "trim s = s"
proof -
  have "dropWhile is_whitespace s = s" using assms(1,2) by (cases s) auto
  moreover have "dropWhile is_whitespace (rev s) = rev s"
    using assms(1,3) by (cases "rev s") (auto simp: last_rev)
  ultimately show ?thesis by (simp add: trim_def)
qed

lemma trim_end_pad:
  "trim_end_matches c s @ replicate (length s - length (trim_end_matches c s)) c = s"
proof (induction s rule: rev_induct)
  case (snoc x s)
  show ?case
  proof (cases "x = c")
    case True
    have "length (trim_end_matches c s) \<le> length s"
      by (simp add: trim_end_matches_def) (metis length_dropWhile_le length_rev)
    with True snoc show ?thesis
      by (simp add: trim_end_matches_def Suc_diff_le replicate_append_same [symmetric])
  next
    case False
    then show ?thesis by (simp add: trim_end_matches_def)
  qed
qed (simp add: trim_end_matches_def)

lemma is_digits_trim_end: "is_digits s \<Longrightarrow> is_digits (trim_end_matches c s)"
  by (auto simp: is_digits_def trim_end_matches_def dest: set_dropWhileD)

lemma format_frac_parses:
  assumes "frac < ATOMIC_UNITS"
  defines "frac_str \<equiv> pad_left (CHR ''0'') 12 (show_nat frac)"
  shows "length frac_str = 12" and "is_digits frac_str" and "parse_digits 0 frac_str = Some frac"
proof -
  have "length (show_nat frac) \<le> 12"
    using assms(1) length_show_nat [of frac 12] by (simp add: unit_defs)
  then show "length frac_str = 12" by (simp add: frac_str_def pad_left_def)
  show "is_digits frac_str" by (simp add: frac_str_def pad_left_def)
  have "frac \<le> u128_max" using assms(1) by (simp add: unit_defs u128_max_def)
  then show "parse_digits 0 frac_str = Some frac"
    by (simp add: frac_str_def pad_left_def parse_digits_append parse_digits_zeros parse_digits_show)
qed

lemma takeWhile_digits:
  assumes "is_digits s"
  shows "takeWhile (\<lambda>c. c \<noteq> CHR ''.'') s = s" and "dropWhile (\<lambda>c. c \<noteq> CHR ''.'') s = []"
proof -
  have "c \<noteq> CHR ''.''" if "c \<in> set s" for c
    using assms that digit_char_neq(1) unfolding is_digits_def by metis
  then show "takeWhile (\<lambda>c. c \<noteq> CHR ''.'') s = s" "dropWhile (\<lambda>c. c \<noteq> CHR ''.'') s = []"
    by (simp_all add: takeWhile_eq_all_conv dropWhile_eq_Nil_conv)
qed

lemma split_point:
  assumes "is_digits s"
  shows "takeWhile (\<lambda>c. c \<noteq> CHR ''.'') (s @ ''.'' @ f) = s"
    and "dropWhile (\<lambda>c. c \<noteq> CHR ''.'') (s @ ''.'' @ f) = ''.'' @ f"
  using assms by (induction s) auto

lemma hd_last_digits:
  assumes "is_digits s" and "s \<noteq> []"
  shows "\<not> is_whitespace (hd s)" and "hd s \<noteq> CHR ''-''" and "\<not> is_whitespace (last s)"
proof -
  obtain d where "d < 10" "hd s = digit_char d"
    using assms hd_in_set [of s] unfolding is_digits_def by blast
  then show "\<not> is_whitespace (hd s)" "hd s \<noteq> CHR ''-''" by simp_all
  obtain d' where "d' < 10" "last s = digit_char d'"
    using assms last_in_set [of s] unfolding is_digits_def by blast
  then show "\<not> is_whitespace (last s)" by simp
qed

lemma parse_frac_trimmed:
  assumes "length f = 12" and "is_digits f" and "parse_digits 0 f = Some n"
    and "trim_end_matches (CHR ''0'') f \<noteq> []"
  shows "parse_frac s (Some (trim_end_matches (CHR ''0'') f)) = Inr n"
proof -
  let ?t = "trim_end_matches (CHR ''0'') f"
  have pad: "?t @ replicate (12 - length ?t) (CHR ''0'') = f"
    using trim_end_pad [of "CHR ''0''" f] assms(1) by simp
  have len: "length ?t \<le> 12"
    using arg_cong [OF pad, of length] assms(1) by simp
  have "is_digits ?t" using assms(2) by (rule is_digits_trim_end)
  then have all: "list_all is_ascii_digit ?t" by (auto simp: is_digits_def list_all_iff)
  have "parse_u128 f = Some n" using assms(1-3) by (subst parse_u128_digits) auto
  with pad len all assms(4) show ?thesis
    by (simp add: parse_frac_def pad_right_def ok_or_def)
qed

lemma trimmed_empty_zero:
  assumes "length f = 12" and "parse_digits 0 f = Some n" and "trim_end_matches (CHR ''0'') f = []"
  shows "n = 0"
proof -
  have "f = replicate 12 (CHR ''0'')"
    using trim_end_pad [of "CHR ''0''" f] assms(1,3) by simp
  with assms(2) parse_digits_zeros [of 12] show ?thesis by simp
qed

lemma from_str_whole:
  assumes "w \<le> u64_max div ATOMIC_UNITS"
  shows "amount_from_str (show_nat w) = Inr (Amount (w * ATOMIC_UNITS))"
proof -
  have w: "w * ATOMIC_UNITS \<le> u64_max"
    using assms by (simp add: less_eq_div_iff_mult_less_eq ATOMIC_UNITS_def)
  then have big: "w * ATOMIC_UNITS \<le> u128_max" "w \<le> u128_max"
    by (auto simp: u64_max_def u128_max_def ATOMIC_UNITS_def)
  have "trim (show_nat w) = show_nat w"
    by (intro trim_digits hd_last_digits show_nat_digits show_nat_nonempty)
  moreover have "parse_u128 (show_nat w) = Some w"
    using big by (simp add: parse_u128_digits parse_digits_show)
  ultimately show ?thesis
    using assms w big
    by (simp add: amount_from_str_def Let_def takeWhile_digits hd_last_digits parse_frac_def
        checked_add_def and_then_def)
qed

lemma from_str_fraction:
  assumes "w * ATOMIC_UNITS + n \<le> u64_max" and "is_digits t" and "t \<noteq> []"
    and "\<And>s. parse_frac s (Some t) = Inr n"
  shows "amount_from_str (show_nat w @ ''.'' @ t) = Inr (Amount (w * ATOMIC_UNITS + n))"
proof -
  let ?s = "show_nat w @ ''.'' @ t"
  have "w \<le> u64_max div ATOMIC_UNITS"
    using assms(1) by (simp add: less_eq_div_iff_mult_less_eq ATOMIC_UNITS_def)
  moreover have big: "w * ATOMIC_UNITS + n \<le> u128_max" "w \<le> u128_max"
    using assms(1) by (auto simp: u64_max_def u128_max_def ATOMIC_UNITS_def)
  moreover have "trim ?s = ?s"
    using hd_last_digits [OF assms(2,3)] hd_last_digits [OF show_nat_digits show_nat_nonempty, of w]
      assms(3) by (intro trim_digits) auto
  moreover have "hd ?s \<noteq> CHR ''-''"
    using hd_last_digits [OF show_nat_digits show_nat_nonempty, of w] by simp
  moreover have "parse_u128 (show_nat w) = Some w"
    using big by (simp add: parse_u128_digits parse_digits_show)
  ultimately show ?thesis
    using assms(1,4) split_point [OF show_nat_digits [of w], of t]
    by (simp add: amount_from_str_def Let_def checked_add_def and_then_def)
qed

lemma amount_split: "as_atomic a div ATOMIC_UNITS * ATOMIC_UNITS + as_atomic a mod ATOMIC_UNITS = as_atomic a"
  by simp

text \<open>Printing an amount with at least twelve decimals loses nothing: parsing the text gives
  the amount back. \<open>Amount::format\<close> and \<open>FromStr for Amount\<close> are inverse on every \<open>u64\<close>.\<close>

theorem format_parse_roundtrip:
  assumes "wf_amount a" and "12 \<le> dec"
  shows "amount_from_str (format_amount a dec) = Inr a"
proof -
  define w where "w = as_atomic a div ATOMIC_UNITS"
  define n where "n = as_atomic a mod ATOMIC_UNITS"
  define f where "f = pad_left (CHR ''0'') 12 (show_nat n)"
  have n: "n < ATOMIC_UNITS" by (simp add: n_def ATOMIC_UNITS_def)
  note f = format_frac_parses [OF n, folded f_def]
  have a: "a = Amount (w * ATOMIC_UNITS + n)"
    by (cases a) (simp add: w_def n_def)
  have fmt: "format_amount a dec =
      (let t = trim_end_matches (CHR ''0'') f
       in if t = [] then show_nat w else show_nat w @ ''.'' @ t)"
    using assms(2) f(1) by (simp add: format_amount_def Let_def w_def n_def f_def min_def)
  have total: "w * ATOMIC_UNITS + n \<le> u64_max" using assms(1) a by (simp add: wf_amount_def)
  show ?thesis
  proof (cases "trim_end_matches (CHR ''0'') f = []")
    case True
    with f trimmed_empty_zero have "n = 0" by blast
    moreover have "w \<le> u64_max div ATOMIC_UNITS"
      using total by (simp add: less_eq_div_iff_mult_less_eq ATOMIC_UNITS_def)
    ultimately show ?thesis using True fmt from_str_whole a by simp
  next
    case False
    with f have "\<And>s. parse_frac s (Some (trim_end_matches (CHR ''0'') f)) = Inr n"
      by (simp add: parse_frac_trimmed)
    with False f total
    have "amount_from_str (show_nat w @ ''.'' @ trim_end_matches (CHR ''0'') f) = Inr a"
      unfolding a by (intro from_str_fraction is_digits_trim_end)
    with False fmt show ?thesis by simp
  qed
qed

theorem format_parse_roundtrip_witness:
  "wf_amount (Amount 1500000000001) \<and>
   amount_from_str (format_amount (Amount 1500000000001) 12) = Inr (Amount 1500000000001)"
  using format_parse_roundtrip [of "Amount 1500000000001" 12]
  by (simp add: wf_amount_def u64_max_def)

subsection \<open>Arithmetic\<close>

lemma amount_checked_add_exact:
  "amount_checked_add a b = Inr c \<longleftrightarrow> as_atomic c = as_atomic a + as_atomic b \<and> wf_amount c"
  by (cases c) (auto simp: amount_defs ok_or_def checked_add_def wf_amount_def)

lemma amount_checked_sub_exact:
  "amount_checked_sub a b = Inr c \<longleftrightarrow> as_atomic c + as_atomic b = as_atomic a"
  by (cases c) (auto simp: amount_defs ok_or_def checked_sub_def)

lemma amount_sum_saturates:
  "as_atomic (amount_sum as) = min u64_max (sum_list (map as_atomic as))"
proof -
  have "as_atomic (foldl amount_saturating_add a as) =
      (if as = [] then as_atomic a else min u64_max (as_atomic a + sum_list (map as_atomic as)))" for a
    by (induction as arbitrary: a) (auto simp: amount_defs saturating_add_def min_def)
  then show ?thesis by (simp add: amount_sum_def amount_ZERO_def)
qed

text \<open>\<open>percentage\<close> rounds to nearest: for at most 100\% it stays within half a unit of the exact
  rational value and never exceeds the amount, so the saturation cannot trigger; and the truncating
  version never pays more than the rounding one.\<close>

theorem percentage_nearest:
  assumes "wf_amount a" and "bp \<le> 10000"
  shows "2 * as_atomic (percentage a bp) * 10000 \<le> 2 * (as_atomic a * bp) + 10000
       \<and> 2 * (as_atomic a * bp) < 2 * as_atomic (percentage a bp) * 10000 + 10000
       \<and> as_atomic (percentage a bp) \<le> as_atomic a
       \<and> as_atomic (percentage_truncate a bp) = as_atomic a * bp div 10000
       \<and> as_atomic (percentage_truncate a bp) \<le> as_atomic (percentage a bp)"
proof -
  define x where "x = as_atomic a * bp"
  define q where "q = (x + 5000) div 10000"
  have x: "x \<le> as_atomic a * 10000" using assms(2) by (simp add: x_def)
  have q: "q * 10000 \<le> x + 5000" "x + 5000 < q * 10000 + 10000"
    unfolding q_def by (simp_all add: div_times_less_eq_dividend dividend_less_times_div)
  have le: "q \<le> as_atomic a" "x div 10000 \<le> q" using x q by linarith+
  moreover have "as_atomic a \<le> u64_max" using assms(1) by (simp add: wf_amount_def)
  ultimately have "as_atomic (percentage a bp) = q" "as_atomic (percentage_truncate a bp) = x div 10000"
    by (simp_all add: percentage_def percentage_truncate_def x_def q_def)
  with q le show ?thesis unfolding x_def [symmetric] by simp
qed

theorem percentage_nearest_witness:
  "wf_amount (Amount 10001) \<and> as_atomic (percentage (Amount 10001) 5000) = 5001
   \<and> as_atomic (percentage_truncate (Amount 10001) 5000) \<le> as_atomic (percentage (Amount 10001) 5000)"
  using percentage_nearest [of "Amount 10001" 5000]
  by (simp add: wf_amount_def u64_max_def percentage_def)

end
