(* ===== verification/Merkle.thy ===== *)
theory Merkle
  imports Primitives
begin

section \<open>Merkle roots (primitives/hash.rs)\<close>

text \<open>
  \<open>hash_data\<close>, \<open>hash_concat\<close>, \<open>hash_domain\<close> and \<open>merkle_root\<close> of \<open>hash.rs\<close>. BLAKE3 is not part of
  the repository: it is the parameter \<open>blake3\<close>, a function from byte strings to 32-byte hashes.
  The theory shows that the root commits to the leaves among lists of the same length, as long as
  \<open>blake3\<close> has no collision among the strings the computation hashes, and that it does not
  commit to the length: an odd list and the list with its last leaf repeated have the same root.
\<close>

definition hash_data :: "(bytes \<Rightarrow> hash) \<Rightarrow> bytes \<Rightarrow> hash" where
  "hash_data blake3 bs = blake3 bs"

definition hash_concat :: "(bytes \<Rightarrow> hash) \<Rightarrow> bytes list \<Rightarrow> hash" where
  "hash_concat blake3 parts = blake3 (concat parts)"

definition hash_domain :: "(bytes \<Rightarrow> hash) \<Rightarrow> bytes \<Rightarrow> bytes \<Rightarrow> hash" where
  "hash_domain blake3 domain bs = blake3 (domain @ [0] @ bs)"

definition merkle_leaf :: "(bytes \<Rightarrow> hash) \<Rightarrow> hash \<Rightarrow> hash" where
  "merkle_leaf blake3 h = hash_concat blake3 [[0x00], hash_bytes h]"

definition merkle_node :: "(bytes \<Rightarrow> hash) \<Rightarrow> hash \<Rightarrow> hash \<Rightarrow> hash" where
  "merkle_node blake3 a b = hash_concat blake3 [[0x01], hash_bytes a, hash_bytes b]"

text \<open>One pass over \<open>level.chunks(2)\<close>: a short last chunk pairs its hash with itself.\<close>

fun merkle_level :: "(bytes \<Rightarrow> hash) \<Rightarrow> hash list \<Rightarrow> hash list" where
  "merkle_level blake3 (a # b # rest) = merkle_node blake3 a b # merkle_level blake3 rest"
| "merkle_level blake3 [a] = [merkle_node blake3 a a]"
| "merkle_level blake3 [] = []"

lemma length_merkle_level [simp]: "length (merkle_level blake3 hs) = (length hs + 1) div 2"
  by (induction blake3 hs rule: merkle_level.induct) auto

function merkle_loop :: "(bytes \<Rightarrow> hash) \<Rightarrow> hash list \<Rightarrow> hash list" where
  "merkle_loop blake3 level =
     (if 1 < length level then merkle_loop blake3 (merkle_level blake3 level) else level)"
  by pat_completeness auto
termination by (relation "measure (length \<circ> snd)") auto

declare merkle_loop.simps [simp del]

definition merkle_root :: "(bytes \<Rightarrow> hash) \<Rightarrow> hash list \<Rightarrow> hash" where
  "merkle_root blake3 hashes =
     (case hashes of
        [] \<Rightarrow> hash_zero
      | [h] \<Rightarrow> merkle_leaf blake3 h
      | _ \<Rightarrow> (case merkle_loop blake3 (map (merkle_leaf blake3) hashes) of
                [] \<Rightarrow> hash_zero | r # _ \<Rightarrow> r))"

subsection \<open>The strings a computation hashes\<close>

fun level_inputs :: "hash list \<Rightarrow> bytes set" where
  "level_inputs (a # b # rest) = insert (0x01 # hash_bytes a @ hash_bytes b) (level_inputs rest)"
| "level_inputs [a] = {0x01 # hash_bytes a @ hash_bytes a}"
| "level_inputs [] = {}"

function loop_inputs :: "(bytes \<Rightarrow> hash) \<Rightarrow> hash list \<Rightarrow> bytes set" where
  "loop_inputs blake3 level =
     (if 1 < length level
      then level_inputs level \<union> loop_inputs blake3 (merkle_level blake3 level) else {})"
  by pat_completeness auto
termination by (relation "measure (length \<circ> snd)") auto

declare loop_inputs.simps [simp del]

definition merkle_inputs :: "(bytes \<Rightarrow> hash) \<Rightarrow> hash list \<Rightarrow> bytes set" where
  "merkle_inputs blake3 hashes =
     (\<lambda>h. 0x00 # hash_bytes h) ` set hashes \<union> loop_inputs blake3 (map (merkle_leaf blake3) hashes)"

lemma loop_inputs_single [simp]: "loop_inputs blake3 [h] = {}"
  by (subst loop_inputs.simps) simp

lemma merkle_level_inj:
  assumes "length xs = length ys" and "merkle_level blake3 xs = merkle_level blake3 ys"
    and "inj_on blake3 (level_inputs xs \<union> level_inputs ys)"
    and "list_all wf_hash xs" and "list_all wf_hash ys"
  shows "xs = ys"
  using assms
proof (induction blake3 xs arbitrary: ys rule: merkle_level.induct)
  case (1 blake3 a b rest)
  then obtain c d rest' where ys: "ys = c # d # rest'"
    by (metis Suc_length_conv length_Cons)
  have "blake3 (1 # hash_bytes a @ hash_bytes b) = blake3 (1 # hash_bytes c @ hash_bytes d)"
    using "1.prems"(2) ys by (simp add: merkle_node_def hash_concat_def)
  from inj_onD [OF "1.prems"(3) this] ys
  have "hash_bytes a @ hash_bytes b = hash_bytes c @ hash_bytes d" by simp
  with "1.prems"(4,5) ys have "hash_bytes a = hash_bytes c" "hash_bytes b = hash_bytes d"
    by (simp_all add: wf_hash_def)
  then have "a = c" "b = d" by (simp_all only: hash.expand)
  moreover have "inj_on blake3 (level_inputs rest \<union> level_inputs rest')"
    using "1.prems"(3) by (rule inj_on_subset) (auto simp: ys)
  then have "rest = rest'" using "1.prems" ys by (intro "1.IH") simp_all
  ultimately show ?case using ys by simp
next
  case (2 blake3 a)
  then obtain c where ys: "ys = [c]" by (metis Suc_length_conv length_0_conv list.size(3))
  have "blake3 (1 # hash_bytes a @ hash_bytes a) = blake3 (1 # hash_bytes c @ hash_bytes c)"
    using "2.prems"(2) ys by (simp add: merkle_node_def hash_concat_def)
  from inj_onD [OF "2.prems"(3) this] ys
  have "hash_bytes a @ hash_bytes a = hash_bytes c @ hash_bytes c" by simp
  with "2.prems"(4,5) ys have "hash_bytes a = hash_bytes c" by (simp add: wf_hash_def)
  then have "a = c" by (simp only: hash.expand)
  with ys show ?case by simp
qed simp

lemma wf_merkle_level:
  "(\<And>x. wf_hash (blake3 x)) \<Longrightarrow> list_all wf_hash (merkle_level blake3 xs)"
  by (induction blake3 xs rule: merkle_level.induct) (auto simp: merkle_node_def hash_concat_def)

lemma merkle_loop_inj:
  assumes "length xs = length ys" and "merkle_loop blake3 xs = merkle_loop blake3 ys"
    and "inj_on blake3 (loop_inputs blake3 xs \<union> loop_inputs blake3 ys)"
    and "\<And>x. wf_hash (blake3 x)" and "list_all wf_hash xs" and "list_all wf_hash ys"
  shows "xs = ys"
  using assms
proof (induction blake3 xs arbitrary: ys rule: merkle_loop.induct)
  case (1 blake3 xs)
  show ?case
  proof (cases "1 < length xs")
    case True
    with "1.prems"(1) have ys: "1 < length ys" by simp
    let ?xs = "merkle_level blake3 xs" and ?ys = "merkle_level blake3 ys"
    have inputs: "loop_inputs blake3 xs = level_inputs xs \<union> loop_inputs blake3 ?xs"
      "loop_inputs blake3 ys = level_inputs ys \<union> loop_inputs blake3 ?ys"
      using True ys by (subst loop_inputs.simps, simp)+
    have loops: "merkle_loop blake3 ?xs = merkle_loop blake3 ?ys"
      using "1.prems"(2) True ys
      by (simp add: merkle_loop.simps [of blake3 xs] merkle_loop.simps [of blake3 ys])
    have inj: "inj_on blake3 (loop_inputs blake3 ?xs \<union> loop_inputs blake3 ?ys)"
      by (rule inj_on_subset [OF "1.prems"(3)]) (auto simp: inputs)
    have inj': "inj_on blake3 (level_inputs xs \<union> level_inputs ys)"
      by (rule inj_on_subset [OF "1.prems"(3)]) (auto simp: inputs)
    have "?xs = ?ys"
    proof (rule "1.IH" [OF True _ loops inj "1.prems"(4)])
      show "length ?xs = length ?ys" using "1.prems"(1) by simp
    qed (rule wf_merkle_level [OF "1.prems"(4)])+
    from merkle_level_inj [OF "1.prems"(1) this inj' "1.prems"(5,6)] show ?thesis .
  next
    case False
    with "1.prems" show ?thesis
      by (simp add: merkle_loop.simps [of blake3 xs] merkle_loop.simps [of blake3 ys])
  qed
qed

lemma merkle_level_repeat_last:
  "odd (length hs) \<Longrightarrow> merkle_level blake3 (hs @ [last hs]) = merkle_level blake3 hs"
  by (induction blake3 hs rule: merkle_level.induct) auto

lemma merkle_root_long:
  "1 < length hs \<Longrightarrow> merkle_root blake3 hs =
     (case merkle_loop blake3 (map (merkle_leaf blake3) hs) of [] \<Rightarrow> hash_zero | r # _ \<Rightarrow> r)"
  by (auto simp: merkle_root_def split: list.splits)

lemma merkle_level_nonempty: "level \<noteq> [] \<Longrightarrow> merkle_level blake3 level \<noteq> []"
  by (induction blake3 level rule: merkle_level.induct) auto

lemma length_merkle_loop: "hs \<noteq> [] \<Longrightarrow> length (merkle_loop blake3 hs) = 1"
proof (induction blake3 hs rule: merkle_loop.induct)
  case (1 blake3 level)
  show ?case
  proof (cases "1 < length level")
    case True
    with 1 show ?thesis by (simp add: merkle_loop.simps [of blake3 level] merkle_level_nonempty)
  next
    case False
    with "1.prems" show ?thesis
      by (subst merkle_loop.simps) (cases level; simp)
  qed
qed

lemma wf_map_leaf: "(\<And>x. wf_hash (blake3 x)) \<Longrightarrow> list_all wf_hash (map (merkle_leaf blake3) xs)"
  by (auto simp: merkle_leaf_def hash_concat_def list_all_iff)

lemma merkle_leaf_inj:
  assumes "length xs = length ys" and "map (merkle_leaf blake3) xs = map (merkle_leaf blake3) ys"
    and "inj_on blake3 ((\<lambda>h. 0 # hash_bytes h) ` set xs \<union> (\<lambda>h. 0 # hash_bytes h) ` set ys)"
  shows "xs = ys"
  using assms
proof (induction xs ys rule: list_induct2)
  case (Cons x xs y ys)
  have "blake3 (0 # hash_bytes x) = blake3 (0 # hash_bytes y)"
    using Cons.prems(1) by (simp add: merkle_leaf_def hash_concat_def)
  from inj_onD [OF Cons.prems(2) this] have "x = y" by (simp add: hash.expand)
  moreover have "inj_on blake3 ((\<lambda>h. 0 # hash_bytes h) ` set xs \<union> (\<lambda>h. 0 # hash_bytes h) ` set ys)"
    by (rule inj_on_subset [OF Cons.prems(2)]) auto
  with Cons.prems(1) have "xs = ys" by (intro Cons.IH) simp_all
  ultimately show ?case by simp
qed simp

text \<open>C32: the Merkle root commits to the leaves. Two lists of the same length with the same root are
  equal, provided BLAKE3 outputs 32 bytes and has no collision among the strings the two
  computations hash.\<close>

theorem merkle_root_binding:
  assumes "\<And>x. wf_hash (blake3 x)"
    and "inj_on blake3 (merkle_inputs blake3 xs \<union> merkle_inputs blake3 ys)"
    and "length xs = length ys"
  shows "merkle_root blake3 xs = merkle_root blake3 ys \<longleftrightarrow> xs = ys"
proof
  let ?l = "\<lambda>zs. map (merkle_leaf blake3) zs"
  assume eq: "merkle_root blake3 xs = merkle_root blake3 ys"
  have inj: "inj_on blake3 ((\<lambda>h. 0 # hash_bytes h) ` set xs \<union> (\<lambda>h. 0 # hash_bytes h) ` set ys)"
    by (rule inj_on_subset [OF assms(2)]) (auto simp: merkle_inputs_def)
  have inj': "inj_on blake3 (loop_inputs blake3 (?l xs) \<union> loop_inputs blake3 (?l ys))"
    by (rule inj_on_subset [OF assms(2)]) (auto simp: merkle_inputs_def)
  have "?l xs = ?l ys"
  proof (cases "1 < length xs")
    case True
    with assms(3) have "xs \<noteq> []" "ys \<noteq> []" "1 < length ys" by auto
    obtain r where r: "merkle_loop blake3 (?l xs) = [r]"
      using length_merkle_loop [of "?l xs" blake3] \<open>xs \<noteq> []\<close> by (auto simp: length_Suc_conv)
    obtain s where s: "merkle_loop blake3 (?l ys) = [s]"
      using length_merkle_loop [of "?l ys" blake3] \<open>ys \<noteq> []\<close> by (auto simp: length_Suc_conv)
    have "r = s"
      using eq merkle_root_long [OF True, of blake3] merkle_root_long [OF \<open>1 < length ys\<close>, of blake3] r s
      by simp
    with r s have "merkle_loop blake3 (?l xs) = merkle_loop blake3 (?l ys)" by simp
    from merkle_loop_inj [OF _ this inj' assms(1) wf_map_leaf [OF assms(1)] wf_map_leaf [OF assms(1)]]
    show ?thesis using assms(3) by simp
  next
    case False
    then consider "xs = []" "ys = []" | x y where "xs = [x]" "ys = [y]"
      using assms(3) by (cases xs; cases ys) auto
    then show ?thesis using eq by cases (simp_all add: merkle_root_def)
  qed
  from merkle_leaf_inj [OF assms(3) this inj] show "xs = ys" .
qed simp

theorem merkle_root_binding_witness:
  "merkle_root (\<lambda>x. Hash (take 32 (drop 1 x @ replicate 32 0))) [hash_zero]
   \<noteq> merkle_root (\<lambda>x. Hash (take 32 (drop 1 x @ replicate 32 0))) [Hash (replicate 32 1)]"
proof -
  define H :: "bytes \<Rightarrow> hash" where "H = (\<lambda>x. Hash (take 32 (drop 1 x @ replicate 32 0)))"
  have "merkle_inputs H [hash_zero] \<union> merkle_inputs H [Hash (replicate 32 1)]
      = {0 # replicate 32 0, 0 # replicate 32 1}"
    by (auto simp: merkle_inputs_def hash_zero_def)
  moreover have ne: "H (0 # replicate 32 0) \<noteq> H (0 # replicate 32 1)"
    unfolding H_def by code_simp
  ultimately have "inj_on H (merkle_inputs H [hash_zero] \<union> merkle_inputs H [Hash (replicate 32 1)])"
    by simp
  moreover have "wf_hash (H x)" for x by (simp add: H_def wf_hash_def)
  moreover have "[hash_zero] \<noteq> [Hash (replicate 32 1)]" by code_simp
  ultimately show ?thesis
    using merkle_root_binding [of H "[hash_zero]" "[Hash (replicate 32 1)]"] unfolding H_def by simp
qed

text \<open>The Merkle root does not commit to the number of leaves. For every hash function, a list of
  odd length greater than one and the list with its last leaf repeated have the same root, so the
  leaf and node prefixes do not remove the ambiguity of CVE-2012-2459.\<close>

theorem merkle_root_repeat_last:
  assumes "odd (length hs)" and "1 < length hs"
  shows "merkle_root blake3 (hs @ [last hs]) = merkle_root blake3 hs"
proof -
  let ?l = "map (merkle_leaf blake3) hs"
  have "hs \<noteq> []" using assms(2) by auto
  then have "map (merkle_leaf blake3) (hs @ [last hs]) = ?l @ [last ?l]" by (simp add: last_map)
  moreover have "merkle_loop blake3 (?l @ [last ?l]) = merkle_loop blake3 ?l"
    using assms \<open>hs \<noteq> []\<close> merkle_level_repeat_last [of ?l blake3]
    by (simp add: merkle_loop.simps [of blake3 ?l] merkle_loop.simps [of blake3 "?l @ [last ?l]"])
  ultimately show ?thesis
    using assms \<open>hs \<noteq> []\<close> merkle_root_long [of hs blake3] merkle_root_long [of "hs @ [last hs]" blake3] by simp
qed

theorem merkle_root_repeat_last_witness:
  "odd (length [Hash [1], Hash [2], Hash [3]]) \<and>
   merkle_root Hash [Hash [1], Hash [2], Hash [3], Hash [3]] = merkle_root Hash [Hash [1], Hash [2], Hash [3]]"
  using merkle_root_repeat_last [of "[Hash [1], Hash [2], Hash [3]]" Hash] by simp

end
