(* ===== verification/Emission.thy ===== *)
theory Emission
  imports Amounts Merkle
begin

section \<open>Emission (emission/curve.rs, emission/supply.rs)\<close>

text \<open>
  The block subsidy \<open>max(TAIL_EMISSION, (cap - supply) / EMISSION_DIVISOR)\<close>, the numerical
  integration that estimates the supply at a height, the phases and the supply snapshot. The
  interface \<open>emission_schedule\<close> collects what a subsidy rule has to satisfy for the issuance to be
  positive, slowing down and unbounded; the subsidy of \<open>curve.rs\<close> interprets it. With it the
  estimate of \<open>estimate_supply_at_height\<close> is compared with the exact iteration block by block.
\<close>

subsection \<open>Constants (constants.rs)\<close>

definition COIN :: nat where "COIN = 1000000000000"
definition TOTAL_SUPPLY_TARGET :: nat where "TOTAL_SUPPLY_TARGET = 100000000"
definition EMISSION_DIVISOR :: nat where "EMISSION_DIVISOR = 2000000"
definition TAIL_EMISSION :: nat where "TAIL_EMISSION = 600000000000"

definition cap_atomic :: nat where "cap_atomic = TOTAL_SUPPLY_TARGET * COIN"

lemmas emission_consts = COIN_def TOTAL_SUPPLY_TARGET_def EMISSION_DIVISOR_def TAIL_EMISSION_def
  cap_atomic_def

subsection \<open>The subsidy\<close>

definition base_reward_from_supply :: "nat \<Rightarrow> amount" where
  "base_reward_from_supply cumulative_supply_atomic =
     (let remaining = cap_atomic - cumulative_supply_atomic;
          reward = remaining div EMISSION_DIVISOR;
          reward = max reward TAIL_EMISSION
      in from_atomic (as_u64 reward))"

subsection \<open>Estimating the supply at a height\<close>

definition estimate_step :: "nat \<Rightarrow> nat" where
  "estimate_step height =
     (if 1000000 < height then 10000
      else if 100000 < height then 1000
      else if 10000 < height then 100
      else 10)"

lemma estimate_step_pos [simp]: "0 < estimate_step height"
  by (simp add: estimate_step_def)

text \<open>The \<open>while h < height\<close> loop with its tail fast path; \<open>supply += reward * blocks_in_step\<close> is
  \<open>u128\<close> arithmetic.\<close>

function estimate_loop :: "nat \<Rightarrow> nat \<Rightarrow> nat \<Rightarrow> nat" where
  "estimate_loop height h supply =
     (if h < height then
        let remaining = cap_atomic - supply;
            asymptotic_reward = remaining div EMISSION_DIVISOR;
            reward = max asymptotic_reward TAIL_EMISSION
        in if asymptotic_reward < TAIL_EMISSION
           then saturating_add u128_max supply (saturating_mul u128_max TAIL_EMISSION (height - h))
           else
             let blocks_in_step = min (height - h) (estimate_step height)
             in estimate_loop height (h + blocks_in_step)
                  (wrapping_add u128_max supply (wrapping_mul u128_max reward blocks_in_step))
      else supply)"
  by pat_completeness auto
termination by (relation "measure (\<lambda>(height, h, _). height - h)") (auto simp: min_def intro!: diff_less_mono2)

declare estimate_loop.simps [simp del]

definition estimate_supply_at_height :: "nat \<Rightarrow> nat" where
  "estimate_supply_at_height height =
     (if height = 0 then 0 else min (estimate_loop height 0 0) cap_atomic)"

definition base_reward :: "nat \<Rightarrow> amount" where
  "base_reward height = base_reward_from_supply (estimate_supply_at_height height)"

definition block_reward :: "nat \<Rightarrow> nat" where
  "block_reward height = as_atomic (base_reward height)"

definition calculate_block_reward :: "nat \<Rightarrow> amount" where
  "calculate_block_reward height = base_reward height"

definition estimate_reward_at_height :: "nat \<Rightarrow> nat" where
  "estimate_reward_at_height height =
     (let supply = estimate_supply_at_height height;
          remaining = cap_atomic - supply;
          reward = remaining div EMISSION_DIVISOR
      in as_u64 (max reward TAIL_EMISSION))"

subsection \<open>Phases\<close>

datatype emission_phase = Distribution | Mature | Tail

fun phase_name :: "emission_phase \<Rightarrow> string" where
  "phase_name Distribution = ''Distribution''"
| "phase_name Mature = ''Mature''"
| "phase_name Tail = ''Tail''"

definition emission_phase_at :: "nat \<Rightarrow> emission_phase" where
  "emission_phase_at height =
     (let estimated_reward = estimate_reward_at_height height
      in if estimated_reward \<le> TAIL_EMISSION then Tail
         else if estimated_reward \<le> 10 * COIN then Mature
         else Distribution)"

subsection \<open>Supply snapshots\<close>

record supply_stats =
  total_emitted :: amount
  total_burned :: amount
  circulating :: amount
  emission_remaining :: amount
  in_tail :: bool

definition supply_stats_new :: "amount \<Rightarrow> amount \<Rightarrow> amount \<Rightarrow> bool \<Rightarrow> supply_stats" where
  "supply_stats_new emitted burned remaining tail =
     \<lparr> total_emitted = emitted, total_burned = burned,
       circulating = amount_saturating_sub emitted burned,
       emission_remaining = remaining, in_tail = tail \<rparr>"

definition ascii_bytes :: "string \<Rightarrow> bytes" where
  "ascii_bytes s = map (\<lambda>c. word_of_nat (of_char c)) s"

definition calculate_supply_commitment :: "(bytes \<Rightarrow> hash) \<Rightarrow> supply_stats \<Rightarrow> bytes" where
  "calculate_supply_commitment blake3 stats =
     (let payload = concat
            [le_bytes 8 (as_atomic (total_emitted stats)),
             le_bytes 8 (as_atomic (total_burned stats)),
             le_bytes 8 (as_atomic (circulating stats)),
             le_bytes 8 (as_atomic (emission_remaining stats))]
      in hash_bytes (hash_concat blake3 [payload, ascii_bytes ''COINCYNC_SUPPLY_COMMITMENT'']))"

subsection \<open>Issuance block by block\<close>

text \<open>\<open>issued r s n\<close> is the supply after \<open>n\<close> blocks that each pay \<open>r\<close> of the supply before them.\<close>

primrec issued :: "(nat \<Rightarrow> nat) \<Rightarrow> nat \<Rightarrow> nat \<Rightarrow> nat" where
  "issued r s 0 = s"
| "issued r s (Suc n) = issued r s n + r (issued r s n)"

lemma issued_add: "issued r s (m + n) = issued r (issued r s m) n"
  by (induction n) auto

locale emission_schedule =
  fixes reward :: "nat \<Rightarrow> nat" and tail :: nat
  assumes tail_pos: "0 < tail"
    and reward_ge_tail: "tail \<le> reward s"
    and reward_antitone: "s \<le> s' \<Longrightarrow> reward s' \<le> reward s"
    and reward_slow: "s \<le> s' \<Longrightarrow> s + reward s \<le> s' + reward s'"
begin

lemma issued_lower: "s + n * tail \<le> issued reward s n"
proof (induction n)
  case (Suc n)
  with reward_ge_tail [of "issued reward s n"] show ?case by simp
qed simp

lemma issued_ge: "s \<le> issued reward s n"
  using issued_lower [of s n] by (meson le_add1 le_trans)

lemma issued_upper: "issued reward s n \<le> s + n * reward s"
proof (induction n)
  case (Suc n)
  with reward_antitone [OF issued_ge [of s n]] show ?case by simp
qed simp

lemma issued_mono: "s \<le> s' \<Longrightarrow> issued reward s n \<le> issued reward s' n"
  by (induction n) (auto intro: reward_slow)

lemma issued_unbounded: "\<exists>n. N < issued reward s n"
proof -
  have "N < s + Suc N * tail" using tail_pos by (cases tail) auto
  with issued_lower [of s "Suc N"] show ?thesis by (meson less_le_trans)
qed

lemma rewards_decline: "m \<le> n \<Longrightarrow> reward (issued reward s n) \<le> reward (issued reward s m)"
  using issued_ge [of "issued reward s m" "n - m"]
  by (intro reward_antitone) (simp add: issued_add [symmetric])

end

definition reward_atomic :: "nat \<Rightarrow> nat" where
  "reward_atomic s = as_atomic (base_reward_from_supply s)"

lemma reward_atomic_eq: "reward_atomic s = max ((cap_atomic - s) div EMISSION_DIVISOR) TAIL_EMISSION"
proof -
  have "(cap_atomic - s) div EMISSION_DIVISOR \<le> cap_atomic div EMISSION_DIVISOR"
    by (intro div_le_mono) simp
  also have "\<dots> \<le> u64_max" by (simp add: emission_consts u64_max_def)
  finally have "max ((cap_atomic - s) div EMISSION_DIVISOR) TAIL_EMISSION \<le> u64_max"
    by (simp add: TAIL_EMISSION_def u64_max_def)
  then show ?thesis
    by (simp add: reward_atomic_def base_reward_from_supply_def from_atomic_def)
qed

lemma div_add_le:
  fixes a b d :: nat
  assumes "0 < d"
  shows "(a + b) div d \<le> a div d + b div d + 1"
proof -
  have "a mod d + b mod d < 2 * d"
    using mod_less_divisor [OF assms, of a] mod_less_divisor [OF assms, of b] by linarith
  then have "(a mod d + b mod d) div d < 2" by (rule less_mult_imp_div_less)
  then show ?thesis by (simp add: div_add1_eq [of a b])
qed

lemma div_diff_bound:
  fixes c s s' d :: nat
  assumes "s \<le> s'" and "2 \<le> d"
  shows "s + (c - s) div d \<le> s' + (c - s') div d"
proof (cases "s = s'")
  case False
  then have "s < s'" using assms(1) by simp
  have "(c - s) div d \<le> ((c - s') + (s' - s)) div d" by (intro div_le_mono) simp
  also have "\<dots> \<le> (c - s') div d + (s' - s) div d + 1"
    using assms(2) by (intro div_add_le) simp
  finally have split: "(c - s) div d \<le> (c - s') div d + (s' - s) div d + 1" .
  have "(s' - s) div d + 1 \<le> s' - s"
  proof (cases "s' - s = 1")
    case True
    then show ?thesis using assms(2) by simp
  next
    case False
    have "(s' - s) div d \<le> (s' - s) div 2" using assms(2) by (simp add: div_le_mono2)
    with \<open>s < s'\<close> False show ?thesis by linarith
  qed
  with split show ?thesis using \<open>s < s'\<close> by simp
qed simp

interpretation subsidy: emission_schedule reward_atomic TAIL_EMISSION
proof
  fix s s' :: nat
  show "0 < TAIL_EMISSION" by (simp add: TAIL_EMISSION_def)
  show "TAIL_EMISSION \<le> reward_atomic s" by (simp add: reward_atomic_eq)
  assume le: "s \<le> s'"
  have "(cap_atomic - s') div EMISSION_DIVISOR \<le> (cap_atomic - s) div EMISSION_DIVISOR"
    using le by (intro div_le_mono diff_le_mono2)
  then show "reward_atomic s' \<le> reward_atomic s" unfolding reward_atomic_eq by (rule max.mono) simp
  have "s + (cap_atomic - s) div EMISSION_DIVISOR \<le> s' + (cap_atomic - s') div EMISSION_DIVISOR"
    using le by (rule div_diff_bound) (simp add: EMISSION_DIVISOR_def)
  with le show "s + reward_atomic s \<le> s' + reward_atomic s'"
    unfolding reward_atomic_eq by (auto simp: max_def)
qed

lemma reward_atomic_le: "reward_atomic s \<le> 50 * COIN"
proof -
  have "(cap_atomic - s) div EMISSION_DIVISOR \<le> cap_atomic div EMISSION_DIVISOR"
    by (intro div_le_mono) simp
  then show ?thesis by (simp add: reward_atomic_eq emission_consts)
qed

text \<open>The subsidy of every block lies between the tail emission and 50 CYNC, so the narrowing cast
  to \<open>u64\<close> in \<open>base_reward_from_supply\<close> never truncates; it never grows as supply is issued, and it is
  the tail emission exactly when the remaining supply is below \<open>TAIL_EMISSION + 1\<close> divisors.\<close>

theorem base_reward_bounds:
  "TAIL_EMISSION \<le> as_atomic (base_reward_from_supply s)
   \<and> as_atomic (base_reward_from_supply s) \<le> 50 * COIN
   \<and> (s \<le> s' \<longrightarrow> as_atomic (base_reward_from_supply s') \<le> as_atomic (base_reward_from_supply s))
   \<and> (as_atomic (base_reward_from_supply s) = TAIL_EMISSION
        \<longleftrightarrow> cap_atomic < s + (TAIL_EMISSION + 1) * EMISSION_DIVISOR)"
proof -
  have "reward_atomic s = TAIL_EMISSION \<longleftrightarrow> (cap_atomic - s) div EMISSION_DIVISOR < TAIL_EMISSION + 1"
    by (auto simp: reward_atomic_eq max_def)
  also have "\<dots> \<longleftrightarrow> cap_atomic - s < (TAIL_EMISSION + 1) * EMISSION_DIVISOR"
    by (rule div_less_iff_less_mult) (simp add: EMISSION_DIVISOR_def)
  also have "\<dots> \<longleftrightarrow> cap_atomic < s + (TAIL_EMISSION + 1) * EMISSION_DIVISOR"
    by (auto simp: emission_consts)
  finally show ?thesis
    using subsidy.reward_ge_tail [of s] subsidy.reward_antitone [of s s'] reward_atomic_le [of s]
    unfolding reward_atomic_def by blast
qed

theorem base_reward_bounds_witness:
  "as_atomic (base_reward_from_supply (50000000 * COIN)) \<le> as_atomic (base_reward_from_supply 0)"
  using base_reward_bounds [of 0 "50000000 * COIN"] by simp

text \<open>Issuance never stops. Paying the subsidy block after block, the supply passes every bound,
  so the 100M target of \<open>constants.rs\<close> is not a cap; after \<open>n\<close> blocks it is at least
  \<open>n\<close> tail emissions and at most \<open>n\<close> times 50 CYNC, and block rewards never increase.\<close>

theorem issuance_unbounded:
  "(\<exists>n. cap_atomic < issued (\<lambda>s. as_atomic (base_reward_from_supply s)) 0 n)
   \<and> n * TAIL_EMISSION \<le> issued (\<lambda>s. as_atomic (base_reward_from_supply s)) 0 n
   \<and> issued (\<lambda>s. as_atomic (base_reward_from_supply s)) 0 n \<le> n * (50 * COIN)
   \<and> as_atomic (base_reward_from_supply (issued (\<lambda>s. as_atomic (base_reward_from_supply s)) 0 (Suc n)))
       \<le> as_atomic (base_reward_from_supply (issued (\<lambda>s. as_atomic (base_reward_from_supply s)) 0 n))"
proof -
  have r: "(\<lambda>s. as_atomic (base_reward_from_supply s)) = reward_atomic"
    by (simp add: reward_atomic_def fun_eq_iff)
  have "issued reward_atomic 0 n \<le> n * (50 * COIN)"
    using subsidy.issued_upper [of 0 n] reward_atomic_le [of 0]
    by (metis add_0 le_trans mult_le_mono2)
  then show ?thesis
    using subsidy.issued_unbounded [of cap_atomic 0] subsidy.issued_lower [of 0 n]
      subsidy.rewards_decline [of n "Suc n" 0]
    unfolding r reward_atomic_def [symmetric] by simp
qed

subsection \<open>The estimate\<close>

lemma step_keeps_cap:
  assumes "supply \<le> cap_atomic" and "k \<le> EMISSION_DIVISOR"
  shows "supply + (cap_atomic - supply) div EMISSION_DIVISOR * k \<le> cap_atomic"
proof -
  have "(cap_atomic - supply) div EMISSION_DIVISOR * k
      \<le> (cap_atomic - supply) div EMISSION_DIVISOR * EMISSION_DIVISOR"
    using assms(2) by (rule mult_le_mono2)
  also have "\<dots> \<le> cap_atomic - supply" by (rule div_times_less_eq_dividend)
  finally show ?thesis using assms(1) by linarith
qed

lemma estimate_step_le: "estimate_step height \<le> EMISSION_DIVISOR"
  by (simp add: estimate_step_def EMISSION_DIVISOR_def)

lemma cap_le_u128: "cap_atomic \<le> u128_max"
  by (simp add: emission_consts u128_max_def)

lemma no_wrap:
  assumes "s + r * k \<le> u128_max"
  shows "wrapping_add u128_max s (wrapping_mul u128_max r k) = s + r * k"
  using assms by (simp add: wrapping_mul_id wrapping_add_id)

text \<open>The loop dominates the exact iteration from any supply it starts at, up to the cap.\<close>

lemma estimate_loop_dominates:
  "s \<le> cap_atomic \<Longrightarrow>
     min cap_atomic (issued reward_atomic s (height - h)) \<le> estimate_loop height h s"
proof (induction height h s rule: estimate_loop.induct)
  case (1 height h s)
  define a where "a = (cap_atomic - s) div EMISSION_DIVISOR"
  define k where "k = min (height - h) (estimate_step height)"
  consider (stop) "\<not> h < height" | (tail) "h < height" "a < TAIL_EMISSION"
    | (step) "h < height" "\<not> a < TAIL_EMISSION" by blast
  then show ?case
  proof cases
    case stop
    then show ?thesis by (simp add: estimate_loop.simps [of height h s])
  next
    case tail
    then have "reward_atomic s = TAIL_EMISSION" by (simp add: reward_atomic_eq a_def)
    then have up: "issued reward_atomic s (height - h) \<le> s + (height - h) * TAIL_EMISSION"
      using subsidy.issued_upper [of s "height - h"] by simp
    have "estimate_loop height h s =
        min u128_max (s + min u128_max (TAIL_EMISSION * (height - h)))"
      using tail by (subst estimate_loop.simps)
        (simp add: a_def saturating_add_def saturating_mul_def Let_def)
    moreover have "min cap_atomic (issued reward_atomic s (height - h))
        \<le> min u128_max (s + min u128_max (TAIL_EMISSION * (height - h)))"
      using up cap_le_u128 by (cases "TAIL_EMISSION * (height - h) \<le> u128_max")
        (simp_all add: mult.commute min_le_iff_disj)
    ultimately show ?thesis by simp
  next
    case step
    then have r: "max a TAIL_EMISSION = a" "reward_atomic s = a"
      by (simp_all add: reward_atomic_eq a_def)
    have k: "k \<le> EMISSION_DIVISOR" "k \<le> height - h"
      using estimate_step_le [of height] by (simp_all add: k_def)
    from step_keeps_cap [OF "1.prems" k(1)] have cap: "s + a * k \<le> cap_atomic"
      by (simp add: a_def)
    then have eq: "estimate_loop height h s = estimate_loop height (h + k) (s + a * k)"
      using step r cap_le_u128 no_wrap [of s a k]
      by (subst estimate_loop.simps) (simp add: a_def [symmetric] k_def [symmetric] Let_def)
    have "k + (height - (h + k)) = height - h" using k(2) by simp
    then have "issued reward_atomic s (height - h)
        = issued reward_atomic (issued reward_atomic s k) (height - (h + k))"
      using issued_add [of reward_atomic s k "height - (h + k)"] by (simp only:)
    also have "\<dots> \<le> issued reward_atomic (s + a * k) (height - (h + k))"
      using subsidy.issued_upper [of s k] r(2) by (intro subsidy.issued_mono) (simp add: mult.commute)
    finally have "min cap_atomic (issued reward_atomic s (height - h))
        \<le> min cap_atomic (issued reward_atomic (s + a * k) (height - (h + k)))"
      by (intro min.mono) simp_all
    also have "\<dots> \<le> estimate_loop height (h + k) (s + a * k)"
      using "1.IH" [OF step(1) refl refl refl] step r cap no_wrap [of s a k] cap_le_u128
      by (simp add: a_def [symmetric] k_def [symmetric])
    finally show ?thesis using eq by simp
  qed
qed

text \<open>C35: the reward that block validation and the supply accounts compute from the height is safe. The height-based
  estimate of the supply is at most the cap and at least what the exact recurrence (each block pays
  \<open>base_reward_from_supply\<close> of the supply before it) has issued by that height, up to the cap, whatever
  the adaptive step of the loop; hence \<open>calculate_block_reward\<close> never pays more than the exact
  recurrence would pay at that height, it stays between the tail emission and 50 CYNC, and
  \<open>estimate_reward_at_height\<close>, computed separately to classify the emission phase, agrees with it.\<close>

theorem estimate_reward_safe:
  "estimate_supply_at_height height \<le> cap_atomic
   \<and> min cap_atomic (issued (\<lambda>s. as_atomic (base_reward_from_supply s)) 0 height)
       \<le> estimate_supply_at_height height
   \<and> TAIL_EMISSION \<le> as_atomic (calculate_block_reward height)
   \<and> as_atomic (calculate_block_reward height) \<le> 50 * COIN
   \<and> as_atomic (calculate_block_reward height)
       \<le> as_atomic (base_reward_from_supply
            (issued (\<lambda>s. as_atomic (base_reward_from_supply s)) 0 height))
   \<and> estimate_reward_at_height height = as_atomic (calculate_block_reward height)"
proof -
  have r: "(\<lambda>s. as_atomic (base_reward_from_supply s)) = reward_atomic"
    by (simp add: reward_atomic_def fun_eq_iff)
  let ?i = "issued reward_atomic 0 height"
  have le: "min cap_atomic ?i \<le> estimate_supply_at_height height"
    using estimate_loop_dominates [of 0 height 0]
    by (simp add: estimate_supply_at_height_def min_def split: if_splits)
  have "reward_atomic (min cap_atomic ?i) \<le> reward_atomic ?i"
    by (cases "?i \<le> cap_atomic") (simp_all add: min_def reward_atomic_eq)
  with subsidy.reward_antitone [OF le]
  have "reward_atomic (estimate_supply_at_height height) \<le> reward_atomic ?i" by (rule le_trans)
  moreover have c: "as_atomic (calculate_block_reward height) = reward_atomic (estimate_supply_at_height height)"
    by (simp add: calculate_block_reward_def base_reward_def reward_atomic_def)
  moreover have "estimate_reward_at_height height = reward_atomic (estimate_supply_at_height height)"
    by (simp add: estimate_reward_at_height_def reward_atomic_def base_reward_from_supply_def from_atomic_def Let_def)
  moreover have "estimate_supply_at_height height \<le> cap_atomic" by (simp add: estimate_supply_at_height_def)
  moreover have "as_atomic (base_reward_from_supply ?i) = reward_atomic ?i" by (simp add: reward_atomic_def)
  ultimately show ?thesis
    unfolding r using le subsidy.reward_ge_tail reward_atomic_le by simp
qed

end
