(* ===== verification/Transactions.thy ===== *)
theory Transactions
  imports Emission
begin

section \<open>Transactions (transaction/types.rs)\<close>

text \<open>
  The transaction data types and the two hashes of a transaction. The transaction hash goes through
  borsh serialisation, which is a parameter; the signing hash is built byte by byte in the source
  and is translated here. BLAKE3 is the parameter \<open>blake3\<close>. The interface \<open>prefix_code\<close> states what
  makes a byte format unambiguous (a value and what follows it can be told apart); its
  interpretations for ring members, inputs and outputs give that the signed bytes determine the
  transaction.
\<close>

subsection \<open>Data\<close>

datatype tx_type = Coinbase | Transfer | Churn

fun tx_type_byte :: "tx_type \<Rightarrow> u8" where
  "tx_type_byte Coinbase = 0"
| "tx_type_byte Transfer = 1"
| "tx_type_byte Churn = 2"

type_synonym public_key = bytes
type_synonym key_image = bytes

record ring_member =
  rm_public_key :: public_key
  rm_commitment :: bytes

record clsag_signature =
  clsag_key_image :: key_image
  clsag_commitment_image :: bytes
  clsag_c1 :: bytes
  clsag_responses :: "bytes list"

record tx_input =
  key_image :: key_image
  ring_members :: "ring_member list"
  signature :: clsag_signature
  pseudo_output_commitment :: bytes

record tx_output =
  stealth_address :: public_key
  tx_public_key :: public_key
  commitment :: bytes
  encrypted_amount :: bytes
  view_tag :: u8
  lock_height :: "nat option"
  encrypted_memo :: bytes

record transaction =
  tx_version :: u8
  tx_ty :: tx_type
  tx_inputs :: "tx_input list"
  tx_outputs :: "tx_output list"
  tx_fee :: amount
  range_proof :: bytes
  tx_extra :: bytes

subsection \<open>Queries\<close>

definition is_coinbase :: "transaction \<Rightarrow> bool" where
  "is_coinbase tx = (tx_ty tx = Coinbase)"

definition key_images :: "transaction \<Rightarrow> key_image list" where
  "key_images tx = map key_image (tx_inputs tx)"

definition MIN_TX_SIZE :: nat where "MIN_TX_SIZE = 100"

definition tx_hash :: "(bytes \<Rightarrow> hash) \<Rightarrow> (transaction \<Rightarrow> bytes option) \<Rightarrow> transaction \<Rightarrow> hash" where
  "tx_hash blake3 borsh tx =
     (case borsh tx of
        Some payload \<Rightarrow> hash_concat blake3 [payload]
      | None \<Rightarrow> hash_concat blake3
          [[tx_version tx, tx_type_byte (tx_ty tx)] @ le_bytes 4 (length (tx_inputs tx))
           @ le_bytes 4 (length (tx_outputs tx)) @ le_bytes 8 (as_atomic (tx_fee tx))
           @ concat (map key_image (tx_inputs tx))])"

definition tx_size :: "(transaction \<Rightarrow> bytes option) \<Rightarrow> transaction \<Rightarrow> nat" where
  "tx_size borsh tx = (case borsh tx of Some v \<Rightarrow> length v | None \<Rightarrow> MIN_TX_SIZE)"

subsection \<open>The signing hash\<close>

definition TX_SIGN_DOMAIN_TAG :: bytes where
  "TX_SIGN_DOMAIN_TAG = ascii_bytes ''coincync/tx-sign/v1''"

definition sign_member :: "ring_member \<Rightarrow> bytes" where
  "sign_member m = rm_public_key m @ rm_commitment m"

definition len_prefixed :: "bytes \<Rightarrow> bytes" where
  "len_prefixed bs = le_bytes 4 (length bs) @ bs"

definition count_prefixed :: "('a \<Rightarrow> bytes) \<Rightarrow> 'a list \<Rightarrow> bytes" where
  "count_prefixed enc xs = le_bytes 4 (length xs) @ concat (map enc xs)"

definition sign_input :: "tx_input \<Rightarrow> bytes" where
  "sign_input i = key_image i @ pseudo_output_commitment i @ count_prefixed sign_member (ring_members i)"

definition sign_lock :: "nat option \<Rightarrow> bytes" where
  "sign_lock l = (case l of Some h \<Rightarrow> 1 # le_bytes 8 h | None \<Rightarrow> [0])"

definition sign_output :: "tx_output \<Rightarrow> bytes" where
  "sign_output out = stealth_address out @ tx_public_key out @ commitment out
     @ len_prefixed (encrypted_amount out) @ [view_tag out] @ sign_lock (lock_height out)
     @ len_prefixed (encrypted_memo out)"

definition signing_preimage :: "transaction \<Rightarrow> bytes" where
  "signing_preimage tx = TX_SIGN_DOMAIN_TAG @ [tx_version tx, tx_type_byte (tx_ty tx)]
     @ le_bytes 8 (as_atomic (tx_fee tx))
     @ count_prefixed sign_input (tx_inputs tx)
     @ count_prefixed sign_output (tx_outputs tx)
     @ len_prefixed (range_proof tx)
     @ len_prefixed (tx_extra tx)"

definition signing_hash :: "(bytes \<Rightarrow> hash) \<Rightarrow> transaction \<Rightarrow> hash" where
  "signing_hash blake3 tx = hash_concat blake3 [signing_preimage tx]"

subsection \<open>Unambiguous formats\<close>

locale prefix_code =
  fixes enc :: "'a \<Rightarrow> bytes" and sees :: "'a \<Rightarrow> 'b" and ok :: "'a \<Rightarrow> bool"
  assumes delimits: "ok x \<Longrightarrow> ok y \<Longrightarrow> enc x @ r = enc y @ s \<Longrightarrow> sees x = sees y \<and> r = s"
begin

lemma concat_delimits:
  assumes "length xs = length ys" and "list_all ok xs" and "list_all ok ys"
    and "concat (map enc xs) @ r = concat (map enc ys) @ s"
  shows "map sees xs = map sees ys \<and> r = s"
  using assms
proof (induction xs ys rule: list_induct2)
  case (Cons x xs y ys)
  have "enc x @ (concat (map enc xs) @ r) = enc y @ (concat (map enc ys) @ s)"
    using Cons.prems(3) by simp
  with Cons.prems have "sees x = sees y \<and> concat (map enc xs) @ r = concat (map enc ys) @ s"
    by (intro delimits) simp_all
  with Cons show ?case by simp
qed simp

lemma count_delimits:
  assumes "length xs < 2 ^ 32" and "length ys < 2 ^ 32" and "list_all ok xs" and "list_all ok ys"
    and "count_prefixed enc xs @ r = count_prefixed enc ys @ s"
  shows "map sees xs = map sees ys \<and> r = s"
proof -
  have "le_bytes 4 (length xs) @ (concat (map enc xs) @ r) = le_bytes 4 (length ys) @ (concat (map enc ys) @ s)"
    using assms(5) by (simp add: count_prefixed_def)
  then have "le_bytes 4 (length xs) = le_bytes 4 (length ys)"
    and rest: "concat (map enc xs) @ r = concat (map enc ys) @ s"
    by (simp_all add: append_eq_append_conv)
  then have "length xs mod 256 ^ 4 = length ys mod 256 ^ 4"
    by (metis from_le_bytes_le_bytes)
  with assms(1,2) have "length xs = length ys" by simp
  from concat_delimits [OF this assms(3,4) rest] show ?thesis .
qed

end

lemma len_prefixed_delimits:
  assumes "length a < 2 ^ 32" and "length b < 2 ^ 32" and "len_prefixed a @ r = len_prefixed b @ s"
  shows "a = b \<and> r = s"
proof -
  have eq: "le_bytes 4 (length a) @ (a @ r) = le_bytes 4 (length b) @ (b @ s)"
    using assms(3) by (simp add: len_prefixed_def)
  then have "le_bytes 4 (length a) = le_bytes 4 (length b)" and "a @ r = b @ s"
    by (simp_all add: append_eq_append_conv)
  then have "length a mod 256 ^ 4 = length b mod 256 ^ 4" by (metis from_le_bytes_le_bytes)
  with assms(1,2) have "length a = length b" by simp
  with \<open>a @ r = b @ s\<close> show ?thesis by simp
qed

lemma sign_lock_delimits:
  assumes "\<forall>h. a = Some h \<longrightarrow> h \<le> u64_max" and "\<forall>h. b = Some h \<longrightarrow> h \<le> u64_max"
    and "sign_lock a @ r = sign_lock b @ s"
  shows "a = b \<and> r = s"
proof (cases a; cases b)
  fix g h assume ab: "a = Some g" "b = Some h"
  with assms(3) have "le_bytes 8 g @ r = le_bytes 8 h @ s" by (simp add: sign_lock_def)
  then have "le_bytes 8 g = le_bytes 8 h" "r = s" by (simp_all add: append_eq_append_conv)
  then have "g mod 256 ^ 8 = h mod 256 ^ 8" "r = s" by (metis from_le_bytes_le_bytes, simp)
  with assms(1,2) ab show ?thesis by (simp add: u64_max_def)
qed (use assms in \<open>simp_all add: sign_lock_def\<close>)

definition wf_member :: "ring_member \<Rightarrow> bool" where
  "wf_member m = (length (rm_public_key m) = 32 \<and> length (rm_commitment m) = 32)"

interpretation member_code: prefix_code sign_member "\<lambda>m. m" wf_member
  by unfold_locales (auto simp: sign_member_def wf_member_def)

definition wf_input :: "tx_input \<Rightarrow> bool" where
  "wf_input i = (length (key_image i) = 32 \<and> length (pseudo_output_commitment i) = 32
     \<and> length (ring_members i) < 2 ^ 32 \<and> list_all wf_member (ring_members i))"

definition signed_input :: "tx_input \<Rightarrow> key_image \<times> bytes \<times> ring_member list" where
  "signed_input i = (key_image i, pseudo_output_commitment i, ring_members i)"

interpretation input_code: prefix_code sign_input signed_input wf_input
proof
  fix x y :: tx_input and r s
  assume wf: "wf_input x" "wf_input y" and eq: "sign_input x @ r = sign_input y @ s"
  then have "key_image x = key_image y \<and> pseudo_output_commitment x = pseudo_output_commitment y
      \<and> count_prefixed sign_member (ring_members x) @ r = count_prefixed sign_member (ring_members y) @ s"
    by (auto simp: sign_input_def wf_input_def)
  with member_code.count_delimits [of "ring_members x" "ring_members y" r s] wf
  show "signed_input x = signed_input y \<and> r = s" by (simp add: wf_input_def signed_input_def)
qed

definition wf_output :: "tx_output \<Rightarrow> bool" where
  "wf_output out = (length (stealth_address out) = 32 \<and> length (tx_public_key out) = 32
     \<and> length (commitment out) = 32 \<and> length (encrypted_amount out) < 2 ^ 32
     \<and> (\<forall>h. lock_height out = Some h \<longrightarrow> h \<le> u64_max) \<and> length (encrypted_memo out) < 2 ^ 32)"

interpretation output_code: prefix_code sign_output "\<lambda>out. out" wf_output
proof
  fix x y :: tx_output and r s
  assume wf: "wf_output x" "wf_output y" and eq: "sign_output x @ r = sign_output y @ s"
  let ?tail = "\<lambda>z t. [view_tag z] @ sign_lock (lock_height z) @ len_prefixed (encrypted_memo z) @ t"
  have hd: "stealth_address x = stealth_address y" "tx_public_key x = tx_public_key y"
    "commitment x = commitment y"
    and 1: "len_prefixed (encrypted_amount x) @ ?tail x r = len_prefixed (encrypted_amount y) @ ?tail y s"
    using wf eq by (auto simp: sign_output_def wf_output_def)
  from len_prefixed_delimits [OF _ _ 1] wf
  have 2: "encrypted_amount x = encrypted_amount y" "?tail x r = ?tail y s" by (auto simp: wf_output_def)
  then have "sign_lock (lock_height x) @ len_prefixed (encrypted_memo x) @ r
      = sign_lock (lock_height y) @ len_prefixed (encrypted_memo y) @ s" and vt: "view_tag x = view_tag y"
    by simp_all
  with sign_lock_delimits [of "lock_height x" "lock_height y"] wf
  have 3: "lock_height x = lock_height y" "len_prefixed (encrypted_memo x) @ r = len_prefixed (encrypted_memo y) @ s"
    by (simp_all add: wf_output_def)
  from len_prefixed_delimits [OF _ _ 3(2)] wf
  have "encrypted_memo x = encrypted_memo y" "r = s" by (auto simp: wf_output_def)
  with hd 2 3 vt show "x = y \<and> r = s" by (cases x; cases y) simp
qed

definition wf_transaction :: "transaction \<Rightarrow> bool" where
  "wf_transaction tx = (wf_amount (tx_fee tx)
     \<and> length (tx_inputs tx) < 2 ^ 32 \<and> list_all wf_input (tx_inputs tx)
     \<and> length (tx_outputs tx) < 2 ^ 32 \<and> list_all wf_output (tx_outputs tx)
     \<and> length (range_proof tx) < 2 ^ 32 \<and> length (tx_extra tx) < 2 ^ 32)"

lemma tx_type_byte_inj: "tx_type_byte a = tx_type_byte b \<longleftrightarrow> a = b"
  by (cases a; cases b) simp_all

lemma signing_preimage_head:
  assumes "wf_transaction a" and "wf_transaction b" and "signing_preimage a = signing_preimage b"
  shows "tx_version a = tx_version b" and "tx_ty a = tx_ty b" and "tx_fee a = tx_fee b"
    and "count_prefixed sign_input (tx_inputs a) @ count_prefixed sign_output (tx_outputs a)
        @ len_prefixed (range_proof a) @ len_prefixed (tx_extra a)
      = count_prefixed sign_input (tx_inputs b) @ count_prefixed sign_output (tx_outputs b)
        @ len_prefixed (range_proof b) @ len_prefixed (tx_extra b)"
proof -
  let ?rest = "\<lambda>t. count_prefixed sign_input (tx_inputs t) @ count_prefixed sign_output (tx_outputs t)
        @ len_prefixed (range_proof t) @ len_prefixed (tx_extra t)"
  have eq: "tx_version a # tx_type_byte (tx_ty a) # le_bytes 8 (as_atomic (tx_fee a)) @ ?rest a
      = tx_version b # tx_type_byte (tx_ty b) # le_bytes 8 (as_atomic (tx_fee b)) @ ?rest b"
    using assms(3) by (simp add: signing_preimage_def)
  then show "tx_version a = tx_version b" "tx_ty a = tx_ty b" by (simp_all add: tx_type_byte_inj)
  from eq have "le_bytes 8 (as_atomic (tx_fee a)) = le_bytes 8 (as_atomic (tx_fee b))" "?rest a = ?rest b"
    by (simp_all add: append_eq_append_conv)
  then have "as_atomic (tx_fee a) mod 256 ^ 8 = as_atomic (tx_fee b) mod 256 ^ 8" "?rest a = ?rest b"
    by (metis from_le_bytes_le_bytes, simp)
  with assms(1,2) show "tx_fee a = tx_fee b" "?rest a = ?rest b"
    by (simp_all add: wf_transaction_def wf_amount_def u64_max_def amount.expand)
qed

text \<open>C25: the signed bytes pin the transaction down. Two well-formed transactions with the same signing
  preimage agree on version, type, fee, every input's key image, pseudo-output and ring, every
  output, the range proof and the extra field; only the signatures themselves are outside. Nothing
  can be moved between adjacent variable-length fields under one signature.\<close>

theorem signing_preimage_binding:
  assumes "wf_transaction a" and "wf_transaction b"
  shows "signing_preimage a = signing_preimage b \<longleftrightarrow>
    tx_version a = tx_version b \<and> tx_ty a = tx_ty b \<and> tx_fee a = tx_fee b
    \<and> map signed_input (tx_inputs a) = map signed_input (tx_inputs b)
    \<and> tx_outputs a = tx_outputs b \<and> range_proof a = range_proof b \<and> tx_extra a = tx_extra b"
proof
  assume eq: "signing_preimage a = signing_preimage b"
  note h = signing_preimage_head [OF assms eq]
  from input_code.count_delimits [OF _ _ _ _ h(4)] assms
  have i: "map signed_input (tx_inputs a) = map signed_input (tx_inputs b)"
    and 1: "count_prefixed sign_output (tx_outputs a) @ len_prefixed (range_proof a) @ len_prefixed (tx_extra a)
      = count_prefixed sign_output (tx_outputs b) @ len_prefixed (range_proof b) @ len_prefixed (tx_extra b)"
    by (simp_all add: wf_transaction_def)
  from output_code.count_delimits [OF _ _ _ _ 1] assms
  have o: "tx_outputs a = tx_outputs b"
    and 2: "len_prefixed (range_proof a) @ len_prefixed (tx_extra a) = len_prefixed (range_proof b) @ len_prefixed (tx_extra b)"
    by (simp_all add: wf_transaction_def)
  from len_prefixed_delimits [OF _ _ 2] assms
  have "range_proof a = range_proof b" "len_prefixed (tx_extra a) @ [] = len_prefixed (tx_extra b) @ []"
    by (simp_all add: wf_transaction_def)
  with len_prefixed_delimits [of "tx_extra a" "tx_extra b" "[]" "[]"] assms h i o
  show "tx_version a = tx_version b \<and> tx_ty a = tx_ty b \<and> tx_fee a = tx_fee b
    \<and> map signed_input (tx_inputs a) = map signed_input (tx_inputs b)
    \<and> tx_outputs a = tx_outputs b \<and> range_proof a = range_proof b \<and> tx_extra a = tx_extra b"
    by (simp add: wf_transaction_def)
next
  assume eq: "tx_version a = tx_version b \<and> tx_ty a = tx_ty b \<and> tx_fee a = tx_fee b
    \<and> map signed_input (tx_inputs a) = map signed_input (tx_inputs b)
    \<and> tx_outputs a = tx_outputs b \<and> range_proof a = range_proof b \<and> tx_extra a = tx_extra b"
  have enc: "sign_input = (\<lambda>(k, p, m). k @ p @ count_prefixed sign_member m) \<circ> signed_input"
    by (simp add: fun_eq_iff sign_input_def signed_input_def)
  have "map sign_input (tx_inputs a) = map sign_input (tx_inputs b)"
    unfolding enc using eq by (simp only: map_map [symmetric])
  with eq show "signing_preimage a = signing_preimage b"
    by (simp add: signing_preimage_def count_prefixed_def) (metis length_map)
qed

definition plain_tx :: "bytes \<Rightarrow> transaction" where
  "plain_tx e = \<lparr> tx_version = 1, tx_ty = Transfer, tx_inputs = [], tx_outputs = [], tx_fee = Amount 7,
     range_proof = [], tx_extra = e \<rparr>"

theorem signing_preimage_binding_witness:
  "wf_transaction (plain_tx [1]) \<and> wf_transaction (plain_tx [2])
   \<and> signing_preimage (plain_tx [1]) \<noteq> signing_preimage (plain_tx [2])"
  using signing_preimage_binding [of "plain_tx [1]" "plain_tx [2]"]
  by (simp add: wf_transaction_def plain_tx_def wf_amount_def u64_max_def)

end
