(* ===== verification/Utxo_Set.thy ===== *)
theory Utxo_Set
  imports Transactions "HOL-Library.Product_Lexorder"
begin

section \<open>The UTXO set (storage/utxos.rs)\<close>

text \<open>
  The set of outputs and spent key images with its indices, the batches built from a block and their
  application. The hash maps are HOL maps (nothing depends on their iteration order); the two
  \<open>BTreeMap\<close>s of key sets are maps read over an ascending range of heights. The on-disk output index
  is the optional map \<open>db_output_index\<close>, whose operations are taken to succeed (a failed removal is
  only logged by the source). \<open>checkpoint\<close> writes to disk and is not modelled.
\<close>

type_synonym output_key = "hash \<times> nat"

record output_ref =
  or_tx_hash :: hash
  or_index :: nat
  or_output :: tx_output
  or_height :: nat
  or_is_coinbase :: bool

record locator_output =
  lo_public_key :: public_key
  lo_commitment :: bytes
  lo_height :: nat
  lo_is_coinbase :: bool
  lo_lock_height :: "nat option"

record output_index_entry =
  oi_commitment :: bytes
  oi_height :: nat
  oi_is_coinbase :: bool
  oi_lock_height :: "nat option"

type_synonym key_index = "nat \<rightharpoonup> output_key set"

record utxo_set =
  outputs :: "output_key \<rightharpoonup> output_ref"
  spent_key_images :: "key_image set"
  height_index :: key_index
  locator_index :: key_index
  locator_outputs :: "output_key \<rightharpoonup> locator_output"
  stealth_index :: "public_key \<rightharpoonup> output_key"
  output_index :: "public_key \<rightharpoonup> output_index_entry"
  db_output_index :: "(public_key \<rightharpoonup> output_index_entry) option"
  total_outputs_ever :: nat
  reorg_disconnects_total :: nat

definition utxo_new :: utxo_set where
  "utxo_new = \<lparr> outputs = Map.empty, spent_key_images = {}, height_index = Map.empty,
     locator_index = Map.empty, locator_outputs = Map.empty, stealth_index = Map.empty,
     output_index = Map.empty, db_output_index = None, total_outputs_ever = 0,
     reorg_disconnects_total = 0 \<rparr>"

subsection \<open>Index maintenance\<close>

definition idx_add :: "nat \<Rightarrow> output_key \<Rightarrow> key_index \<Rightarrow> key_index" where
  "idx_add h k idx = idx(h \<mapsto> insert k (case idx h of Some s \<Rightarrow> s | None \<Rightarrow> {}))"

definition idx_del :: "nat \<Rightarrow> output_key \<Rightarrow> key_index \<Rightarrow> key_index" where
  "idx_del h k idx =
     (case idx h of
        None \<Rightarrow> idx
      | Some s \<Rightarrow> if s - {k} = {} then idx(h := None) else idx(h \<mapsto> s - {k}))"

definition or_insert :: "'k \<Rightarrow> 'v \<Rightarrow> ('k \<rightharpoonup> 'v) \<Rightarrow> ('k \<rightharpoonup> 'v)" where
  "or_insert k v m = (case m k of Some _ \<Rightarrow> m | None \<Rightarrow> m(k \<mapsto> v))"

subsection \<open>Operations\<close>

definition add_output_ext :: "hash \<Rightarrow> nat \<Rightarrow> tx_output \<Rightarrow> nat \<Rightarrow> bool \<Rightarrow> utxo_set \<Rightarrow> utxo_set" where
  "add_output_ext txh index out height is_cb u =
     (let key = (txh, index);
          stealth_addr = stealth_address out
      in u \<lparr> outputs := (outputs u)(key \<mapsto> \<lparr> or_tx_hash = txh, or_index = index, or_output = out,
                                            or_height = height, or_is_coinbase = is_cb \<rparr>),
             height_index := idx_add height key (height_index u),
             locator_index := idx_add height key (locator_index u),
             locator_outputs := (locator_outputs u)(key \<mapsto>
               \<lparr> lo_public_key = stealth_address out, lo_commitment = commitment out, lo_height = height,
                 lo_is_coinbase = is_cb, lo_lock_height = lock_height out \<rparr>),
             stealth_index := or_insert stealth_addr key (stealth_index u),
             output_index := or_insert stealth_addr
               \<lparr> oi_commitment = commitment out, oi_height = height, oi_is_coinbase = is_cb,
                 oi_lock_height = lock_height out \<rparr> (output_index u),
             total_outputs_ever := total_outputs_ever u + 1 \<rparr>)"

definition spend_output :: "hash \<Rightarrow> nat \<Rightarrow> key_image \<Rightarrow> utxo_set \<Rightarrow> bool \<times> utxo_set" where
  "spend_output txh index ki u =
     (if ki \<in> spent_key_images u then (False, u)
      else
        let u = u \<lparr> spent_key_images := insert ki (spent_key_images u) \<rparr>;
            key = (txh, index)
        in case outputs u key of
             None \<Rightarrow> (False, u)
           | Some r \<Rightarrow>
               (True, u \<lparr> outputs := (outputs u)(key := None),
                          height_index := idx_del (or_height r) key (height_index u),
                          stealth_index := (stealth_index u)(stealth_address (or_output r) := None) \<rparr>))"

definition mark_key_image_spent :: "key_image \<Rightarrow> utxo_set \<Rightarrow> bool \<times> utxo_set" where
  "mark_key_image_spent ki u =
     (if ki \<in> spent_key_images u then (False, u)
      else (True, u \<lparr> spent_key_images := insert ki (spent_key_images u) \<rparr>))"

definition get_output_by_stealth :: "utxo_set \<Rightarrow> public_key \<Rightarrow> output_ref option" where
  "get_output_by_stealth u stealth_addr = Option.bind (stealth_index u stealth_addr) (outputs u)"

definition get_output_index_entry :: "utxo_set \<Rightarrow> public_key \<Rightarrow> output_index_entry option" where
  "get_output_index_entry u stealth_addr =
     (case output_index u stealth_addr of
        Some e \<Rightarrow> Some e
      | None \<Rightarrow> (case db_output_index u of Some db \<Rightarrow> db stealth_addr | None \<Rightarrow> None))"

definition evict_old_outputs :: "nat \<Rightarrow> nat \<Rightarrow> utxo_set \<Rightarrow> utxo_set" where
  "evict_old_outputs current_height keep_depth u =
     (if current_height \<le> keep_depth then u
      else
        let cutoff = current_height - keep_depth
        in u \<lparr> output_index := (\<lambda>a. case output_index u a of
               Some e \<Rightarrow> if cutoff \<le> oi_height e then Some e else None | None \<Rightarrow> None) \<rparr>)"

definition remove_output :: "hash \<Rightarrow> nat \<Rightarrow> utxo_set \<Rightarrow> output_ref option \<times> utxo_set" where
  "remove_output txh index u =
     (let key = (txh, index);
          loc = locator_outputs u key;
          u = u \<lparr> locator_outputs := (locator_outputs u)(key := None),
                  locator_index := (case loc of Some l \<Rightarrow> idx_del (lo_height l) key (locator_index u)
                                              | None \<Rightarrow> locator_index u) \<rparr>;
          ref = outputs u key;
          u = u \<lparr> outputs := (outputs u)(key := None),
                  height_index := (case ref of Some r \<Rightarrow> idx_del (or_height r) key (height_index u)
                                             | None \<Rightarrow> height_index u) \<rparr>;
          stealth = (case ref of
                       Some r \<Rightarrow> Some (stealth_address (or_output r))
                     | None \<Rightarrow> map_option lo_public_key loc)
      in (ref,
          case stealth of
            None \<Rightarrow> u
          | Some a \<Rightarrow>
              u \<lparr> stealth_index := (stealth_index u)(a := None),
                  output_index := (output_index u)(a := None),
                  db_output_index := map_option (\<lambda>db. db(a := None)) (db_output_index u),
                  reorg_disconnects_total :=
                    saturating_add u64_max (reorg_disconnects_total u) 1 \<rparr>))"

definition remove_key_image :: "key_image \<Rightarrow> utxo_set \<Rightarrow> bool \<times> utxo_set" where
  "remove_key_image ki u =
     (ki \<in> spent_key_images u, u \<lparr> spent_key_images := spent_key_images u - {ki} \<rparr>)"

definition outputs_in_range :: "utxo_set \<Rightarrow> nat \<Rightarrow> nat \<Rightarrow> output_ref list" where
  "outputs_in_range u min_height max_height =
     List.map_filter (outputs u)
       (concat (map (\<lambda>h. case height_index u h of Some s \<Rightarrow> sorted_list_of_set s | None \<Rightarrow> [])
                  [min_height..<max_height + 1]))"

definition output_distribution :: "utxo_set \<Rightarrow> nat \<Rightarrow> (nat \<times> nat) list" where
  "output_distribution u up_to_height =
     List.map_filter (\<lambda>h. map_option (\<lambda>s. (h, card s)) (locator_index u h)) [0..<up_to_height + 1]"

subsection \<open>Locators\<close>

type_synonym output_locator = "nat \<times> nat"

datatype locator_error =
    DuplicateLocator output_locator
  | UnknownHeight nat
  | OrdinalOutOfRange output_locator nat
  | NoCanonicalOutput output_locator

fun resolve_loop :: "utxo_set \<Rightarrow> output_locator set \<Rightarrow> output_locator list
    \<Rightarrow> locator_error + (output_locator \<times> locator_output) list" where
  "resolve_loop u seen [] = Inr []"
| "resolve_loop u seen (l # ls) =
     (if l \<in> seen then Inl (DuplicateLocator l)
      else
        case locator_index u (fst l) of
          None \<Rightarrow> Inl (UnknownHeight (fst l))
        | Some keys \<Rightarrow>
            if card keys \<le> snd l then Inl (OrdinalOutOfRange l (card keys))
            else
              case locator_outputs u (sorted_list_of_set keys ! snd l) of
                None \<Rightarrow> Inl (NoCanonicalOutput l)
              | Some r \<Rightarrow> and_then (resolve_loop u (insert l seen) ls) (\<lambda>rest. Inr ((l, r) # rest)))"

definition resolve_output_locators ::
    "utxo_set \<Rightarrow> output_locator list \<Rightarrow> locator_error + (output_locator \<times> locator_output) list" where
  "resolve_output_locators u locators = resolve_loop u {} locators"

subsection \<open>Batches\<close>

record utxo_batch =
  adds :: "(hash \<times> nat \<times> tx_output \<times> nat \<times> bool) list"
  batch_key_images :: "key_image list"
  removes :: "output_key list"
  key_image_removals :: "key_image list"

text \<open>\<open>apply_batch\<close> processes the four lists in this order and counts the effective operations.\<close>

definition apply_add :: "(hash \<times> nat \<times> tx_output \<times> nat \<times> bool) \<Rightarrow> utxo_set \<Rightarrow> utxo_set" where
  "apply_add a u = (case a of (t, i, out, h, cb) \<Rightarrow> add_output_ext t i out h cb u)"

definition apply_counted :: "('a \<Rightarrow> utxo_set \<Rightarrow> bool \<times> utxo_set) \<Rightarrow> 'a list \<Rightarrow> nat \<times> utxo_set \<Rightarrow> nat \<times> utxo_set" where
  "apply_counted f xs s =
     fold (\<lambda>x (n, u). case f x u of (b, u') \<Rightarrow> (if b then n + 1 else n, u')) xs s"

definition apply_batch :: "utxo_batch \<Rightarrow> utxo_set \<Rightarrow> nat \<times> utxo_set" where
  "apply_batch b u =
     (let s = apply_counted (\<lambda>a u. (True, apply_add a u)) (adds b) (0, u);
          s = apply_counted mark_key_image_spent (batch_key_images b) s;
          s = apply_counted (\<lambda>k u. case remove_output (fst k) (snd k) u of (r, u') \<Rightarrow> (r \<noteq> None, u'))
                (removes b) s
      in apply_counted remove_key_image (key_image_removals b) s)"

text \<open>\<open>idx as u8\<close> keeps the low eight bits of an output's position.\<close>

definition tx_adds :: "(transaction \<Rightarrow> hash) \<Rightarrow> nat \<Rightarrow> transaction \<Rightarrow> (hash \<times> nat \<times> tx_output \<times> nat \<times> bool) list" where
  "tx_adds txid block_height tx =
     map (\<lambda>(idx, out). (txid tx, idx mod 256, out, block_height, is_coinbase tx))
       (enumerate 0 (tx_outputs tx))"

definition tx_spends :: "transaction \<Rightarrow> key_image list" where
  "tx_spends tx = (if is_coinbase tx then [] else map key_image (tx_inputs tx))"

definition batch_from_block :: "(transaction \<Rightarrow> hash) \<Rightarrow> nat \<Rightarrow> transaction list \<Rightarrow> utxo_batch" where
  "batch_from_block txid block_height txs =
     \<lparr> adds = concat (map (tx_adds txid block_height) txs),
       batch_key_images = concat (map tx_spends txs), removes = [], key_image_removals = [] \<rparr>"

definition batch_disconnect_block :: "(transaction \<Rightarrow> hash) \<Rightarrow> transaction list \<Rightarrow> utxo_batch" where
  "batch_disconnect_block txid txs =
     \<lparr> adds = [], batch_key_images = [],
       removes = concat (map (\<lambda>tx. map (\<lambda>idx. (txid tx, idx mod 256)) [0..<length (tx_outputs tx)]) txs),
       key_image_removals = concat (map tx_spends txs) \<rparr>"

subsection \<open>Indices\<close>

definition idx_ok :: "key_index \<Rightarrow> bool" where
  "idx_ok idx = (\<forall>h. idx h \<noteq> Some {})"

definition idx_absent :: "output_key \<Rightarrow> key_index \<Rightarrow> bool" where
  "idx_absent k idx = (\<forall>h s. idx h = Some s \<longrightarrow> k \<notin> s)"

lemma idx_del_add: "idx_ok idx \<Longrightarrow> idx_absent k idx \<Longrightarrow> idx_del h k (idx_add h k idx) = idx"
  by (auto simp: idx_del_def idx_add_def idx_ok_def idx_absent_def fun_eq_iff split: option.splits)

lemma idx_del_add_commute:
  "k \<noteq> k' \<Longrightarrow> idx_del h k (idx_add h' k' idx) = idx_add h' k' (idx_del h k idx)"
  by (cases "h = h'"; cases "idx h"; cases "idx h'")
    (auto simp: idx_del_def idx_add_def fun_eq_iff)

lemma idx_add_absent: "k \<noteq> k' \<Longrightarrow> idx_absent k idx \<Longrightarrow> idx_absent k (idx_add h k' idx)"
  by (auto simp: idx_absent_def idx_add_def split: option.splits if_splits)

lemma idx_add_ok: "idx_ok idx \<Longrightarrow> idx_ok (idx_add h k idx)"
  by (auto simp: idx_ok_def idx_add_def)

lemma or_insert_upd_commute: "k \<noteq> k' \<Longrightarrow> (or_insert k v m)(k' := None) = or_insert k v (m(k' := None))"
  by (auto simp: or_insert_def fun_eq_iff split: option.splits)

subsection \<open>Connecting and disconnecting a block\<close>

type_synonym add_entry = "hash \<times> nat \<times> tx_output \<times> nat \<times> bool"

definition add_key :: "add_entry \<Rightarrow> output_key" where
  "add_key a = (fst a, fst (snd a))"

definition add_stealth :: "add_entry \<Rightarrow> public_key" where
  "add_stealth a = stealth_address (fst (snd (snd a)))"

definition remove_key :: "output_key \<Rightarrow> utxo_set \<Rightarrow> utxo_set" where
  "remove_key k u = snd (remove_output (fst k) (snd k) u)"

text \<open>An output of the set whose two records carry the stealth address \<open>s\<close>.\<close>

definition holds_output :: "utxo_set \<Rightarrow> output_key \<Rightarrow> public_key \<Rightarrow> bool" where
  "holds_output u k s =
     ((\<exists>r. outputs u k = Some r \<and> stealth_address (or_output r) = s)
      \<and> (\<exists>l. locator_outputs u k = Some l \<and> lo_public_key l = s))"

lemma holds_add: "holds_output (apply_add a u) (add_key a) (add_stealth a)"
  by (cases a) (simp add: holds_output_def apply_add_def add_output_ext_def add_key_def add_stealth_def Let_def)

lemma holds_keep: "holds_output u k s \<Longrightarrow> k \<noteq> add_key a \<Longrightarrow> holds_output (apply_add a u) k s"
  by (cases a) (auto simp: holds_output_def apply_add_def add_output_ext_def add_key_def Let_def)

lemma remove_add_commute:
  assumes "holds_output u k s" and "k \<noteq> add_key a" and "s \<noteq> add_stealth a"
  shows "remove_key k (apply_add a u) = apply_add a (remove_key k u)"
proof -
  obtain t i out h cb where a: "a = (t, i, out, h, cb)" by (cases a) auto
  from assms(1) obtain r l where "outputs u k = Some r" "stealth_address (or_output r) = s"
    "locator_outputs u k = Some l" by (auto simp: holds_output_def)
  then show ?thesis
    using assms(2,3)
    by (simp add: a remove_key_def remove_output_def apply_add_def add_output_ext_def add_key_def
        add_stealth_def Let_def idx_del_add_commute or_insert_upd_commute fun_upd_twist)
qed

lemma remove_adds_commute:
  "holds_output u k s \<Longrightarrow> k \<notin> add_key ` set as \<Longrightarrow> s \<notin> add_stealth ` set as \<Longrightarrow>
     remove_key k (fold apply_add as u) = fold apply_add as (remove_key k u)"
proof (induction as arbitrary: u)
  case (Cons a as)
  then have "k \<noteq> add_key a" "s \<noteq> add_stealth a" by auto
  with Cons show ?case by (simp add: holds_keep remove_add_commute)
qed simp

text \<open>An entry that does not collide with the set: neither its key nor its stealth address is known.\<close>

definition fresh_entry :: "utxo_set \<Rightarrow> add_entry \<Rightarrow> bool" where
  "fresh_entry u a =
     (outputs u (add_key a) = None \<and> locator_outputs u (add_key a) = None
      \<and> idx_absent (add_key a) (height_index u) \<and> idx_absent (add_key a) (locator_index u)
      \<and> stealth_index u (add_stealth a) = None \<and> output_index u (add_stealth a) = None
      \<and> (\<forall>db. db_output_index u = Some db \<longrightarrow> db (add_stealth a) = None))"

definition indices_ok :: "utxo_set \<Rightarrow> bool" where
  "indices_ok u = (idx_ok (height_index u) \<and> idx_ok (locator_index u))"

definition bump :: "nat \<Rightarrow> utxo_set \<Rightarrow> utxo_set" where
  "bump n u = u \<lparr> total_outputs_ever := total_outputs_ever u + n,
                 reorg_disconnects_total := min u64_max (reorg_disconnects_total u + n) \<rparr>"

lemma bump_fresh [simp]: "fresh_entry (bump n u) a = fresh_entry u a" "indices_ok (bump n u) = indices_ok u"
  by (simp_all add: fresh_entry_def indices_ok_def bump_def)

lemma remove_add_same:
  assumes "fresh_entry u a" and "indices_ok u"
  shows "remove_key (add_key a) (apply_add a u) = bump 1 u"
proof -
  obtain t i out h cb where a: "a = (t, i, out, h, cb)" by (cases a) auto
  have db: "map_option (\<lambda>db. db(stealth_address out := None)) (db_output_index u) = db_output_index u"
    using assms(1) a by (cases "db_output_index u") (auto simp: fresh_entry_def add_stealth_def fun_upd_idem)
  show ?thesis
    using assms db
    by (simp add: a fresh_entry_def add_key_def add_stealth_def indices_ok_def remove_key_def remove_output_def
        apply_add_def add_output_ext_def Let_def idx_del_add or_insert_def fun_upd_idem bump_def
        saturating_add_def)
qed

lemma remove_adds_roundtrip:
  "distinct (map add_key as) \<Longrightarrow> distinct (map add_stealth as) \<Longrightarrow> indices_ok u \<Longrightarrow>
     (\<And>a. a \<in> set as \<Longrightarrow> fresh_entry u a) \<Longrightarrow> reorg_disconnects_total u \<le> u64_max \<Longrightarrow>
     fold remove_key (map add_key as) (fold apply_add as u) = bump (length as) u"
proof (induction as arbitrary: u)
  case Nil
  then show ?case by (simp add: bump_def)
next
  case (Cons a as)
  have "remove_key (add_key a) (fold apply_add as (apply_add a u))
      = fold apply_add as (remove_key (add_key a) (apply_add a u))"
    using Cons.prems(1,2) by (intro remove_adds_commute [OF holds_add]) simp_all
  also have "\<dots> = fold apply_add as (bump 1 u)"
    using remove_add_same [of u a] Cons.prems(3,4) by simp
  finally have "fold remove_key (map add_key (a # as)) (fold apply_add (a # as) u)
      = fold remove_key (map add_key as) (fold apply_add as (bump 1 u))" by simp
  also have "\<dots> = bump (length as) (bump 1 u)"
  proof (intro Cons.IH)
    show "reorg_disconnects_total (bump 1 u) \<le> u64_max" by (simp add: bump_def)
  qed (use Cons.prems in simp_all)
  also have "\<dots> = bump (length (a # as)) u" by (simp add: bump_def)
  finally show ?case .
qed

lemma snd_apply_counted: "snd (apply_counted f xs (n, u)) = fold (\<lambda>x u. snd (f x u)) xs u"
  unfolding apply_counted_def
  by (induction xs arbitrary: n u) (auto simp: case_prod_beta)

lemma snd_apply_counted': "snd (apply_counted f xs s) = fold (\<lambda>x u. snd (f x u)) xs (snd s)"
  using snd_apply_counted [of f xs "fst s" "snd s"] by simp

lemma remove_key_eq: "(\<lambda>x u. snd (case remove_output (fst x) (snd x) u of (r, u') \<Rightarrow> (r \<noteq> None, u'))) = remove_key"
  by (simp add: fun_eq_iff remove_key_def case_prod_beta)

lemma apply_batch_state:
  "snd (apply_batch b u) =
     fold (\<lambda>k u. snd (remove_key_image k u)) (key_image_removals b)
       (fold remove_key (removes b)
         (fold (\<lambda>k u. snd (mark_key_image_spent k u)) (batch_key_images b)
           (fold apply_add (adds b) u)))"
  unfolding apply_batch_def Let_def snd_apply_counted' remove_key_eq by simp

lemma mark_all:
  "fold (\<lambda>k u. snd (mark_key_image_spent k u)) ks u
     = u \<lparr> spent_key_images := spent_key_images u \<union> set ks \<rparr>"
proof (induction ks arbitrary: u)
  case (Cons k ks)
  have "snd (mark_key_image_spent k u) = u \<lparr> spent_key_images := insert k (spent_key_images u) \<rparr>"
    by (simp add: mark_key_image_spent_def insert_absorb)
  then show ?case by (simp add: Cons.IH)
qed simp

lemma unmark_all:
  "fold (\<lambda>k u. snd (remove_key_image k u)) ks u
     = u \<lparr> spent_key_images := spent_key_images u - set ks \<rparr>"
  by (induction ks arbitrary: u) (auto simp: remove_key_image_def Diff_insert2 [symmetric])

lemma remove_key_images: "remove_key k (u \<lparr> spent_key_images := s \<rparr>) = remove_key k u \<lparr> spent_key_images := s \<rparr>"
  by (simp add: remove_key_def remove_output_def Let_def split: option.splits)

lemma remove_keys_images:
  "fold remove_key ks (u \<lparr> spent_key_images := s \<rparr>) = fold remove_key ks u \<lparr> spent_key_images := s \<rparr>"
  by (induction ks arbitrary: u) (simp_all add: remove_key_images)

lemma spent_apply_add [simp]: "spent_key_images (apply_add a u) = spent_key_images u"
  by (cases a) (simp add: apply_add_def add_output_ext_def Let_def)

lemma spent_fold_add [simp]: "spent_key_images (fold apply_add as u) = spent_key_images u"
  by (induction as arbitrary: u) simp_all

lemma removes_are_keys:
  "removes (batch_disconnect_block txid txs) = map add_key (adds (batch_from_block txid h txs))"
proof -
  have "map (\<lambda>idx. (txid tx, idx mod 256)) [0..<length (tx_outputs tx)] = map add_key (tx_adds txid h tx)" for tx
    by (rule nth_equalityI) (auto simp: tx_adds_def add_key_def nth_enumerate_eq case_prod_beta)
  then show ?thesis
    by (simp add: batch_disconnect_block_def batch_from_block_def map_concat comp_def)
qed

lemma connect_disconnect:
  fixes txid txs h u
  defines "as \<equiv> adds (batch_from_block txid h txs)"
  assumes "indices_ok u" and "distinct (map add_key as)" and "distinct (map add_stealth as)"
    and "\<forall>a \<in> set as. fresh_entry u a"
    and "spent_key_images u \<inter> set (concat (map tx_spends txs)) = {}"
    and "reorg_disconnects_total u + length as \<le> u64_max"
  shows "snd (apply_batch (batch_disconnect_block txid txs) (snd (apply_batch (batch_from_block txid h txs) u)))
    = u \<lparr> total_outputs_ever := total_outputs_ever u + length as,
          reorg_disconnects_total := reorg_disconnects_total u + length as \<rparr>"
proof -
  let ?ks = "concat (map tx_spends txs)"
  have conn: "snd (apply_batch (batch_from_block txid h txs) u)
      = fold apply_add as u \<lparr> spent_key_images := spent_key_images u \<union> set ?ks \<rparr>"
    unfolding apply_batch_state as_def by (simp add: batch_from_block_def mark_all)
  have "fold remove_key (map add_key as) (fold apply_add as u) = bump (length as) u"
    using assms by (intro remove_adds_roundtrip) auto
  moreover have "snd (apply_batch (batch_disconnect_block txid txs) w)
      = fold remove_key (map add_key as) w
          \<lparr> spent_key_images := spent_key_images (fold remove_key (map add_key as) w) - set ?ks \<rparr>" for w
    unfolding apply_batch_state removes_are_keys [where h = h] as_def [symmetric]
    by (simp add: batch_disconnect_block_def unmark_all)
  ultimately have "snd (apply_batch (batch_disconnect_block txid txs) (snd (apply_batch (batch_from_block txid h txs) u)))
      = bump (length as) u \<lparr> spent_key_images := spent_key_images u \<union> set ?ks - set ?ks \<rparr>"
    unfolding conn by (simp add: remove_keys_images)
  moreover have "spent_key_images u \<union> set ?ks - set ?ks = spent_key_images u" using assms(6) by blast
  ultimately show ?thesis using assms(7) by (simp add: bump_def)
qed

text \<open>C12: disconnecting a block undoes connecting it. If the block's outputs, stealth addresses and key
  images are new to the set and do not repeat inside the block, then applying the disconnect batch
  after the connect batch restores every map and index; only the two monotone counters move, by
  the same amount, so the difference that ring-size rules use is unchanged.\<close>

theorem connect_disconnect_roundtrip:
  fixes txid txs h u
  defines "as \<equiv> adds (batch_from_block txid h txs)"
  assumes "indices_ok u" and "distinct (map add_key as)" and "distinct (map add_stealth as)"
    and "\<forall>a \<in> set as. fresh_entry u a"
    and "spent_key_images u \<inter> set (concat (map tx_spends txs)) = {}"
    and "reorg_disconnects_total u + length as \<le> u64_max"
  shows "snd (apply_batch (batch_disconnect_block txid txs) (snd (apply_batch (batch_from_block txid h txs) u)))
    = u \<lparr> total_outputs_ever := total_outputs_ever u + length as,
          reorg_disconnects_total := reorg_disconnects_total u + length as \<rparr>"
  using assms(2-7) unfolding as_def by (rule connect_disconnect)

definition sample_output :: "public_key \<Rightarrow> tx_output" where
  "sample_output s = \<lparr> stealth_address = s, tx_public_key = [2], commitment = [3],
     encrypted_amount = [], view_tag = 0, lock_height = None, encrypted_memo = [] \<rparr>"

definition sample_coinbase :: "public_key \<Rightarrow> transaction" where
  "sample_coinbase s = \<lparr> tx_version = 1, tx_ty = Coinbase, tx_inputs = [], tx_outputs = [sample_output s],
     tx_fee = Amount 0, range_proof = [], tx_extra = [] \<rparr>"

theorem connect_disconnect_roundtrip_witness:
  "snd (apply_batch (batch_disconnect_block (\<lambda>_. Hash [1]) [sample_coinbase [9]])
     (snd (apply_batch (batch_from_block (\<lambda>_. Hash [1]) 5 [sample_coinbase [9]]) utxo_new)))
   = utxo_new \<lparr> total_outputs_ever := 1, reorg_disconnects_total := 1 \<rparr>"
  using connect_disconnect_roundtrip [of utxo_new "\<lambda>_. Hash [1]" 5 "[sample_coinbase [9]]"]
  by (simp add: batch_from_block_def tx_adds_def sample_coinbase_def tx_spends_def is_coinbase_def
      fresh_entry_def indices_ok_def idx_ok_def idx_absent_def utxo_new_def u64_max_def)

text \<open>With a shared stealth address the round trip fails. When an output's address already belongs to an
  older unspent output, adding it keeps the older index entries, but disconnecting it deletes them:
  the older output is still in the set, yet lookups by stealth address no longer find it, in memory
  or on disk.\<close>

theorem disconnect_drops_shared_stealth:
  assumes "stealth_index u (add_stealth a) = Some k" and "outputs u k = Some r" and "k \<noteq> add_key a"
  shows "get_output_by_stealth u (add_stealth a) = Some r
       \<and> get_output_by_stealth (apply_add a u) (add_stealth a) = Some r
       \<and> outputs (remove_key (add_key a) (apply_add a u)) k = Some r
       \<and> get_output_by_stealth (remove_key (add_key a) (apply_add a u)) (add_stealth a) = None
       \<and> get_output_index_entry (remove_key (add_key a) (apply_add a u)) (add_stealth a) = None"
proof -
  obtain t i out h cb where a: "a = (t, i, out, h, cb)" by (cases a) auto
  show ?thesis
    using assms
    by (auto simp: a get_output_by_stealth_def get_output_index_entry_def remove_key_def remove_output_def
        apply_add_def add_output_ext_def add_key_def add_stealth_def or_insert_def Let_def
        split: option.splits)
qed

theorem disconnect_drops_shared_stealth_witness:
  "get_output_by_stealth (apply_add (Hash [1], 0, sample_output [9], 5, True) utxo_new) [9]
     = Some \<lparr> or_tx_hash = Hash [1], or_index = 0, or_output = sample_output [9], or_height = 5, or_is_coinbase = True \<rparr>
   \<and> get_output_by_stealth (remove_key (Hash [2], 0) (apply_add (Hash [2], 0, sample_output [9], 6, True)
       (apply_add (Hash [1], 0, sample_output [9], 5, True) utxo_new))) [9] = None"
  using disconnect_drops_shared_stealth [of "apply_add (Hash [1], 0, sample_output [9], 5, True) utxo_new"
      "(Hash [2], 0, sample_output [9], 6, True)" "(Hash [1], 0)"
      "\<lparr> or_tx_hash = Hash [1], or_index = 0, or_output = sample_output [9], or_height = 5, or_is_coinbase = True \<rparr>"]
  by (simp add: add_stealth_def add_key_def sample_output_def apply_add_def add_output_ext_def utxo_new_def
      or_insert_def Let_def)

subsection \<open>The indices are exact\<close>

text \<open>Every unspent output is listed at its height and nothing else is, and likewise for the locator
  catalogue, which keeps spent outputs.\<close>

definition indexed :: "(nat \<rightharpoonup> 'k set) \<Rightarrow> nat \<Rightarrow> 'k \<Rightarrow> bool" where
  "indexed idx h k = (case idx h of None \<Rightarrow> False | Some s \<Rightarrow> k \<in> s)"

definition listed_at :: "(output_key \<rightharpoonup> 'v) \<Rightarrow> ('v \<Rightarrow> nat) \<Rightarrow> (nat \<rightharpoonup> output_key set) \<Rightarrow> bool" where
  "listed_at m ht idx = (\<forall>h k. indexed idx h k \<longleftrightarrow> map_option ht (m k) = Some h)"

definition utxo_inv :: "utxo_set \<Rightarrow> bool" where
  "utxo_inv u =
     (indices_ok u
      \<and> listed_at (outputs u) or_height (height_index u)
      \<and> listed_at (locator_outputs u) lo_height (locator_index u)
      \<and> dom (outputs u) \<subseteq> dom (locator_outputs u))"

lemma indexed_idx_add [simp]: "indexed (idx_add h k idx) h' x \<longleftrightarrow> (h' = h \<and> x = k) \<or> indexed idx h' x"
  by (auto simp: idx_add_def indexed_def split: option.splits)

lemma indexed_idx_del [simp]: "indexed (idx_del h k idx) h' x \<longleftrightarrow> \<not> (h' = h \<and> x = k) \<and> indexed idx h' x"
  by (cases "idx h") (auto simp: idx_del_def indexed_def)

lemma idx_del_ok [simp]: "idx_ok idx \<Longrightarrow> idx_ok (idx_del h k idx)"
  by (auto simp: idx_ok_def idx_del_def split: option.splits)

lemma listed_at_add: "listed_at m ht idx \<Longrightarrow> m k = None \<Longrightarrow> ht v = h \<Longrightarrow> listed_at (m(k \<mapsto> v)) ht (idx_add h k idx)"
  by (auto simp: listed_at_def)

lemma listed_at_del: "listed_at m ht idx \<Longrightarrow> m k = Some v \<Longrightarrow> ht v = h \<Longrightarrow> listed_at (m(k := None)) ht (idx_del h k idx)"
  by (auto simp: listed_at_def)

lemma utxo_inv_new: "utxo_inv utxo_new"
  by (simp add: utxo_inv_def utxo_new_def indices_ok_def idx_ok_def listed_at_def indexed_def)

lemma utxo_inv_add:
  assumes "utxo_inv u" and "locator_outputs u (txh, i) = None"
  shows "utxo_inv (add_output_ext txh i out h cb u)"
proof -
  have "outputs u (txh, i) = None" using assms by (auto simp: utxo_inv_def dom_def)
  with assms show ?thesis
    by (auto simp: utxo_inv_def indices_ok_def add_output_ext_def Let_def idx_add_ok intro!: listed_at_add)
qed

lemma utxo_inv_spend:
  assumes "utxo_inv u"
  shows "utxo_inv (snd (spend_output txh i ki u))"
  using assms
  by (auto simp: spend_output_def utxo_inv_def indices_ok_def Let_def split: option.splits intro!: listed_at_del)

lemma utxo_inv_remove:
  assumes "utxo_inv u"
  shows "utxo_inv (snd (remove_output txh i u))"
  using assms
  by (auto simp: remove_output_def utxo_inv_def indices_ok_def Let_def fun_upd_idem split: option.splits
      intro!: listed_at_del)

end
