(* ===== verification/Std_Maps.thy ===== *)
theory Std_Maps
  imports Rust_Prelude
begin

section \<open>The map types of the Rust standard library\<close>

text \<open>
  The sources keep their state in \<open>HashMap\<close>s and \<open>BTreeMap\<close>s. What the components rely on is
  stated once, as two interfaces: \<open>finite_map\<close> (insertion replaces, removal deletes, keys are
  unique) and \<open>ordered_map\<close>, which adds that iteration is in ascending key order. The client
  lemmas the components use are proved inside the locales. \<open>HashMap\<close> is implemented by an
  association list with distinct keys, whose order stands for the unspecified iteration order
  (every theorem quantifies over the list, hence over the order); \<open>BTreeMap\<close> by a strictly
  ascending one.
\<close>

subsection \<open>Interfaces\<close>

locale finite_map =
  fixes empty :: "'m"
    and insert :: "'k \<Rightarrow> 'v \<Rightarrow> 'm \<Rightarrow> 'm"
    and remove :: "'k \<Rightarrow> 'm \<Rightarrow> 'm"
    and entries :: "'m \<Rightarrow> ('k \<times> 'v) list"
    and invar :: "'m \<Rightarrow> bool"
  assumes entries_empty: "entries empty = []"
    and entries_insert: "invar m \<Longrightarrow>
      set (entries (insert k v m)) = {(k, v)} \<union> {p \<in> set (entries m). fst p \<noteq> k}"
    and entries_remove: "invar m \<Longrightarrow>
      set (entries (remove k m)) = {p \<in> set (entries m). fst p \<noteq> k}"
    and keys_distinct: "invar m \<Longrightarrow> distinct (map fst (entries m))"
    and invar_empty: "invar empty"
    and invar_insert: "invar m \<Longrightarrow> invar (insert k v m)"
    and invar_remove: "invar m \<Longrightarrow> invar (remove k m)"
begin

lemma lookup_iff: "invar m \<Longrightarrow> map_of (entries m) k = Some v \<longleftrightarrow> (k, v) \<in> set (entries m)"
  by (simp add: keys_distinct)

lemma lookup_insert:
  assumes "invar m"
  shows "map_of (entries (insert k v m)) k' = (if k' = k then Some v else map_of (entries m) k')"
proof -
  have *: "map_of (entries (insert k v m)) k' = Some w \<longleftrightarrow>
      (if k' = k then Some v else map_of (entries m) k') = Some w" for w
    using assms by (auto simp: lookup_iff invar_insert entries_insert)
  show ?thesis by (metis * not_None_eq)
qed

lemma lookup_remove:
  assumes "invar m"
  shows "map_of (entries (remove k m)) k' = (if k' = k then None else map_of (entries m) k')"
proof -
  have *: "map_of (entries (remove k m)) k' = Some w \<longleftrightarrow>
      (if k' = k then None else map_of (entries m) k') = Some w" for w
    using assms by (auto simp: lookup_iff invar_remove entries_remove)
  show ?thesis by (metis * not_None_eq)
qed

lemma keys_insert:
  "invar m \<Longrightarrow> fst ` set (entries (insert k v m)) = Set.insert k (fst ` set (entries m))"
  by (force simp: entries_insert)

lemma keys_remove:
  "invar m \<Longrightarrow> fst ` set (entries (remove k m)) = fst ` set (entries m) - {k}"
  by (force simp: entries_remove)

lemma entries_unique:
  "invar m \<Longrightarrow> (k, v) \<in> set (entries m) \<Longrightarrow> (k, w) \<in> set (entries m) \<Longrightarrow> v = w"
  by (metis lookup_iff option.inject)

lemma total_insert:
  fixes f :: "'v \<Rightarrow> nat"
  assumes m: "invar m" and new: "map_of (entries m) k = None"
  shows "(\<Sum>p \<in> set (entries (insert k v m)). f (snd p)) = f v + (\<Sum>p \<in> set (entries m). f (snd p))"
proof -
  have notin: "k \<notin> fst ` set (entries m)" using new by (simp add: map_of_eq_None_iff)
  then have "{p \<in> set (entries m). fst p \<noteq> k} = set (entries m)" by force
  moreover have "(k, v) \<notin> set (entries m)" using notin by force
  ultimately show ?thesis by (simp add: entries_insert [OF m])
qed

lemma total_remove:
  fixes f :: "'v \<Rightarrow> nat"
  assumes m: "invar m" and old: "map_of (entries m) k = Some v"
  shows "(\<Sum>p \<in> set (entries m). f (snd p)) = f v + (\<Sum>p \<in> set (entries (remove k m)). f (snd p))"
proof -
  have mem: "(k, v) \<in> set (entries m)" using old m by (simp add: lookup_iff)
  have "set (entries m) = Set.insert (k, v) {p \<in> set (entries m). fst p \<noteq> k}"
    using mem entries_unique [OF m] by auto
  then have "(\<Sum>p \<in> set (entries m). f (snd p))
      = (\<Sum>p \<in> Set.insert (k, v) {p \<in> set (entries m). fst p \<noteq> k}. f (snd p))"
    by simp
  also have "\<dots> = f v + (\<Sum>p \<in> {p \<in> set (entries m). fst p \<noteq> k}. f (snd p))"
    by (subst sum.insert) auto
  finally show ?thesis by (simp add: entries_remove [OF m])
qed

end

locale ordered_map = finite_map empty insert remove entries invar
  for empty :: "'m"
    and insert :: "'k::linorder \<Rightarrow> 'v \<Rightarrow> 'm \<Rightarrow> 'm"
    and remove :: "'k \<Rightarrow> 'm \<Rightarrow> 'm"
    and entries :: "'m \<Rightarrow> ('k \<times> 'v) list"
    and invar :: "'m \<Rightarrow> bool" +
  assumes ascending: "invar m \<Longrightarrow> sorted_wrt (<) (map fst (entries m))"
begin

lemma first_least:
  "invar m \<Longrightarrow> entries m = p # ps \<Longrightarrow> q \<in> set ps \<Longrightarrow> fst p < fst q"
  using ascending [of m] by auto

lemma ascending_le: "invar m \<Longrightarrow> sorted (map fst (entries m))"
  by (metis ascending strict_sorted_imp_sorted)

end

subsection \<open>HashMap\<close>

type_synonym ('k, 'v) hash_map = "('k \<times> 'v) list"

definition hm_insert :: "'k \<Rightarrow> 'v \<Rightarrow> ('k, 'v) hash_map \<Rightarrow> ('k, 'v) hash_map" where
  "hm_insert k v m = (k, v) # filter (\<lambda>p. fst p \<noteq> k) m"

definition hm_remove :: "'k \<Rightarrow> ('k, 'v) hash_map \<Rightarrow> ('k, 'v) hash_map" where
  "hm_remove k m = filter (\<lambda>p. fst p \<noteq> k) m"

definition hm_or_insert :: "'k \<Rightarrow> 'v \<Rightarrow> ('k, 'v) hash_map \<Rightarrow> ('k, 'v) hash_map" where
  "hm_or_insert k v m = (case map_of m k of None \<Rightarrow> hm_insert k v m | Some _ \<Rightarrow> m)"

definition hm_invar :: "('k, 'v) hash_map \<Rightarrow> bool" where
  "hm_invar m = distinct (map fst m)"

lemma distinct_fst_filter: "distinct (map fst m) \<Longrightarrow> distinct (map fst (filter P m))"
  by (induction m) auto

interpretation hmap: finite_map "[]" hm_insert hm_remove "\<lambda>m. m" hm_invar
  by unfold_locales
    (auto simp: hm_insert_def hm_remove_def hm_invar_def distinct_fst_filter)

lemma lookup_hm_remove [simp]: "map_of (hm_remove k m) k' = (if k' = k then None else map_of m k')"
  by (induction m) (auto simp: hm_remove_def)

lemma lookup_hm_insert [simp]: "map_of (hm_insert k v m) k' = (if k' = k then Some v else map_of m k')"
  using lookup_hm_remove [of k m k'] by (simp add: hm_insert_def hm_remove_def)

lemma hm_invar_or_insert: "hm_invar m \<Longrightarrow> hm_invar (hm_or_insert k v m)"
  by (auto simp: hm_or_insert_def hmap.invar_insert split: option.splits)

lemma lookup_or_insert:
  assumes "hm_invar m"
  shows "map_of (hm_or_insert k v m) k' =
    (if k' = k \<and> map_of m k = None then Some v else map_of m k')"
  using hmap.lookup_insert [OF assms, of k v k']
  by (auto simp: hm_or_insert_def split: option.splits)

lemma length_hm_remove:
  assumes "hm_invar m" and "map_of m k = Some v"
  shows "length m = Suc (length (hm_remove k m))"
  using assms
proof (induction m)
  case (Cons p m)
  show ?case
  proof (cases "fst p = k")
    case True
    with Cons.prems have "k \<notin> fst ` set m" by (simp add: hm_invar_def)
    then have "\<forall>q \<in> set m. fst q \<noteq> k" by (metis image_eqI)
    then have "filter (\<lambda>q. fst q \<noteq> k) m = m" by simp
    with True show ?thesis by (simp add: hm_remove_def)
  next
    case False
    with Cons show ?thesis by (cases p) (auto simp: hm_invar_def hm_remove_def)
  qed
qed simp

lemma hm_remove_absent: "map_of m k = None \<Longrightarrow> hm_remove k m = m"
  by (auto simp: hm_remove_def filter_id_conv map_of_eq_None_iff)

subsection \<open>BTreeMap\<close>

type_synonym ('k, 'v) btree_map = "('k \<times> 'v) list"

definition bt_insert :: "'k::linorder \<Rightarrow> 'v \<Rightarrow> ('k, 'v) btree_map \<Rightarrow> ('k, 'v) btree_map" where
  "bt_insert k v m = filter (\<lambda>p. fst p < k) m @ (k, v) # filter (\<lambda>p. k < fst p) m"

definition bt_remove :: "'k::linorder \<Rightarrow> ('k, 'v) btree_map \<Rightarrow> ('k, 'v) btree_map" where
  "bt_remove k m = filter (\<lambda>p. fst p \<noteq> k) m"

definition bt_invar :: "('k::linorder, 'v) btree_map \<Rightarrow> bool" where
  "bt_invar m = sorted_wrt (<) (map fst m)"

lemma bt_invar_filter: "bt_invar m \<Longrightarrow> bt_invar (filter P m)"
  by (induction m) (auto simp: bt_invar_def)

lemma bt_invar_insert: "bt_invar m \<Longrightarrow> bt_invar (bt_insert k v m)"
  using bt_invar_filter [of m "\<lambda>p. fst p < k"] bt_invar_filter [of m "\<lambda>p. k < fst p"]
  by (fastforce simp: bt_insert_def bt_invar_def sorted_wrt_append)

lemma set_bt_insert:
  "set (bt_insert k v m) = {(k, v)} \<union> {p \<in> set m. fst p \<noteq> k}"
  by (auto simp: bt_insert_def)

interpretation bmap: ordered_map "[]" bt_insert bt_remove "\<lambda>m. m" bt_invar
proof unfold_locales
  show "distinct (map fst m)" if "bt_invar m" for m :: "('a \<times> 'b) list"
    using that by (simp add: bt_invar_def strict_sorted_iff)
qed (auto simp: set_bt_insert bt_remove_def bt_invar_insert bt_invar_filter,
     simp_all add: bt_invar_def)

lemma map_of_filter_fst: "map_of (filter (\<lambda>p. P (fst p)) m) k = (if P k then map_of m k else None)"
  by (induction m) auto

lemma lookup_bt_insert [simp]: "map_of (bt_insert k v m) k' = (if k' = k then Some v else map_of m k')"
  using map_of_filter_fst [of "\<lambda>x. x < k" m k'] map_of_filter_fst [of "\<lambda>x. k < x" m k']
  by (auto simp: bt_insert_def map_add_def split: option.splits)

lemma bt_insert_same:
  assumes "bt_invar m" and "map_of m k = Some v"
  shows "bt_insert k v m = m"
  using assms
proof (induction m)
  case (Cons p m)
  obtain k' v' where p: "p = (k', v')" by fastforce
  have m: "bt_invar m" "\<forall>q \<in> set m. k' < fst q" using Cons.prems(1) p by (auto simp: bt_invar_def)
  show ?case
  proof (cases "k = k'")
    case True
    then have "filter (\<lambda>p. fst p < k) m = []" "filter (\<lambda>p. k < fst p) m = m"
      using m(2) by (auto simp: filter_empty_conv filter_id_conv dest: bspec)
    with True Cons.prems p show ?thesis by (simp add: bt_insert_def)
  next
    case False
    with Cons.prems p have look: "map_of m k = Some v" by simp
    then have "k' < k" using m(2) by (auto dest!: map_of_SomeD)
    with Cons.IH [OF m(1) look] p show ?thesis by (simp add: bt_insert_def)
  qed
qed simp

end
