(* ===== verification/Verification_Cache.thy ===== *)
theory Verification_Cache
  imports Transactions Std_Maps
begin

section \<open>The verification cache (crypto/cache.rs) and the verifiers behind it\<close>

text \<open>
  The cache of positive verification results, its keys and eviction, and the three cached or curve
  based verifiers of \<open>consensus/validation.rs\<close>: ring signatures, range proofs and the balance proof.
  What lies outside the repository is the record \<open>crypto\<close>: BLAKE3, borsh, Ristretto decompression,
  and the proof systems \<open>clsag_verify\<close> and the range-proof verifiers, which sit on curve25519.
  Ristretto points are an arbitrary abelian group. Time is the number of seconds since the origin
  of the monotonic clock.
\<close>

record 'p crypto =
  cr_blake3 :: "bytes \<Rightarrow> hash"
  cr_borsh_tx :: "transaction \<Rightarrow> bytes option"
  cr_borsh_sig :: "clsag_signature \<Rightarrow> bytes option"
  cr_decompress :: "bytes \<Rightarrow> 'p option"
  cr_clsag_verify :: "bytes \<Rightarrow> ('p \<times> 'p) list \<Rightarrow> 'p \<Rightarrow> clsag_signature \<Rightarrow> bool"
  cr_parse_range_proof :: "bytes \<Rightarrow> (u8 \<times> bytes) option"
  cr_verify_legacy :: "bytes list \<Rightarrow> bytes \<Rightarrow> bool"
  cr_verify_bp_plus :: "bytes list \<Rightarrow> bytes \<Rightarrow> bool"
  cr_commit_zero :: "nat \<Rightarrow> bytes"

subsection \<open>The cache\<close>

definition MAX_CACHE_SIZE :: nat where "MAX_CACHE_SIZE = 100000"

type_synonym cache_map = "(hash, nat) hash_map"

record verification_cache =
  bulletproof_cache :: cache_map
  ring_sig_cache :: cache_map
  cache_hits :: nat
  cache_misses :: nat

definition cache_new :: verification_cache where
  "cache_new = \<lparr> bulletproof_cache = [], ring_sig_cache = [], cache_hits = 0, cache_misses = 0 \<rparr>"

definition cache_clear :: "verification_cache \<Rightarrow> verification_cache" where
  "cache_clear c = c \<lparr> bulletproof_cache := [], ring_sig_cache := [], cache_hits := 0, cache_misses := 0 \<rparr>"

definition evict_old :: "nat \<Rightarrow> cache_map \<Rightarrow> cache_map" where
  "evict_old now m =
     (let m = (if 3600 \<le> now then filter (\<lambda>e. now - 3600 < snd e) m else m)
      in if MAX_CACHE_SIZE \<le> length m
         then fold (\<lambda>e. hm_remove (fst e)) (take (MAX_CACHE_SIZE div 10) (sort_key snd m)) m
         else m)"

definition cache_put :: "nat \<Rightarrow> hash \<Rightarrow> bool \<Rightarrow> cache_map \<Rightarrow> cache_map" where
  "cache_put now k valid m =
     (if \<not> valid then m
      else hm_insert k now (if MAX_CACHE_SIZE \<le> length m then evict_old now m else m))"

definition check_bulletproof :: "nat \<Rightarrow> hash \<Rightarrow> verification_cache \<Rightarrow> bool option \<times> verification_cache" where
  "check_bulletproof now k c =
     (case map_of (bulletproof_cache c) k of
        Some _ \<Rightarrow> (Some True, c \<lparr> bulletproof_cache := hm_insert k now (bulletproof_cache c),
                                 cache_hits := cache_hits c + 1 \<rparr>)
      | None \<Rightarrow> (None, c \<lparr> cache_misses := cache_misses c + 1 \<rparr>))"

definition cache_bulletproof :: "nat \<Rightarrow> hash \<Rightarrow> bool \<Rightarrow> verification_cache \<Rightarrow> verification_cache" where
  "cache_bulletproof now k valid c =
     c \<lparr> bulletproof_cache := cache_put now k valid (bulletproof_cache c) \<rparr>"

definition check_ring_sig :: "nat \<Rightarrow> hash \<Rightarrow> verification_cache \<Rightarrow> bool option \<times> verification_cache" where
  "check_ring_sig now k c =
     (case map_of (ring_sig_cache c) k of
        Some _ \<Rightarrow> (Some True, c \<lparr> ring_sig_cache := hm_insert k now (ring_sig_cache c),
                                 cache_hits := cache_hits c + 1 \<rparr>)
      | None \<Rightarrow> (None, c \<lparr> cache_misses := cache_misses c + 1 \<rparr>))"

definition cache_ring_sig :: "nat \<Rightarrow> hash \<Rightarrow> bool \<Rightarrow> verification_cache \<Rightarrow> verification_cache" where
  "cache_ring_sig now k valid c =
     c \<lparr> ring_sig_cache := cache_put now k valid (ring_sig_cache c) \<rparr>"

subsection \<open>Keys\<close>

definition proof_cache_key :: "'p crypto \<Rightarrow> bytes \<Rightarrow> bytes \<Rightarrow> hash" where
  "proof_cache_key cr proof_data commitment_data =
     cr_blake3 cr (ascii_bytes ''COINCYNC_PROOF_CACHE_v1'' @ proof_data @ commitment_data)"

definition ring_sig_cache_key :: "'p crypto \<Rightarrow> bytes \<Rightarrow> bytes \<Rightarrow> hash" where
  "ring_sig_cache_key cr message sig_data =
     cr_blake3 cr (ascii_bytes ''COINCYNC_RINGSIG_CACHE_v1'' @ message @ sig_data)"

definition statement_preimage :: "bytes \<Rightarrow> bytes \<Rightarrow> bytes \<Rightarrow> bytes \<Rightarrow> bytes" where
  "statement_preimage message sig_data ring_data pseudo_output =
     ascii_bytes ''COINCYNC_RINGSIG_STATEMENT_CACHE_v1''
     @ concat (map (\<lambda>field. le_bytes 8 (length field) @ field) [message, sig_data, ring_data])
     @ pseudo_output"

definition ring_sig_statement_cache_key :: "'p crypto \<Rightarrow> bytes \<Rightarrow> bytes \<Rightarrow> bytes \<Rightarrow> bytes \<Rightarrow> hash" where
  "ring_sig_statement_cache_key cr message sig_data ring_data pseudo_output =
     cr_blake3 cr (statement_preimage message sig_data ring_data pseudo_output)"

subsection \<open>Cached verifiers\<close>

text \<open>\<open>collect::<Option<Vec<_>>>\<close>: all or nothing.\<close>

fun collect_options :: "'a option list \<Rightarrow> 'a list option" where
  "collect_options [] = Some []"
| "collect_options (None # xs) = None"
| "collect_options (Some a # xs) = map_option ((#) a) (collect_options xs)"

definition ring_points :: "'p crypto \<Rightarrow> ring_member list \<Rightarrow> ('p \<times> 'p) list option" where
  "ring_points cr ms = collect_options (map (\<lambda>rm.
     case cr_decompress cr (rm_public_key rm) of
       None \<Rightarrow> None
     | Some pk \<Rightarrow> map_option (\<lambda>c. (pk, c)) (cr_decompress cr (rm_commitment rm))) ms)"

text \<open>What the verifier computes on a cache miss.\<close>

definition ring_signature_valid :: "'p crypto \<Rightarrow> transaction \<Rightarrow> tx_input \<Rightarrow> bool" where
  "ring_signature_valid cr tx inp =
     (case ring_points cr (ring_members inp) of
        None \<Rightarrow> False
      | Some ring \<Rightarrow>
          (case cr_decompress cr (pseudo_output_commitment inp) of
             None \<Rightarrow> False
           | Some pseudo \<Rightarrow>
               cr_clsag_verify cr (hash_bytes (signing_hash (cr_blake3 cr) tx)) ring pseudo (signature inp)))"

definition verify_ring_signature ::
    "'p crypto \<Rightarrow> nat \<Rightarrow> transaction \<Rightarrow> tx_input \<Rightarrow> verification_cache \<Rightarrow> bool \<times> verification_cache" where
  "verify_ring_signature cr now tx inp c =
     (case cr_borsh_sig cr (signature inp) of
        None \<Rightarrow> (False, c)
      | Some sig_bytes \<Rightarrow>
          let key = ring_sig_cache_key cr (hash_bytes (signing_hash (cr_blake3 cr) tx)) sig_bytes
          in case check_ring_sig now key c of
               (Some cached_result, c) \<Rightarrow> (cached_result, c)
             | (None, c) \<Rightarrow>
                 let valid = ring_signature_valid cr tx inp
                 in (valid, cache_ring_sig now key valid c))"

definition RANGE_PROOF_VERSION :: u8 where "RANGE_PROOF_VERSION = 2"
definition RANGE_PROOF_VERSION_BP_PLUS :: u8 where "RANGE_PROOF_VERSION_BP_PLUS = 3"
definition BULLETPROOFS_PLUS_HEIGHT :: nat where "BULLETPROOFS_PLUS_HEIGHT = 0"

definition verify_range_proofs_dispatch :: "'p crypto \<Rightarrow> bytes list \<Rightarrow> u8 \<times> bytes \<Rightarrow> nat \<Rightarrow> bool" where
  "verify_range_proofs_dispatch cr commitments proof current_height =
     (let bp_plus_active = BULLETPROOFS_PLUS_HEIGHT \<le> current_height
      in if fst proof = RANGE_PROOF_VERSION \<and> \<not> bp_plus_active
           then cr_verify_legacy cr commitments (snd proof)
         else if fst proof = RANGE_PROOF_VERSION_BP_PLUS \<and> bp_plus_active
           then cr_verify_bp_plus cr commitments (snd proof)
         else False)"

definition verify_output_range_proofs ::
    "'p crypto \<Rightarrow> nat \<Rightarrow> transaction \<Rightarrow> nat \<Rightarrow> verification_cache \<Rightarrow> bool \<times> verification_cache" where
  "verify_output_range_proofs cr now tx current_height c =
     (if is_coinbase tx then (True, c)
      else if range_proof tx = [] then (False, c)
      else case cr_parse_range_proof cr (range_proof tx) of
        None \<Rightarrow> (False, c)
      | Some proof \<Rightarrow>
          let commitments = map commitment (tx_outputs tx)
          in if \<exists>b \<in> set commitments. cr_decompress cr b = None then (False, c)
             else
               let key = proof_cache_key cr (range_proof tx) (concat commitments)
               in case check_bulletproof now key c of
                    (Some cached_result, c) \<Rightarrow> (cached_result, c)
                  | (None, c) \<Rightarrow>
                      let valid = verify_range_proofs_dispatch cr commitments proof current_height
                      in (valid, cache_bulletproof now key valid c))"

text \<open>The balance proof adds decompressed points; any failure to decompress rejects.\<close>

fun sum_pseudo_outputs :: "'p::ab_group_add crypto \<Rightarrow> 'p \<Rightarrow> tx_input list \<Rightarrow> 'p option" where
  "sum_pseudo_outputs cr acc [] = Some acc"
| "sum_pseudo_outputs cr acc (i # is) =
     (case cr_decompress cr (pseudo_output_commitment i) of
        None \<Rightarrow> None
      | Some p \<Rightarrow> if p = 0 then None else sum_pseudo_outputs cr (acc + p) is)"

fun sum_outputs :: "'p::ab_group_add crypto \<Rightarrow> 'p \<Rightarrow> tx_output list \<Rightarrow> 'p option" where
  "sum_outputs cr acc [] = Some acc"
| "sum_outputs cr acc (out # os) =
     (case cr_decompress cr (commitment out) of
        None \<Rightarrow> None
      | Some p \<Rightarrow> sum_outputs cr (acc + p) os)"

definition verify_balance_proof :: "'p::ab_group_add crypto \<Rightarrow> transaction \<Rightarrow> bool" where
  "verify_balance_proof cr tx =
     (if is_coinbase tx then True
      else if tx_inputs tx = [] then False
      else if tx_outputs tx = [] then False
      else case sum_pseudo_outputs cr 0 (tx_inputs tx) of
        None \<Rightarrow> False
      | Some input_sum \<Rightarrow>
          (case sum_outputs cr 0 (tx_outputs tx) of
             None \<Rightarrow> False
           | Some output_sum \<Rightarrow>
               (case cr_decompress cr (cr_commit_zero cr (as_atomic (tx_fee tx))) of
                  None \<Rightarrow> False
                | Some fee_point \<Rightarrow> input_sum = output_sum + fee_point)))"

subsection \<open>The cache stays bounded\<close>

lemma fold_hm_remove: "fold (\<lambda>e. hm_remove (fst e)) es m = filter (\<lambda>p. fst p \<notin> fst ` set es) m"
  by (induction es arbitrary: m) (auto simp: hm_remove_def intro!: filter_cong)

lemma length_evict_oldest:
  assumes "hm_invar m"
  shows "length (fold (\<lambda>e. hm_remove (fst e)) (take n (sort_key f m)) m) = length m - n"
proof -
  let ?es = "take n (sort_key f m)"
  have d: "distinct m" using assms by (simp add: hm_invar_def distinct_map)
  have sub: "set ?es \<subseteq> set m" by (metis set_take_subset set_sort)
  have inj: "inj_on fst (set m)" using assms by (simp add: hm_invar_def distinct_map)
  have "fst p \<in> fst ` set ?es \<longleftrightarrow> p \<in> set ?es" if "p \<in> set m" for p
    using inj_on_image_mem_iff [OF inj that sub] .
  then have "fold (\<lambda>e. hm_remove (fst e)) ?es m = filter (\<lambda>p. p \<notin> set ?es) m"
    unfolding fold_hm_remove by (intro filter_cong refl) simp
  also have "length \<dots> = card (set m - set ?es)"
    using d by (simp add: distinct_card [symmetric] set_diff_eq)
  also have "\<dots> = length m - n"
    using d sub by (simp add: card_Diff_subset distinct_card distinct_take min_def)
  finally show ?thesis .
qed

definition cache_inv :: "cache_map \<Rightarrow> bool" where
  "cache_inv m = (hm_invar m \<and> length m \<le> MAX_CACHE_SIZE)"

lemma length_hm_insert: "length (hm_insert k v m) \<le> Suc (length m)"
  by (simp add: hm_insert_def le_imp_less_Suc less_imp_le)

lemma length_hm_insert_present:
  "hm_invar m \<Longrightarrow> map_of m k = Some w \<Longrightarrow> length (hm_insert k v m) = length m"
  using length_hm_remove [of m k w] by (simp add: hm_insert_def hm_remove_def)

lemma evict_old_inv: "hm_invar m \<Longrightarrow> hm_invar (evict_old now m)"
  by (simp add: evict_old_def Let_def fold_hm_remove hm_invar_def distinct_fst_filter)

lemma evict_old_room:
  assumes "cache_inv m" shows "length (evict_old now m) < MAX_CACHE_SIZE"
proof -
  let ?m = "if 3600 \<le> now then filter (\<lambda>e. now - 3600 < snd e) m else m"
  have inv: "hm_invar ?m" and len: "length ?m \<le> MAX_CACHE_SIZE"
    using assms le_trans [OF length_filter_le] by (auto simp: cache_inv_def hm_invar_def distinct_fst_filter)
  show ?thesis
    using len length_evict_oldest [OF inv, of "MAX_CACHE_SIZE div 10" snd]
    by (simp add: evict_old_def Let_def MAX_CACHE_SIZE_def split: if_splits)
qed

text \<open>The cache never grows past its limit. Whatever is inserted or looked up, both maps keep one
  entry per key and at most \<open>MAX_CACHE_SIZE\<close> entries: an insertion into a full map first makes
  room.\<close>

theorem cache_bounded:
  assumes "cache_inv m"
  shows "cache_inv (cache_put now k valid m) \<and> (map_of m k = Some t \<longrightarrow> cache_inv (hm_insert k now m))"
proof -
  have "hm_invar (cache_put now k valid m)"
    using assms by (auto simp: cache_put_def cache_inv_def evict_old_inv hmap.invar_insert)
  moreover have "length (cache_put now k valid m) \<le> MAX_CACHE_SIZE"
    using assms evict_old_room [OF assms, of now] length_hm_insert [of k now "evict_old now m"]
      length_hm_insert [of k now m]
    by (auto simp: cache_put_def cache_inv_def)
  ultimately show ?thesis
    using assms by (auto simp: cache_inv_def hmap.invar_insert length_hm_insert_present)
qed

theorem cache_bounded_witness:
  "cache_inv (cache_put 5 (Hash [1]) True []) \<and> cache_inv (hm_insert (Hash [1]) 6 [(Hash [1], 5)])"
  using cache_bounded [of "[]" 5 "Hash [1]" True] cache_bounded [of "[(Hash [1], 5)]" 6 "Hash [1]" True 5]
  by (simp add: cache_inv_def hm_invar_def MAX_CACHE_SIZE_def)

subsection \<open>What a cached ring signature says\<close>

text \<open>\<open>answers cr Q c\<close>: every ring-signature entry was put there by a successful verification of some
  transaction whose hashed strings are in \<open>Q\<close>.\<close>

definition hashed_strings :: "'p crypto \<Rightarrow> transaction \<Rightarrow> tx_input \<Rightarrow> bytes set" where
  "hashed_strings cr tx inp =
     {signing_preimage tx} \<union>
     (case cr_borsh_sig cr (signature inp) of
        None \<Rightarrow> {}
      | Some sig \<Rightarrow> {ascii_bytes ''COINCYNC_RINGSIG_CACHE_v1''
           @ hash_bytes (signing_hash (cr_blake3 cr) tx) @ sig})"

definition verified_key :: "'p crypto \<Rightarrow> bytes set \<Rightarrow> hash \<Rightarrow> bool" where
  "verified_key cr Q k =
     (\<exists>tx inp sig. wf_transaction tx \<and> inp \<in> set (tx_inputs tx) \<and> hashed_strings cr tx inp \<subseteq> Q
        \<and> cr_borsh_sig cr (signature inp) = Some sig
        \<and> k = ring_sig_cache_key cr (hash_bytes (signing_hash (cr_blake3 cr) tx)) sig
        \<and> ring_signature_valid cr tx inp)"

definition answers :: "'p crypto \<Rightarrow> bytes set \<Rightarrow> verification_cache \<Rightarrow> bool" where
  "answers cr Q c = (\<forall>k. map_of (ring_sig_cache c) k \<noteq> None \<longrightarrow> verified_key cr Q k)"

lemma evict_old_subset: "map_of (evict_old now m) k \<noteq> None \<Longrightarrow> map_of m k \<noteq> None"
  by (auto simp: evict_old_def Let_def fold_hm_remove map_of_eq_None_iff split: if_splits)

lemma cache_put_keys:
  "map_of (cache_put now k valid m) k' \<noteq> None \<Longrightarrow> (valid \<and> k' = k) \<or> map_of m k' \<noteq> None"
  using evict_old_subset [of now m k'] by (auto simp: cache_put_def split: if_splits)

lemma answers_verify:
  assumes "answers cr Q c" and "wf_transaction tx" and "inp \<in> set (tx_inputs tx)"
    and "hashed_strings cr tx inp \<subseteq> Q"
  shows "answers cr Q (snd (verify_ring_signature cr now tx inp c))"
proof (cases "cr_borsh_sig cr (signature inp)")
  case None
  with assms(1) show ?thesis by (simp add: verify_ring_signature_def)
next
  case (Some sig)
  let ?k = "ring_sig_cache_key cr (hash_bytes (signing_hash (cr_blake3 cr) tx)) sig"
  have new: "ring_signature_valid cr tx inp \<Longrightarrow> verified_key cr Q ?k"
    using assms(2-4) Some unfolding verified_key_def by blast
  show ?thesis
  proof (cases "map_of (ring_sig_cache c) ?k")
    case (Some t)
    with assms(1) \<open>cr_borsh_sig cr (signature inp) = Some sig\<close> show ?thesis
      by (auto simp: answers_def verify_ring_signature_def check_ring_sig_def Let_def)
  next
    case None
    with \<open>cr_borsh_sig cr (signature inp) = Some sig\<close>
    have "ring_sig_cache (snd (verify_ring_signature cr now tx inp c))
        = cache_put now ?k (ring_signature_valid cr tx inp) (ring_sig_cache c)"
      by (simp add: verify_ring_signature_def check_ring_sig_def cache_ring_sig_def Let_def)
    moreover have "verified_key cr Q k'"
      if "map_of (cache_put now ?k (ring_signature_valid cr tx inp) (ring_sig_cache c)) k' \<noteq> None" for k'
      using cache_put_keys [OF that] new assms(1) unfolding answers_def by blast
    ultimately show ?thesis by (simp add: answers_def)
  qed
qed

lemma cached_key_cases:
  assumes "verify_ring_signature cr now tx inp c = (True, c')"
  obtains sig where "cr_borsh_sig cr (signature inp) = Some sig"
    and "map_of (ring_sig_cache c) (ring_sig_cache_key cr (hash_bytes (signing_hash (cr_blake3 cr) tx)) sig) \<noteq> None
       \<or> ring_signature_valid cr tx inp"
  using assms
  by (auto simp: verify_ring_signature_def check_ring_sig_def Let_def split: option.splits)

lemma ring_key_inj:
  assumes "inj_on (cr_blake3 cr) Q" and "\<And>x. wf_hash (cr_blake3 cr x)"
    and "hashed_strings cr tx inp \<subseteq> Q" and "hashed_strings cr tx' inp' \<subseteq> Q"
    and "cr_borsh_sig cr (signature inp) = Some sig" and "cr_borsh_sig cr (signature inp') = Some sig'"
    and "ring_sig_cache_key cr (hash_bytes (signing_hash (cr_blake3 cr) tx)) sig
       = ring_sig_cache_key cr (hash_bytes (signing_hash (cr_blake3 cr) tx')) sig'"
  shows "signing_preimage tx = signing_preimage tx' \<and> sig = sig'"
proof -
  let ?h = "\<lambda>t. hash_bytes (signing_hash (cr_blake3 cr) t)"
  have len: "length (?h t) = 32" for t using assms(2) by (simp add: wf_hash_def signing_hash_def hash_concat_def)
  have "?h tx @ sig = ?h tx' @ sig'"
    using assms(3-7) inj_onD [OF assms(1), of "ascii_bytes ''COINCYNC_RINGSIG_CACHE_v1'' @ ?h tx @ sig"
        "ascii_bytes ''COINCYNC_RINGSIG_CACHE_v1'' @ ?h tx' @ sig'"]
    by (simp add: hashed_strings_def ring_sig_cache_key_def)
  then have sig: "sig = sig'" and h: "?h tx = ?h tx'" using len by (simp_all add: append_eq_append_conv)
  from h have "cr_blake3 cr (signing_preimage tx) = cr_blake3 cr (signing_preimage tx')"
    by (simp add: signing_hash_def hash_concat_def hash.expand)
  with sig show ?thesis using inj_onD [OF assms(1)] assms(3,4) by (auto simp: hashed_strings_def)
qed

text \<open>What an accepted ring signature means. If every cache entry stems from a successful verification,
  then an input is accepted only if its signature verifies for some input of a transaction with
  the same signed content (the same rings, pseudo-outputs, key images, outputs and fee, barring a
  BLAKE3 collision). It need not be this input: the cache key does not name the ring or the
  pseudo-output.\<close>

theorem cached_signature_meaning:
  assumes "answers cr Q c" and "inj_on (cr_blake3 cr) Q" and "\<And>x. wf_hash (cr_blake3 cr x)"
    and "wf_transaction tx" and "inp \<in> set (tx_inputs tx)" and "hashed_strings cr tx inp \<subseteq> Q"
    and "verify_ring_signature cr now tx inp c = (True, c')"
  shows "answers cr Q c'
       \<and> (\<exists>tx0 inp0. inp0 \<in> set (tx_inputs tx0) \<and> ring_signature_valid cr tx0 inp0
             \<and> signing_preimage tx0 = signing_preimage tx
             \<and> cr_borsh_sig cr (signature inp0) = cr_borsh_sig cr (signature inp))"
proof
  show "answers cr Q c'" using answers_verify [OF assms(1,4,5,6), of now] assms(7) by simp
  obtain sig where s: "cr_borsh_sig cr (signature inp) = Some sig"
    and "map_of (ring_sig_cache c) (ring_sig_cache_key cr (hash_bytes (signing_hash (cr_blake3 cr) tx)) sig) \<noteq> None
       \<or> ring_signature_valid cr tx inp"
    using cached_key_cases [OF assms(7)] .
  then consider "ring_signature_valid cr tx inp"
    | "verified_key cr Q (ring_sig_cache_key cr (hash_bytes (signing_hash (cr_blake3 cr) tx)) sig)"
    using assms(1) unfolding answers_def by blast
  then show "\<exists>tx0 inp0. inp0 \<in> set (tx_inputs tx0) \<and> ring_signature_valid cr tx0 inp0
             \<and> signing_preimage tx0 = signing_preimage tx
             \<and> cr_borsh_sig cr (signature inp0) = cr_borsh_sig cr (signature inp)"
  proof cases
    case 1
    with assms(5) show ?thesis by blast
  next
    case 2
    then obtain tx0 inp0 sig0 where
      v: "inp0 \<in> set (tx_inputs tx0)" "hashed_strings cr tx0 inp0 \<subseteq> Q"
        "cr_borsh_sig cr (signature inp0) = Some sig0" "ring_signature_valid cr tx0 inp0"
      and k: "ring_sig_cache_key cr (hash_bytes (signing_hash (cr_blake3 cr) tx)) sig
        = ring_sig_cache_key cr (hash_bytes (signing_hash (cr_blake3 cr) tx0)) sig0"
      unfolding verified_key_def by blast
    from ring_key_inj [OF assms(2,3,6) v(2) s v(3) k] v s show ?thesis by auto
  qed
qed

lemma shared_signature:
  assumes "cr_borsh_sig cr (signature inp) \<noteq> None" and "ring_signature_valid cr tx inp"
    and "signature inp' = signature inp"
  shows "fst (verify_ring_signature cr now tx inp c)
       \<and> fst (verify_ring_signature cr now tx inp' (snd (verify_ring_signature cr now tx inp c)))"
proof -
  obtain sig where s: "cr_borsh_sig cr (signature inp) = Some sig" using assms(1) by auto
  show ?thesis
    using s assms(2,3)
    by (auto simp: verify_ring_signature_def check_ring_sig_def cache_ring_sig_def cache_put_def Let_def
        split: option.splits)
qed

text \<open>The ring-signature cache accepts a signature for the wrong input. Once one input of a transaction
  has been verified, every other input that carries the same signature is accepted, whatever its
  ring, key image and pseudo-output commitment are, because the key only covers the signing hash
  and the signature bytes.\<close>

theorem shared_signature_accepted:
  assumes "cr_borsh_sig cr (signature inp) \<noteq> None" and "ring_signature_valid cr tx inp"
    and "signature inp' = signature inp"
  shows "fst (verify_ring_signature cr now tx inp c)
       \<and> fst (verify_ring_signature cr now tx inp' (snd (verify_ring_signature cr now tx inp c)))"
  using assms by (rule shared_signature)

text \<open>A concrete instance: a toy signature scheme that accepts exactly the pseudo-output 5.\<close>

definition sample_crypto :: "int crypto" where
  "sample_crypto = \<lparr> cr_blake3 = (\<lambda>bs. Hash (replicate 32 (hd bs))), cr_borsh_tx = (\<lambda>_. None),
     cr_borsh_sig = (\<lambda>sig. Some (clsag_c1 sig)),
     cr_decompress = (\<lambda>bs. if bs = [] then None else Some (uint (hd bs))),
     cr_clsag_verify = (\<lambda>_ _ pseudo _. pseudo = 5), cr_parse_range_proof = (\<lambda>bs. Some (3, bs)),
     cr_verify_legacy = (\<lambda>_ _. True), cr_verify_bp_plus = (\<lambda>_ _. True),
     cr_commit_zero = (\<lambda>v. [word_of_nat v]) \<rparr>"

definition sample_signature :: clsag_signature where
  "sample_signature = \<lparr> clsag_key_image = [1], clsag_commitment_image = [2], clsag_c1 = [3], clsag_responses = [] \<rparr>"

definition sample_input :: "u8 \<Rightarrow> u8 \<Rightarrow> tx_input" where
  "sample_input k p = \<lparr> key_image = replicate 32 k, ring_members = [], signature = sample_signature,
     pseudo_output_commitment = replicate 32 p \<rparr>"

definition sample_tx :: transaction where
  "sample_tx = \<lparr> tx_version = 1, tx_ty = Transfer, tx_inputs = [sample_input 1 5, sample_input 2 200],
     tx_outputs = [], tx_fee = Amount 7, range_proof = [], tx_extra = [] \<rparr>"

lemma sample_valid:
  "ring_signature_valid sample_crypto tx (sample_input 1 5)"
  "\<not> ring_signature_valid sample_crypto tx (sample_input 2 200)"
  "\<exists>sig. cr_borsh_sig sample_crypto (signature (sample_input k p)) = Some sig"
  "signature (sample_input k p) = signature (sample_input k' p')"
  by (simp_all add: sample_crypto_def ring_signature_valid_def ring_points_def sample_input_def)

theorem shared_signature_accepted_witness:
  "\<not> ring_signature_valid sample_crypto sample_tx (sample_input 2 200)
   \<and> fst (verify_ring_signature sample_crypto 0 sample_tx (sample_input 2 200)
        (snd (verify_ring_signature sample_crypto 0 sample_tx (sample_input 1 5) cache_new)))"
  using shared_signature_accepted [of sample_crypto "sample_input 1 5" sample_tx "sample_input 2 200" 0 cache_new]
    sample_valid
  by auto

lemma sample_wf: "wf_transaction sample_tx"
  by (simp add: sample_tx_def wf_transaction_def sample_input_def wf_input_def wf_amount_def u64_max_def)

lemma sample_inj:
  "inj_on (cr_blake3 sample_crypto) (hashed_strings sample_crypto sample_tx (sample_input k p))"
  by (auto simp: inj_on_def hashed_strings_def sample_crypto_def signing_preimage_def TX_SIGN_DOMAIN_TAG_def
      ascii_bytes_def split: option.splits)

theorem cached_signature_meaning_witness:
  "answers sample_crypto (hashed_strings sample_crypto sample_tx (sample_input 1 5))
     (snd (verify_ring_signature sample_crypto 0 sample_tx (sample_input 1 5) cache_new))
   \<and> (\<exists>tx0 inp0. inp0 \<in> set (tx_inputs tx0) \<and> ring_signature_valid sample_crypto tx0 inp0
        \<and> signing_preimage tx0 = signing_preimage sample_tx
        \<and> cr_borsh_sig sample_crypto (signature inp0) = cr_borsh_sig sample_crypto (signature (sample_input 1 5)))"
proof (rule cached_signature_meaning [where now = 0])
  show "answers sample_crypto (hashed_strings sample_crypto sample_tx (sample_input 1 5)) cache_new"
    by (simp add: answers_def cache_new_def)
  show "wf_hash (cr_blake3 sample_crypto x)" for x by (simp add: sample_crypto_def wf_hash_def)
  show "sample_input 1 5 \<in> set (tx_inputs sample_tx)" by (simp add: sample_tx_def)
  show "verify_ring_signature sample_crypto 0 sample_tx (sample_input 1 5) cache_new
      = (True, snd (verify_ring_signature sample_crypto 0 sample_tx (sample_input 1 5) cache_new))"
    using sample_valid(1)
    by (simp add: verify_ring_signature_def check_ring_sig_def cache_new_def Let_def sample_crypto_def)
qed (simp_all add: sample_inj sample_wf)

subsection \<open>The key that names the whole statement\<close>

text \<open>\<open>ring_sig_statement_cache_key\<close>, the key of the batch verifier, hashes a string that determines the
  message, the signature, the ring and the pseudo-output: its length prefixes leave no other way
  to read it.\<close>

theorem statement_key_binding:
  assumes "statement_preimage m s r p = statement_preimage m' s' r' p'"
    and "length m < 2 ^ 64" and "length m' < 2 ^ 64" and "length s < 2 ^ 64" and "length s' < 2 ^ 64"
    and "length r < 2 ^ 64" and "length r' < 2 ^ 64"
  shows "m = m' \<and> s = s' \<and> r = r' \<and> p = p'"
proof -
  have field: "a = b \<and> x = y"
    if "le_bytes 8 (length a) @ a @ x = le_bytes 8 (length b) @ b @ y" "length a < 2 ^ 64" "length b < 2 ^ 64"
    for a b x y :: bytes
  proof -
    have "le_bytes 8 (length a) = le_bytes 8 (length b)" and ax: "a @ x = b @ y"
      using that(1) by (simp_all add: append_eq_append_conv)
    then have "length a mod 256 ^ 8 = length b mod 256 ^ 8" by (metis from_le_bytes_le_bytes)
    with that(2,3) have "length a = length b" by simp
    with ax show ?thesis by simp
  qed
  from assms(1) have "le_bytes 8 (length m) @ m @ (le_bytes 8 (length s) @ s @ (le_bytes 8 (length r) @ r @ p))
      = le_bytes 8 (length m') @ m' @ (le_bytes 8 (length s') @ s' @ (le_bytes 8 (length r') @ r' @ p'))"
    by (simp add: statement_preimage_def)
  from field [OF this assms(2,3)] field [of s "le_bytes 8 (length r) @ r @ p" s' "le_bytes 8 (length r') @ r' @ p'"]
    field [of r p r' p'] assms(4-7)
  show ?thesis by blast
qed

theorem statement_key_binding_witness:
  "statement_preimage [1] [2] [3] [4] \<noteq> statement_preimage [1] [2] [] [3, 4]"
  using statement_key_binding [of "[1]" "[2]" "[3]" "[4]" "[1]" "[2]" "[]" "[3, 4]"] by auto

subsection \<open>The balance proof\<close>

text \<open>
  \<open>commit v b\<close> stands for the Pedersen commitment to value \<open>v\<close> with blinding \<open>b\<close>; all that is used
  of it is that it is additive, as \<open>v * H + b * G\<close> is.
\<close>

definition additive_commitment :: "(int \<Rightarrow> int \<Rightarrow> 'p::ab_group_add) \<Rightarrow> bool" where
  "additive_commitment commit = (\<forall>v w b d. commit (v + w) (b + d) = commit v b + commit w d)"

definition opens :: "'p crypto \<Rightarrow> (int \<Rightarrow> int \<Rightarrow> 'p) \<Rightarrow> bytes \<Rightarrow> int \<times> int \<Rightarrow> bool" where
  "opens cr commit bs vb = (cr_decompress cr bs = Some (commit (fst vb) (snd vb)))"

lemma commit_sum:
  fixes commit :: "int \<Rightarrow> int \<Rightarrow> 'p::ab_group_add"
  assumes "additive_commitment commit"
  shows "commit 0 0 = 0" and "commit (v + w) (b + d) = commit v b + commit w d"
    and "commit (v - w) (b - d) = commit v b - commit w d"
proof -
  show add: "commit (v + w) (b + d) = commit v b + commit w d" for v w b d
    using assms by (simp add: additive_commitment_def)
  have "commit 0 0 + commit 0 0 = commit 0 0 + 0" using add [of 0 0 0 0] by simp
  then show "commit 0 0 = 0" by (rule add_left_imp_eq)
  have "commit v b = commit (v - w) (b - d) + commit w d" using add [of "v - w" w "b - d" d] by simp
  then show "commit (v - w) (b - d) = commit v b - commit w d" by simp
qed

lemma sum_pseudo_outputs_opening:
  assumes "additive_commitment commit"
    and "list_all2 (\<lambda>i. opens cr commit (pseudo_output_commitment i)) is os"
  shows "sum_pseudo_outputs cr acc is =
    (if \<exists>i \<in> set is. cr_decompress cr (pseudo_output_commitment i) = Some 0 then None
     else Some (acc + commit (sum_list (map fst os)) (sum_list (map snd os))))"
  using assms(2)
proof (induction "is" os arbitrary: acc rule: list_all2_induct)
  case Nil
  show ?case using commit_sum(1) [OF assms(1)] by simp
next
  case (Cons i "is" vb os)
  then show ?case by (auto simp: opens_def commit_sum(2) [OF assms(1)] add.assoc)
qed

lemma sum_outputs_opening:
  assumes "additive_commitment commit"
    and "list_all2 (\<lambda>out. opens cr commit (commitment out)) outs os"
  shows "sum_outputs cr acc outs = Some (acc + commit (sum_list (map fst os)) (sum_list (map snd os)))"
  using assms(2)
proof (induction outs os arbitrary: acc rule: list_all2_induct)
  case Nil
  show ?case using commit_sum(1) [OF assms(1)] by simp
next
  case (Cons out outs vb os)
  then show ?case by (simp add: opens_def commit_sum(2) [OF assms(1)] add.assoc)
qed

lemma balance_opening:
  assumes "additive_commitment commit"
    and "list_all2 (\<lambda>i. opens cr commit (pseudo_output_commitment i)) (tx_inputs tx) ins"
    and "list_all2 (\<lambda>out. opens cr commit (commitment out)) (tx_outputs tx) outs"
    and "opens cr commit (cr_commit_zero cr (as_atomic (tx_fee tx))) (int (as_atomic (tx_fee tx)), 0)"
    and "\<not> is_coinbase tx"
  shows "verify_balance_proof cr tx \<longleftrightarrow>
    tx_inputs tx \<noteq> [] \<and> tx_outputs tx \<noteq> []
    \<and> (\<forall>i \<in> set (tx_inputs tx). cr_decompress cr (pseudo_output_commitment i) \<noteq> Some 0)
    \<and> commit (sum_list (map fst ins) - (sum_list (map fst outs) + int (as_atomic (tx_fee tx))))
        (sum_list (map snd ins) - sum_list (map snd outs)) = 0"
proof -
  let ?fee = "int (as_atomic (tx_fee tx))"
  have "commit (sum_list (map fst ins) - (sum_list (map fst outs) + ?fee)) (sum_list (map snd ins) - (sum_list (map snd outs) + 0))
      = commit (sum_list (map fst ins)) (sum_list (map snd ins))
        - (commit (sum_list (map fst outs)) (sum_list (map snd outs)) + commit ?fee 0)"
    by (simp only: commit_sum(2,3) [OF assms(1)])
  then show ?thesis
    using assms(4,5)
    by (auto simp: verify_balance_proof_def sum_pseudo_outputs_opening [OF assms(1,2)]
        sum_outputs_opening [OF assms(1,3)] opens_def)
qed

lemma sum_list_bounds:
  fixes xs :: "int list"
  assumes "\<forall>x \<in> set xs. 0 \<le> x \<and> x < b" and "0 \<le> b"
  shows "0 \<le> sum_list xs \<and> sum_list xs \<le> int (length xs) * b"
  using assms by (induction xs) (auto simp: algebra_simps)

text \<open>C5: no money is created. Let the pseudo-outputs, the outputs and the fee commitment open to amounts
  in range, let \<open>x\<close> be what the inputs hold in excess of the outputs and the fee, and \<open>y\<close> the
  difference of the blindings. The balance check passes exactly if no pseudo-output is the identity
  and the commitment to \<open>x\<close> with blinding \<open>y\<close> is the identity. So an accepted transaction spends
  exactly what it pays out plus the fee, or these openings, which its author knows, are themselves
  a discrete-logarithm relation between the generators: \<open>x\<close> is non-zero and below \<open>2 ^ 73\<close> (hence
  non-zero modulo the group order) and \<open>x * H + y * G = 0\<close>. Conversely an honest transaction,
  balanced in values and in blindings and with no identity pseudo-output, is accepted. That the
  commitments open to amounts in range is what the range proofs and the ring signatures are for.\<close>

theorem balance_proof_sound:
  fixes commit :: "int \<Rightarrow> int \<Rightarrow> 'p::ab_group_add" and ins outs :: "(int \<times> int) list" and tx
  defines "x \<equiv> sum_list (map fst ins) - (sum_list (map fst outs) + int (as_atomic (tx_fee tx)))"
    and "y \<equiv> sum_list (map snd ins) - sum_list (map snd outs)"
  assumes "additive_commitment commit"
    and "list_all2 (\<lambda>i. opens cr commit (pseudo_output_commitment i)) (tx_inputs tx) ins"
    and "list_all2 (\<lambda>out. opens cr commit (commitment out)) (tx_outputs tx) outs"
    and "opens cr commit (cr_commit_zero cr (as_atomic (tx_fee tx))) (int (as_atomic (tx_fee tx)), 0)"
    and "\<not> is_coinbase tx" and "tx_inputs tx \<noteq> []" and "tx_outputs tx \<noteq> []"
    and "\<forall>v \<in> set (map fst ins) \<union> set (map fst outs). 0 \<le> v \<and> v < 2 ^ 64"
    and "length (tx_inputs tx) \<le> 256" and "length (tx_outputs tx) \<le> 16" and "wf_amount (tx_fee tx)"
  shows "(verify_balance_proof cr tx \<longleftrightarrow>
            commit x y = 0 \<and> (\<forall>i \<in> set (tx_inputs tx). cr_decompress cr (pseudo_output_commitment i) \<noteq> Some 0))
       \<and> (verify_balance_proof cr tx \<longrightarrow>
            sum_list (map fst ins) = sum_list (map fst outs) + int (as_atomic (tx_fee tx))
            \<or> x \<noteq> 0 \<and> \<bar>x\<bar> < 2 ^ 73 \<and> commit x y = 0)
       \<and> (x = 0 \<and> y = 0 \<and> (\<forall>i \<in> set (tx_inputs tx). cr_decompress cr (pseudo_output_commitment i) \<noteq> Some 0)
          \<longrightarrow> verify_balance_proof cr tx)"
proof -
  have li: "length ins \<le> 256" and lo: "length outs \<le> 16"
    using assms(4,5,11,12) by (auto dest!: list_all2_lengthD)
  have "0 \<le> sum_list (map fst ins)" "sum_list (map fst ins) \<le> int (length ins) * 2 ^ 64"
    "0 \<le> sum_list (map fst outs)" "sum_list (map fst outs) \<le> int (length outs) * 2 ^ 64"
    using sum_list_bounds [of "map fst ins" "2 ^ 64"] sum_list_bounds [of "map fst outs" "2 ^ 64"] assms(10) by auto
  moreover have "int (as_atomic (tx_fee tx)) < 2 ^ 64"
    using assms(13) by (simp add: wf_amount_def u64_max_def)
  ultimately have bound: "\<bar>x\<bar> < 2 ^ 73" using li lo by (simp add: x_def)
  have iff: "verify_balance_proof cr tx \<longleftrightarrow>
      commit x y = 0 \<and> (\<forall>i \<in> set (tx_inputs tx). cr_decompress cr (pseudo_output_commitment i) \<noteq> Some 0)"
    using balance_opening [OF assms(3-7)] assms(8,9) by (auto simp: x_def y_def)
  moreover have "x = 0 \<Longrightarrow> sum_list (map fst ins) = sum_list (map fst outs) + int (as_atomic (tx_fee tx))"
    by (simp add: x_def)
  ultimately show ?thesis using bound commit_sum(1) [OF assms(3)] by metis
qed

definition balanced_tx :: transaction where
  "balanced_tx = \<lparr> tx_version = 1, tx_ty = Transfer, tx_inputs = [sample_input 1 5],
     tx_outputs = [\<lparr> stealth_address = [9], tx_public_key = [2], commitment = [3], encrypted_amount = [],
        view_tag = 0, lock_height = None, encrypted_memo = [] \<rparr>],
     tx_fee = Amount 2, range_proof = [], tx_extra = [] \<rparr>"

theorem balance_proof_sound_witness:
  "verify_balance_proof sample_crypto balanced_tx \<and> \<not> verify_balance_proof sample_crypto (balanced_tx \<lparr> tx_fee := Amount 1 \<rparr>)"
  using balance_proof_sound [of "\<lambda>v b. v" sample_crypto balanced_tx "[(5, 0)]" "[(3, 0)]"]
    balance_proof_sound [of "\<lambda>v b. v" sample_crypto "balanced_tx \<lparr> tx_fee := Amount 1 \<rparr>" "[(5, 0)]" "[(3, 0)]"]
  by (simp add: balanced_tx_def sample_crypto_def sample_input_def opens_def additive_commitment_def
      is_coinbase_def wf_amount_def u64_max_def)

end
