(* ===== verification/Difficulty.thy ===== *)
theory Difficulty
  imports Primitives
begin

section \<open>Difficulty adjustment (consensus/difficulty.rs)\<close>

text \<open>
  The dual-window ASERT rule: fixed-point exponentiation, the two anchors, the weighted combination,
  the per-block clamp, the difficulty floor and the emergency drop. \<open>u128\<close> values are natural
  numbers, \<open>i128\<close> values integers; \<open>checked_shl\<close> keeps the low 128 bits, as the instruction does.
  \<open>estimate_hashrate\<close> is \<open>f64\<close> telemetry and is not modelled.
\<close>

subsection \<open>Constants\<close>

definition TARGET_BLOCK_TIME :: nat where "TARGET_BLOCK_TIME = 120"
definition ASERT_HALFLIFE :: nat where "ASERT_HALFLIFE = 3600"
definition DIFFICULTY_SHORT_WINDOW :: nat where "DIFFICULTY_SHORT_WINDOW = 8"
definition DIFFICULTY_LONG_WINDOW :: nat where "DIFFICULTY_LONG_WINDOW = 144"
definition DIFFICULTY_SHORT_WEIGHT :: nat where "DIFFICULTY_SHORT_WEIGHT = 70"
definition DIFFICULTY_LONG_WEIGHT :: nat where "DIFFICULTY_LONG_WEIGHT = 30"
definition DIFFICULTY_WEIGHT_SCALE :: nat where "DIFFICULTY_WEIGHT_SCALE = 100"
definition MAX_DIFFICULTY_ADJ_NUM :: nat where "MAX_DIFFICULTY_ADJ_NUM = 2"
definition MAX_DIFFICULTY_ADJ_DEN :: nat where "MAX_DIFFICULTY_ADJ_DEN = 1"
definition MIN_DIFFICULTY_ADJ_NUM :: nat where "MIN_DIFFICULTY_ADJ_NUM = 1"
definition MIN_DIFFICULTY_ADJ_DEN :: nat where "MIN_DIFFICULTY_ADJ_DEN = 2"
definition EMERGENCY_DIFFICULTY_BLOCKS :: nat where "EMERGENCY_DIFFICULTY_BLOCKS = 12"
definition EMERGENCY_TIME_MULTIPLIER :: nat where "EMERGENCY_TIME_MULTIPLIER = 10"
definition EMERGENCY_DROP_FACTOR :: nat where "EMERGENCY_DROP_FACTOR = 4"
definition MIN_DIFFICULTY :: nat where "MIN_DIFFICULTY = 500"
definition RADIX :: nat where "RADIX = 65536"
definition MAX_INT_EXPONENT :: int where "MAX_INT_EXPONENT = 64"

lemmas difficulty_consts = TARGET_BLOCK_TIME_def ASERT_HALFLIFE_def DIFFICULTY_SHORT_WINDOW_def
  DIFFICULTY_LONG_WINDOW_def DIFFICULTY_SHORT_WEIGHT_def DIFFICULTY_LONG_WEIGHT_def
  DIFFICULTY_WEIGHT_SCALE_def MAX_DIFFICULTY_ADJ_NUM_def MAX_DIFFICULTY_ADJ_DEN_def
  MIN_DIFFICULTY_ADJ_NUM_def MIN_DIFFICULTY_ADJ_DEN_def EMERGENCY_DIFFICULTY_BLOCKS_def
  EMERGENCY_TIME_MULTIPLIER_def EMERGENCY_DROP_FACTOR_def MIN_DIFFICULTY_def

record difficulty_block =
  db_height :: nat
  db_timestamp :: nat
  db_target :: hash

subsection \<open>Fixed-point helpers\<close>

definition i128_div :: "int \<Rightarrow> int \<Rightarrow> int" where
  "i128_div a b = sgn a * sgn b * (\<bar>a\<bar> div \<bar>b\<bar>)"

definition decompose_fixed_point :: "int \<Rightarrow> int \<times> nat" where
  "decompose_fixed_point exponent_fp =
     (if 0 \<le> exponent_fp then
        (clamp (- i32_max - 1) i32_max (exponent_fp div int RADIX), nat (exponent_fp mod int RADIX))
      else
        let safe_exp = max exponent_fp (i128_min + 1);
            abs_exp = nat (- safe_exp);
            abs_int = abs_exp div RADIX;
            abs_frac = abs_exp mod RADIX;
            clamped_abs = min abs_int (nat i32_max)
        in if abs_frac = 0 then (- int clamped_abs, 0)
           else
             let clamped_sub = min abs_int (nat (i32_max - 1))
             in (- int clamped_sub - 1, RADIX - abs_frac))"

definition pow2_frac :: "nat \<Rightarrow> nat" where
  "pow2_frac x =
     (let t = 3638 + (630 * x) div RADIX;
          t = 15743 + (t * x) div RADIX;
          t = 45426 + (t * x) div RADIX
      in RADIX + (t * x) div RADIX)"

definition target_to_u128 :: "hash \<Rightarrow> nat" where
  "target_to_u128 target = max (from_be_bytes (take 16 (hash_bytes target))) 1"

definition u128_to_target :: "nat \<Rightarrow> hash" where
  "u128_to_target v = Hash (be_bytes 16 (clamp 1 u128_max v) @ replicate 16 0)"

definition safe_mul_u128 :: "nat \<Rightarrow> nat \<Rightarrow> nat" where
  "safe_mul_u128 a b = (case checked_mul u128_max a b of Some p \<Rightarrow> p | None \<Rightarrow> u128_max)"

definition safe_mul_shift :: "nat \<Rightarrow> nat \<Rightarrow> nat" where
  "safe_mul_shift target frac_pow2 =
     (let extra = frac_pow2 - RADIX
      in if extra = 0 then target
         else
           let adjustment = (if target \<le> u128_max div extra then (target * extra) div RADIX
                             else (target div RADIX) * extra)
           in saturating_add u128_max target adjustment)"

definition checked_shl_u128 :: "nat \<Rightarrow> nat \<Rightarrow> nat option" where
  "checked_shl_u128 a k = (if k < 128 then Some (a * 2 ^ k mod 2 ^ 128) else None)"

subsection \<open>ASERT\<close>

definition asert_time_error :: "difficulty_block \<Rightarrow> difficulty_block \<Rightarrow> nat \<Rightarrow> int" where
  "asert_time_error anchor tip target_time =
     (let height_diff = db_height tip - db_height anchor;
          time_diff = int (db_timestamp tip) - int (db_timestamp anchor);
          expected_time = int height_diff * int target_time
      in time_diff - expected_time)"

definition asert_exponent :: "difficulty_block \<Rightarrow> difficulty_block \<Rightarrow> nat \<Rightarrow> nat \<Rightarrow> int" where
  "asert_exponent anchor tip target_time halflife =
     (let time_error = asert_time_error anchor tip target_time;
          scaled = (if i128_min \<le> time_error * int RADIX \<and> time_error * int RADIX \<le> i128_max
                    then time_error * int RADIX
                    else if 0 \<le> time_error then i128_max else i128_min)
      in i128_div scaled (int halflife))"

definition apply_asert ::
    "nat \<Rightarrow> difficulty_block \<Rightarrow> difficulty_block \<Rightarrow> nat \<Rightarrow> nat \<Rightarrow> nat" where
  "apply_asert current_target anchor tip target_time halflife =
     (if db_height tip - db_height anchor = 0 then current_target
      else if halflife = 0 then current_target
      else
        let (int_part, frac_part) = decompose_fixed_point (asert_exponent anchor tip target_time halflife);
            clamped_int = clamp (- MAX_INT_EXPONENT) MAX_INT_EXPONENT int_part;
            adjusted = safe_mul_shift current_target (pow2_frac frac_part)
        in max (if 0 \<le> clamped_int
                then (case checked_shl_u128 adjusted (nat clamped_int) of Some v \<Rightarrow> v | None \<Rightarrow> u128_max)
                else
                  let neg = nat (- clamped_int)
                  in if 128 \<le> neg then 1 else adjusted div 2 ^ neg) 1)"

definition get_anchor :: "difficulty_block list \<Rightarrow> nat \<Rightarrow> difficulty_block" where
  "get_anchor blocks depth = blocks ! (length blocks - min depth (length blocks))"

definition needs_emergency_drop :: "difficulty_block list \<Rightarrow> nat \<Rightarrow> bool" where
  "needs_emergency_drop blocks current_height =
     (if current_height < EMERGENCY_DIFFICULTY_BLOCKS * 2 then False
      else if length blocks < EMERGENCY_DIFFICULTY_BLOCKS then False
      else
        let tip = last blocks;
            check_block = blocks ! (length blocks - EMERGENCY_DIFFICULTY_BLOCKS);
            time_diff = db_timestamp tip - db_timestamp check_block;
            expected = EMERGENCY_DIFFICULTY_BLOCKS * TARGET_BLOCK_TIME
        in expected * EMERGENCY_TIME_MULTIPLIER < time_diff)"

definition max_target :: hash where
  "max_target = Hash (replicate 32 0xFF)"

definition min_target :: hash where
  "min_target = Hash ((replicate 32 0)[2 := 0x01])"

definition asert_combined :: "difficulty_block list \<Rightarrow> nat" where
  "asert_combined blocks =
     (let tip = last blocks;
          tip_target = target_to_u128 (db_target tip);
          short_target = apply_asert tip_target (get_anchor blocks DIFFICULTY_SHORT_WINDOW) tip
                           TARGET_BLOCK_TIME ASERT_HALFLIFE;
          long_target = apply_asert tip_target (get_anchor blocks DIFFICULTY_LONG_WINDOW) tip
                          TARGET_BLOCK_TIME ASERT_HALFLIFE;
          short_weighted = safe_mul_u128 short_target DIFFICULTY_SHORT_WEIGHT;
          long_weighted = safe_mul_u128 long_target DIFFICULTY_LONG_WEIGHT
      in saturating_add u128_max short_weighted long_weighted div DIFFICULTY_WEIGHT_SCALE)"

definition final_target :: "difficulty_block list \<Rightarrow> nat \<Rightarrow> nat" where
  "final_target blocks current_height =
     (let tip_target = target_to_u128 (db_target (last blocks));
          max_val = safe_mul_u128 tip_target MAX_DIFFICULTY_ADJ_NUM div MAX_DIFFICULTY_ADJ_DEN;
          min_val = safe_mul_u128 tip_target MIN_DIFFICULTY_ADJ_NUM div MIN_DIFFICULTY_ADJ_DEN;
          max_t = u128_max div MIN_DIFFICULTY;
          min_bound = max min_val 1;
          max_bound = max (min max_val max_t) min_bound;
          clamped = clamp min_bound max_bound (asert_combined blocks)
      in if needs_emergency_drop blocks current_height then
           let emergency_max = safe_mul_u128 tip_target (MAX_DIFFICULTY_ADJ_NUM * EMERGENCY_DROP_FACTOR)
                                 div MAX_DIFFICULTY_ADJ_DEN;
               emergency_target = safe_mul_u128 clamped EMERGENCY_DROP_FACTOR;
               emer_min = max min_val 1;
               emer_max = max (min emergency_max max_t) emer_min
           in clamp emer_min emer_max emergency_target
         else clamped)"

definition calculate_difficulty :: "difficulty_block list \<Rightarrow> nat \<Rightarrow> hash" where
  "calculate_difficulty blocks current_height =
     (if length blocks < 2 then max_target
      else u128_to_target (final_target blocks current_height))"

definition target_to_difficulty :: "hash \<Rightarrow> nat" where
  "target_to_difficulty target = u128_max div target_to_u128 target"

definition calculate_difficulty_from_target :: "hash \<Rightarrow> nat" where
  "calculate_difficulty_from_target target = target_to_difficulty target"

text \<open>The chain's own work function (\<open>chain.rs\<close>), with its separate zero case.\<close>

definition chain_work_from_target :: "hash \<Rightarrow> nat" where
  "chain_work_from_target target =
     (let target_value = from_be_bytes (take 16 (hash_bytes target))
      in if target_value = 0 then u128_max else u128_max div target_value)"

text \<open>The work of a header target used for fork choice (\<open>consensus/pow.rs\<close>).\<close>

definition work_from_target :: "hash \<Rightarrow> nat" where
  "work_from_target target =
     (let target_u128 = from_be_bytes (take 16 (hash_bytes target))
      in if target_u128 = 0 then u128_max else u128_max div target_u128)"

subsection \<open>Lemmas\<close>

lemma u128_max_less: "v \<le> u128_max \<longleftrightarrow> v < 256 ^ 16"
proof -
  have "u128_max + 1 = 256 ^ 16" by (simp add: u128_max_def)
  then show ?thesis by linarith
qed

lemma from_be_bytes_16: "length bs = 16 \<Longrightarrow> from_be_bytes bs \<le> u128_max"
  using from_be_bytes_less [of bs] by (simp add: u128_max_less)

lemma target_to_u128_bounds:
  assumes "wf_hash t"
  shows "1 \<le> target_to_u128 t" and "target_to_u128 t \<le> u128_max"
proof -
  show "1 \<le> target_to_u128 t" by (simp add: target_to_u128_def)
  have "from_be_bytes (take 16 (hash_bytes t)) \<le> u128_max"
    using assms by (intro from_be_bytes_16) (simp add: wf_hash_def)
  then show "target_to_u128 t \<le> u128_max" by (simp add: target_to_u128_def u128_max_def)
qed

lemma wf_u128_to_target [simp]: "wf_hash (u128_to_target v)"
  by (simp add: wf_hash_def u128_to_target_def)

lemma target_u128_roundtrip:
  assumes "1 \<le> v" and "v \<le> u128_max"
  shows "target_to_u128 (u128_to_target v) = v"
proof -
  have "from_be_bytes (be_bytes 16 v) = v"
    using assms(2) by (simp add: from_be_bytes_be_bytes u128_max_less)
  then show ?thesis using assms by (simp add: target_to_u128_def u128_to_target_def)
qed

lemma safe_mul_u128_min: "safe_mul_u128 a b = min u128_max (a * b)"
  by (simp add: safe_mul_u128_def checked_mul_def)

lemma clamp_le: "lo \<le> hi \<Longrightarrow> clamp lo hi x \<le> hi" and clamp_ge: "lo \<le> hi \<Longrightarrow> lo \<le> clamp lo hi x"
  by (auto simp: clamp_def)

text \<open>What the clamps leave of the ASERT value, in terms of the tip's target.\<close>

lemma final_target_bounds:
  fixes blocks h
  defines "tip \<equiv> target_to_u128 (db_target (last blocks))"
  defines "up \<equiv> if needs_emergency_drop blocks h then 8 else 2 :: nat"
  assumes "wf_hash (db_target (last blocks))"
  shows "max (tip div 2) 1 \<le> final_target blocks h"
    and "final_target blocks h \<le> max (min (up * tip) (u128_max div 500)) (max (tip div 2) 1)"
proof -
  have tip: "tip \<le> u128_max" using target_to_u128_bounds(2) [OF assms(3)] by (simp add: tip_def)
  have half: "safe_mul_u128 tip MIN_DIFFICULTY_ADJ_NUM div MIN_DIFFICULTY_ADJ_DEN = tip div 2"
    using tip by (simp add: safe_mul_u128_min MIN_DIFFICULTY_ADJ_NUM_def MIN_DIFFICULTY_ADJ_DEN_def)
  have le: "u128_max div 500 < u128_max" by (simp add: u128_max_def)
  have m: "min (min u128_max (tip * k) div 1) (u128_max div MIN_DIFFICULTY) = min (k * tip) (u128_max div 500)" for k
    using le by (simp add: MIN_DIFFICULTY_def mult.commute min_def)
  have "\<exists>x. final_target blocks h = clamp (max (tip div 2) 1)
      (max (min (up * tip) (u128_max div 500)) (max (tip div 2) 1)) x"
  proof (cases "needs_emergency_drop blocks h")
    case True
    then show ?thesis
      unfolding final_target_def Let_def tip_def [symmetric] half up_def if_P [OF True]
      by (simp only: m [of 8, symmetric] safe_mul_u128_min MAX_DIFFICULTY_ADJ_NUM_def
          MAX_DIFFICULTY_ADJ_DEN_def EMERGENCY_DROP_FACTOR_def) (auto simp: mult.commute)
  next
    case False
    then show ?thesis
      unfolding final_target_def Let_def tip_def [symmetric] half up_def if_not_P [OF False]
      by (simp only: m [of 2, symmetric] safe_mul_u128_min MAX_DIFFICULTY_ADJ_NUM_def
          MAX_DIFFICULTY_ADJ_DEN_def) (auto simp: mult.commute)
  qed
  then obtain x where x: "final_target blocks h = clamp (max (tip div 2) 1)
      (max (min (up * tip) (u128_max div 500)) (max (tip div 2) 1)) x" ..
  show "max (tip div 2) 1 \<le> final_target blocks h" unfolding x by (rule clamp_ge) simp
  show "final_target blocks h \<le> max (min (up * tip) (u128_max div 500)) (max (tip div 2) 1)"
    unfolding x by (rule clamp_le) simp
qed

lemma final_target_u128:
  assumes "wf_hash (db_target (last blocks))"
  shows "1 \<le> final_target blocks h" and "final_target blocks h \<le> u128_max"
proof -
  let ?tip = "target_to_u128 (db_target (last blocks))"
  show "1 \<le> final_target blocks h" using final_target_bounds(1) [OF assms, of h] by simp
  have "?tip div 2 \<le> u128_max" using target_to_u128_bounds(2) [OF assms] by (meson div_le_dividend le_trans)
  moreover have "u128_max div 500 \<le> u128_max" "1 \<le> u128_max" by (simp_all add: u128_max_def)
  ultimately show "final_target blocks h \<le> u128_max"
    using final_target_bounds(2) [OF assms, of h] by (meson le_trans max.bounded_iff min.cobounded2)
qed

text \<open>C29: whatever the timestamps, one retarget moves the target by at most a factor of two down and two
  up (eight in an emergency), and once the chain is at or above \<open>MIN_DIFFICULTY\<close> it stays there:
  the target never exceeds \<open>u128::MAX / 500\<close>, even in an emergency drop.\<close>

theorem retarget_bounds:
  assumes "2 \<le> length blocks" and "wf_hash (db_target (last blocks))"
  shows "target_to_u128 (db_target (last blocks)) div 2 \<le> target_to_u128 (calculate_difficulty blocks h)
       \<and> target_to_u128 (calculate_difficulty blocks h)
           \<le> (if needs_emergency_drop blocks h then 8 else 2) * target_to_u128 (db_target (last blocks))
       \<and> (target_to_u128 (db_target (last blocks)) \<le> u128_max div MIN_DIFFICULTY
            \<longrightarrow> target_to_u128 (calculate_difficulty blocks h) \<le> u128_max div MIN_DIFFICULTY)"
proof -
  let ?tip = "target_to_u128 (db_target (last blocks))"
  have eq: "target_to_u128 (calculate_difficulty blocks h) = final_target blocks h"
    using assms(1) target_u128_roundtrip [OF final_target_u128 [OF assms(2)]]
    by (simp add: calculate_difficulty_def)
  have tip: "1 \<le> ?tip" using target_to_u128_bounds(1) [OF assms(2)] .
  then have small: "max (?tip div 2) 1 \<le> ?tip" by simp
  have cap: "1 \<le> u128_max div MIN_DIFFICULTY" by (simp add: MIN_DIFFICULTY_def u128_max_def)
  note b = final_target_bounds [OF assms(2), of h]
  have "max (min ((if needs_emergency_drop blocks h then 8 else 2) * ?tip) (u128_max div 500))
      (max (?tip div 2) 1) \<le> (if needs_emergency_drop blocks h then 8 else 2) * ?tip"
    using small by (auto intro: min.coboundedI1)
  with b(2) have "final_target blocks h \<le> (if needs_emergency_drop blocks h then 8 else 2) * ?tip"
    by (rule le_trans)
  moreover have "final_target blocks h \<le> u128_max div MIN_DIFFICULTY" if "?tip \<le> u128_max div MIN_DIFFICULTY"
    using b(2) that small by (auto simp: MIN_DIFFICULTY_def max_def min_def split: if_splits)
  ultimately show ?thesis using b(1) eq by simp
qed

text \<open>The fixed-point decomposition splits the exponent into its floor and a fraction in
  \<open>[0, RADIX)\<close>, for negative exponents too, whenever the integer part fits in an \<open>i32\<close>.\<close>

theorem decompose_is_floor:
  assumes "\<bar>e\<bar> \<le> (i32_max - 1) * int RADIX"
  shows "decompose_fixed_point e = (e div int RADIX, nat (e mod int RADIX))"
proof (cases "0 \<le> e")
  case True
  with assms have "0 \<le> e div int RADIX" "e div int RADIX \<le> i32_max"
    by (simp_all add: RADIX_def i32_max_def)
  with True show ?thesis by (simp add: decompose_fixed_point_def i32_max_def)
next
  case False
  define n where "n = nat (- e)"
  have e: "e = - int n" "0 < n" using False by (simp_all add: n_def)
  have n: "n \<le> 2147483646 * 65536" using assms e by (simp add: RADIX_def i32_max_def)
  then have safe: "max e (i128_min + 1) = e" using e by (simp add: i128_min_def)
  have small: "n div 65536 \<le> 2147483646" using n by simp
  have dm: "- int n div 65536 = - int (n div 65536) - (if n mod 65536 = 0 then 0 else 1)
      \<and> - int n mod 65536 = int (if n mod 65536 = 0 then 0 else 65536 - n mod 65536)"
  proof -
    have n': "int n = 65536 * int (n div 65536) + int (n mod 65536)"
      by (metis mult_div_mod_eq of_nat_add of_nat_mult of_nat_numeral)
    have r: "n mod 65536 < 65536" by simp
    have eq: "- int n = 65536 * (- int (n div 65536) - (if n mod 65536 = 0 then 0 else 1))
        + int (if n mod 65536 = 0 then 0 else 65536 - n mod 65536)"
      using n' r by (simp add: of_nat_diff)
    show ?thesis using int_div_pos_eq [OF eq] int_mod_pos_eq [OF eq] r by simp
  qed
  then have d: "- int n div 65536 = - int (n div 65536) - (if n mod 65536 = 0 then 0 else 1)"
    and m: "nat (- int n mod 65536) = (if n mod 65536 = 0 then 0 else 65536 - n mod 65536)"
    by simp_all
  show ?thesis
    using False safe small d m e
    by (auto simp: decompose_fixed_point_def Let_def RADIX_def i32_max_def min_def)
qed

theorem decompose_is_floor_witness:
  "decompose_fixed_point (- 100000) = (- 100000 div 65536, nat (- 100000 mod 65536))"
  using decompose_is_floor [of "- 100000"] by (simp add: RADIX_def i32_max_def)

lemma retarget_sample: "wf_hash (u128_to_target (2 ^ 100)) \<and> target_to_u128 (u128_to_target (2 ^ 100)) = 2 ^ 100"
  using target_u128_roundtrip [of "2 ^ 100"] by (simp add: u128_max_def)

theorem retarget_bounds_witness:
  "target_to_u128 (calculate_difficulty
     [\<lparr>db_height = 1, db_timestamp = 0, db_target = max_target\<rparr>,
      \<lparr>db_height = 2, db_timestamp = 50, db_target = u128_to_target (2 ^ 100)\<rparr>] 3)
   \<le> u128_max div MIN_DIFFICULTY"
  using retarget_bounds [of "[\<lparr>db_height = 1, db_timestamp = 0, db_target = max_target\<rparr>,
      \<lparr>db_height = 2, db_timestamp = 50, db_target = u128_to_target (2 ^ 100)\<rparr>]" 3] retarget_sample
  by (simp add: MIN_DIFFICULTY_def u128_max_def)

subsection \<open>The exponential and the direction of the adjustment\<close>

lemma pow2_frac_mono: "x \<le> y \<Longrightarrow> pow2_frac x \<le> pow2_frac y"
  unfolding pow2_frac_def Let_def by (intro add_left_mono div_le_mono mult_le_mono) simp_all

lemma pow2_frac_0 [simp]: "pow2_frac 0 = RADIX"
  by (simp add: pow2_frac_def)

lemma pow2_frac_bounds: "x \<le> RADIX \<Longrightarrow> RADIX \<le> pow2_frac x \<and> pow2_frac x < 2 * RADIX"
proof -
  assume "x \<le> RADIX"
  then have "pow2_frac x \<le> pow2_frac RADIX" by (rule pow2_frac_mono)
  moreover have "pow2_frac RADIX < 2 * RADIX" by (simp add: pow2_frac_def RADIX_def)
  ultimately show ?thesis using pow2_frac_mono [of 0 x] by simp
qed

lemma safe_mul_shift_bounds:
  assumes "t \<le> u128_max" and "f \<le> 2 * RADIX"
  shows "t \<le> safe_mul_shift t f" and "safe_mul_shift t f \<le> 2 * t" and "safe_mul_shift t f \<le> u128_max"
    and "f \<le> RADIX \<Longrightarrow> safe_mul_shift t f = t"
proof -
  define x where "x = f - RADIX"
  have x: "x \<le> RADIX" using assms(2) by (simp add: x_def)
  have "t * x div RADIX \<le> t"
  proof -
    have "t * x div RADIX \<le> t * RADIX div RADIX" using x by (intro div_le_mono mult_le_mono) simp_all
    then show ?thesis by (simp add: RADIX_def)
  qed
  moreover have "t div RADIX * x \<le> t"
    using mult_le_mono2 [OF x, of "t div RADIX"] div_times_less_eq_dividend [of t RADIX] by linarith
  ultimately show "t \<le> safe_mul_shift t f" "safe_mul_shift t f \<le> 2 * t" "safe_mul_shift t f \<le> u128_max"
    using assms(1) by (auto simp: safe_mul_shift_def Let_def saturating_add_def x_def [symmetric])
  show "safe_mul_shift t f = t" if "f \<le> RADIX" using that by (simp add: safe_mul_shift_def)
qed

lemma pow2_frac_le: "x \<le> RADIX \<Longrightarrow> pow2_frac x \<le> 2 * RADIX"
  using pow2_frac_bounds less_imp_le by blast

lemma shl_exact:
  assumes "k < 128" and "a * 2 ^ k \<le> u128_max"
  shows "checked_shl_u128 a k = Some (a * 2 ^ k)"
  using assms by (simp add: checked_shl_u128_def u128_max_less)

lemma decompose_nonneg:
  "0 \<le> e \<Longrightarrow> 0 \<le> fst (decompose_fixed_point e) \<and> snd (decompose_fixed_point e) < RADIX"
  using pos_imp_zdiv_nonneg_iff [of 65536 e]
  by (auto simp: decompose_fixed_point_def clamp_def i32_max_def RADIX_def nat_less_iff)

lemma decompose_neg:
  assumes "e < 0"
  shows "fst (decompose_fixed_point e) < 0 \<or> decompose_fixed_point e = (0, 0)"
    and "snd (decompose_fixed_point e) \<le> RADIX"
  using assms by (auto simp: decompose_fixed_point_def Let_def)

lemma exponent_sign:
  fixes anchor tip :: difficulty_block and target_time halflife :: nat
  defines "te \<equiv> asert_time_error anchor tip target_time"
  assumes "0 < halflife"
  shows "0 \<le> te \<Longrightarrow> 0 \<le> asert_exponent anchor tip target_time halflife"
    and "te \<le> 0 \<Longrightarrow> asert_exponent anchor tip target_time halflife \<le> 0"
    and "te = 0 \<Longrightarrow> asert_exponent anchor tip target_time halflife = 0"
    and "0 \<le> te \<Longrightarrow> te * int RADIX \<le> i128_max \<Longrightarrow>
      asert_exponent anchor tip target_time halflife = te * int RADIX div int halflife"
proof -
  define scaled where "scaled = (if i128_min \<le> te * int RADIX \<and> te * int RADIX \<le> i128_max
      then te * int RADIX else if 0 \<le> te then i128_max else i128_min)"
  have e: "asert_exponent anchor tip target_time halflife = i128_div scaled (int halflife)"
    by (simp add: asert_exponent_def Let_def te_def scaled_def)
  have s: "0 \<le> te \<Longrightarrow> 0 \<le> scaled" "te \<le> 0 \<Longrightarrow> scaled \<le> 0" "te = 0 \<Longrightarrow> scaled = 0"
    by (auto simp: scaled_def i128_max_def i128_min_def RADIX_def)
  have "0 \<le> i128_div a (int halflife)" if "0 \<le> a" for a
    using that assms(2) by (simp add: i128_div_def sgn_if pos_imp_zdiv_nonneg_iff)
  then show "0 \<le> te \<Longrightarrow> 0 \<le> asert_exponent anchor tip target_time halflife" using e s by simp
  have "i128_div a (int halflife) \<le> 0" if "a \<le> 0" for a
    using that assms(2) by (auto simp: i128_div_def sgn_if intro: div_int_pos_iff [THEN iffD2])
  then show "te \<le> 0 \<Longrightarrow> asert_exponent anchor tip target_time halflife \<le> 0" using e s by simp
  show "te = 0 \<Longrightarrow> asert_exponent anchor tip target_time halflife = 0"
    using e s by (simp add: i128_div_def)
  show "asert_exponent anchor tip target_time halflife = te * int RADIX div int halflife"
    if "0 \<le> te" "te * int RADIX \<le> i128_max"
  proof -
    have "scaled = te * int RADIX" using that by (simp add: scaled_def i128_min_def RADIX_def)
    then show ?thesis using e that assms(2) by (simp add: i128_div_def sgn_if RADIX_def)
  qed
qed

lemma apply_asert_unfold:
  assumes "db_height anchor < db_height tip" and "0 < halflife"
    and "decompose_fixed_point (asert_exponent anchor tip target_time halflife) = (i, f)"
  shows "apply_asert t anchor tip target_time halflife =
     (let k = clamp (- 64) 64 i; a = safe_mul_shift t (pow2_frac f)
      in max (if 0 \<le> k then a * 2 ^ nat k mod 2 ^ 128 else a div 2 ^ nat (- k)) 1)"
proof -
  have k: "clamp (- 64) 64 i \<le> 64" "- 64 \<le> clamp (- 64) 64 i"
    by (rule clamp_le clamp_ge; simp)+
  then have "nat (clamp (- 64) 64 i) < 128" "nat (- clamp (- 64) 64 i) < 128" by simp_all
  then show ?thesis
    using assms by (simp add: apply_asert_def MAX_INT_EXPONENT_def checked_shl_u128_def Let_def not_le)
qed

lemma asert_ahead:
  assumes "1 \<le> t" and "t \<le> u128_max" and "db_height anchor < db_height tip" and "0 < halflife"
    and "asert_time_error anchor tip target_time < 0"
  shows "apply_asert t anchor tip target_time halflife \<le> t"
proof -
  let ?e = "asert_exponent anchor tip target_time halflife"
  obtain i f where d: "decompose_fixed_point ?e = (i, f)" by fastforce
  have neg: "?e \<le> 0" using exponent_sign(2) assms(4,5) by simp
  have "f \<le> RADIX \<and> (i < 0 \<or> i = 0 \<and> f = 0)"
  proof (cases "?e = 0")
    case True
    then show ?thesis using d by (auto simp: decompose_fixed_point_def clamp_def i32_max_def)
  next
    case False
    with neg d decompose_neg [of ?e] show ?thesis by auto
  qed
  then have f: "f \<le> RADIX" and i: "i < 0 \<or> i = 0 \<and> f = 0" by auto
  define k a where "k = clamp (- 64) 64 i" and "a = safe_mul_shift t (pow2_frac f)"
  have a: "a \<le> 2 * t" "i = 0 \<longrightarrow> a = t"
    using safe_mul_shift_bounds [OF assms(2) pow2_frac_le [OF f]] i by (auto simp: a_def)
  have asert: "apply_asert t anchor tip target_time halflife =
      max (if 0 \<le> k then a * 2 ^ nat k mod 2 ^ 128 else a div 2 ^ nat (- k)) 1"
    using apply_asert_unfold [OF assms(3,4) d] by (simp add: k_def a_def Let_def)
  show ?thesis
  proof (cases "i = 0")
    case True
    then have "k = 0" by (simp add: k_def clamp_def)
    with True a asert assms(1,2) show ?thesis by (simp add: u128_max_less)
  next
    case False
    with i have "k < 0" by (auto simp: k_def clamp_def)
    then obtain m where "nat (- k) = Suc m" by (cases "nat (- k)") auto
    then have "a div 2 ^ nat (- k) \<le> a div 2" by (simp add: div_mult2_eq div_le_mono)
    moreover have "a div 2 \<le> t" using a(1) by simp
    ultimately show ?thesis using \<open>k < 0\<close> asert assms(1) by simp
  qed
qed

lemma asert_behind:
  assumes "t \<le> u128_max" and "db_height anchor < db_height tip" and "0 < halflife"
    and "halflife \<le> u64_max"
    and "0 \<le> asert_time_error anchor tip target_time"
    and "asert_time_error anchor tip target_time < int (m * halflife)" and "m \<le> 64"
    and "t * 2 ^ m \<le> u128_max"
  shows "t \<le> apply_asert t anchor tip target_time halflife"
    and "apply_asert t anchor tip target_time halflife \<le> max (t * 2 ^ m) 1"
proof -
  let ?te = "asert_time_error anchor tip target_time"
  let ?e = "asert_exponent anchor tip target_time halflife"
  have "?te * int RADIX \<le> int (m * halflife) * int RADIX"
    using assms(6) by (simp add: RADIX_def)
  also have "int (m * halflife) * int RADIX \<le> int (64 * u64_max) * int RADIX"
    using assms(4,7) by (intro mult_right_mono of_nat_mono mult_le_mono) simp_all
  also have "\<dots> \<le> i128_max" by (simp add: RADIX_def u64_max_def i128_max_def)
  finally have e: "?e = ?te * int RADIX div int halflife"
    using exponent_sign(4) assms(3,5) by simp
  have "?te * int RADIX < int (m * RADIX) * int halflife"
    using assms(6) by (simp add: RADIX_def)
  moreover have "?e * int halflife \<le> ?te * int RADIX"
  proof -
    have "0 \<le> ?te * int RADIX mod int halflife" using assms(3) by simp
    with div_mult_mod_eq [of "?te * int RADIX" "int halflife"] show ?thesis unfolding e by linarith
  qed
  ultimately have "?e * int halflife < int (m * RADIX) * int halflife" by linarith
  then have "?e < int (m * RADIX)" using assms(3) by (simp only: mult_less_cancel_right)
  moreover have "0 \<le> ?e" using exponent_sign(1) assms(3,5) by simp
  ultimately have ei: "0 \<le> ?e div 65536" "?e div 65536 < int m" by (simp_all add: RADIX_def)
  define i f where "i = ?e div int RADIX" and "f = nat (?e mod int RADIX)"
  have d: "decompose_fixed_point ?e = (i, f)"
    using ei assms(7) \<open>0 \<le> ?e\<close>
    by (simp add: decompose_fixed_point_def i_def f_def RADIX_def clamp_def i32_max_def)
  have f: "f \<le> RADIX" by (simp add: f_def RADIX_def)
  have i: "0 \<le> i" "i < int m" using ei by (simp_all add: i_def RADIX_def)
  define a where "a = safe_mul_shift t (pow2_frac f)"
  have a: "t \<le> a" "a \<le> 2 * t"
    using safe_mul_shift_bounds(1,2) [OF assms(1) pow2_frac_le [OF f]] by (simp_all add: a_def)
  have "a * 2 ^ nat i \<le> 2 * t * 2 ^ nat i" using a(2) by (rule mult_le_mono1)
  also have "\<dots> = t * 2 ^ Suc (nat i)" by simp
  also have "\<dots> \<le> t * 2 ^ m" using i by (intro mult_le_mono power_increasing) simp_all
  finally have up: "a * 2 ^ nat i \<le> t * 2 ^ m" .
  then have "a * 2 ^ nat i mod 2 ^ 128 = a * 2 ^ nat i"
    using assms(8) by (intro mod_less) (use u128_max_less [of "a * 2 ^ nat i"] in simp)
  moreover have "clamp (- 64) 64 i = i" using i assms(7) by simp
  ultimately have r: "apply_asert t anchor tip target_time halflife = max (a * 2 ^ nat i) 1"
    using apply_asert_unfold [OF assms(2,3) d] i by (simp add: a_def Let_def)
  have "a * 1 \<le> a * 2 ^ nat i" by (rule mult_le_mono2) simp
  then have "t \<le> a * 2 ^ nat i" using a(1) by linarith
  with r show "t \<le> apply_asert t anchor tip target_time halflife" by (simp add: max.coboundedI1)
  show "apply_asert t anchor tip target_time halflife \<le> max (t * 2 ^ m) 1" using r up by auto
qed

text \<open>ASERT corrects in the right direction. Exactly on schedule the target is unchanged, ahead of
  schedule it does not rise, and a delay shorter than \<open>m\<close> half-lives raises it by at most the factor
  \<open>2 ^ m\<close>, provided that factor does not leave the 128-bit range.\<close>

theorem asert_direction:
  assumes "1 \<le> t" and "t \<le> u128_max" and "db_height anchor < db_height tip"
    and "0 < halflife" and "halflife \<le> u64_max"
  shows "(asert_time_error anchor tip target_time = 0 \<longrightarrow> apply_asert t anchor tip target_time halflife = t)
       \<and> (asert_time_error anchor tip target_time < 0 \<longrightarrow> apply_asert t anchor tip target_time halflife \<le> t)
       \<and> (0 \<le> asert_time_error anchor tip target_time
            \<and> asert_time_error anchor tip target_time < int (m * halflife) \<and> m \<le> 64 \<and> t * 2 ^ m \<le> u128_max
            \<longrightarrow> t \<le> apply_asert t anchor tip target_time halflife
              \<and> apply_asert t anchor tip target_time halflife \<le> t * 2 ^ m)"
proof -
  have "apply_asert t anchor tip target_time halflife = t" if "asert_time_error anchor tip target_time = 0"
  proof -
    have "asert_exponent anchor tip target_time halflife = 0"
      using exponent_sign(3) that assms(4) by simp
    then have "decompose_fixed_point (asert_exponent anchor tip target_time halflife) = (0, 0)"
      by (simp add: decompose_fixed_point_def clamp_def i32_max_def)
    from apply_asert_unfold [OF assms(3,4) this] show ?thesis
      using assms(1,2) safe_mul_shift_bounds(4) [OF assms(2), of RADIX]
      by (simp add: u128_max_less)
  qed
  moreover have "max (t * 2 ^ m) 1 = t * 2 ^ m" using assms(1) by simp
  ultimately show ?thesis
    using asert_ahead [OF assms(1-4)] asert_behind [OF assms(2-5), of target_time m] by auto
qed

theorem asert_direction_witness:
  "2 ^ 100 \<le> apply_asert (2 ^ 100) \<lparr>db_height = 1, db_timestamp = 0, db_target = max_target\<rparr>
       \<lparr>db_height = 2, db_timestamp = 4000, db_target = max_target\<rparr> 120 3600
   \<and> apply_asert (2 ^ 100) \<lparr>db_height = 1, db_timestamp = 0, db_target = max_target\<rparr>
       \<lparr>db_height = 2, db_timestamp = 4000, db_target = max_target\<rparr> 120 3600 \<le> 2 ^ 100 * 2 ^ 2"
  using asert_direction [of "2 ^ 100" "\<lparr>db_height = 1, db_timestamp = 0, db_target = max_target\<rparr>"
      "\<lparr>db_height = 2, db_timestamp = 4000, db_target = max_target\<rparr>" 3600 120 2]
  by (simp add: asert_time_error_def u128_max_def u64_max_def)

text \<open>Past the 128-bit range the shift of \<open>apply_asert\<close> drops the high bits instead of saturating
  (\<open>checked_shl\<close> only fails for shifts of 128 or more). A chain whose tip has target \<open>2 ^ 100\<close> and
  that stalls for 28 hours computes an ASERT target of 1, and the next block needs twice the work
  instead of half of it.\<close>

theorem asert_stall_wraps:
  fixes stalled
  defines "stalled \<equiv> [\<lparr>db_height = 1, db_timestamp = 0, db_target = u128_to_target (2 ^ 100)\<rparr>,
                      \<lparr>db_height = 2, db_timestamp = 120 + 28 * 3600, db_target = u128_to_target (2 ^ 100)\<rparr>]"
  shows "asert_combined stalled = 1
       \<and> target_to_u128 (calculate_difficulty stalled 3) = 2 ^ 99
       \<and> target_to_u128 (db_target (last stalled)) = 2 ^ 100"
proof -
  let ?a = "\<lparr>db_height = 1, db_timestamp = 0, db_target = u128_to_target (2 ^ 100)\<rparr>"
  let ?t = "\<lparr>db_height = 2, db_timestamp = 120 + 28 * 3600, db_target = u128_to_target (2 ^ 100)\<rparr>"
  have "asert_exponent ?a ?t 120 3600 = 28 * 65536"
    by (simp add: asert_exponent_def asert_time_error_def i128_div_def i128_min_def i128_max_def RADIX_def)
  then have "decompose_fixed_point (asert_exponent ?a ?t 120 3600) = (28, 0)"
    by (simp add: decompose_fixed_point_def RADIX_def clamp_def i32_max_def)
  from apply_asert_unfold [OF _ _ this, of "2 ^ 100"]
  have asert: "apply_asert (2 ^ 100) ?a ?t 120 3600 = 1"
    by (simp add: clamp_def safe_mul_shift_def)
  have anchors: "get_anchor stalled DIFFICULTY_SHORT_WINDOW = ?a" "get_anchor stalled DIFFICULTY_LONG_WINDOW = ?a"
    and last: "last stalled = ?t"
    by (simp_all add: stalled_def get_anchor_def difficulty_consts)
  note anchors = anchors [unfolded difficulty_consts]
  have tip: "target_to_u128 (db_target (last stalled)) = 2 ^ 100"
    using retarget_sample by (simp add: last)
  have comb: "asert_combined stalled = 1"
    using asert tip by (simp add: asert_combined_def Let_def anchors last difficulty_consts
        safe_mul_u128_min saturating_add_def u128_max_def)
  have "\<not> needs_emergency_drop stalled 3" by (simp add: needs_emergency_drop_def difficulty_consts)
  then have "final_target stalled 3 = 2 ^ 99"
    using tip comb by (simp add: final_target_def Let_def difficulty_consts safe_mul_u128_min u128_max_def clamp_def)
  moreover have "calculate_difficulty stalled 3 = u128_to_target (final_target stalled 3)"
    by (simp add: calculate_difficulty_def stalled_def)
  ultimately show ?thesis
    using tip comb target_u128_roundtrip [of "2 ^ 99"] by (simp add: u128_max_def)
qed

text \<open>The three places that turn a target into work agree on every target: the difficulty module, the
  chain's \<open>calculate_difficulty_from_target\<close> and \<open>work_from_target\<close>; a harder target never has
  less work.\<close>

theorem work_functions_agree:
  "chain_work_from_target t = calculate_difficulty_from_target t
   \<and> work_from_target t = calculate_difficulty_from_target t
   \<and> (target_to_u128 t \<le> target_to_u128 t' \<longrightarrow> work_from_target t' \<le> work_from_target t)"
proof -
  have eq: "work_from_target x = u128_max div target_to_u128 x" for x
    by (auto simp: work_from_target_def target_to_u128_def Let_def max_def le_Suc_eq)
  have "u128_max div target_to_u128 t' \<le> u128_max div target_to_u128 t"
    if "target_to_u128 t \<le> target_to_u128 t'"
    using that by (intro div_le_mono2) (simp_all add: target_to_u128_def)
  then show ?thesis
    by (simp add: eq calculate_difficulty_from_target_def target_to_difficulty_def)
      (auto simp: chain_work_from_target_def target_to_u128_def Let_def max_def le_Suc_eq)
qed

theorem work_functions_agree_witness:
  "work_from_target (u128_to_target (2 ^ 100)) \<le> work_from_target (u128_to_target (2 ^ 99))"
  using work_functions_agree [of "u128_to_target (2 ^ 99)" "u128_to_target (2 ^ 100)"]
    retarget_sample target_u128_roundtrip [of "2 ^ 99"] by (simp add: u128_max_def)

end
