(* ===== verification/Finality.thy ===== *)
theory Finality
  imports Std_Maps "HOL-Library.List_Lexorder"
begin

section \<open>Rolling finality (crates/coincync-rolling-finality)\<close>

text \<open>
  The finality tracker of CIP-009.D: the active miner set, the attestations per height and hash, the
  two-thirds threshold and the reorg query, function by function after \<open>active_set.rs\<close> and
  \<open>finality.rs\<close>. Signature verification is the trait \<open>AttestationVerifier\<close> of the source: a
  parameter \<open>verify\<close>. The interface \<open>quorum_rule\<close> states what a threshold must give (two quorums
  overlap in a third of the voters); \<open>ceil_two_thirds\<close> interprets it.
\<close>

type_synonym miner_pubkey = bytes
type_synonym block_hash = bytes

subsection \<open>Types (types.rs, error.rs)\<close>

record finality_attestation =
  att_miner :: miner_pubkey
  att_height :: nat
  att_hash :: block_hash
  att_signature :: bytes

definition signing_bytes :: "finality_attestation \<Rightarrow> bytes" where
  "signing_bytes a =
     map (\<lambda>c. word_of_nat (of_char c)) ''CYNC.CIP-009-D.'' @ [0] @ le_bytes 8 (att_height a) @ att_hash a"

datatype finality_error =
    InvalidSignature
  | MinerNotActive (mna_height: nat)
  | StaleTarget (stale_target: nat) (earliest_accepted: nat)
  | FutureTarget (future_target: nat) (tracker_tip: nat)
  | DuplicateAttestation (dup_target: nat)

datatype apply_outcome = Accepted | NewlyFinalized (nf_height: nat) (nf_hash: block_hash)

subsection \<open>The active miner set (active_set.rs)\<close>

record miner_record =
  first_seen_height :: nat
  last_seen_height :: nat

record active_miner_set =
  miners :: "(miner_pubkey, miner_record) btree_map"
  window :: nat

definition active_set_new :: "nat \<Rightarrow> active_miner_set" where
  "active_set_new w = \<lparr> miners = [], window = w \<rparr>"

definition active_record_block :: "active_miner_set \<Rightarrow> miner_pubkey \<Rightarrow> nat \<Rightarrow> active_miner_set" where
  "active_record_block s miner height =
     (case map_of (miners s) miner of
        Some r \<Rightarrow>
          if last_seen_height r < height
          then s \<lparr> miners := bt_insert miner (r \<lparr> last_seen_height := height \<rparr>) (miners s) \<rparr>
          else s
      | None \<Rightarrow>
          s \<lparr> miners := bt_insert miner
                \<lparr> first_seen_height = height, last_seen_height = height \<rparr> (miners s) \<rparr>)"

definition is_active_record :: "miner_record \<Rightarrow> nat \<Rightarrow> nat \<Rightarrow> bool" where
  "is_active_record r at_height w =
     (if at_height < first_seen_height r then False
      else if at_height - first_seen_height r < w then True
      else if last_seen_height r \<le> at_height \<and> at_height - last_seen_height r < w then True
      else False)"

definition is_active :: "active_miner_set \<Rightarrow> miner_pubkey \<Rightarrow> nat \<Rightarrow> bool" where
  "is_active s miner at_height =
     (case map_of (miners s) miner of
        Some r \<Rightarrow> is_active_record r at_height (window s)
      | None \<Rightarrow> False)"

definition active_count :: "active_miner_set \<Rightarrow> nat \<Rightarrow> nat" where
  "active_count s at_height =
     length (filter (\<lambda>p. is_active_record (snd p) at_height (window s)) (miners s))"

definition active_miners :: "active_miner_set \<Rightarrow> nat \<Rightarrow> miner_pubkey list" where
  "active_miners s at_height =
     map fst (filter (\<lambda>p. is_active_record (snd p) at_height (window s)) (miners s))"

definition total_count :: "active_miner_set \<Rightarrow> nat" where
  "total_count s = length (miners s)"

subsection \<open>The tracker (finality.rs)\<close>

definition DEFAULT_WINDOW :: nat where "DEFAULT_WINDOW = 10000"
definition DEFAULT_LAG :: nat where "DEFAULT_LAG = 100"
definition DEFAULT_MIN_QUORUM :: nat where "DEFAULT_MIN_QUORUM = 5"
definition DEFAULT_STALE_HORIZON :: nat where "DEFAULT_STALE_HORIZON = 10000"

type_synonym signer_set = "miner_pubkey set"
type_synonym hash_signers = "(block_hash, signer_set) btree_map"

record finality_tracker =
  min_quorum :: nat
  lag :: nat
  stale_horizon :: nat
  active_set :: active_miner_set
  chain_tip :: nat
  attestations :: "(nat, hash_signers) btree_map"
  soft_final_height :: "nat option"
  total_recorded :: nat

definition tracker_with_params :: "nat \<Rightarrow> nat \<Rightarrow> nat \<Rightarrow> nat \<Rightarrow> finality_tracker" where
  "tracker_with_params w l mq sh =
     \<lparr> min_quorum = mq, lag = l, stale_horizon = sh, active_set = active_set_new w, chain_tip = 0,
       attestations = [], soft_final_height = None, total_recorded = 0 \<rparr>"

definition tracker_new_default :: finality_tracker where
  "tracker_new_default =
     \<lparr> min_quorum = DEFAULT_MIN_QUORUM, lag = DEFAULT_LAG, stale_horizon = DEFAULT_STALE_HORIZON,
       active_set = active_set_new DEFAULT_WINDOW, chain_tip = 0,
       attestations = [], soft_final_height = None, total_recorded = 0 \<rparr>"

definition prune_stale_attestations :: "finality_tracker \<Rightarrow> finality_tracker" where
  "prune_stale_attestations t =
     (let earliest_keep = chain_tip t - stale_horizon t
      in t \<lparr> attestations := filter (\<lambda>p. earliest_keep \<le> fst p) (attestations t) \<rparr>)"

definition record_block :: "finality_tracker \<Rightarrow> miner_pubkey \<Rightarrow> nat \<Rightarrow> finality_tracker" where
  "record_block t miner block_height =
     (let t = t \<lparr> active_set := active_record_block (active_set t) miner block_height \<rparr>
      in if chain_tip t < block_height
         then prune_stale_attestations (t \<lparr> chain_tip := block_height \<rparr>)
         else t)"

definition ceil_two_thirds :: "nat \<Rightarrow> nat" where
  "ceil_two_thirds n = saturating_add u64_max (saturating_mul u64_max n 2) 2 div 3"

text \<open>\<open>entry(k).or_default()\<close> for the two nested maps.\<close>

definition height_entry :: "finality_tracker \<Rightarrow> nat \<Rightarrow> hash_signers" where
  "height_entry t h = (case map_of (attestations t) h of Some e \<Rightarrow> e | None \<Rightarrow> [])"

definition hash_entry :: "finality_tracker \<Rightarrow> nat \<Rightarrow> block_hash \<Rightarrow> signer_set" where
  "hash_entry t h hash = (case map_of (height_entry t h) hash of Some s \<Rightarrow> s | None \<Rightarrow> {})"

definition set_hash_entry ::
    "finality_tracker \<Rightarrow> nat \<Rightarrow> block_hash \<Rightarrow> signer_set \<Rightarrow> finality_tracker" where
  "set_hash_entry t h hash s =
     t \<lparr> attestations := bt_insert h (bt_insert hash s (height_entry t h)) (attestations t) \<rparr>"

definition apply_attestation ::
    "(finality_attestation \<Rightarrow> bool) \<Rightarrow> finality_tracker \<Rightarrow> finality_attestation
       \<Rightarrow> (finality_error + apply_outcome) \<times> finality_tracker" where
  "apply_attestation verify t a =
     (let h = att_height a;
          earliest = chain_tip t - stale_horizon t
      in if \<not> verify a then (Inl InvalidSignature, t)
         else if chain_tip t < h then (Inl (FutureTarget h (chain_tip t)), t)
         else if h < earliest then (Inl (StaleTarget h earliest), t)
         else if \<not> is_active (active_set t) (att_miner a) h then (Inl (MinerNotActive h), t)
         else
           let signers = hash_entry t h (att_hash a)
           in if att_miner a \<in> signers
              then (Inl (DuplicateAttestation h), set_hash_entry t h (att_hash a) signers)
              else
                let signers = insert (att_miner a) signers;
                    t = set_hash_entry t h (att_hash a) signers;
                    t = t \<lparr> total_recorded := total_recorded t + 1 \<rparr>;
                    count = active_count (active_set t) h
                in if count < min_quorum t then (Inr Accepted, t)
                   else if ceil_two_thirds count \<le> card signers
                        \<and> (case soft_final_height t of Some current \<Rightarrow> current < h | None \<Rightarrow> True)
                   then (Inr (NewlyFinalized h (att_hash a)), t \<lparr> soft_final_height := Some h \<rparr>)
                   else (Inr Accepted, t))"

definition would_reorg_violate_finality :: "finality_tracker \<Rightarrow> nat \<Rightarrow> bool" where
  "would_reorg_violate_finality t proposed_fork_height =
     (case soft_final_height t of
        Some soft_final \<Rightarrow> proposed_fork_height \<le> soft_final
      | None \<Rightarrow> False)"

definition signer_count :: "finality_tracker \<Rightarrow> nat \<Rightarrow> block_hash \<Rightarrow> nat" where
  "signer_count t height hash =
     (case map_of (attestations t) height of
        None \<Rightarrow> 0
      | Some hs \<Rightarrow> (case map_of hs hash of None \<Rightarrow> 0 | Some s \<Rightarrow> card s))"

record finality_stats =
  fs_current_chain_tip :: nat
  fs_soft_final_height :: "nat option"
  fs_active_miner_count :: nat
  fs_total_miner_count :: nat
  fs_total_attestations_recorded :: nat
  fs_min_quorum :: nat
  fs_lag :: nat
  fs_window :: nat

definition tracker_stats :: "finality_tracker \<Rightarrow> finality_stats" where
  "tracker_stats t =
     \<lparr> fs_current_chain_tip = chain_tip t, fs_soft_final_height = soft_final_height t,
       fs_active_miner_count = active_count (active_set t) (chain_tip t),
       fs_total_miner_count = total_count (active_set t),
       fs_total_attestations_recorded = total_recorded t,
       fs_min_quorum = min_quorum t, fs_lag = lag t, fs_window = window (active_set t) \<rparr>"

subsection \<open>Quorums\<close>

locale quorum_rule =
  fixes threshold :: "nat \<Rightarrow> nat" and overlap :: "nat \<Rightarrow> nat" and limit :: nat
  assumes threshold_overlap: "n \<le> limit \<Longrightarrow> n + overlap n \<le> 2 * threshold n"
    and threshold_le: "n \<le> limit \<Longrightarrow> threshold n \<le> n"
    and overlap_pos: "0 < n \<Longrightarrow> n \<le> limit \<Longrightarrow> 0 < overlap n"
begin

lemma quorums_overlap:
  assumes "finite A" and "card A \<le> limit" and "S \<subseteq> A" and "T \<subseteq> A"
    and "threshold (card A) \<le> card S" and "threshold (card A) \<le> card T"
  shows "overlap (card A) \<le> card (S \<inter> T)"
proof -
  have "finite S" "finite T" using assms(1,3,4) by (auto intro: finite_subset)
  then have "card S + card T = card (S \<union> T) + card (S \<inter> T)" by (rule card_Un_Int)
  moreover have "card (S \<union> T) \<le> card A" using assms(1,3,4) by (intro card_mono) auto
  ultimately show ?thesis using threshold_overlap [OF assms(2)] assms(5,6) by linarith
qed

lemma no_conflict_without_double_signers:
  assumes "finite A" and "A \<noteq> {}" and "card A \<le> limit" and "S \<subseteq> A" and "T \<subseteq> A"
    and "threshold (card A) \<le> card S" and "card (S \<inter> T) < overlap (card A)"
  shows "card T < threshold (card A)"
  using quorums_overlap [of A S T] assms by (meson not_le)

lemma unanimity_is_quorum: "card A \<le> limit \<Longrightarrow> threshold (card A) \<le> card A"
  by (rule threshold_le)

end

definition quorum_limit :: nat where "quorum_limit = 2 ^ 62"

lemma ceil_two_thirds_eq: "n \<le> quorum_limit \<Longrightarrow> ceil_two_thirds n = (2 * n + 2) div 3"
  by (simp add: ceil_two_thirds_def saturating_add_def saturating_mul_def quorum_limit_def u64_max_def
      min_def mult.commute)

interpretation two_thirds: quorum_rule ceil_two_thirds "\<lambda>n. (n + 2) div 3" quorum_limit
proof
  fix n :: nat
  assume n: "n \<le> quorum_limit"
  show "n + (n + 2) div 3 \<le> 2 * ceil_two_thirds n" "ceil_two_thirds n \<le> n"
    unfolding ceil_two_thirds_eq [OF n] by linarith+
  show "0 < (n + 2) div 3" if "0 < n" using that by linarith
qed

subsection \<open>The tracker's invariant\<close>

definition hash_signers_ok :: "hash_signers \<Rightarrow> bool" where
  "hash_signers_ok e = (bt_invar e \<and> (\<forall>p \<in> set e. finite (snd p)))"

definition tracker_inv :: "finality_tracker \<Rightarrow> bool" where
  "tracker_inv t =
     (bt_invar (miners (active_set t))
      \<and> (\<forall>p \<in> set (miners (active_set t)).
           first_seen_height (snd p) \<le> last_seen_height (snd p) \<and> last_seen_height (snd p) \<le> chain_tip t)
      \<and> bt_invar (attestations t)
      \<and> (\<forall>p \<in> set (attestations t).
           chain_tip t - stale_horizon t \<le> fst p \<and> fst p \<le> chain_tip t \<and> hash_signers_ok (snd p))
      \<and> (\<forall>s. soft_final_height t = Some s \<longrightarrow> s \<le> chain_tip t))"

lemma tracker_inv_new: "tracker_inv (tracker_with_params w l mq sh)" "tracker_inv tracker_new_default"
  by (simp_all add: tracker_inv_def tracker_with_params_def tracker_new_default_def active_set_new_def
      bt_invar_def)

lemma height_entry_ok: "tracker_inv t \<Longrightarrow> hash_signers_ok (height_entry t h)"
  by (cases "map_of (attestations t) h")
    (auto simp: height_entry_def tracker_inv_def hash_signers_ok_def [of "[]"] bt_invar_def [of "[]"]
      dest!: map_of_SomeD)

lemma hash_entry_finite: "tracker_inv t \<Longrightarrow> finite (hash_entry t h x)"
  using height_entry_ok [of t h]
  by (auto simp: hash_entry_def hash_signers_ok_def split: option.splits dest!: map_of_SomeD)

lemma active_record_block_miners:
  assumes "tracker_inv t"
  shows "bt_invar (miners (active_record_block (active_set t) m h))"
    and "p \<in> set (miners (active_record_block (active_set t) m h)) \<Longrightarrow>
      first_seen_height (snd p) \<le> last_seen_height (snd p)
      \<and> last_seen_height (snd p) \<le> max (chain_tip t) h"
  using assms
  by (auto simp: active_record_block_def tracker_inv_def bt_invar_insert set_bt_insert
      split: option.splits if_splits dest!: map_of_SomeD)

lemma record_block_inv:
  assumes "tracker_inv t"
  shows "tracker_inv (record_block t m h)"
proof -
  note b = active_record_block_miners [OF assms, where m = m and h = h]
  have old: "bt_invar (attestations t)"
    "\<And>p. p \<in> set (attestations t) \<Longrightarrow>
      chain_tip t - stale_horizon t \<le> fst p \<and> fst p \<le> chain_tip t \<and> hash_signers_ok (snd p)"
    "\<And>s. soft_final_height t = Some s \<Longrightarrow> s \<le> chain_tip t"
    using assms by (auto simp: tracker_inv_def)
  show ?thesis
  proof (cases "chain_tip t < h")
    case True
    with b old show ?thesis
      by (fastforce simp: record_block_def prune_stale_attestations_def tracker_inv_def bt_invar_filter Let_def)
  next
    case False
    with b old show ?thesis by (fastforce simp: record_block_def tracker_inv_def Let_def)
  qed
qed

lemma set_hash_entry_inv:
  assumes "tracker_inv t" and "chain_tip t - stale_horizon t \<le> h" and "h \<le> chain_tip t" and "finite s"
  shows "tracker_inv (set_hash_entry t h x s)"
proof -
  have "hash_signers_ok (bt_insert x s (height_entry t h))"
    using height_entry_ok [OF assms(1), of h] assms(4)
    by (auto simp: hash_signers_ok_def bt_invar_insert set_bt_insert)
  with assms show ?thesis
    by (auto simp: set_hash_entry_def tracker_inv_def bt_invar_insert set_bt_insert)
qed

lemma set_hash_entry_same:
  assumes "tracker_inv t" and "hash_entry t h x \<noteq> {}"
  shows "set_hash_entry t h x (hash_entry t h x) = t"
proof -
  obtain e where e: "map_of (attestations t) h = Some e"
    using assms(2) by (auto simp: hash_entry_def height_entry_def split: option.splits)
  then have he: "height_entry t h = e" by (simp add: height_entry_def)
  then obtain s where s: "map_of e x = Some s" "hash_entry t h x = s"
    using assms(2) by (auto simp: hash_entry_def split: option.splits)
  have "bt_invar e" using height_entry_ok [OF assms(1), of h] he by (simp add: hash_signers_ok_def)
  with s have "bt_insert x s e = e" by (intro bt_insert_same) simp_all
  moreover have "bt_insert h e (attestations t) = attestations t"
    using assms(1) e by (intro bt_insert_same) (simp_all add: tracker_inv_def)
  ultimately show ?thesis using s he by (simp add: set_hash_entry_def)
qed

lemma hash_entry_set:
  "hash_entry (set_hash_entry t h x s) h' x' = (if h' = h \<and> x' = x then s else hash_entry t h' x')"
  by (simp add: hash_entry_def height_entry_def set_hash_entry_def)

subsection \<open>Applying an attestation\<close>

definition recorded :: "finality_tracker \<Rightarrow> finality_attestation \<Rightarrow> finality_tracker" where
  "recorded t a =
     (set_hash_entry t (att_height a) (att_hash a)
        (insert (att_miner a) (hash_entry t (att_height a) (att_hash a))))
       \<lparr> total_recorded := total_recorded t + 1 \<rparr>"

lemma recorded_simps [simp]:
  "min_quorum (recorded t a) = min_quorum t" "active_set (recorded t a) = active_set t"
  "chain_tip (recorded t a) = chain_tip t" "stale_horizon (recorded t a) = stale_horizon t"
  "soft_final_height (recorded t a) = soft_final_height t"
  "total_recorded (recorded t a) = total_recorded t + 1"
  by (simp_all add: recorded_def set_hash_entry_def)

lemma hash_entry_update [simp]:
  "hash_entry (t \<lparr> soft_final_height := s \<rparr>) h x = hash_entry t h x"
  "hash_entry (t \<lparr> total_recorded := n \<rparr>) h x = hash_entry t h x"
  by (simp_all add: hash_entry_def height_entry_def)

lemma hash_entry_recorded:
  "hash_entry (recorded t a) h x =
     (if h = att_height a \<and> x = att_hash a then insert (att_miner a) (hash_entry t h x)
      else hash_entry t h x)"
  by (simp add: recorded_def hash_entry_set)

lemma apply_attestation_alt:
  "apply_attestation verify t a =
     (if \<not> verify a then (Inl InvalidSignature, t)
      else if chain_tip t < att_height a then (Inl (FutureTarget (att_height a) (chain_tip t)), t)
      else if att_height a < chain_tip t - stale_horizon t
      then (Inl (StaleTarget (att_height a) (chain_tip t - stale_horizon t)), t)
      else if \<not> is_active (active_set t) (att_miner a) (att_height a)
      then (Inl (MinerNotActive (att_height a)), t)
      else if att_miner a \<in> hash_entry t (att_height a) (att_hash a)
      then (Inl (DuplicateAttestation (att_height a)),
            set_hash_entry t (att_height a) (att_hash a) (hash_entry t (att_height a) (att_hash a)))
      else if active_count (active_set t) (att_height a) < min_quorum t then (Inr Accepted, recorded t a)
      else if ceil_two_thirds (active_count (active_set t) (att_height a))
                \<le> card (hash_entry (recorded t a) (att_height a) (att_hash a))
              \<and> (case soft_final_height t of Some current \<Rightarrow> current < att_height a | None \<Rightarrow> True)
      then (Inr (NewlyFinalized (att_height a) (att_hash a)),
            recorded t a \<lparr> soft_final_height := Some (att_height a) \<rparr>)
      else (Inr Accepted, recorded t a))"
  unfolding apply_attestation_def Let_def hash_entry_recorded
  by (simp add: recorded_def set_hash_entry_def)

lemma apply_error:
  assumes "tracker_inv t" and "apply_attestation verify t a = (Inl e, t')"
  shows "t' = t"
proof -
  have "set_hash_entry t (att_height a) (att_hash a) (hash_entry t (att_height a) (att_hash a)) = t"
    if "att_miner a \<in> hash_entry t (att_height a) (att_hash a)"
    using assms(1) that by (intro set_hash_entry_same) auto
  with assms(2) show ?thesis by (auto simp: apply_attestation_alt split: if_splits)
qed

lemma apply_ok:
  assumes "apply_attestation verify t a = (Inr out, t')"
  shows "verify a" and "att_height a \<le> chain_tip t" and "chain_tip t - stale_horizon t \<le> att_height a"
    and "is_active (active_set t) (att_miner a) (att_height a)"
    and "att_miner a \<notin> hash_entry t (att_height a) (att_hash a)"
    and "out = Accepted \<Longrightarrow> t' = recorded t a"
    and "out = NewlyFinalized h x \<Longrightarrow>
      h = att_height a \<and> x = att_hash a
      \<and> t' = recorded t a \<lparr> soft_final_height := Some h \<rparr>
      \<and> min_quorum t \<le> active_count (active_set t) h
      \<and> ceil_two_thirds (active_count (active_set t) h) \<le> card (hash_entry t' h x)
      \<and> (\<forall>s. soft_final_height t = Some s \<longrightarrow> s < h)"
  using assms
  by (auto simp: apply_attestation_alt split: if_splits option.splits)

lemma recorded_inv:
  assumes "tracker_inv t" and "att_height a \<le> chain_tip t"
    and "chain_tip t - stale_horizon t \<le> att_height a"
  shows "tracker_inv (recorded t a)"
proof -
  have "tracker_inv (set_hash_entry t (att_height a) (att_hash a)
      (insert (att_miner a) (hash_entry t (att_height a) (att_hash a))))"
    using assms hash_entry_finite [OF assms(1)] by (intro set_hash_entry_inv) auto
  then show ?thesis by (simp add: tracker_inv_def recorded_def)
qed

lemma apply_inv:
  assumes "tracker_inv t" and "apply_attestation verify t a = (r, t')"
  shows "tracker_inv t'"
proof (cases r)
  case (Inl e)
  with apply_error [OF assms(1)] assms show ?thesis by auto
next
  case (Inr out)
  note ok = apply_ok [OF assms(2) [unfolded Inr]]
  have rec: "tracker_inv (recorded t a)" using recorded_inv assms(1) ok(2,3) by simp
  show ?thesis
  proof (cases out)
    case Accepted
    with ok(6) rec show ?thesis by simp
  next
    case (NewlyFinalized h x)
    with ok(7) have "t' = recorded t a \<lparr> soft_final_height := Some h \<rparr>" "h \<le> chain_tip t"
      using ok(2) by auto
    with rec show ?thesis by (simp add: tracker_inv_def)
  qed
qed

text \<open>Trackers driven by any sequence of blocks and attestations.\<close>

inductive tracker_step :: "(finality_attestation \<Rightarrow> bool) \<Rightarrow> finality_tracker \<Rightarrow> finality_tracker \<Rightarrow> bool"
  for verify :: "finality_attestation \<Rightarrow> bool" where
  step_block: "tracker_step verify t (record_block t m h)"
| step_attest: "tracker_step verify t (snd (apply_attestation verify t a))"

inductive_cases tracker_stepE: "tracker_step verify t t'"

lemma step_inv: "tracker_step verify t t' \<Longrightarrow> tracker_inv t \<Longrightarrow> tracker_inv t'"
  by (auto elim!: tracker_stepE intro: record_block_inv apply_inv [OF _ surjective_pairing])

lemma steps_inv: "(tracker_step verify)\<^sup>*\<^sup>* t t' \<Longrightarrow> tracker_inv t \<Longrightarrow> tracker_inv t'"
  by (induction rule: rtranclp_induct) (auto intro: step_inv)

definition final_le :: "nat option \<Rightarrow> nat option \<Rightarrow> bool" where
  "final_le a b = (\<forall>x. a = Some x \<longrightarrow> (\<exists>y. b = Some y \<and> x \<le> y))"

lemma step_monotone:
  assumes "tracker_step verify t t'" and "tracker_inv t"
  shows "final_le (soft_final_height t) (soft_final_height t') \<and> chain_tip t \<le> chain_tip t'"
  using assms(1)
proof (cases rule: tracker_step.cases)
  case (step_block m h)
  then show ?thesis
    by (simp add: record_block_def prune_stale_attestations_def Let_def final_le_def)
next
  case (step_attest a)
  obtain r t2 where r: "apply_attestation verify t a = (r, t2)" by fastforce
  with step_attest have t': "t' = t2" by simp
  show ?thesis
  proof (cases r)
    case (Inl e)
    with apply_error [OF assms(2)] r t' have "t' = t" by blast
    then show ?thesis by (simp add: final_le_def)
  next
    case (Inr out)
    note ok = apply_ok [OF r [unfolded Inr]]
    show ?thesis
      using ok(6,7) t' by (cases out) (auto simp: final_le_def dest: less_imp_le)
  qed
qed

lemma steps_monotone:
  assumes "(tracker_step verify)\<^sup>*\<^sup>* t t'" and "tracker_inv t"
  shows "final_le (soft_final_height t) (soft_final_height t') \<and> chain_tip t \<le> chain_tip t'"
  using assms
proof (induction rule: rtranclp_induct)
  case base
  then show ?case by (simp add: final_le_def)
next
  case (step t1 t2)
  then have "tracker_inv t1" using steps_inv by blast
  with step step_monotone [OF step.hyps(2)] show ?case by (fastforce simp: final_le_def)
qed

text \<open>C27: over any sequence of blocks and attestations, from a fresh tracker, the tracker's invariant
  holds, the soft-final height never decreases (nor disappears), and a reorg the finality rule once
  forbids stays forbidden.\<close>

theorem soft_finality_monotone:
  assumes "(tracker_step verify)\<^sup>*\<^sup>* (tracker_with_params w l mq sh) t"
    and "(tracker_step verify)\<^sup>*\<^sup>* t t'"
  shows "tracker_inv t'
       \<and> (soft_final_height t = Some s \<longrightarrow> (\<exists>s' \<ge> s. soft_final_height t' = Some s'))
       \<and> (would_reorg_violate_finality t f \<longrightarrow> would_reorg_violate_finality t' f)"
proof -
  have t: "tracker_inv t" using steps_inv [OF assms(1)] tracker_inv_new by blast
  from steps_monotone [OF assms(2) t] have le: "final_le (soft_final_height t) (soft_final_height t')" by simp
  then have "would_reorg_violate_finality t' f" if "would_reorg_violate_finality t f"
    using that by (auto simp: would_reorg_violate_finality_def final_le_def split: option.splits)
  with le steps_inv [OF assms(2) t] show ?thesis by (auto simp: final_le_def)
qed

text \<open>C26: a rejected attestation leaves the tracker untouched. An accepted one carries a valid signature of
  a miner that is active at the attested height and had not signed that hash before, and it is
  recorded for exactly its height and hash. Finality is only announced for that height and hash,
  above the previous soft-final height, when at least the quorum of miners is active at the height
  and the recorded signers of that very hash are at least two thirds, rounded up, of the number of
  miners active now. The signers are counted, not intersected with the active set: each was active
  when its own attestation was accepted, and some may have left the set since.\<close>

theorem finalization_justified:
  assumes "tracker_inv t" and "apply_attestation verify t a = (r, t')"
  shows "(\<forall>e. r = Inl e \<longrightarrow> t' = t)
       \<and> (\<forall>out. r = Inr out \<longrightarrow> verify a \<and> is_active (active_set t) (att_miner a) (att_height a)
             \<and> att_miner a \<notin> hash_entry t (att_height a) (att_hash a)
             \<and> (\<forall>h x. hash_entry t' h x =
             (if h = att_height a \<and> x = att_hash a then insert (att_miner a) (hash_entry t h x)
              else hash_entry t h x)) \<and> total_recorded t' = total_recorded t + 1)
       \<and> (\<forall>h x. r = Inr (NewlyFinalized h x) \<longrightarrow>
             h = att_height a \<and> x = att_hash a \<and> soft_final_height t' = Some h
             \<and> min_quorum t \<le> active_count (active_set t) h
             \<and> ceil_two_thirds (active_count (active_set t) h) \<le> card (hash_entry t' h x)
             \<and> (\<forall>s. soft_final_height t = Some s \<longrightarrow> s < h))"
proof (cases r)
  case (Inl e)
  with apply_error [OF assms(1)] assms(2) show ?thesis by blast
next
  case (Inr out)
  note ok = apply_ok [OF assms(2) [unfolded Inr]]
  have upd: "t' = recorded t a \<or> (\<exists>s. t' = recorded t a \<lparr> soft_final_height := s \<rparr>)"
    using ok(6,7) by (cases out) auto
  then have "hash_entry t' h x =
      (if h = att_height a \<and> x = att_hash a then insert (att_miner a) (hash_entry t h x)
       else hash_entry t h x)" "total_recorded t' = total_recorded t + 1" for h x
    by (auto simp: hash_entry_recorded)
  with Inr ok(1,4,5,7) show ?thesis by auto
qed

lemma active_miners_card:
  assumes "bt_invar (miners s)"
  shows "card (set (active_miners s h)) = active_count s h"
proof -
  have "distinct (map fst (miners s))" using assms by (rule bmap.keys_distinct)
  then have "distinct (active_miners s h)" by (simp add: active_miners_def distinct_fst_filter)
  then have "card (set (active_miners s h)) = length (active_miners s h)" by (rule distinct_card)
  also have "\<dots> = active_count s h" by (simp add: active_miners_def active_count_def)
  finally show ?thesis .
qed

lemma is_active_in:
  "is_active s m h \<Longrightarrow> m \<in> set (active_miners s h)"
  by (force simp: is_active_def active_miners_def split: option.splits dest: map_of_SomeD)

text \<open>C11: accountable safety. If two nodes with the same active miners at a height both finalize there,
  on whatever hashes, and every recorded signer is one of those active miners, then at least a
  third of the active miners signed both hashes; two different blocks are never finalized at one
  height with fewer double signers.\<close>

theorem conflicting_finality_accountable:
  assumes "tracker_inv t\<^sub>1" and "tracker_inv t\<^sub>2"
    and "apply_attestation verify t\<^sub>1 a\<^sub>1 = (Inr (NewlyFinalized h x), t\<^sub>1')"
    and "apply_attestation verify t\<^sub>2 a\<^sub>2 = (Inr (NewlyFinalized h y), t\<^sub>2')"
    and "set (active_miners (active_set t\<^sub>1) h) = A" and "set (active_miners (active_set t\<^sub>2) h) = A"
    and "hash_entry t\<^sub>1 h x \<subseteq> A" and "hash_entry t\<^sub>2 h y \<subseteq> A" and "card A \<le> quorum_limit"
  shows "(card A + 2) div 3 \<le> card (hash_entry t\<^sub>1' h x \<inter> hash_entry t\<^sub>2' h y)"
proof -
  have quorum: "ceil_two_thirds (card A) \<le> card (hash_entry t' h z) \<and> hash_entry t' h z \<subseteq> A"
    if "tracker_inv t" "apply_attestation verify t a = (Inr (NewlyFinalized h z), t')"
      "set (active_miners (active_set t) h) = A" "hash_entry t h z \<subseteq> A" for t a z t'
  proof -
    note ok = apply_ok [OF that(2)] and fin = apply_ok(7) [OF that(2) refl]
    have "card A = active_count (active_set t) h"
      using active_miners_card [of "active_set t" h] that(1,3) by (simp add: tracker_inv_def)
    moreover have "att_miner a \<in> A" using is_active_in [OF ok(4)] fin that(3) by simp
    ultimately show ?thesis using fin that(4) by (auto simp: hash_entry_recorded)
  qed
  have "finite A" using assms(5) by auto
  with quorum [OF assms(1,3,5,7)] quorum [OF assms(2,4,6,8)] assms(9) show ?thesis
    by (intro two_thirds.quorums_overlap) auto
qed

subsection \<open>Miners older than the window\<close>

lemma record_block_lookup:
  assumes "map_of (miners (active_set t)) m = Some r" and "last_seen_height r < h"
  shows "map_of (miners (active_set (record_block t m h))) m = Some (r \<lparr> last_seen_height := h \<rparr>)"
    and "window (active_set (record_block t m h)) = window (active_set t)"
  using assms
  by (simp_all add: record_block_def prune_stale_attestations_def active_record_block_def Let_def)

text \<open>A miner that has been around for longer than the window can never attest. Recording its new
  block overwrites \<open>last_seen_height\<close>, so at the lagged target height neither clause of
  \<open>is_active_record\<close> holds, however often it mined before: its attestation is rejected as coming
  from an inactive miner.\<close>

theorem veteran_miner_rejected:
  assumes "map_of (miners (active_set t)) (att_miner a) = Some r" and "last_seen_height r < h"
    and "first_seen_height r + window (active_set t) \<le> att_height a" and "att_height a < h"
    and "chain_tip t < h" and "h - stale_horizon t \<le> att_height a" and "verify a"
  shows "apply_attestation verify (record_block t (att_miner a) h) a
    = (Inl (MinerNotActive (att_height a)), record_block t (att_miner a) h)"
proof -
  let ?t = "record_block t (att_miner a) h"
  have tip: "chain_tip ?t = h" "stale_horizon ?t = stale_horizon t"
    using assms(5) by (simp_all add: record_block_def prune_stale_attestations_def Let_def)
  have "\<not> is_active (active_set ?t) (att_miner a) (att_height a)"
    using record_block_lookup [OF assms(1,2)] assms(3,4) by (simp add: is_active_def is_active_record_def)
  then show ?thesis using assms tip by (simp add: apply_attestation_alt)
qed

subsection \<open>Sample trackers\<close>

definition sample_tracker :: finality_tracker where
  "sample_tracker = record_block (tracker_with_params 100 10 1 50) [1] 7"

definition sample_att :: "u8 \<Rightarrow> finality_attestation" where
  "sample_att x = \<lparr> att_miner = [1], att_height = 7, att_hash = [x], att_signature = [] \<rparr>"

lemma sample_inv: "tracker_inv sample_tracker"
  unfolding sample_tracker_def by (intro record_block_inv tracker_inv_new)

lemmas sample_defs = sample_tracker_def sample_att_def tracker_with_params_def record_block_def
  active_set_new_def active_record_block_def prune_stale_attestations_def

lemma sample_finalizes:
  "apply_attestation (\<lambda>_. True) sample_tracker (sample_att x)
   = (Inr (NewlyFinalized 7 [x]), recorded sample_tracker (sample_att x) \<lparr> soft_final_height := Some 7 \<rparr>)"
  by (simp add: apply_attestation_alt hash_entry_recorded)
    (simp add: sample_defs is_active_def is_active_record_def bt_insert_def active_count_def
      ceil_two_thirds_def saturating_add_def saturating_mul_def u64_max_def hash_entry_def height_entry_def)

lemma sample_active: "set (active_miners (active_set sample_tracker) 7) = {[1]}"
  by (simp add: sample_defs active_miners_def is_active_record_def bt_insert_def)

lemma sample_entry: "hash_entry sample_tracker h x = {}"
  by (simp add: sample_defs hash_entry_def height_entry_def)

definition sample_final :: finality_tracker where
  "sample_final = snd (apply_attestation (\<lambda>_. True) sample_tracker (sample_att 9))"

theorem soft_finality_monotone_witness:
  "tracker_inv (record_block sample_final [2] 9) \<and> would_reorg_violate_finality (record_block sample_final [2] 9) 3"
proof -
  have "(tracker_step (\<lambda>_. True))\<^sup>*\<^sup>* (tracker_with_params 100 10 1 50) sample_tracker"
    unfolding sample_tracker_def by (intro r_into_rtranclp step_block)
  also have "tracker_step (\<lambda>_. True) sample_tracker sample_final"
    unfolding sample_final_def by (rule step_attest)
  finally have 1: "(tracker_step (\<lambda>_. True))\<^sup>*\<^sup>* (tracker_with_params 100 10 1 50) sample_final" .
  have 2: "(tracker_step (\<lambda>_. True))\<^sup>*\<^sup>* sample_final (record_block sample_final [2] 9)"
    by (intro r_into_rtranclp step_block)
  have "would_reorg_violate_finality sample_final 3"
    by (simp add: sample_final_def sample_finalizes would_reorg_violate_finality_def)
  with soft_finality_monotone [OF 1 2] show ?thesis by blast
qed

theorem finalization_justified_witness:
  "soft_final_height (snd (apply_attestation (\<lambda>_. True) sample_tracker (sample_att 9))) = Some 7
   \<and> ceil_two_thirds (active_count (active_set sample_tracker) 7)
       \<le> card (hash_entry (snd (apply_attestation (\<lambda>_. True) sample_tracker (sample_att 9))) 7 [9])"
  using finalization_justified [OF sample_inv sample_finalizes [of 9]]
  unfolding sample_finalizes snd_conv by blast

theorem conflicting_finality_accountable_witness:
  "1 \<le> card (hash_entry (snd (apply_attestation (\<lambda>_. True) sample_tracker (sample_att 9))) 7 [9]
       \<inter> hash_entry (snd (apply_attestation (\<lambda>_. True) sample_tracker (sample_att 8))) 7 [8])"
  using conflicting_finality_accountable [OF sample_inv sample_inv sample_finalizes [of 9]
      sample_finalizes [of 8] sample_active sample_active]
  by (simp add: sample_finalizes sample_entry quorum_limit_def)

theorem veteran_miner_rejected_witness:
  "fst (apply_attestation (\<lambda>_. True) (record_block sample_tracker [1] 300)
     \<lparr> att_miner = [1], att_height = 290, att_hash = [9], att_signature = [] \<rparr>) = Inl (MinerNotActive 290)"
  using veteran_miner_rejected [of sample_tracker
      "\<lparr> att_miner = [1], att_height = 290, att_hash = [9], att_signature = [] \<rparr>"
      "\<lparr> first_seen_height = 7, last_seen_height = 7 \<rparr>" 300 "\<lambda>_. True"]
  by (simp add: sample_defs bt_insert_def)

end
