(* ===== verification/Fork_Choice.thy ===== *)
theory Fork_Choice
  imports Difficulty Finality
begin

section \<open>Fork choice (chain.rs)\<close>

text \<open>
  What \<open>Blockchain::add_block\<close> decides about a block that does not extend the tip: the cumulative
  work of its branch, the fork point, the tiebreak on equal work, the three-tier reorg defence, the
  soft-finality gate and the finality floor. The block store is a finite map from hashes to headers
  (\<open>get_block\<close>), the main chain a map from heights to hashes (\<open>get_block_hash\<close>). Rewinding and
  re-applying blocks is in the UTXO theory; persistence and events are not modelled.
\<close>

subsection \<open>Constants and networks\<close>

datatype network_type = Mainnet | Testnet | Regtest

fun max_reorg_depth_for :: "network_type \<Rightarrow> nat" where
  "max_reorg_depth_for Testnet = 1000"
| "max_reorg_depth_for Regtest = 1000"
| "max_reorg_depth_for Mainnet = 100"

definition REORG_UNCONDITIONAL_DEPTH :: nat where "REORG_UNCONDITIONAL_DEPTH = 10"
definition MESS_EXPONENT_DIVISOR :: nat where "MESS_EXPONENT_DIVISOR = 20"
definition BOOTSTRAP_MESS_HEIGHT :: nat where "BOOTSTRAP_MESS_HEIGHT = 1000"
definition CHECKPOINT_INTERVAL :: nat where "CHECKPOINT_INTERVAL = 144"

lemmas reorg_consts = REORG_UNCONDITIONAL_DEPTH_def MESS_EXPONENT_DIVISOR_def
  BOOTSTRAP_MESS_HEIGHT_def CHECKPOINT_INTERVAL_def

subsection \<open>The three-tier policy\<close>

datatype reorg_rejection =
    HardFinality (rr_depth: nat) (rr_max: nat)
  | LessWork (rr_depth: nat)
  | LessWorkBootstrap (rr_depth: nat)
  | MessRejection (rr_depth: nat) (rr_multiplier: nat) (rr_required: nat)

definition evaluate_reorg_acceptability ::
    "nat \<Rightarrow> nat \<Rightarrow> nat \<Rightarrow> nat \<Rightarrow> nat \<Rightarrow> reorg_rejection + unit" where
  "evaluate_reorg_acceptability depth fork_work honest_work current_height max_depth =
     (if max_depth < depth then Inl (HardFinality depth max_depth)
      else if depth \<le> REORG_UNCONDITIONAL_DEPTH then
        (if honest_work \<le> fork_work then Inr () else Inl (LessWork depth))
      else if current_height < BOOTSTRAP_MESS_HEIGHT then
        (if honest_work \<le> fork_work then Inr () else Inl (LessWorkBootstrap depth))
      else
        let exponent = (depth - REORG_UNCONDITIONAL_DEPTH) div MESS_EXPONENT_DIVISOR;
            capped_exponent = min exponent 40;
            multiplier = 2 ^ capped_exponent;
            required_work = saturating_mul u128_max honest_work multiplier
        in if required_work < fork_work then Inr ()
           else Inl (MessRejection depth multiplier required_work))"

subsection \<open>Walking a branch\<close>

record fork_header =
  fh_height :: nat
  fh_prev :: hash
  fh_target :: hash

type_synonym block_store = "(hash, fork_header) hash_map"
type_synonym main_chain = "nat \<Rightarrow> hash option"

text \<open>The loop of \<open>calculate_fork_cumulative_work\<close>. Its step counter saturates at \<open>u64::MAX\<close>, which is
  the plain counter for every height below \<open>u64::MAX - 100\<close>.\<close>

function fork_work_loop :: "block_store \<Rightarrow> nat \<Rightarrow> nat \<Rightarrow> hash \<Rightarrow> nat \<Rightarrow> nat" where
  "fork_work_loop store max_steps steps current_hash total_work =
     (if max_steps < steps + 1 then total_work
      else
        case map_of store current_hash of
          None \<Rightarrow> total_work
        | Some parent \<Rightarrow>
            if fh_height parent = 0 then saturating_add u128_max total_work 1
            else fork_work_loop store max_steps (steps + 1) (fh_prev parent)
                   (saturating_add u128_max total_work (chain_work_from_target (fh_target parent))))"
  by pat_completeness auto
termination by (relation "measure (\<lambda>(_, m, s, _). m - s)") auto

declare fork_work_loop.simps [simp del]

definition calculate_fork_cumulative_work :: "block_store \<Rightarrow> fork_header \<Rightarrow> nat" where
  "calculate_fork_cumulative_work store b =
     fork_work_loop store (saturating_add u64_max (fh_height b) 100) 0 (fh_prev b)
       (chain_work_from_target (fh_target b))"

definition get_block_by_height :: "block_store \<Rightarrow> main_chain \<Rightarrow> nat \<Rightarrow> fork_header option" where
  "get_block_by_height store main h = Option.bind (main h) (map_of store)"

fun recompute_loop :: "block_store \<Rightarrow> main_chain \<Rightarrow> nat list \<Rightarrow> nat \<Rightarrow> nat option" where
  "recompute_loop store main [] acc = Some acc"
| "recompute_loop store main (h # hs) acc =
     (case get_block_by_height store main h of
        None \<Rightarrow> None
      | Some b \<Rightarrow> recompute_loop store main hs
                   (saturating_add u128_max acc (chain_work_from_target (fh_target b))))"

definition recompute_total_difficulty :: "block_store \<Rightarrow> main_chain \<Rightarrow> nat \<Rightarrow> nat option" where
  "recompute_total_difficulty store main height = recompute_loop store main [1..<height + 1] 1"

lemma visited_decreases:
  assumes "map_of store x = Some b" and "x \<notin> visited"
  shows "card (fst ` set store - insert x visited) < card (fst ` set store - visited)"
proof -
  have "x \<in> fst ` set store" using assms(1) by (metis domI dom_map_of_conv_image_fst)
  with assms(2) have "fst ` set store - insert x visited \<subset> fst ` set store - visited" by auto
  then show ?thesis by (simp add: psubset_card_mono)
qed

text \<open>\<open>find_fork_point\<close>: the visited set ends the walk on a cycle.\<close>

function fork_point_loop :: "block_store \<Rightarrow> main_chain \<Rightarrow> hash set \<Rightarrow> hash \<Rightarrow> nat option" where
  "fork_point_loop store main visited current_hash =
     (if current_hash \<in> visited then None
      else
        case map_of store current_hash of
          None \<Rightarrow> None
        | Some parent \<Rightarrow>
            if main (fh_height parent) = Some current_hash then Some (fh_height parent)
            else if fh_height parent = 0 then Some 0
            else fork_point_loop store main (insert current_hash visited) (fh_prev parent))"
  by pat_completeness auto
termination
  by (relation "measure (\<lambda>(store, _, visited, _). card (fst ` set store - visited))")
    (simp_all add: visited_decreases)

declare fork_point_loop.simps [simp del]

definition find_fork_point :: "block_store \<Rightarrow> main_chain \<Rightarrow> fork_header \<Rightarrow> nat option" where
  "find_fork_point store main b = fork_point_loop store main {} (fh_prev b)"

function collect_loop :: "block_store \<Rightarrow> nat \<Rightarrow> hash set \<Rightarrow> hash \<Rightarrow> fork_header list" where
  "collect_loop store fork_point visited current_hash =
     (if current_hash \<in> visited then []
      else
        case map_of store current_hash of
          None \<Rightarrow> []
        | Some b \<Rightarrow>
            if fh_height b \<le> fork_point then []
            else b # collect_loop store fork_point (insert current_hash visited) (fh_prev b))"
  by pat_completeness auto
termination
  by (relation "measure (\<lambda>(store, _, visited, _). card (fst ` set store - visited))")
    (simp_all add: visited_decreases)

declare collect_loop.simps [simp del]

definition collect_fork_chain :: "block_store \<Rightarrow> fork_header \<Rightarrow> nat \<Rightarrow> fork_header list" where
  "collect_fork_chain store fork_tip fork_point = rev (collect_loop store fork_point {} (fh_prev fork_tip))"

subsection \<open>The decision\<close>

datatype fork_decision =
    StoreFork
  | CorruptStore
  | ReorgTooDeep (fd_depth: nat) (fd_max: nat)
  | BelowFinalityFloor (fd_fork_point: nat) (fd_floor: nat)
  | PerformReorg (fd_fork_point: nat) (fd_depth: nat)

definition take_fork :: "nat \<Rightarrow> nat \<Rightarrow> hash \<Rightarrow> hash \<Rightarrow> bool" where
  "take_fork fork_cumulative current_total fork_tip current_tip =
     (if current_total < fork_cumulative then True
      else if fork_cumulative = current_total then fork_tip < current_tip
      else False)"

definition finality_floor :: "nat \<Rightarrow> nat" where
  "finality_floor tip_height = tip_height - tip_height mod CHECKPOINT_INTERVAL"

record chain_view =
  cv_network :: network_type
  cv_tip_height :: nat
  cv_tip_hash :: hash
  cv_total_difficulty :: nat
  cv_store :: block_store
  cv_main :: main_chain
  cv_finality :: "finality_tracker option"
  cv_enforce_height :: nat

text \<open>The soft-finality gate; \<open>cv_finality\<close> is \<open>None\<close> when the adapter is absent or the feature is off.\<close>

definition finality_gate :: "chain_view \<Rightarrow> fork_header \<Rightarrow> nat \<Rightarrow> (nat \<times> nat) option" where
  "finality_gate c b fork_point =
     (case cv_finality c of
        None \<Rightarrow> None
      | Some rf \<Rightarrow>
          if cv_enforce_height c \<le> fh_height b \<and> would_reorg_violate_finality rf fork_point
          then
            let soft_final = (case soft_final_height rf of Some s \<Rightarrow> s | None \<Rightarrow> 0)
            in Some (fh_height b - fork_point, fh_height b - soft_final - 1)
          else None)"

definition decide_fork :: "chain_view \<Rightarrow> fork_header \<Rightarrow> hash \<Rightarrow> fork_decision" where
  "decide_fork c b block_hash =
     (let fork_cumulative = calculate_fork_cumulative_work (cv_store c) b
      in if take_fork fork_cumulative (cv_total_difficulty c) block_hash (cv_tip_hash c)
         then
           case find_fork_point (cv_store c) (cv_main c) b of
             None \<Rightarrow> CorruptStore
           | Some fork_point \<Rightarrow>
               let reorg_depth = fh_height b - fork_point;
                   net_max = max_reorg_depth_for (cv_network c)
               in case evaluate_reorg_acceptability reorg_depth fork_cumulative
                         (cv_total_difficulty c) (cv_tip_height c) net_max of
                    Inl _ \<Rightarrow> ReorgTooDeep reorg_depth net_max
                  | Inr _ \<Rightarrow>
                      (case finality_gate c b fork_point of
                         Some (depth, mx) \<Rightarrow> ReorgTooDeep depth mx
                       | None \<Rightarrow>
                           let fl = finality_floor (cv_tip_height c)
                           in if 0 < fl \<and> fork_point < fl then BelowFinalityFloor fork_point fl
                              else PerformReorg fork_point reorg_depth)
         else StoreFork)"

subsection \<open>The tiebreak\<close>

text \<open>The fork choice is a strict total order on tips, more work first and the smaller hash on equal
  work: no chain beats itself, no two chains beat each other, preference is transitive, and of
  two different tips one wins. Nodes can neither flip-flop between tips nor disagree forever.\<close>

theorem take_fork_strict_order:
  "\<not> take_fork w w x x
   \<and> (take_fork w2 w1 x2 x1 \<longrightarrow> \<not> take_fork w1 w2 x1 x2)
   \<and> (take_fork w2 w1 x2 x1 \<and> take_fork w3 w2 x3 x2 \<longrightarrow> take_fork w3 w1 x3 x1)
   \<and> (x1 \<noteq> x2 \<longrightarrow> take_fork w1 w2 x1 x2 \<or> take_fork w2 w1 x2 x1)"
  unfolding take_fork_def by (cases w1 w2 rule: linorder_cases; cases w2 w3 rule: linorder_cases; auto)

theorem take_fork_strict_order_witness:
  "take_fork 9 9 (Hash [1]) (Hash [2]) \<and> \<not> take_fork 9 9 (Hash [2]) (Hash [1])"
  using take_fork_strict_order [of 0 "Hash [0]" 9 9 "Hash [1]" "Hash [2]"]
  by (simp add: take_fork_def less_hash_def)

subsection \<open>Accepted reorganisations\<close>

lemma evaluate_accepts:
  assumes "evaluate_reorg_acceptability d fw hw h mx = Inr u"
  shows "d \<le> mx" and "hw \<le> u128_max \<Longrightarrow> hw \<le> fw"
    and "10 < d \<Longrightarrow> 1000 \<le> h \<Longrightarrow> min u128_max (hw * 2 ^ min ((d - 10) div 20) 40) < fw"
proof -
  show "d \<le> mx" using assms by (simp add: evaluate_reorg_acceptability_def split: if_splits)
  show mess: "min u128_max (hw * 2 ^ min ((d - 10) div 20) 40) < fw" if "10 < d" "1000 \<le> h"
    using assms that
    by (simp add: evaluate_reorg_acceptability_def reorg_consts Let_def saturating_mul_def split: if_splits)
  show "hw \<le> fw" if "hw \<le> u128_max"
  proof (cases "10 < d \<and> 1000 \<le> h")
    case True
    have "hw * 1 \<le> hw * 2 ^ min ((d - 10) div 20) 40" by (rule mult_le_mono2) simp
    with that have "hw \<le> min u128_max (hw * 2 ^ min ((d - 10) div 20) 40)"
      by (simp only: min.bounded_iff mult_1_right)
    with mess True show ?thesis by linarith
  next
    case False
    with assms show ?thesis
      by (auto simp: evaluate_reorg_acceptability_def reorg_consts split: if_splits)
  qed
qed

lemma finality_floor_bound: "tip - finality_floor tip < 144" "finality_floor tip \<le> tip"
  using mod_less_divisor [of 144 tip] mod_less_eq_dividend [of tip 144]
  by (simp_all add: finality_floor_def CHECKPOINT_INTERVAL_def)

text \<open>C10: a reorganisation is performed only towards a branch with at least the current work; on equal work
  only towards a smaller hash and only when it is shallow or the chain is young; a deep one needs
  more than the exponential multiple of the current work. It never rewinds below the finality
  floor (so it disconnects fewer than 144 blocks) nor, once the rule is enforced, below the
  soft-final height.\<close>

theorem reorg_conditions:
  assumes "decide_fork c b x = PerformReorg p d" and "cv_total_difficulty c \<le> u128_max"
  shows "find_fork_point (cv_store c) (cv_main c) b = Some p \<and> d = fh_height b - p
       \<and> d \<le> max_reorg_depth_for (cv_network c)
       \<and> cv_total_difficulty c \<le> calculate_fork_cumulative_work (cv_store c) b
       \<and> (calculate_fork_cumulative_work (cv_store c) b = cv_total_difficulty c
            \<longrightarrow> x < cv_tip_hash c \<and> (d \<le> 10 \<or> cv_tip_height c < 1000))
       \<and> (10 < d \<and> 1000 \<le> cv_tip_height c
            \<longrightarrow> min u128_max (cv_total_difficulty c * 2 ^ min ((d - 10) div 20) 40)
                  < calculate_fork_cumulative_work (cv_store c) b)
       \<and> finality_floor (cv_tip_height c) \<le> p \<and> cv_tip_height c - p < 144
       \<and> (\<forall>rf. cv_finality c = Some rf \<and> cv_enforce_height c \<le> fh_height b
            \<longrightarrow> \<not> would_reorg_violate_finality rf p)"
proof -
  let ?w = "calculate_fork_cumulative_work (cv_store c) b" and ?t = "cv_total_difficulty c"
  have tk: "take_fork ?w ?t x (cv_tip_hash c)"
    and fp: "find_fork_point (cv_store c) (cv_main c) b = Some p" and d: "d = fh_height b - p"
    and ev: "evaluate_reorg_acceptability d ?w ?t (cv_tip_height c) (max_reorg_depth_for (cv_network c)) = Inr ()"
    and gate: "finality_gate c b p = None"
    and fl: "finality_floor (cv_tip_height c) \<le> p"
    using assms(1)
    by (auto simp: decide_fork_def Let_def split: if_splits option.splits sum.splits prod.splits)
  note e = evaluate_accepts [OF ev]
  have "x < cv_tip_hash c \<and> (d \<le> 10 \<or> cv_tip_height c < 1000)" if "?w = ?t"
  proof
    show "x < cv_tip_hash c" using tk that by (simp add: take_fork_def)
    have "?t * 1 \<le> ?t * 2 ^ min ((d - 10) div 20) 40" by (rule mult_le_mono2) simp
    with assms(2) have "?t \<le> min u128_max (?t * 2 ^ min ((d - 10) div 20) 40)"
      by (simp only: min.bounded_iff mult_1_right)
    with e(3) that show "d \<le> 10 \<or> cv_tip_height c < 1000" by linarith
  qed
  moreover have "cv_tip_height c - p < 144"
    using fl finality_floor_bound [of "cv_tip_height c"] by linarith
  moreover have "\<not> would_reorg_violate_finality rf p"
    if "cv_finality c = Some rf" "cv_enforce_height c \<le> fh_height b" for rf
    using gate that by (auto simp: finality_gate_def Let_def split: if_splits)
  ultimately show ?thesis using fp d fl e assms(2) by blast
qed

lemma chain_work_alt: "chain_work_from_target x = u128_max div target_to_u128 x"
  by (auto simp: chain_work_from_target_def target_to_u128_def Let_def max_def le_Suc_eq)

text \<open>A chain of 143 blocks above genesis on mainnet, and a single heavy block on genesis.\<close>

definition sample_view :: chain_view where
  "sample_view = \<lparr> cv_network = Mainnet, cv_tip_height = 143, cv_tip_hash = Hash [9],
     cv_total_difficulty = 1000,
     cv_store = [(Hash [0], \<lparr> fh_height = 0, fh_prev = Hash [], fh_target = max_target \<rparr>)],
     cv_main = (\<lambda>h. if h = 0 then Some (Hash [0]) else None),
     cv_finality = None, cv_enforce_height = 50000 \<rparr>"

definition sample_fork :: fork_header where
  "sample_fork = \<lparr> fh_height = 1, fh_prev = Hash [0], fh_target = u128_to_target 1 \<rparr>"

lemma sample_fork_work: "calculate_fork_cumulative_work (cv_store sample_view) sample_fork = u128_max"
proof -
  have "chain_work_from_target (u128_to_target 1) = u128_max"
    using target_u128_roundtrip [of 1] by (simp add: chain_work_alt u128_max_def)
  then show ?thesis
    by (simp add: calculate_fork_cumulative_work_def sample_view_def sample_fork_def
        fork_work_loop.simps saturating_add_def u64_max_def)
qed

lemma sample_decision: "decide_fork sample_view sample_fork (Hash [5]) = PerformReorg 0 1"
proof -
  have "find_fork_point (cv_store sample_view) (cv_main sample_view) sample_fork = Some 0"
    by (simp add: find_fork_point_def fork_point_loop.simps sample_view_def sample_fork_def)
  moreover have "take_fork u128_max (cv_total_difficulty sample_view) (Hash [5]) (cv_tip_hash sample_view)"
    by (simp add: take_fork_def sample_view_def u128_max_def)
  moreover have "evaluate_reorg_acceptability 1 u128_max (cv_total_difficulty sample_view)
      (cv_tip_height sample_view) (max_reorg_depth_for (cv_network sample_view)) = Inr ()"
    by (simp add: evaluate_reorg_acceptability_def sample_view_def reorg_consts u128_max_def)
  moreover have "finality_gate sample_view sample_fork 0 = None"
    "finality_floor (cv_tip_height sample_view) = 0" "fh_height sample_fork = 1"
    by (simp_all add: finality_gate_def finality_floor_def CHECKPOINT_INTERVAL_def sample_view_def sample_fork_def)
  ultimately show ?thesis by (simp add: decide_fork_def sample_fork_work)
qed

lemma sample_total: "cv_total_difficulty sample_view \<le> u128_max"
  by (simp add: sample_view_def u128_max_def)

theorem reorg_conditions_witness:
  "cv_total_difficulty sample_view \<le> u128_max \<and> cv_tip_height sample_view - 0 < 144
   \<and> cv_total_difficulty sample_view \<le> calculate_fork_cumulative_work (cv_store sample_view) sample_fork"
  using reorg_conditions [OF sample_decision sample_total] sample_total by blast

text \<open>The depth the policy caps is the length of the new branch, not the number of blocks it
  disconnects. On mainnet, where reorganisations deeper than 100 blocks are to be rejected
  outright, a one-block branch of sufficient work disconnects 143 blocks as a shallow
  reorganisation of depth one.\<close>

theorem hard_cap_counts_new_branch:
  "\<exists>c b x p d. cv_network c = Mainnet \<and> decide_fork c b x = PerformReorg p d
     \<and> d \<le> REORG_UNCONDITIONAL_DEPTH \<and> max_reorg_depth_for Mainnet < cv_tip_height c - p"
proof (intro exI conjI)
  show "decide_fork sample_view sample_fork (Hash [5]) = PerformReorg 0 1" by (rule sample_decision)
qed (simp_all add: sample_view_def REORG_UNCONDITIONAL_DEPTH_def)

subsection \<open>Fork point\<close>

inductive ancestor :: "block_store \<Rightarrow> hash \<Rightarrow> hash \<Rightarrow> bool" for store :: block_store where
  anc_refl: "ancestor store x x"
| anc_step: "map_of store x = Some b \<Longrightarrow> fh_height b \<noteq> 0 \<Longrightarrow> ancestor store (fh_prev b) y \<Longrightarrow> ancestor store x y"

text \<open>Every stored block other than genesis has its parent stored, one height below.\<close>

definition linked :: "block_store \<Rightarrow> bool" where
  "linked store = (\<forall>x b. map_of store x = Some b \<and> fh_height b \<noteq> 0 \<longrightarrow>
     (\<exists>pb. map_of store (fh_prev b) = Some pb \<and> fh_height b = fh_height pb + 1))"

lemma linkedD:
  assumes "linked store" and "map_of store x = Some b" and "fh_height b \<noteq> 0"
  obtains pb where "map_of store (fh_prev b) = Some pb" and "fh_height b = fh_height pb + 1"
  using assms unfolding linked_def by blast

lemma fork_point_sound:
  "fork_point_loop store main visited x = Some p \<Longrightarrow>
     \<exists>y b. ancestor store x y \<and> map_of store y = Some b \<and> fh_height b = p \<and> (main p = Some y \<or> p = 0)"
proof (induction store main visited x rule: fork_point_loop.induct)
  case (1 store main visited x)
  show ?case
  proof (cases "map_of store x")
    case None
    with "1.prems" show ?thesis by (simp add: fork_point_loop.simps [of store main visited x] split: if_splits)
  next
    case (Some b)
    show ?thesis
    proof (cases "main (fh_height b) = Some x \<or> fh_height b = 0")
      case True
      with Some "1.prems" have "p = fh_height b"
        by (simp add: fork_point_loop.simps [of store main visited x] split: if_splits)
      with True Some show ?thesis by (auto intro: anc_refl)
    next
      case False
      with Some "1.prems" have "x \<notin> visited"
        and "fork_point_loop store main (insert x visited) (fh_prev b) = Some p"
        by (auto simp: fork_point_loop.simps [of store main visited x] split: if_splits)
      with "1.IH" Some False show ?thesis by (meson anc_step)
    qed
  qed
qed

lemma fork_point_total:
  assumes "linked store"
  shows "map_of store x = Some b \<Longrightarrow> (\<And>v vb. v \<in> visited \<Longrightarrow> map_of store v = Some vb \<Longrightarrow> fh_height b < fh_height vb)
    \<Longrightarrow> \<exists>p. fork_point_loop store main visited x = Some p \<and> p \<le> fh_height b"
proof (induction "fh_height b" arbitrary: b x visited)
  case 0
  then have "x \<notin> visited" by fastforce
  with 0 show ?case by (subst fork_point_loop.simps) auto
next
  case (Suc n)
  have "fh_height b \<noteq> 0" using Suc.hyps(2) by simp
  with Suc.prems(1) obtain pb where pb: "map_of store (fh_prev b) = Some pb" "fh_height b = fh_height pb + 1"
    by (rule linkedD [OF assms])
  have "x \<notin> visited" using Suc.prems by blast
  show ?case
  proof (cases "main (fh_height b) = Some x")
    case True
    with \<open>x \<notin> visited\<close> Suc.prems(1) show ?thesis by (subst fork_point_loop.simps) simp
  next
    case False
    have "n = fh_height pb" using pb Suc.hyps(2) by simp
    moreover have "fh_height pb < fh_height vb"
      if "v \<in> insert x visited" "map_of store v = Some vb" for v vb
      using that Suc.prems pb(2) by fastforce
    ultimately obtain q where "fork_point_loop store main (insert x visited) (fh_prev b) = Some q"
      "q \<le> fh_height pb"
      using Suc.hyps(1) [OF _ pb(1), of "insert x visited"] by blast
    with False \<open>x \<notin> visited\<close> Suc.prems(1) Suc.hyps(2) pb(2) show ?thesis
      by (subst fork_point_loop.simps) simp
  qed
qed

lemma ancestor_height:
  assumes "linked store"
  shows "ancestor store x z \<Longrightarrow> map_of store x = Some b \<Longrightarrow> map_of store z = Some zb \<Longrightarrow> fh_height zb \<le> fh_height b"
proof (induction arbitrary: b rule: ancestor.induct)
  case (anc_step x b' y)
  from anc_step.prems(1) anc_step.hyps(1) have "b' = b" by simp
  with linkedD [OF assms anc_step.hyps(1,2)] anc_step.IH anc_step.prems(2) show ?case
    by (metis add_leD1 le_add1 le_trans)
qed simp

lemma fork_point_highest:
  assumes "linked store"
  shows "fork_point_loop store main visited x = Some p \<Longrightarrow> ancestor store x z \<Longrightarrow> map_of store z = Some zb
    \<Longrightarrow> p < fh_height zb \<Longrightarrow> main (fh_height zb) \<noteq> Some z"
  using assms
proof (induction store main visited x rule: fork_point_loop.induct)
  case (1 store main visited x)
  note step = fork_point_loop.simps [of store main visited x]
  from "1.prems"(1) obtain b where b: "x \<notin> visited" "map_of store x = Some b"
    by (auto simp: step split: if_splits option.splits)
  show ?case
  proof (cases "main (fh_height b) = Some x \<or> fh_height b = 0")
    case True
    with b "1.prems"(1) have "p = fh_height b" by (auto simp: step split: if_splits)
    with ancestor_height [OF "1.prems"(5,2) b(2) "1.prems"(3)] "1.prems"(4) show ?thesis by simp
  next
    case False
    with b "1.prems"(1) have rec: "fork_point_loop store main (insert x visited) (fh_prev b) = Some p"
      by (simp add: step)
    from "1.prems"(2) b(2) have "z = x \<or> ancestor store (fh_prev b) z" by (cases rule: ancestor.cases) auto
    then show ?thesis
    proof
      assume "z = x"
      with b(2) "1.prems"(3) False show ?thesis by simp
    next
      assume "ancestor store (fh_prev b) z"
      with "1.IH" [OF b] False rec "1.prems"(3-5) show ?thesis by blast
    qed
  qed
qed

text \<open>C30: on a store whose blocks are linked down to genesis the fork-point search always succeeds, and
  finds the highest ancestor of the fork block on the main chain: what it returns is the height of
  an ancestor that lies on the main chain, or 0 when the walk reached genesis; it is strictly below
  the fork block; and no ancestor at a greater height lies on the main chain.\<close>

theorem fork_point_correct:
  assumes "linked store" and "map_of store (fh_prev b) = Some pb" and "fh_height b = fh_height pb + 1"
  shows "\<exists>p y yb. find_fork_point store main b = Some p \<and> ancestor store (fh_prev b) y
       \<and> map_of store y = Some yb \<and> fh_height yb = p \<and> (main p = Some y \<or> p = 0) \<and> p < fh_height b
       \<and> (\<forall>z zb. ancestor store (fh_prev b) z \<longrightarrow> map_of store z = Some zb \<longrightarrow> p < fh_height zb
            \<longrightarrow> main (fh_height zb) \<noteq> Some z)"
proof -
  obtain p where p: "fork_point_loop store main {} (fh_prev b) = Some p" "p \<le> fh_height pb"
    using fork_point_total [OF assms(1,2), of "{}" main] by auto
  from fork_point_sound [OF p(1)] obtain y yb where
    "ancestor store (fh_prev b) y" "map_of store y = Some yb" "fh_height yb = p" "main p = Some y \<or> p = 0" by blast
  with p assms(3) fork_point_highest [OF assms(1) p(1)] show ?thesis
    unfolding find_fork_point_def by fastforce
qed

text \<open>A side branch of two blocks that leaves a main chain of three at height one.\<close>

definition branch_store :: block_store where
  "branch_store = [(Hash [1], \<lparr> fh_height = 0, fh_prev = Hash [], fh_target = max_target \<rparr>),
     (Hash [2], \<lparr> fh_height = 1, fh_prev = Hash [1], fh_target = max_target \<rparr>),
     (Hash [3], \<lparr> fh_height = 2, fh_prev = Hash [2], fh_target = max_target \<rparr>),
     (Hash [4], \<lparr> fh_height = 2, fh_prev = Hash [2], fh_target = max_target \<rparr>)]"

definition branch_main :: main_chain where
  "branch_main = [0 \<mapsto> Hash [1], 1 \<mapsto> Hash [2], 2 \<mapsto> Hash [3]]"

definition branch_tip :: fork_header where
  "branch_tip = \<lparr> fh_height = 3, fh_prev = Hash [4], fh_target = max_target \<rparr>"

theorem fork_point_correct_witness:
  "find_fork_point branch_store branch_main branch_tip = Some 1 \<and> branch_main 2 \<noteq> Some (Hash [4])"
proof -
  let ?s = branch_store and ?b = "\<lparr> fh_height = 2, fh_prev = Hash [2], fh_target = max_target \<rparr>"
  have l: "linked ?s" by (auto simp: linked_def branch_store_def split: if_splits)
  have f: "find_fork_point ?s branch_main branch_tip = Some 1"
    by (simp add: find_fork_point_def fork_point_loop.simps branch_store_def branch_main_def branch_tip_def)
  have "map_of ?s (fh_prev branch_tip) = Some ?b" "fh_height branch_tip = fh_height ?b + 1"
    by (simp_all add: branch_store_def branch_tip_def)
  from fork_point_correct [OF l this, of branch_main] f
  have "branch_main (fh_height ?b) \<noteq> Some (Hash [4])"
    by (auto simp: branch_tip_def branch_store_def intro: anc_refl)
  with f show ?thesis by simp
qed

subsection \<open>Cumulative work\<close>

text \<open>The main chain of a store: linked heights from genesis up to \<open>n\<close>.\<close>

definition main_ok :: "block_store \<Rightarrow> main_chain \<Rightarrow> nat \<Rightarrow> bool" where
  "main_ok store main n =
     ((\<exists>x b. main 0 = Some x \<and> map_of store x = Some b \<and> fh_height b = 0)
      \<and> (\<forall>h < n. \<exists>x b. main (Suc h) = Some x \<and> map_of store x = Some b \<and> fh_height b = Suc h
                         \<and> main h = Some (fh_prev b)))"

fun work_sum :: "block_store \<Rightarrow> main_chain \<Rightarrow> nat \<Rightarrow> nat" where
  "work_sum store main 0 = 0"
| "work_sum store main (Suc h) = work_sum store main h
     + (case get_block_by_height store main (Suc h) of
          Some b \<Rightarrow> chain_work_from_target (fh_target b) | None \<Rightarrow> 0)"

lemma main_ok_Suc:
  assumes "main_ok store main n" and "h < n"
  obtains x b where "main (Suc h) = Some x" and "map_of store x = Some b" and "fh_height b = Suc h"
    and "main h = Some (fh_prev b)" and "get_block_by_height store main (Suc h) = Some b"
  using assms unfolding main_ok_def by (auto simp: get_block_by_height_def)

lemma recompute_snoc:
  "recompute_loop store main (hs @ [h]) acc =
     Option.bind (recompute_loop store main hs acc)
       (\<lambda>a. map_option (\<lambda>b. saturating_add u128_max a (chain_work_from_target (fh_target b)))
              (get_block_by_height store main h))"
  by (induction hs arbitrary: acc) (auto split: option.splits)

lemma recompute_eq:
  "main_ok store main n \<Longrightarrow> k \<le> n \<Longrightarrow>
     recompute_loop store main [1..<k + 1] 1 = Some (min u128_max (1 + work_sum store main k))"
proof (induction k)
  case 0
  then show ?case by (simp add: u128_max_def)
next
  case (Suc k)
  then obtain b where "get_block_by_height store main (Suc k) = Some b"
    using main_ok_Suc [of store main n k] by auto
  with Suc recompute_snoc [of store main "[1..<k + 1]" "Suc k" 1] show ?case
    by (simp add: saturating_add_def min_def)
qed

lemma fork_work_main:
  "main_ok store main n \<Longrightarrow> k \<le> n \<Longrightarrow> main k = Some x \<Longrightarrow> steps + k < max_steps \<Longrightarrow> acc \<le> u128_max \<Longrightarrow>
     fork_work_loop store max_steps steps x acc = min u128_max (acc + work_sum store main k + 1)"
proof (induction k arbitrary: x steps acc)
  case 0
  then obtain b where "map_of store x = Some b" "fh_height b = 0" by (auto simp: main_ok_def)
  with 0 show ?case by (subst fork_work_loop.simps) (simp add: saturating_add_def)
next
  case (Suc k)
  obtain x' b where b: "main (Suc k) = Some x'" "map_of store x' = Some b" "fh_height b = Suc k"
    "main k = Some (fh_prev b)" "get_block_by_height store main (Suc k) = Some b"
    using main_ok_Suc [of store main n k] Suc.prems(1,2) by auto
  let ?acc = "saturating_add u128_max acc (chain_work_from_target (fh_target b))"
  have "fork_work_loop store max_steps steps x acc = fork_work_loop store max_steps (steps + 1) (fh_prev b) ?acc"
    using b Suc.prems by (subst fork_work_loop.simps) simp
  also have "\<dots> = min u128_max (?acc + work_sum store main k + 1)"
    using Suc.prems b by (intro Suc.IH) (simp_all add: saturating_add_def)
  also have "\<dots> = min u128_max (acc + work_sum store main (Suc k) + 1)"
    using b(5) by (auto simp: saturating_add_def min_def)
  finally show ?case .
qed

text \<open>C31: the two definitions of cumulative work agree. Walking back from a block of the main chain gives
  the value that \<open>recompute_total_difficulty\<close> accumulates upwards, with genesis counted as one in
  both and the same saturation.\<close>

theorem cumulative_work_agrees:
  assumes "main_ok store main (Suc h)" and "main (Suc h) = Some x" and "map_of store x = Some b"
    and "Suc h < u64_max - 100"
  shows "recompute_total_difficulty store main (Suc h) = Some (calculate_fork_cumulative_work store b)"
proof -
  obtain x' b' where b': "main (Suc h) = Some x'" "map_of store x' = Some b'" "fh_height b' = Suc h"
    "main h = Some (fh_prev b')" "get_block_by_height store main (Suc h) = Some b'"
    using main_ok_Suc [OF assms(1), of h] by auto
  with assms(2,3) have b: "b' = b" by simp
  have m: "saturating_add u64_max (fh_height b) 100 = Suc h + 100"
    using assms(4) b b'(3) by (simp add: saturating_add_def)
  have "chain_work_from_target (fh_target b) \<le> u128_max" by (simp add: chain_work_alt)
  then have "calculate_fork_cumulative_work store b
      = min u128_max (chain_work_from_target (fh_target b) + work_sum store main h + 1)"
    using fork_work_main [OF assms(1), of h "fh_prev b" 0 "Suc h + 100"] b' b m
    by (simp add: calculate_fork_cumulative_work_def)
  then show ?thesis
    using recompute_eq [OF assms(1) order_refl] b'(5) b
    by (simp add: recompute_total_difficulty_def add.commute)
qed

definition two_blocks :: block_store where
  "two_blocks = [(Hash [0], \<lparr> fh_height = 0, fh_prev = Hash [], fh_target = max_target \<rparr>),
     (Hash [1], \<lparr> fh_height = 1, fh_prev = Hash [0], fh_target = max_target \<rparr>)]"

theorem cumulative_work_agrees_witness:
  "recompute_total_difficulty two_blocks (\<lambda>h. Some (Hash [word_of_nat h])) 1
   = Some (calculate_fork_cumulative_work two_blocks \<lparr> fh_height = 1, fh_prev = Hash [0], fh_target = max_target \<rparr>)"
  using cumulative_work_agrees [of two_blocks "\<lambda>h. Some (Hash [word_of_nat h])" 0 "Hash [1]"
      "\<lparr> fh_height = 1, fh_prev = Hash [0], fh_target = max_target \<rparr>"]
  by (simp add: main_ok_def two_blocks_def u64_max_def)

end
