(* ===== verification/Fee_Market.thy ===== *)
theory Fee_Market
  imports Emission
begin

section \<open>The fee market (consensus/fee_market.rs, burn schedules of constants.rs)\<close>

text \<open>
  Fees by size and congestion, the split of collected fees into the miner's share and the burn, the
  per-block fee statistics and the two burn-rate schedules of \<open>constants.rs\<close>. The parts of the file
  that compute with \<open>f64\<close> (\<open>calculate_priority_fee\<close>, \<open>FeeCalculator::estimate\<close>) are not modelled.
\<close>

subsection \<open>Constants\<close>

definition MAX_BLOCK_SIZE :: nat where "MAX_BLOCK_SIZE = 2 * 1024 * 1024"
definition MIN_FEE_PER_BYTE :: nat where "MIN_FEE_PER_BYTE = 1000"
definition CONGESTION_THRESHOLD :: nat where "CONGESTION_THRESHOLD = 80"
definition FEE_MINER_NORMAL_PERCENT :: nat where "FEE_MINER_NORMAL_PERCENT = 70"
definition FEE_BURN_NORMAL_PERCENT :: nat where "FEE_BURN_NORMAL_PERCENT = 30"
definition FEE_MINER_CONGESTED_PERCENT :: nat where "FEE_MINER_CONGESTED_PERCENT = 50"
definition FEE_BURN_CONGESTED_PERCENT :: nat where "FEE_BURN_CONGESTED_PERCENT = 50"
definition BLOCKS_PER_YEAR :: nat where "BLOCKS_PER_YEAR = 365 * 24 * 60 * 60 div 120"

lemmas fee_consts = MAX_BLOCK_SIZE_def MIN_FEE_PER_BYTE_def CONGESTION_THRESHOLD_def
  FEE_MINER_NORMAL_PERCENT_def FEE_BURN_NORMAL_PERCENT_def FEE_MINER_CONGESTED_PERCENT_def
  FEE_BURN_CONGESTED_PERCENT_def

subsection \<open>Fees\<close>

definition congestion_multiplier :: "nat \<Rightarrow> nat" where
  "congestion_multiplier congestion_pct =
     (if congestion_pct < 50 then 100
      else if congestion_pct < 75 then 150
      else if congestion_pct < 90 then 200
      else 300)"

definition calculate_fee :: "nat \<Rightarrow> nat \<Rightarrow> amount" where
  "calculate_fee tx_size congestion_pct =
     (let multiplier = congestion_multiplier congestion_pct;
          base_fee = saturating_mul u64_max tx_size MIN_FEE_PER_BYTE;
          fee = saturating_mul u64_max base_fee multiplier div 100
      in from_atomic fee)"

definition calculate_congestion :: "nat list \<Rightarrow> nat" where
  "calculate_congestion recent_block_sizes =
     (if recent_block_sizes = [] then 0
      else
        let total_fee = foldl (\<lambda>acc s. saturating_add u64_max acc s) 0 recent_block_sizes;
            avg = total_fee div length recent_block_sizes
        in min (wrapping_mul u64_max avg 100 div MAX_BLOCK_SIZE) 100)"

definition is_congested :: "nat \<Rightarrow> bool" where
  "is_congested congestion_pct = (CONGESTION_THRESHOLD \<le> congestion_pct)"

subsection \<open>Fee distribution\<close>

record fee_distribution =
  fd_total :: amount
  to_miner :: amount
  burned :: amount
  to_protocol :: amount

definition distribute_fee :: "amount \<Rightarrow> bool \<Rightarrow> fee_distribution" where
  "distribute_fee total_fee congested =
     (let fee = as_atomic total_fee;
          miner_pct = (if congested then FEE_MINER_CONGESTED_PERCENT else FEE_MINER_NORMAL_PERCENT);
          miner = min (as_u64 (fee * miner_pct div 100)) fee
      in \<lparr> fd_total = total_fee,
           to_miner = from_atomic miner,
           burned = from_atomic (fee - miner),
           to_protocol = from_atomic 0 \<rparr>)"

definition fee_distribution_is_valid :: "fee_distribution \<Rightarrow> bool" where
  "fee_distribution_is_valid d =
     (as_atomic (to_miner d) + as_atomic (burned d) + as_atomic (to_protocol d)
        = as_atomic (fd_total d))"

subsection \<open>Block fee statistics\<close>

record block_fee_stats =
  bfs_height :: nat
  bfs_tx_count :: nat
  bfs_total_fees :: amount
  bfs_total_burned :: amount
  bfs_avg_fee_per_byte :: nat
  bfs_was_congested :: bool

definition block_fee_stats_of :: "nat \<Rightarrow> (amount \<times> nat) list \<Rightarrow> bool \<Rightarrow> block_fee_stats" where
  "block_fee_stats_of height tx_fees congested =
     (if tx_fees = []
      then \<lparr> bfs_height = height, bfs_tx_count = 0, bfs_total_fees = amount_ZERO,
             bfs_total_burned = amount_ZERO, bfs_avg_fee_per_byte = 0, bfs_was_congested = False \<rparr>
      else
        let total_fee = foldl (\<lambda>acc (f, _). saturating_add u64_max acc (as_atomic f)) 0 tx_fees;
            total_size = foldl (\<lambda>acc (_, s). saturating_add u64_max acc s) 0 tx_fees;
            burn_pct = (if congested then FEE_BURN_CONGESTED_PERCENT else FEE_BURN_NORMAL_PERCENT);
            total_burned = as_u64 (total_fee * burn_pct div 100)
        in \<lparr> bfs_height = height, bfs_tx_count = length tx_fees,
             bfs_total_fees = from_atomic total_fee, bfs_total_burned = from_atomic total_burned,
             bfs_avg_fee_per_byte = (if 0 < total_size then total_fee div total_size else 0),
             bfs_was_congested = congested \<rparr>)"

subsection \<open>Burn schedules\<close>

definition PHASE_BURN_RATES :: "(nat \<times> nat) list" where
  "PHASE_BURN_RATES =
     [(BLOCKS_PER_YEAR, 0), (BLOCKS_PER_YEAR * 2, 500), (BLOCKS_PER_YEAR * 5, 1000), (u64_max, 2000)]"

fun burn_rate_loop :: "nat \<Rightarrow> (nat \<times> nat) list \<Rightarrow> nat option" where
  "burn_rate_loop height [] = None"
| "burn_rate_loop height ((end_height, rate) # rest) =
     (if height < end_height then Some rate else burn_rate_loop height rest)"

definition burn_rate_at_height :: "nat \<Rightarrow> nat" where
  "burn_rate_at_height height =
     (case burn_rate_loop height PHASE_BURN_RATES of
        Some rate \<Rightarrow> rate
      | None \<Rightarrow> snd (last PHASE_BURN_RATES))"

definition supply_cap_burn_rate :: "nat \<Rightarrow> nat" where
  "supply_cap_burn_rate current_supply =
     (let cap = TOTAL_SUPPLY_TARGET
      in if current_supply < cap * 40 div 100 then 0
         else if current_supply < cap * 60 div 100 then 200
         else if current_supply < cap * 80 div 100 then 500
         else if current_supply < cap * 95 div 100 then 1000
         else 2000)"

subsection \<open>Lemmas\<close>

lemma miner_share_le: "p \<le> 100 \<Longrightarrow> fee * p div 100 \<le> (fee :: nat)"
  by (metis div_le_mono mult_le_mono2 nonzero_mult_div_cancel_right zero_neq_numeral)

lemma distribute_fee_exact:
  assumes "wf_amount t"
  shows "to_miner (distribute_fee t c) = Amount (as_atomic t * (if c then 50 else 70) div 100)"
    and "as_atomic (burned (distribute_fee t c)) = as_atomic t - as_atomic t * (if c then 50 else 70) div 100"
    and "as_atomic (to_miner (distribute_fee t c)) + as_atomic (burned (distribute_fee t c)) = as_atomic t"
proof -
  have le: "as_atomic t * (if c then 50 else 70) div 100 \<le> as_atomic t" by (rule miner_share_le) simp
  then have u: "as_u64 (as_atomic t * (if c then 50 else 70) div 100)
      = as_atomic t * (if c then 50 else 70) div 100"
    using assms by (intro as_u64_id) (auto simp: wf_amount_def)
  show "to_miner (distribute_fee t c) = Amount (as_atomic t * (if c then 50 else 70) div 100)"
    using le u by (cases c) (simp_all add: distribute_fee_def fee_consts from_atomic_def Let_def)
  moreover show "as_atomic (burned (distribute_fee t c))
      = as_atomic t - as_atomic t * (if c then 50 else 70) div 100"
    using le u by (cases c) (simp_all add: distribute_fee_def fee_consts from_atomic_def Let_def)
  ultimately show "as_atomic (to_miner (distribute_fee t c)) + as_atomic (burned (distribute_fee t c))
      = as_atomic t"
    using le by simp
qed

text \<open>\<open>distribute_fee\<close> conserves the fee exactly: miner share and burn add up to the total with
  nothing for the protocol, the distribution passes \<open>is_valid\<close>, the miner gets the truncated 70\%
  (50\% under congestion), and the burn is the percentage rounded up.\<close>

theorem distribute_fee_conserves:
  assumes "wf_amount t"
  shows "fee_distribution_is_valid (distribute_fee t c)
       \<and> as_atomic (to_miner (distribute_fee t c)) + as_atomic (burned (distribute_fee t c)) = as_atomic t
       \<and> as_atomic (to_miner (distribute_fee t c)) = as_atomic t * (if c then 50 else 70) div 100
       \<and> as_atomic t * (if c then 50 else 30) \<le> as_atomic (burned (distribute_fee t c)) * 100
       \<and> as_atomic (burned (distribute_fee t c)) * 100 < as_atomic t * (if c then 50 else 30) + 100"
proof -
  have "fd_total (distribute_fee t c) = t" "to_protocol (distribute_fee t c) = Amount 0"
    by (simp_all add: distribute_fee_def Let_def from_atomic_def)
  moreover have "x * 30 \<le> (x - x * 70 div 100) * 100" "(x - x * 70 div 100) * 100 < x * 30 + 100"
    "x * 50 \<le> (x - x * 50 div 100) * 100" "(x - x * 50 div 100) * 100 < x * 50 + 100" for x :: nat
    by linarith+
  ultimately show ?thesis
    using distribute_fee_exact [OF assms, of c]
    by (cases c) (simp_all add: fee_distribution_is_valid_def)
qed

theorem distribute_fee_conserves_witness:
  "wf_amount (Amount 1001) \<and>
   as_atomic (to_miner (distribute_fee (Amount 1001) False)) = 700 \<and>
   as_atomic (burned (distribute_fee (Amount 1001) False)) = 301"
  using distribute_fee_conserves [of "Amount 1001" False] by (simp add: wf_amount_def u64_max_def)

lemma congestion_multiplier_mono: "p \<le> q \<Longrightarrow> congestion_multiplier p \<le> congestion_multiplier q"
  by (auto simp: congestion_multiplier_def)

lemma congestion_multiplier_cases: "congestion_multiplier p \<in> {100, 150, 200, 300}"
  by (simp add: congestion_multiplier_def)

text \<open>The required fee is monotone in size and congestion, is at least the base rate of
  \<open>MIN_FEE_PER_BYTE\<close> until saturation, and for every size up to the block limit is the exact
  product, with neither saturation nor truncation.\<close>

theorem calculate_fee_monotone:
  "(sz \<le> sz' \<and> pct \<le> pct' \<longrightarrow> as_atomic (calculate_fee sz pct) \<le> as_atomic (calculate_fee sz' pct'))
   \<and> (sz \<le> MAX_BLOCK_SIZE \<longrightarrow>
        as_atomic (calculate_fee sz pct) = sz * 10 * congestion_multiplier pct
        \<and> sz * MIN_FEE_PER_BYTE \<le> as_atomic (calculate_fee sz pct))"
proof -
  have "as_atomic (calculate_fee sz pct) \<le> as_atomic (calculate_fee sz' pct')"
    if "sz \<le> sz'" "pct \<le> pct'"
    unfolding calculate_fee_def Let_def from_atomic_def saturating_mul_def amount.sel
    by (intro div_le_mono min.mono mult_le_mono order_refl that congestion_multiplier_mono)
  moreover have "as_atomic (calculate_fee sz pct) = sz * 10 * congestion_multiplier pct"
    if "sz \<le> MAX_BLOCK_SIZE"
  proof -
    have small: "sz * 1000 \<le> u64_max" using that by (simp add: fee_consts u64_max_def)
    have "sz * 1000 * congestion_multiplier pct \<le> u64_max"
      using that congestion_multiplier_cases [of pct] by (auto simp: fee_consts u64_max_def)
    then have "as_atomic (calculate_fee sz pct) = sz * 1000 * congestion_multiplier pct div 100"
      using small by (simp add: calculate_fee_def from_atomic_def saturating_mul_def MIN_FEE_PER_BYTE_def)
    then show ?thesis using congestion_multiplier_cases [of pct] by auto
  qed
  moreover have "sz * MIN_FEE_PER_BYTE \<le> sz * 10 * congestion_multiplier pct"
    using congestion_multiplier_cases [of pct] by (auto simp: MIN_FEE_PER_BYTE_def)
  ultimately show ?thesis by simp
qed

theorem calculate_fee_monotone_witness:
  "as_atomic (calculate_fee 2000 95) = 6000000
   \<and> as_atomic (calculate_fee 2000 10) \<le> as_atomic (calculate_fee 2500 95)"
  using calculate_fee_monotone [of 2000 2000 95 95] calculate_fee_monotone [of 2000 2500 10 95]
  by (simp add: MAX_BLOCK_SIZE_def congestion_multiplier_def)

lemma calculate_congestion_le: "calculate_congestion sizes \<le> 100"
  by (simp add: calculate_congestion_def Let_def)

lemma foldl_saturating_fee:
  "a \<le> u64_max \<Longrightarrow> foldl (\<lambda>acc (f, _). saturating_add u64_max acc (as_atomic f)) a fees
     = min u64_max (a + sum_list (map (\<lambda>(f, _). as_atomic f) fees))"
  by (induction fees arbitrary: a) (auto simp: saturating_add_def min_def)

lemma burn_round:
  fixes x :: nat
  shows "x * 30 div 100 \<le> x - x * 70 div 100" and "x - x * 70 div 100 \<le> x * 30 div 100 + 1"
    and "x * 50 div 100 \<le> x - x * 50 div 100" and "x - x * 50 div 100 \<le> x * 50 div 100 + 1"
  by linarith+

text \<open>The audit statistics of \<open>block_fee_stats\<close> truncate the burn while \<open>distribute_fee\<close> rounds it up:
  the reported burn is the consensus burn or one atomic unit less, and the two do differ already
  for a single fee of one unit.\<close>

theorem fee_stats_burn_off_by_one:
  fixes fees :: "(amount \<times> nat) list"
  defines "t \<equiv> Amount (min u64_max (sum_list (map (\<lambda>(f, _). as_atomic f) fees)))"
  assumes "fees \<noteq> []"
  shows "bfs_total_fees (block_fee_stats_of h fees c) = t
       \<and> as_atomic (bfs_total_burned (block_fee_stats_of h fees c)) \<le> as_atomic (burned (distribute_fee t c))
       \<and> as_atomic (burned (distribute_fee t c))
           \<le> as_atomic (bfs_total_burned (block_fee_stats_of h fees c)) + 1
       \<and> bfs_total_burned (block_fee_stats_of h [(Amount 1, 100)] False)
           \<noteq> burned (distribute_fee (Amount 1) False)"
proof -
  have wf: "wf_amount t" by (simp add: t_def wf_amount_def)
  let ?p = "if c then 50 else 30 :: nat"
  have "as_atomic t * ?p div 100 \<le> as_atomic t" by (rule miner_share_le) simp
  then have "as_u64 (as_atomic t * ?p div 100) = as_atomic t * ?p div 100"
    using wf by (intro as_u64_id) (simp add: wf_amount_def)
  then have "bfs_total_fees (block_fee_stats_of h fees c) = t"
    and st: "as_atomic (bfs_total_burned (block_fee_stats_of h fees c)) = as_atomic t * ?p div 100"
    using assms foldl_saturating_fee [of 0 fees]
    by (cases c; simp add: block_fee_stats_of_def Let_def t_def from_atomic_def fee_consts)+
  moreover have "bfs_total_burned (block_fee_stats_of h [(Amount 1, 100)] False)
      \<noteq> burned (distribute_fee (Amount 1) False)"
    by (simp add: block_fee_stats_of_def distribute_fee_def fee_consts from_atomic_def
        saturating_add_def u64_max_def)
  ultimately show ?thesis
    using distribute_fee_exact(2) [OF wf, of c] burn_round [of "as_atomic t"] by (cases c) simp_all
qed

theorem fee_stats_burn_off_by_one_witness:
  "as_atomic (burned (distribute_fee (Amount (min u64_max 15)) False))
     \<le> as_atomic (bfs_total_burned (block_fee_stats_of 9 [(Amount 7, 200), (Amount 8, 300)] False)) + 1"
  using fee_stats_burn_off_by_one [of "[(Amount 7, 200), (Amount 8, 300)]" 9 False] by simp

lemma burn_rates_bounded: "burn_rate_at_height h \<le> 2000" "supply_cap_burn_rate s \<le> 2000"
  by (simp_all add: burn_rate_at_height_def PHASE_BURN_RATES_def supply_cap_burn_rate_def Let_def)

text \<open>Both burn schedules of \<open>constants.rs\<close> only tighten: the rate never decreases with height or
  supply and never exceeds 20\%.\<close>

theorem burn_rates_monotone:
  "(h \<le> h' \<longrightarrow> burn_rate_at_height h \<le> burn_rate_at_height h')
   \<and> (s \<le> s' \<longrightarrow> supply_cap_burn_rate s \<le> supply_cap_burn_rate s')
   \<and> burn_rate_at_height h \<le> 2000 \<and> supply_cap_burn_rate s \<le> 2000"
proof -
  have "burn_rate_at_height h \<le> burn_rate_at_height h'" if "h \<le> h'"
    using that by (simp add: burn_rate_at_height_def PHASE_BURN_RATES_def)
  moreover have "supply_cap_burn_rate s \<le> supply_cap_burn_rate s'" if "s \<le> s'"
    using that by (simp add: supply_cap_burn_rate_def TOTAL_SUPPLY_TARGET_def)
  ultimately show ?thesis using burn_rates_bounded by blast
qed

theorem burn_rates_monotone_witness:
  "burn_rate_at_height 10 \<le> burn_rate_at_height 300000
   \<and> supply_cap_burn_rate 50000000 \<le> supply_cap_burn_rate 96000000"
  using burn_rates_monotone [of 10 300000 50000000 96000000] by simp

end
