(* ===== verification/Recovery.thy ===== *)
theory Recovery
  imports Transactions
begin

section \<open>Recovery metadata (transaction/recovery.rs)\<close>

text \<open>
  The dead man's switch entries kept in a transaction's \<open>extra\<close> field: the 42-byte codec, the scan over
  the field, and the structural checks. The source's \<open>String\<close> errors are kept without their numbers.
\<close>

definition RECOVERY_TAG :: u8 where "RECOVERY_TAG = 0xDE"
definition RECOVERY_ENTRY_SIZE :: nat where "RECOVERY_ENTRY_SIZE = 42"
definition MAX_RECOVERY_TIMEOUT :: nat where "MAX_RECOVERY_TIMEOUT = 525960"
definition MIN_RECOVERY_TIMEOUT :: nat where "MIN_RECOVERY_TIMEOUT = 720"

record recovery_meta =
  rm_output_index :: u8
  recovery_address :: bytes
  timeout_blocks :: nat

definition recovery_encode :: "recovery_meta \<Rightarrow> bytes" where
  "recovery_encode meta =
     [RECOVERY_TAG, rm_output_index meta] @ recovery_address meta @ le_bytes 8 (timeout_blocks meta)"

definition recovery_decode :: "bytes \<Rightarrow> recovery_meta option" where
  "recovery_decode data =
     (if length data < RECOVERY_ENTRY_SIZE then None
      else if data ! 0 \<noteq> RECOVERY_TAG then None
      else Some \<lparr> rm_output_index = data ! 1, recovery_address = take 32 (drop 2 data),
                  timeout_blocks = from_le_bytes (take 8 (drop 34 data)) \<rparr>)"

function recovery_decode_all :: "bytes \<Rightarrow> recovery_meta list" where
  "recovery_decode_all extra =
     (if extra = [] then []
      else if extra ! 0 = RECOVERY_TAG \<and> RECOVERY_ENTRY_SIZE \<le> length extra
      then (case recovery_decode extra of Some meta \<Rightarrow> [meta] | None \<Rightarrow> [])
           @ recovery_decode_all (drop RECOVERY_ENTRY_SIZE extra)
      else recovery_decode_all (drop 1 extra))"
  by pat_completeness auto
termination by (relation "measure length") (auto simp: RECOVERY_ENTRY_SIZE_def)

declare recovery_decode_all.simps [simp del]

definition recovery_encode_all :: "recovery_meta list \<Rightarrow> bytes" where
  "recovery_encode_all entries = concat (map recovery_encode entries)"

definition recovery_validate :: "recovery_meta \<Rightarrow> nat \<Rightarrow> string check" where
  "recovery_validate meta output_count =
     run_checks
       [ensure (unat (rm_output_index meta) < output_count) ''recovery output_index out of range'',
        ensure (MIN_RECOVERY_TIMEOUT \<le> timeout_blocks meta) ''recovery timeout too short'',
        ensure (timeout_blocks meta \<le> MAX_RECOVERY_TIMEOUT) ''recovery timeout too long'',
        ensure (recovery_address meta \<noteq> replicate 32 0) ''recovery address must not be zero'']"

definition is_recovery_eligible :: "recovery_meta \<Rightarrow> nat \<Rightarrow> nat \<Rightarrow> bool" where
  "is_recovery_eligible meta creation_height current_height = (timeout_blocks meta \<le> current_height - creation_height)"

fun validate_entries :: "nat \<Rightarrow> u8 set \<Rightarrow> recovery_meta list \<Rightarrow> string check" where
  "validate_entries output_count seen [] = ok"
| "validate_entries output_count seen (entry # entries) =
     (case recovery_validate entry output_count of
        Inl e \<Rightarrow> Inl e
      | Inr _ \<Rightarrow>
          if rm_output_index entry \<in> seen then Inl ''duplicate recovery entry for output index''
          else validate_entries output_count (insert (rm_output_index entry) seen) entries)"

definition validate_recovery_extra :: "bytes \<Rightarrow> nat \<Rightarrow> string check" where
  "validate_recovery_extra extra output_count = validate_entries output_count {} (recovery_decode_all extra)"

subsection \<open>Round trip\<close>

definition wf_recovery :: "recovery_meta \<Rightarrow> bool" where
  "wf_recovery meta \<longleftrightarrow> length (recovery_address meta) = 32 \<and> timeout_blocks meta \<le> u64_max"

lemma length_recovery_encode: "wf_recovery meta \<Longrightarrow> length (recovery_encode meta) = RECOVERY_ENTRY_SIZE"
  by (simp add: recovery_encode_def wf_recovery_def RECOVERY_ENTRY_SIZE_def)

lemma decode_encode:
  assumes "wf_recovery meta"
  shows "recovery_decode (recovery_encode meta @ rest) = Some meta"
proof -
  have "drop 34 (recovery_encode meta @ rest) = le_bytes 8 (timeout_blocks meta) @ rest"
    using assms by (simp add: recovery_encode_def wf_recovery_def)
  moreover have "from_le_bytes (le_bytes 8 (timeout_blocks meta)) = timeout_blocks meta"
    using assms by (simp add: from_le_bytes_le_bytes wf_recovery_def u64_max_def)
  moreover have "take 32 (drop 2 (recovery_encode meta @ rest)) = recovery_address meta"
    using assms by (simp add: recovery_encode_def wf_recovery_def)
  moreover have "\<not> length (recovery_encode meta @ rest) < RECOVERY_ENTRY_SIZE"
    using length_recovery_encode [OF assms] by simp
  moreover have "(recovery_encode meta @ rest) ! 0 = RECOVERY_TAG" "(recovery_encode meta @ rest) ! 1 = rm_output_index meta"
    by (simp_all add: recovery_encode_def)
  ultimately show ?thesis by (simp add: recovery_decode_def)
qed

lemma decode_all_entries:
  assumes "list_all wf_recovery entries"
  shows "recovery_decode_all (recovery_encode_all entries) = entries"
  using assms
proof (induction entries)
  case Nil
  show ?case by (subst recovery_decode_all.simps) (simp add: recovery_encode_all_def)
next
  case (Cons meta entries)
  let ?rest = "recovery_encode_all entries"
  have e: "recovery_encode_all (meta # entries) = recovery_encode meta @ ?rest" by (simp add: recovery_encode_all_def)
  have wf: "wf_recovery meta" using Cons.prems by simp
  have "recovery_encode meta @ ?rest \<noteq> []" "(recovery_encode meta @ ?rest) ! 0 = RECOVERY_TAG"
    by (simp_all add: recovery_encode_def)
  then have "recovery_decode_all (recovery_encode meta @ ?rest) = [meta] @ recovery_decode_all ?rest"
    using decode_encode [OF wf, of ?rest] length_recovery_encode [OF wf]
    by (subst recovery_decode_all.simps) simp
  then show ?case using Cons e by simp
qed

lemma validate_entries_ok:
  "validate_entries n seen entries = ok \<longleftrightarrow>
     (\<forall>e \<in> set entries. recovery_validate e n = ok) \<and> distinct (map rm_output_index entries)
     \<and> rm_output_index ` set entries \<inter> seen = {}"
proof (induction entries arbitrary: seen)
  case (Cons e entries)
  show ?case
  proof (cases "recovery_validate e n")
    case (Inr u)
    then show ?thesis using Cons.IH [of "insert (rm_output_index e) seen"] by auto
  qed simp
qed simp

text \<open>Recovery entries survive the \<open>extra\<close> field: scanning the concatenated encodings of any list of
  entries gives the list back, and the structural check accepts the field exactly when each entry
  names an existing output, has a timeout within a day and two years and a non-zero address, and
  no two entries name the same output.\<close>

theorem recovery_extra_roundtrip:
  assumes "list_all wf_recovery entries"
  shows "recovery_decode_all (recovery_encode_all entries) = entries
    \<and> (validate_recovery_extra (recovery_encode_all entries) n = ok \<longleftrightarrow>
         (\<forall>e \<in> set entries. unat (rm_output_index e) < n \<and> 720 \<le> timeout_blocks e \<and> timeout_blocks e \<le> 525960
            \<and> recovery_address e \<noteq> replicate 32 0)
         \<and> distinct (map rm_output_index entries))"
  using decode_all_entries [OF assms]
  by (simp add: validate_recovery_extra_def validate_entries_ok recovery_validate_def MIN_RECOVERY_TIMEOUT_def
      MAX_RECOVERY_TIMEOUT_def)

definition sample_recovery :: recovery_meta where
  "sample_recovery = \<lparr> rm_output_index = 1, recovery_address = replicate 32 0xAB, timeout_blocks = 262800 \<rparr>"

theorem recovery_extra_roundtrip_witness:
  "validate_recovery_extra (recovery_encode_all [sample_recovery]) 2 = ok
   \<and> recovery_decode_all (recovery_encode_all [sample_recovery]) = [sample_recovery]"
proof -
  have "list_all wf_recovery [sample_recovery]" by (simp add: wf_recovery_def sample_recovery_def u64_max_def)
  from recovery_extra_roundtrip [OF this, of 2] show ?thesis by (simp add: sample_recovery_def)
qed

end
