(* ===== verification/Tx_Validation.thy ===== *)
theory Tx_Validation
  imports Utxo_Set Verification_Cache Fork_Choice Fee_Market Recovery
begin

section \<open>Transaction validation (consensus/validation.rs, consensus/privacy_policy.rs)\<close>

text \<open>
  The checks a transaction passes before it enters a block or the mempool, in the order of the
  source: \<open>validate_transaction_for_network\<close> with its sub-checks, the context-free
  \<open>validate_transaction_basic\<close>, the structural \<open>transaction::validate_transaction\<close>, and the privacy
  policy. Each \<open>return Err\<close> is an \<open>Inl\<close>; error texts are kept without their numbers. The argument
  \<open>testnet\<close> is the cargo feature of that name. The ring signatures of a transaction are verified in
  parallel; \<open>order\<close> is the order in which the workers reach the shared cache.
\<close>

datatype tx_error =
    InvalidTxVersion u8
  | InvalidState string
  | InvalidInputCount nat nat
  | InvalidOutputCount nat nat
  | InvalidTransaction string
  | InvalidSignature string
  | InvalidMessage string
  | DuplicateKeyImage
  | InvalidRingSize nat nat
  | RangeProofInvalid
  | CommitmentMismatch
  | TransactionTooLarge nat nat
  | TransactionTooSmall nat nat
  | FeeTooLow nat nat
  | OutputTooSmall nat nat
  | TransparentOutputForbidden
  | RawPubkeyForbidden
  | UnshieldedForbidden
  | MempoolFull

subsection \<open>Consensus parameters (constants.rs)\<close>

definition MAX_TX_VERSION :: nat where "MAX_TX_VERSION = 2"
definition V2_TX_ACTIVATION_HEIGHT :: nat where "V2_TX_ACTIVATION_HEIGHT = 50000"
definition HARD_FORK_V1_0_12_HEIGHT :: nat where "HARD_FORK_V1_0_12_HEIGHT = 13000"
definition MAX_TX_INPUTS :: nat where "MAX_TX_INPUTS = 256"
definition MAX_TX_OUTPUTS :: nat where "MAX_TX_OUTPUTS = 16"
definition MAX_TX_SIZE :: nat where "MAX_TX_SIZE = 500000"
definition MAX_OUTPUT_MEMO_SIZE :: nat where "MAX_OUTPUT_MEMO_SIZE = 256"
definition MIN_OUTPUT_AMOUNT :: nat where "MIN_OUTPUT_AMOUNT = 1000000"
definition UNIFORM_TX_SHAPE_HEIGHT :: nat where "UNIFORM_TX_SHAPE_HEIGHT = BULLETPROOFS_PLUS_HEIGHT"
definition STANDARD_INPUT_COUNT :: nat where "STANDARD_INPUT_COUNT = 2"
definition STANDARD_OUTPUT_COUNT :: nat where "STANDARD_OUTPUT_COUNT = 2"
definition STRICT_RING_MEMBER_HEIGHT :: nat where "STRICT_RING_MEMBER_HEIGHT = 100"
definition BOOTSTRAP_MIN_RING_SIZE :: nat where "BOOTSTRAP_MIN_RING_SIZE = 11"
definition DEFAULT_RING_SIZE :: nat where "DEFAULT_RING_SIZE = 16"
definition MIN_OUTPUT_AGE :: nat where "MIN_OUTPUT_AGE = 10"
definition MIN_OUTPUT_AGE_POST_FORK :: nat where "MIN_OUTPUT_AGE_POST_FORK = 100"

definition MIN_OUTPUT_AGE_HARDFORK_HEIGHT :: "bool \<Rightarrow> nat" where
  "MIN_OUTPUT_AGE_HARDFORK_HEIGHT testnet = (if testnet then u64_max else 0)"

definition min_output_age_at_height :: "bool \<Rightarrow> nat \<Rightarrow> nat" where
  "min_output_age_at_height testnet height =
     (if height < MIN_OUTPUT_AGE_HARDFORK_HEIGHT testnet then MIN_OUTPUT_AGE else MIN_OUTPUT_AGE_POST_FORK)"

definition ring_size_at_height :: "nat \<Rightarrow> nat" where
  "ring_size_at_height height = (if height < 10000 then BOOTSTRAP_MIN_RING_SIZE else DEFAULT_RING_SIZE)"

definition effective_ring_size :: "nat \<Rightarrow> nat \<Rightarrow> nat" where
  "effective_ring_size height available_outputs =
     (let target = ring_size_at_height height
      in if target \<le> available_outputs then target
         else if 10000 \<le> height then target
         else min (max available_outputs 2) target)"

fun v1_0_12_rules_active :: "network_type \<Rightarrow> nat \<Rightarrow> bool" where
  "v1_0_12_rules_active Mainnet height = True"
| "v1_0_12_rules_active Regtest height = True"
| "v1_0_12_rules_active Testnet height = (HARD_FORK_V1_0_12_HEIGHT \<le> height)"

lemmas tx_params = MAX_TX_VERSION_def V2_TX_ACTIVATION_HEIGHT_def HARD_FORK_V1_0_12_HEIGHT_def MAX_TX_INPUTS_def
  MAX_TX_OUTPUTS_def MAX_TX_SIZE_def MAX_OUTPUT_MEMO_SIZE_def MIN_OUTPUT_AMOUNT_def UNIFORM_TX_SHAPE_HEIGHT_def
  STANDARD_INPUT_COUNT_def STANDARD_OUTPUT_COUNT_def STRICT_RING_MEMBER_HEIGHT_def BOOTSTRAP_MIN_RING_SIZE_def
  DEFAULT_RING_SIZE_def MIN_OUTPUT_AGE_def MIN_OUTPUT_AGE_POST_FORK_def BULLETPROOFS_PLUS_HEIGHT_def

subsection \<open>Structural checks\<close>

definition check_tx_version_range :: "transaction \<Rightarrow> tx_error check" where
  "check_tx_version_range tx =
     (if tx_version tx = 0 \<or> MAX_TX_VERSION < unat (tx_version tx) then Inl (InvalidTxVersion (tx_version tx)) else ok)"

definition check_tx_v2_activation :: "transaction \<Rightarrow> nat \<Rightarrow> tx_error check" where
  "check_tx_v2_activation tx current_height =
     (if 2 \<le> unat (tx_version tx) \<and> current_height < V2_TX_ACTIVATION_HEIGHT
      then Inl (InvalidState ''V2 transactions not allowed below activation height'') else ok)"

definition check_tx_input_output_counts :: "transaction \<Rightarrow> bool \<Rightarrow> tx_error check" where
  "check_tx_input_output_counts tx v1_0_12_active =
     run_checks
       ([ensure (tx_inputs tx \<noteq> []) (InvalidInputCount 0 MAX_TX_INPUTS),
         ensure (tx_outputs tx \<noteq> []) (InvalidOutputCount 0 MAX_TX_OUTPUTS)]
        @ (if v1_0_12_active
           then concat (map (\<lambda>out.
             [ensure (length (encrypted_amount out) = 8)
                (InvalidTransaction ''encrypted_amount must be exactly 8 bytes''),
              ensure (length (encrypted_memo out) \<le> MAX_OUTPUT_MEMO_SIZE)
                (InvalidTransaction ''encrypted_memo too large'')]) (tx_outputs tx))
           else [])
        @ [ensure (length (tx_inputs tx) \<le> MAX_TX_INPUTS) (InvalidInputCount (length (tx_inputs tx)) MAX_TX_INPUTS),
           ensure (length (tx_outputs tx) \<le> MAX_TX_OUTPUTS)
             (InvalidOutputCount (length (tx_outputs tx)) MAX_TX_OUTPUTS)])"

definition check_tx_io_ratio_legacy :: "transaction \<Rightarrow> tx_error check" where
  "check_tx_io_ratio_legacy tx =
     run_checks
       [ensure (length (tx_inputs tx) \<le> saturating_mul u64_max (length (tx_outputs tx)) 32)
          (InvalidTransaction ''Input/output ratio too high''),
        ensure (length (tx_outputs tx) \<le> saturating_mul u64_max (length (tx_inputs tx)) 32)
          (InvalidTransaction ''Output/input ratio too high'')]"

definition check_tx_uniform_shape :: "transaction \<Rightarrow> nat \<Rightarrow> tx_error check" where
  "check_tx_uniform_shape tx current_height =
     (if current_height < UNIFORM_TX_SHAPE_HEIGHT then ok
      else if \<not> (tx_ty tx = Transfer \<or> tx_ty tx = Churn) then ok
      else
        let cync_shape = STANDARD_OUTPUT_COUNT;
            asset_shape = STANDARD_OUTPUT_COUNT + 1
        in run_checks
             [ensure (length (tx_inputs tx) = STANDARD_INPUT_COUNT)
                (InvalidTransaction ''Post-activation Transfer/Churn must have exactly 2 inputs''),
              ensure (length (tx_outputs tx) = cync_shape \<or> length (tx_outputs tx) = asset_shape)
                (InvalidTransaction ''Post-activation Transfer/Churn must have 2 or 3 outputs''),
              ensure (\<not> (tx_ty tx = Churn \<and> length (tx_outputs tx) \<noteq> cync_shape))
                (InvalidTransaction ''Churn must have exactly 2 outputs'')])"

subsection \<open>Checks against the chain\<close>

definition check_tx_no_double_spend :: "transaction \<Rightarrow> utxo_set \<Rightarrow> tx_error check" where
  "check_tx_no_double_spend tx u =
     run_checks (concat (map (\<lambda>(i, ki).
       [ensure (ki \<notin> set (take i (key_images tx))) DuplicateKeyImage,
        ensure (ki \<notin> spent_key_images u) DuplicateKeyImage]) (enumerate 0 (key_images tx))))"

definition check_ring_member_coinbase_maturity :: "bool \<Rightarrow> bool \<Rightarrow> nat \<Rightarrow> nat \<Rightarrow> tx_error check" where
  "check_ring_member_coinbase_maturity testnet is_cb output_height current_height =
     (if \<not> is_cb then ok
      else ensure (min_output_age_at_height testnet current_height \<le> current_height - output_height)
             (InvalidTransaction ''ring member references immature coinbase output''))"

definition check_ring_member_time_lock :: "nat option \<Rightarrow> nat \<Rightarrow> tx_error check" where
  "check_ring_member_time_lock lock current_height =
     (case lock of
        Some lh \<Rightarrow> ensure (lh \<le> current_height) (InvalidTransaction ''ring member references time-locked output'')
      | None \<Rightarrow> ok)"

definition check_ring_member :: "bool \<Rightarrow> utxo_set \<Rightarrow> nat \<Rightarrow> ring_member \<Rightarrow> tx_error check" where
  "check_ring_member testnet u current_height member =
     (case get_output_by_stealth u (rm_public_key member) of
        Some r \<Rightarrow>
          run_checks
            [ensure (rm_commitment member = commitment (or_output r))
               (InvalidTransaction ''commitment does not match on-chain UTXO''),
             check_ring_member_coinbase_maturity testnet (or_is_coinbase r) (or_height r) current_height,
             check_ring_member_time_lock (lock_height (or_output r)) current_height]
      | None \<Rightarrow>
          (case get_output_index_entry u (rm_public_key member) of
             Some e \<Rightarrow>
               run_checks
                 [ensure (rm_commitment member = oi_commitment e)
                    (InvalidTransaction ''commitment does not match on-chain record''),
                  check_ring_member_coinbase_maturity testnet (oi_is_coinbase e) (oi_height e) current_height,
                  check_ring_member_time_lock (oi_lock_height e) current_height]
           | None \<Rightarrow>
               ensure (current_height < STRICT_RING_MEMBER_HEIGHT)
                 (InvalidTransaction ''ring member references non-existent output'')))"

definition check_tx_ring_members :: "bool \<Rightarrow> transaction \<Rightarrow> utxo_set \<Rightarrow> nat \<Rightarrow> bool \<Rightarrow> tx_error check" where
  "check_tx_ring_members testnet tx u current_height v1_0_12_active =
     run_checks
       ((if v1_0_12_active
         then
           let addrs = map stealth_address (tx_outputs tx)
           in concat (map (\<lambda>(i, a).
                [ensure (a \<notin> set (take i addrs)) (InvalidTransaction ''duplicate stealth address''),
                 ensure (get_output_index_entry u a = None)
                   (InvalidTransaction ''stealth address collides with existing on-chain output'')])
                (enumerate 0 addrs))
         else [])
        @ map (check_ring_member testnet u current_height) (concat (map ring_members (tx_inputs tx))))"

definition output_count :: "utxo_set \<Rightarrow> nat" where
  "output_count u = card (dom (outputs u))"

definition available_outputs :: "utxo_set \<Rightarrow> bool \<Rightarrow> nat" where
  "available_outputs u v1_0_12_active =
     (if v1_0_12_active then total_outputs_ever u - reorg_disconnects_total u else output_count u)"

definition check_tx_ring_size_and_unique_members :: "transaction \<Rightarrow> utxo_set \<Rightarrow> nat \<Rightarrow> bool \<Rightarrow> tx_error check" where
  "check_tx_ring_size_and_unique_members tx u current_height v1_0_12_active =
     run_checks (concat (map (\<lambda>inp.
       let ring_size = effective_ring_size current_height (available_outputs u v1_0_12_active)
       in [ensure (length (ring_members inp) = ring_size) (InvalidRingSize ring_size (length (ring_members inp))),
           ensure (distinct (map rm_public_key (ring_members inp))) (InvalidSignature ''Duplicate ring member'')])
       (tx_inputs tx)))"

subsection \<open>Cryptographic checks\<close>

text \<open>A worker looks at the shared flag, verifies its input and, on failure, clears the flag and lowers
  the failed index.\<close>

fun verify_inputs ::
    "'p crypto \<Rightarrow> nat \<Rightarrow> transaction \<Rightarrow> nat list \<Rightarrow> bool \<times> nat \<times> verification_cache \<Rightarrow> bool \<times> nat \<times> verification_cache" where
  "verify_inputs cr now tx [] st = st"
| "verify_inputs cr now tx (i # order) (all_valid, failed, c) =
     (if all_valid
      then
        case verify_ring_signature cr now tx (tx_inputs tx ! i) c of
          (True, c') \<Rightarrow> verify_inputs cr now tx order (True, failed, c')
        | (False, c') \<Rightarrow> verify_inputs cr now tx order (False, min failed i, c')
      else verify_inputs cr now tx order (all_valid, failed, c))"

definition check_tx_ring_signatures ::
    "'p crypto \<Rightarrow> nat \<Rightarrow> nat list \<Rightarrow> transaction \<Rightarrow> verification_cache \<Rightarrow> tx_error check \<times> verification_cache" where
  "check_tx_ring_signatures cr now order tx c =
     (case verify_inputs cr now tx order (True, u64_max, c) of
        (all_valid, failed, c') \<Rightarrow>
          (if all_valid then ok else Inl (InvalidSignature ''Ring signature verification failed''), c'))"

definition check_tx_range_proofs ::
    "'p crypto \<Rightarrow> nat \<Rightarrow> transaction \<Rightarrow> nat \<Rightarrow> verification_cache \<Rightarrow> tx_error check \<times> verification_cache" where
  "check_tx_range_proofs cr now tx current_height c =
     (case verify_output_range_proofs cr now tx current_height c of
        (valid, c') \<Rightarrow> (if valid then ok else Inl RangeProofInvalid, c'))"

definition check_tx_balance_proof :: "'p::ab_group_add crypto \<Rightarrow> transaction \<Rightarrow> tx_error check" where
  "check_tx_balance_proof cr tx = (if verify_balance_proof cr tx then ok else Inl CommitmentMismatch)"

subsection \<open>Full validation\<close>

definition context_checks :: "bool \<Rightarrow> transaction \<Rightarrow> utxo_set \<Rightarrow> nat \<Rightarrow> network_type \<Rightarrow> tx_error check" where
  "context_checks testnet tx u current_height network =
     (let v1_0_12_active = v1_0_12_rules_active network current_height
      in run_checks
           [check_tx_v2_activation tx current_height,
            check_tx_input_output_counts tx v1_0_12_active,
            check_tx_io_ratio_legacy tx,
            check_tx_uniform_shape tx current_height,
            check_tx_no_double_spend tx u,
            check_tx_ring_members testnet tx u current_height v1_0_12_active,
            check_tx_ring_size_and_unique_members tx u current_height v1_0_12_active])"

definition validate_transaction_for_network ::
    "'p::ab_group_add crypto \<Rightarrow> bool \<Rightarrow> nat \<Rightarrow> nat list \<Rightarrow> transaction \<Rightarrow> utxo_set \<Rightarrow> nat \<Rightarrow> network_type
     \<Rightarrow> verification_cache \<Rightarrow> tx_error check \<times> verification_cache" where
  "validate_transaction_for_network cr testnet now order tx u current_height network c =
     (case check_tx_version_range tx of
        Inl e \<Rightarrow> (Inl e, c)
      | Inr _ \<Rightarrow>
          if is_coinbase tx then (ok, c)
          else
            case context_checks testnet tx u current_height network of
              Inl e \<Rightarrow> (Inl e, c)
            | Inr _ \<Rightarrow>
                (case check_tx_ring_signatures cr now order tx c of
                   (Inl e, c) \<Rightarrow> (Inl e, c)
                 | (Inr _, c) \<Rightarrow>
                     (case check_tx_range_proofs cr now tx current_height c of
                        (Inl e, c) \<Rightarrow> (Inl e, c)
                      | (Inr _, c) \<Rightarrow> (check_tx_balance_proof cr tx, c))))"

subsection \<open>Context-free validation\<close>

definition point_valid :: "'p crypto \<Rightarrow> bytes \<Rightarrow> bool" where
  "point_valid cr b = (cr_decompress cr b \<noteq> None)"

definition basic_output_checks :: "'p crypto \<Rightarrow> tx_output \<Rightarrow> tx_error check list" where
  "basic_output_checks cr out =
     [ensure (encrypted_amount out \<noteq> []) (OutputTooSmall 0 MIN_OUTPUT_AMOUNT),
      ensure (length (encrypted_amount out) \<le> 64) (InvalidTransaction ''encrypted_amount too large''),
      ensure (length (encrypted_memo out) \<le> 256) (InvalidTransaction ''encrypted_memo too large''),
      ensure (stealth_address out \<noteq> replicate 32 0) (InvalidTransaction ''output stealth address is zero''),
      ensure (point_valid cr (stealth_address out)) (InvalidTransaction ''output stealth address is not a valid point''),
      ensure (commitment out \<noteq> replicate 32 0) (InvalidTransaction ''output commitment is zero''),
      ensure (point_valid cr (commitment out)) (InvalidTransaction ''output commitment is not a valid point'')]"

definition basic_key_image_checks :: "'p crypto \<Rightarrow> tx_input \<Rightarrow> tx_error check list" where
  "basic_key_image_checks cr inp =
     [ensure (key_image inp \<noteq> replicate 32 0) (InvalidTransaction ''zero key image''),
      ensure (point_valid cr (key_image inp)) (InvalidTransaction ''key image is not a valid curve point'')]"

definition validate_transaction_basic :: "'p crypto \<Rightarrow> transaction \<Rightarrow> tx_error check" where
  "validate_transaction_basic cr tx =
     (let size = tx_size (cr_borsh_tx cr) tx;
          min_fee = wrapping_mul u64_max size MIN_FEE_PER_BYTE
      in run_checks
       ([check_tx_version_range tx,
         ensure (tx_inputs tx \<noteq> []) (InvalidTransaction ''transaction has no inputs''),
         ensure (tx_outputs tx \<noteq> []) (InvalidTransaction ''transaction has no outputs''),
         ensure (size \<le> MAX_TX_SIZE) (TransactionTooLarge size MAX_TX_SIZE),
         ensure (MIN_TX_SIZE \<le> size) (TransactionTooSmall size MIN_TX_SIZE),
         ensure (min_fee \<le> as_atomic (tx_fee tx) \<or> is_coinbase tx) (FeeTooLow (as_atomic (tx_fee tx)) min_fee)]
        @ (if is_coinbase tx then []
           else map (\<lambda>inp. ensure (BOOTSTRAP_MIN_RING_SIZE \<le> length (ring_members inp))
                      (InvalidTransaction ''UNCONSTITUTIONAL: ring size below minimum'')) (tx_inputs tx)
                @ [ensure (range_proof tx \<noteq> []) (InvalidTransaction ''UNCONSTITUTIONAL: missing range proof'')])
        @ [ensure (distinct (key_images tx)) (InvalidTransaction ''duplicate key image within transaction''),
           ensure (length (tx_inputs tx) \<le> MAX_TX_INPUTS) (InvalidInputCount (length (tx_inputs tx)) MAX_TX_INPUTS),
           ensure (length (tx_outputs tx) \<le> MAX_TX_OUTPUTS)
             (InvalidOutputCount (length (tx_outputs tx)) MAX_TX_OUTPUTS)]
        @ concat (map (basic_output_checks cr) (tx_outputs tx))
        @ (if is_coinbase tx then [] else concat (map (basic_key_image_checks cr) (tx_inputs tx)))))"

subsection \<open>The structural validator (transaction/validator.rs)\<close>

definition validator_input_checks :: "nat \<Rightarrow> tx_input \<Rightarrow> tx_error check list" where
  "validator_input_checks height inp =
     (let target_ring_size = ring_size_at_height height;
          actual = length (ring_members inp)
      in [if height < 10000
          then ensure (2 \<le> actual \<and> actual \<le> target_ring_size) (InvalidRingSize target_ring_size actual)
          else ensure (actual = target_ring_size) (InvalidRingSize target_ring_size actual),
          ensure (length (clsag_responses (signature inp)) = actual) (InvalidSignature ''ring signature size mismatch''),
          ensure (clsag_key_image (signature inp) = key_image inp) (InvalidSignature ''key image mismatch'')])"

definition validate_transaction ::
    "'p crypto \<Rightarrow> transaction \<Rightarrow> nat \<Rightarrow> tx_error check" where
  "validate_transaction cr tx height =
     (let size = tx_size (cr_borsh_tx cr) tx;
          min_fee = wrapping_mul u64_max size MIN_FEE_PER_BYTE
      in run_checks
       ([ensure (tx_version tx = 1) (InvalidTxVersion (tx_version tx)),
         ensure (size \<le> MAX_TX_SIZE) (TransactionTooLarge size MAX_TX_SIZE),
         ensure (MIN_TX_SIZE \<le> size \<or> is_coinbase tx) (TransactionTooSmall size MIN_TX_SIZE),
         ensure (length (tx_inputs tx) \<le> MAX_TX_INPUTS) (InvalidInputCount (length (tx_inputs tx)) MAX_TX_INPUTS),
         ensure (length (tx_outputs tx) \<le> MAX_TX_OUTPUTS)
           (InvalidOutputCount (length (tx_outputs tx)) MAX_TX_OUTPUTS),
         ensure (tx_outputs tx \<noteq> []) (InvalidOutputCount 0 MAX_TX_OUTPUTS)]
        @ map (\<lambda>out. case lock_height out of
                  Some lh \<Rightarrow> ensure (lh \<le> wrapping_add u64_max height 525960)
                    (InvalidTransaction ''lock_height is too far in the future'')
                | None \<Rightarrow> ok) (tx_outputs tx)
        @ [ensure (distinct (key_images tx)) DuplicateKeyImage]
        @ concat (map (validator_input_checks height) (tx_inputs tx))
        @ [ensure (min_fee \<le> as_atomic (tx_fee tx) \<or> is_coinbase tx) (FeeTooLow (as_atomic (tx_fee tx)) min_fee),
           ensure (length (range_proof tx) \<le> MAX_TX_SIZE) RangeProofInvalid,
           ensure (length (tx_extra tx) \<le> 256) (InvalidMessage ''extra data too large''),
           ensure (tx_extra tx = [] \<or> validate_recovery_extra (tx_extra tx) (length (tx_outputs tx)) = ok)
             (InvalidTransaction ''invalid recovery metadata'')]))"

subsection \<open>Privacy policy (consensus/privacy_policy.rs)\<close>

definition point_non_identity :: "'p::ab_group_add crypto \<Rightarrow> bytes \<Rightarrow> bool" where
  "point_non_identity cr b = (case cr_decompress cr b of None \<Rightarrow> False | Some p \<Rightarrow> p \<noteq> 0)"

definition check_tx_privacy :: "'p::ab_group_add crypto \<Rightarrow> transaction \<Rightarrow> tx_error check" where
  "check_tx_privacy cr tx =
     run_checks
       (map (\<lambda>out. ensure (point_non_identity cr (commitment out)) TransparentOutputForbidden) (tx_outputs tx)
        @ map (\<lambda>out. ensure (point_non_identity cr (stealth_address out)) RawPubkeyForbidden) (tx_outputs tx)
        @ [ensure (tx_inputs tx \<noteq> []) UnshieldedForbidden])"

definition enforce_privacy_policy :: "'p::ab_group_add crypto \<Rightarrow> transaction list \<Rightarrow> tx_error check" where
  "enforce_privacy_policy cr txs =
     run_checks (map (\<lambda>tx. if tx_ty tx = Coinbase then ok else check_tx_privacy cr tx) txs)"

subsection \<open>What each check establishes\<close>

named_theorems check_ok "acceptance conditions of the individual checks"

lemma distinct_by_prefix: "(\<forall>i < length xs. xs ! i \<notin> set (take i xs)) \<longleftrightarrow> distinct xs"
proof (induction xs rule: rev_induct)
  case (snoc x xs)
  have "(\<forall>i < length (xs @ [x]). (xs @ [x]) ! i \<notin> set (take i (xs @ [x])))
      \<longleftrightarrow> (\<forall>i < length xs. xs ! i \<notin> set (take i xs)) \<and> x \<notin> set xs"
    by (auto simp: less_Suc_eq nth_append)
  with snoc.IH show ?case by simp
qed simp

lemma run_checks_append_ok: "run_checks (cs @ ds) = ok \<longleftrightarrow> run_checks cs = ok \<and> run_checks ds = ok"
  by auto

text \<open>The idiom of the two loops that test an element against its predecessors and against a set.\<close>

lemma prefix_checks_ok:
  "run_checks (concat (map (\<lambda>(i, x). [ensure (x \<notin> set (take i xs)) e, ensure (P x) e']) (enumerate 0 xs))) = ok
   \<longleftrightarrow> distinct xs \<and> (\<forall>x \<in> set xs. P x)"
proof -
  have "run_checks (concat (map (\<lambda>(i, x). [ensure (x \<notin> set (take i xs)) e, ensure (P x) e']) (enumerate 0 xs))) = ok
      \<longleftrightarrow> (\<forall>p \<in> set (enumerate 0 xs). snd p \<notin> set (take (fst p) xs) \<and> P (snd p))"
    by (auto simp: case_prod_beta)
  also have "\<dots> \<longleftrightarrow> (\<forall>i < length xs. xs ! i \<notin> set (take i xs) \<and> P (xs ! i))"
    by (simp add: Ball_def split_paired_All in_set_enumerate_eq)
  also have "\<dots> \<longleftrightarrow> distinct xs \<and> (\<forall>x \<in> set xs. P x)"
    by (simp add: distinct_by_prefix [symmetric] all_set_conv_all_nth) blast
  finally show ?thesis .
qed

lemma version_ok [check_ok]:
  "check_tx_version_range tx = ok \<longleftrightarrow> tx_version tx \<noteq> 0 \<and> unat (tx_version tx) \<le> MAX_TX_VERSION"
  by (auto simp: check_tx_version_range_def)

lemma v2_ok [check_ok]:
  "check_tx_v2_activation tx h = ok \<longleftrightarrow> unat (tx_version tx) < 2 \<or> V2_TX_ACTIVATION_HEIGHT \<le> h"
  by (auto simp: check_tx_v2_activation_def)

lemma counts_ok [check_ok]:
  "check_tx_input_output_counts tx active = ok \<longleftrightarrow>
     tx_inputs tx \<noteq> [] \<and> tx_outputs tx \<noteq> []
     \<and> (active \<longrightarrow> (\<forall>out \<in> set (tx_outputs tx). length (encrypted_amount out) = 8
           \<and> length (encrypted_memo out) \<le> MAX_OUTPUT_MEMO_SIZE))
     \<and> length (tx_inputs tx) \<le> MAX_TX_INPUTS \<and> length (tx_outputs tx) \<le> MAX_TX_OUTPUTS"
  by (auto simp: check_tx_input_output_counts_def)

lemma shape_ok [check_ok]:
  "check_tx_uniform_shape tx h = ok \<longleftrightarrow>
     (tx_ty tx = Coinbase
      \<or> length (tx_inputs tx) = 2 \<and> (length (tx_outputs tx) = 2 \<or> length (tx_outputs tx) = 3 \<and> tx_ty tx = Transfer))"
  by (cases "tx_ty tx") (auto simp: check_tx_uniform_shape_def tx_params)

lemma double_spend_ok [check_ok]:
  "check_tx_no_double_spend tx u = ok \<longleftrightarrow>
     distinct (key_images tx) \<and> set (key_images tx) \<inter> spent_key_images u = {}"
  unfolding check_tx_no_double_spend_def prefix_checks_ok by auto

lemma ring_members_ok [check_ok]:
  "check_tx_ring_members testnet tx u h active = ok \<longleftrightarrow>
     (active \<longrightarrow> distinct (map stealth_address (tx_outputs tx))
        \<and> (\<forall>out \<in> set (tx_outputs tx). get_output_index_entry u (stealth_address out) = None))
     \<and> (\<forall>inp \<in> set (tx_inputs tx). \<forall>m \<in> set (ring_members inp). check_ring_member testnet u h m = ok)"
  unfolding check_tx_ring_members_def Let_def run_checks_append_ok
  by (cases active) (simp_all only: prefix_checks_ok if_True if_False, auto)

lemma ring_size_ok [check_ok]:
  "check_tx_ring_size_and_unique_members tx u h active = ok \<longleftrightarrow>
     (\<forall>inp \<in> set (tx_inputs tx). length (ring_members inp) = effective_ring_size h (available_outputs u active)
        \<and> distinct (map rm_public_key (ring_members inp)))"
  by (auto simp: check_tx_ring_size_and_unique_members_def Let_def)

subsection \<open>What an accepted transaction satisfies\<close>

lemma check_result_cases: "(case r of Inl e \<Rightarrow> f e | Inr _ \<Rightarrow> g) = (if r = (ok :: tx_error check) then g else f (projl r))"
  by (cases r) auto

lemma validate_accepts:
  "fst (validate_transaction_for_network cr testnet now order tx u h network c) = ok \<longleftrightarrow>
     check_tx_version_range tx = ok
     \<and> (is_coinbase tx
        \<or> context_checks testnet tx u h network = ok
          \<and> fst (check_tx_ring_signatures cr now order tx c) = ok
          \<and> fst (check_tx_range_proofs cr now tx h (snd (check_tx_ring_signatures cr now order tx c))) = ok
          \<and> verify_balance_proof cr tx)"
  unfolding validate_transaction_for_network_def check_result_cases check_tx_balance_proof_def
  by (auto split: prod.splits sum.splits if_splits)

definition chain_record :: "utxo_set \<Rightarrow> public_key \<Rightarrow> (bytes \<times> nat \<times> bool \<times> nat option) option" where
  "chain_record u a =
     (case get_output_by_stealth u a of
        Some r \<Rightarrow> Some (commitment (or_output r), or_height r, or_is_coinbase r, lock_height (or_output r))
      | None \<Rightarrow> map_option (\<lambda>e. (oi_commitment e, oi_height e, oi_is_coinbase e, oi_lock_height e))
                 (get_output_index_entry u a))"

definition spendable_member :: "bool \<Rightarrow> utxo_set \<Rightarrow> nat \<Rightarrow> ring_member \<Rightarrow> bool" where
  "spendable_member testnet u h m =
     (case chain_record u (rm_public_key m) of
        None \<Rightarrow> h < STRICT_RING_MEMBER_HEIGHT
      | Some (cm, ht, cb, lk) \<Rightarrow>
          rm_commitment m = cm \<and> (cb \<longrightarrow> min_output_age_at_height testnet h \<le> h - ht)
          \<and> (case lk of None \<Rightarrow> True | Some l \<Rightarrow> l \<le> h))"

lemma ring_member_ok [check_ok]: "check_ring_member testnet u h m = ok \<longleftrightarrow> spendable_member testnet u h m"
  by (auto simp: check_ring_member_def spendable_member_def chain_record_def
      check_ring_member_coinbase_maturity_def check_ring_member_time_lock_def split: option.splits)

lemma spendable_strict:
  "(spendable_member testnet u h m \<and> (STRICT_RING_MEMBER_HEIGHT \<le> h \<longrightarrow> chain_record u (rm_public_key m) \<noteq> None))
   = spendable_member testnet u h m"
  by (cases "chain_record u (rm_public_key m)") (auto simp: spendable_member_def)

text \<open>C4: a transaction the consensus accepts is well formed and spends what is there. Its key images are
  pairwise different and unspent; it has two inputs and two outputs, or three for an asset
  transfer; every ring has exactly the size the height prescribes and no repeated key; every ring
  member that the chain knows has the commitment the chain recorded, is mature if it is a coinbase
  and past its time lock, and from \<open>STRICT_RING_MEMBER_HEIGHT\<close> (100) on the chain knows every ring
  member, while below that height the code lets unknown members pass; under the v1.0.12 rules its
  stealth addresses are new; its ring signatures and its range proof passed the verifier, which
  may answer from its cache; and its commitments balance.\<close>

theorem validated_transaction_sound:
  assumes "validate_transaction_for_network cr testnet now order tx u h network c = (ok, c')"
    and "\<not> is_coinbase tx"
  shows "distinct (key_images tx) \<and> set (key_images tx) \<inter> spent_key_images u = {}
    \<and> length (tx_inputs tx) = 2
    \<and> (length (tx_outputs tx) = 2 \<or> length (tx_outputs tx) = 3 \<and> tx_ty tx = Transfer)
    \<and> (\<forall>inp \<in> set (tx_inputs tx).
         length (ring_members inp) = effective_ring_size h (available_outputs u (v1_0_12_rules_active network h))
         \<and> distinct (map rm_public_key (ring_members inp))
         \<and> (\<forall>m \<in> set (ring_members inp). spendable_member testnet u h m
              \<and> (STRICT_RING_MEMBER_HEIGHT \<le> h \<longrightarrow> chain_record u (rm_public_key m) \<noteq> None)))
    \<and> (v1_0_12_rules_active network h \<longrightarrow>
         distinct (map stealth_address (tx_outputs tx))
         \<and> (\<forall>out \<in> set (tx_outputs tx). get_output_index_entry u (stealth_address out) = None))
    \<and> fst (check_tx_ring_signatures cr now order tx c) = ok
    \<and> fst (check_tx_range_proofs cr now tx h (snd (check_tx_ring_signatures cr now order tx c))) = ok
    \<and> verify_balance_proof cr tx"
proof -
  have acc: "fst (validate_transaction_for_network cr testnet now order tx u h network c) = ok"
    using assms(1) by simp
  with assms(2) have ctx: "context_checks testnet tx u h network = ok" and bal: "verify_balance_proof cr tx"
    and sigs: "fst (check_tx_ring_signatures cr now order tx c) = ok"
    and rng: "fst (check_tx_range_proofs cr now tx h (snd (check_tx_ring_signatures cr now order tx c))) = ok"
    by (simp_all add: validate_accepts)
  from assms(2) have "tx_ty tx \<noteq> Coinbase" by (simp add: is_coinbase_def)
  with ctx bal sigs rng show ?thesis
    unfolding spendable_strict by (simp add: context_checks_def Let_def check_ok)
qed

subsection \<open>Verification of all ring signatures\<close>

lemma verify_inputs_accept:
  assumes "\<And>i c. i \<in> set order \<Longrightarrow> fst (verify_ring_signature cr now tx (tx_inputs tx ! i) c)"
  shows "fst (verify_inputs cr now tx order (True, f, c))"
  using assms
proof (induction order arbitrary: c)
  case (Cons i order)
  then have "fst (verify_ring_signature cr now tx (tx_inputs tx ! i) c)" by simp
  then obtain c' where "verify_ring_signature cr now tx (tx_inputs tx ! i) c = (True, c')"
    by (metis prod.collapse)
  then show ?case using Cons by simp
qed simp

lemma valid_signature_accepted:
  "ring_signature_valid cr tx inp \<Longrightarrow> cr_borsh_sig cr (signature inp) \<noteq> None
   \<Longrightarrow> fst (verify_ring_signature cr now tx inp c)"
  by (auto simp: verify_ring_signature_def check_ring_sig_def Let_def split: option.splits)

lemma verify_ring_signature_bulletproofs [simp]:
  "bulletproof_cache (snd (verify_ring_signature cr now tx inp c)) = bulletproof_cache c"
  by (auto simp: verify_ring_signature_def check_ring_sig_def cache_ring_sig_def Let_def split: option.splits)

lemma verify_inputs_bulletproofs:
  "bulletproof_cache (snd (snd (verify_inputs cr now tx order (b, f, c)))) = bulletproof_cache c"
proof (induction order arbitrary: b f c)
  case (Cons i order)
  have "bulletproof_cache (snd (verify_ring_signature cr now tx (tx_inputs tx ! i) c)) = bulletproof_cache c" by simp
  with Cons.IH show ?case
    by (cases "verify_ring_signature cr now tx (tx_inputs tx ! i) c") (auto split: bool.splits)
qed simp

subsection \<open>Reorganisations do not change the rules\<close>

lemma context_checks_bump:
  "context_checks testnet tx (u \<lparr> total_outputs_ever := total_outputs_ever u + n,
     reorg_disconnects_total := reorg_disconnects_total u + n \<rparr>) h network = context_checks testnet tx u h network"
proof -
  let ?u = "u \<lparr> total_outputs_ever := total_outputs_ever u + n, reorg_disconnects_total := reorg_disconnects_total u + n \<rparr>"
  have idx: "get_output_index_entry ?u = get_output_index_entry u"
    by (rule ext) (simp add: get_output_index_entry_def split: option.splits)
  have st: "get_output_by_stealth ?u = get_output_by_stealth u"
    by (rule ext) (simp add: get_output_by_stealth_def)
  have av: "available_outputs ?u b = available_outputs u b" for b
    by (simp add: available_outputs_def output_count_def)
  have sp: "spent_key_images ?u = spent_key_images u" by simp
  show ?thesis
    unfolding context_checks_def check_tx_no_double_spend_def check_tx_ring_members_def check_ring_member_def
      check_tx_ring_size_and_unique_members_def idx st av sp ..
qed

text \<open>Connecting a block and disconnecting it again does not change which transactions are valid. Under
  the conditions of the round trip, every transaction gets the same verdict, and leaves the same
  cache, before and after: the ring size the rules ask for depends on the difference of the two
  counters only, so nodes that took different paths to one tip agree.\<close>

theorem validation_reorg_independent:
  fixes txid txs ht u
  defines "as \<equiv> adds (batch_from_block txid ht txs)"
    and "u' \<equiv> snd (apply_batch (batch_disconnect_block txid txs) (snd (apply_batch (batch_from_block txid ht txs) u)))"
  assumes "indices_ok u" and "distinct (map add_key as)" and "distinct (map add_stealth as)"
    and "\<forall>a \<in> set as. fresh_entry u a"
    and "spent_key_images u \<inter> set (concat (map tx_spends txs)) = {}"
    and "reorg_disconnects_total u + length as \<le> u64_max"
  shows "validate_transaction_for_network cr testnet now order tx u' h network c
       = validate_transaction_for_network cr testnet now order tx u h network c"
proof -
  have "u' = u \<lparr> total_outputs_ever := total_outputs_ever u + length as,
      reorg_disconnects_total := reorg_disconnects_total u + length as \<rparr>"
    unfolding u'_def as_def using assms(3-8) unfolding as_def by (rule connect_disconnect)
  then have "context_checks testnet tx u' h network = context_checks testnet tx u h network"
    by (simp add: context_checks_bump)
  then show ?thesis unfolding validate_transaction_for_network_def by (rule arg_cong)
qed

subsection \<open>Key images are not bound to signatures\<close>

text \<open>\<open>resign tx ks\<close> is the transaction with other key images and new signatures on it.\<close>

definition resign :: "transaction \<Rightarrow> (key_image \<times> clsag_signature) list \<Rightarrow> transaction" where
  "resign tx ks = tx \<lparr> tx_inputs :=
     map2 (\<lambda>inp (ki, sig). inp \<lparr> key_image := ki, signature := sig \<rparr>) (tx_inputs tx) ks \<rparr>"

lemma resign_simps [simp]:
  "tx_version (resign tx ks) = tx_version tx" "tx_ty (resign tx ks) = tx_ty tx"
  "tx_outputs (resign tx ks) = tx_outputs tx" "tx_fee (resign tx ks) = tx_fee tx"
  "range_proof (resign tx ks) = range_proof tx" "is_coinbase (resign tx ks) = is_coinbase tx"
  by (simp_all add: resign_def is_coinbase_def)

lemma resign_inputs:
  assumes "length ks = length (tx_inputs tx)"
  shows "map ring_members (tx_inputs (resign tx ks)) = map ring_members (tx_inputs tx)"
    and "map pseudo_output_commitment (tx_inputs (resign tx ks)) = map pseudo_output_commitment (tx_inputs tx)"
    and "key_images (resign tx ks) = map fst ks"
    and "length (tx_inputs (resign tx ks)) = length (tx_inputs tx)"
  using assms by (auto simp: resign_def key_images_def case_prod_beta intro!: nth_equalityI)

lemma sum_pseudo_outputs_map:
  "map pseudo_output_commitment is = map pseudo_output_commitment js \<Longrightarrow> sum_pseudo_outputs cr acc is = sum_pseudo_outputs cr acc js"
proof (induction "is" arbitrary: js acc)
  case (Cons i "is")
  then obtain j js' where "js = j # js'" "pseudo_output_commitment i = pseudo_output_commitment j"
    "map pseudo_output_commitment is = map pseudo_output_commitment js'" by (cases js) auto
  with Cons.IH [of js'] show ?case by (simp split: option.splits)
qed simp

lemma balance_resign:
  assumes "length ks = length (tx_inputs tx)"
  shows "verify_balance_proof cr (resign tx ks) = verify_balance_proof cr tx"
proof -
  have "tx_inputs (resign tx ks) = [] \<longleftrightarrow> tx_inputs tx = []"
    using resign_inputs(4) [OF assms] by (metis length_0_conv)
  then show ?thesis
    unfolding verify_balance_proof_def sum_pseudo_outputs_map [OF resign_inputs(2) [OF assms]] resign_simps by simp
qed

lemma ball_inputs_map: "(\<forall>i \<in> set is. P (f i)) \<longleftrightarrow> (\<forall>x \<in> set (map f is). P x)"
  by simp

lemma context_resign:
  assumes "length ks = length (tx_inputs tx)" and "context_checks testnet tx u h network = ok"
    and "distinct (map fst ks)" and "set (map fst ks) \<inter> spent = {}"
  shows "context_checks testnet (resign tx ks) (u \<lparr> spent_key_images := spent \<rparr>) h network = ok"
proof -
  let ?u = "u \<lparr> spent_key_images := spent \<rparr>"
  have ne: "tx_inputs (resign tx ks) = [] \<longleftrightarrow> tx_inputs tx = []"
    using resign_inputs(4) [OF assms(1)] by (metis length_0_conv)
  have idx: "get_output_index_entry ?u = get_output_index_entry u"
    by (rule ext) (simp add: get_output_index_entry_def split: option.splits)
  have st: "get_output_by_stealth ?u = get_output_by_stealth u"
    by (rule ext) (simp add: get_output_by_stealth_def)
  have sp: "spendable_member testnet ?u h = spendable_member testnet u h"
    unfolding spendable_member_def [abs_def] chain_record_def idx st ..
  have av: "available_outputs ?u b = available_outputs u b" for b
    by (simp add: available_outputs_def output_count_def)
  have rings: "(\<forall>i \<in> set (tx_inputs (resign tx ks)). P (ring_members i)) \<longleftrightarrow> (\<forall>i \<in> set (tx_inputs tx). P (ring_members i))" for P
    unfolding ball_inputs_map [where f = ring_members] resign_inputs(1) [OF assms(1)] ..
  have io: "check_tx_io_ratio_legacy (resign tx ks) = check_tx_io_ratio_legacy tx"
    by (simp add: check_tx_io_ratio_legacy_def resign_inputs(4) [OF assms(1)])
  show ?thesis
    using assms(2-4) ne
    by (simp add: context_checks_def Let_def check_ok sp idx av io resign_inputs(3,4) [OF assms(1)]
        rings [where P = "\<lambda>r. length r = n \<and> distinct (map rm_public_key r)" for n]
        rings [where P = "\<lambda>r. \<forall>m \<in> set r. spendable_member testnet u h m"])
qed

lemma range_accept_persists:
  assumes "fst (verify_output_range_proofs cr now tx h c)"
    and "tx_outputs tx' = tx_outputs tx" and "range_proof tx' = range_proof tx" and "is_coinbase tx' = is_coinbase tx"
    and "bulletproof_cache c2 = bulletproof_cache (snd (verify_output_range_proofs cr now tx h c))"
  shows "fst (verify_output_range_proofs cr now' tx' h c2)"
proof (cases "is_coinbase tx")
  case False
  let ?k = "proof_cache_key cr (range_proof tx) (concat (map commitment (tx_outputs tx)))"
  have "map_of (bulletproof_cache (snd (verify_output_range_proofs cr now tx h c))) ?k \<noteq> None"
    using assms(1) False
    by (auto simp: verify_output_range_proofs_def check_bulletproof_def cache_bulletproof_def cache_put_def Let_def
        split: if_splits option.splits)
  moreover have "range_proof tx \<noteq> []" "cr_parse_range_proof cr (range_proof tx) \<noteq> None"
    "\<forall>b \<in> set (map commitment (tx_outputs tx)). cr_decompress cr b \<noteq> None"
    using assms(1) False
    by (auto simp: verify_output_range_proofs_def Let_def split: if_splits option.splits)
  moreover have "map_of (bulletproof_cache c2) ?k \<noteq> None" using calculation(1) assms(5) by simp
  ultimately show ?thesis
    using False assms(2-4)
    by (auto simp: verify_output_range_proofs_def check_bulletproof_def Let_def split: option.splits)
qed (use assms in \<open>simp add: verify_output_range_proofs_def\<close>)

lemma ring_check_fst: "fst (check_tx_ring_signatures cr now order tx c) = ok \<longleftrightarrow> fst (verify_inputs cr now tx order (True, u64_max, c))"
  by (simp add: check_tx_ring_signatures_def split: prod.splits)

lemma ring_check_bulletproofs: "bulletproof_cache (snd (check_tx_ring_signatures cr now order tx c)) = bulletproof_cache c"
  using verify_inputs_bulletproofs [of cr now tx order True u64_max c]
  by (cases "verify_inputs cr now tx order (True, u64_max, c)") (simp add: check_tx_ring_signatures_def)

lemma range_check_fst: "fst (check_tx_range_proofs cr now tx h c) = ok \<longleftrightarrow> fst (verify_output_range_proofs cr now tx h c)"
  by (simp add: check_tx_range_proofs_def split: prod.splits)

lemma range_check_snd: "snd (check_tx_range_proofs cr now tx h c) = snd (verify_output_range_proofs cr now tx h c)"
  by (simp add: check_tx_range_proofs_def split: prod.splits)

lemma validate_cache:
  assumes "fst (validate_transaction_for_network cr testnet now order tx u h network c) = ok" and "\<not> is_coinbase tx"
  shows "snd (validate_transaction_for_network cr testnet now order tx u h network c)
    = snd (verify_output_range_proofs cr now tx h (snd (check_tx_ring_signatures cr now order tx c)))"
  using assms range_check_snd [of cr now tx h "snd (check_tx_ring_signatures cr now order tx c)"]
  by (auto simp: validate_transaction_for_network_def split: sum.splits prod.splits)

text \<open>C22: key images are not bound to signatures. Take a transaction that was accepted, and let \<open>spent\<close> be any
  set, for instance one with the key images of that transaction and of its signatures. If its
  owner puts fresh key images \<open>ks\<close> into the inputs and signs again, with the same secret keys and so
  with the same key images inside the signatures, the result is accepted again: the consensus check
  compares the inputs' key images with the spent set, but never with those of the signatures, and
  the validator that does (\<open>transaction::validate_transaction\<close>) is not called.\<close>

theorem key_image_not_bound:
  assumes "validate_transaction_for_network cr testnet now order tx u h network c = (ok, c')"
    and "\<not> is_coinbase tx" and "length ks = length (tx_inputs tx)"
    and "map (clsag_key_image \<circ> snd) ks = map (clsag_key_image \<circ> signature) (tx_inputs tx)"
    and "distinct (map fst ks)" and "set (map fst ks) \<inter> spent = {}"
    and "\<forall>inp \<in> set (tx_inputs (resign tx ks)). ring_signature_valid cr (resign tx ks) inp
           \<and> cr_borsh_sig cr (signature inp) \<noteq> None"
    and "set order \<subseteq> {..<length (tx_inputs tx)}"
  shows "fst (validate_transaction_for_network cr testnet now order (resign tx ks)
           (u \<lparr> spent_key_images := spent \<rparr>) h network c') = ok"
proof -
  have acc: "fst (validate_transaction_for_network cr testnet now order tx u h network c) = ok"
    and c': "c' = snd (validate_transaction_for_network cr testnet now order tx u h network c)"
    using assms(1) by simp_all
  note old = acc [unfolded validate_accepts ring_check_fst range_check_fst]
  have ctx: "context_checks testnet (resign tx ks) (u \<lparr> spent_key_images := spent \<rparr>) h network = ok"
    using old assms(2) by (blast intro: context_resign [OF assms(3) _ assms(5,6)])
  have "fst (verify_ring_signature cr now (resign tx ks) (tx_inputs (resign tx ks) ! i) c)" if "i \<in> set order" for i c
  proof (rule valid_signature_accepted)
    have "tx_inputs (resign tx ks) ! i \<in> set (tx_inputs (resign tx ks))"
      using that assms(8) resign_inputs(4) [OF assms(3)] by auto
    with assms(7) show "ring_signature_valid cr (resign tx ks) (tx_inputs (resign tx ks) ! i)"
      "cr_borsh_sig cr (signature (tx_inputs (resign tx ks) ! i)) \<noteq> None" by blast+
  qed
  then have sigs: "fst (verify_inputs cr now (resign tx ks) order (True, u64_max, c'))"
    by (rule verify_inputs_accept)
  have bp: "bulletproof_cache (snd (check_tx_ring_signatures cr now order (resign tx ks) c'))
      = bulletproof_cache (snd (verify_output_range_proofs cr now tx h (snd (check_tx_ring_signatures cr now order tx c))))"
    by (simp only: ring_check_bulletproofs c' validate_cache [OF acc assms(2)])
  have "fst (verify_output_range_proofs cr now tx h (snd (check_tx_ring_signatures cr now order tx c)))"
    using old assms(2) by blast
  from range_accept_persists [OF this resign_simps(3,5,6) bp]
  have "fst (verify_output_range_proofs cr now (resign tx ks) h
      (snd (check_tx_ring_signatures cr now order (resign tx ks) c')))" .
  moreover have "check_tx_version_range (resign tx ks) = ok"
    using old by (simp add: version_ok)
  ultimately show ?thesis
    unfolding validate_accepts ring_check_fst range_check_fst
    using ctx sigs old assms(2) balance_resign [OF assms(3)] by blast
qed

text \<open>What the range-proof verifier computes on a cache miss, and whether the cache holds an answer for
  the signature of an input.\<close>

definition range_proof_valid :: "'p crypto \<Rightarrow> transaction \<Rightarrow> nat \<Rightarrow> bool" where
  "range_proof_valid cr tx h =
     (range_proof tx \<noteq> [] \<and> (\<forall>out \<in> set (tx_outputs tx). cr_decompress cr (commitment out) \<noteq> None)
      \<and> (case cr_parse_range_proof cr (range_proof tx) of
           None \<Rightarrow> False
         | Some proof \<Rightarrow> verify_range_proofs_dispatch cr (map commitment (tx_outputs tx)) proof h))"

lemma valid_range_accepted: "range_proof_valid cr tx h \<Longrightarrow> fst (verify_output_range_proofs cr now tx h c)"
  by (auto simp: verify_output_range_proofs_def range_proof_valid_def check_bulletproof_def Let_def
      split: option.splits)

definition ring_cached :: "'p crypto \<Rightarrow> transaction \<Rightarrow> tx_input \<Rightarrow> verification_cache \<Rightarrow> bool" where
  "ring_cached cr tx inp c =
     (case cr_borsh_sig cr (signature inp) of
        None \<Rightarrow> False
      | Some sig \<Rightarrow> map_of (ring_sig_cache c) (ring_sig_cache_key cr (hash_bytes (signing_hash (cr_blake3 cr) tx)) sig) \<noteq> None)"

lemma ring_cached_hit:
  assumes "ring_cached cr tx inp c"
  obtains c' where "verify_ring_signature cr now tx inp c = (True, c')" and "ring_cached cr tx inp c'"
  using assms
  by (auto simp: ring_cached_def verify_ring_signature_def check_ring_sig_def Let_def split: option.splits)

lemma ring_cached_shared: "signature inp' = signature inp \<Longrightarrow> ring_cached cr tx inp' c = ring_cached cr tx inp c"
  by (simp add: ring_cached_def)

lemma verified_ring_cached:
  "fst (verify_ring_signature cr now tx inp c) \<Longrightarrow> ring_cached cr tx inp (snd (verify_ring_signature cr now tx inp c))"
  by (auto simp: ring_cached_def verify_ring_signature_def check_ring_sig_def cache_ring_sig_def cache_put_def Let_def
      split: option.splits if_splits)

lemma verify_inputs_cached:
  assumes "\<And>i. i \<in> set order \<Longrightarrow> signature (tx_inputs tx ! i) = signature inp" and "ring_cached cr tx inp c"
  shows "fst (verify_inputs cr now tx order (True, f, c))"
  using assms
proof (induction order arbitrary: c)
  case (Cons i order)
  then have sig: "signature (tx_inputs tx ! i) = signature inp" by simp
  have "ring_cached cr tx (tx_inputs tx ! i) c" using Cons.prems(2) ring_cached_shared [OF sig] by blast
  then obtain c' where v: "verify_ring_signature cr now tx (tx_inputs tx ! i) c = (True, c')"
    and "ring_cached cr tx (tx_inputs tx ! i) c'" by (rule ring_cached_hit)
  then have "ring_cached cr tx inp c'" using ring_cached_shared [OF sig] by blast
  then show ?case using Cons.IH [of c'] Cons.prems(1) v by simp
qed simp

lemma shared_inputs_accept:
  assumes "tx_inputs tx = [a, b]" and "signature b = signature a" and "set order \<subseteq> {0, 1}"
    and "ring_cached cr tx a c"
  shows "fst (verify_inputs cr now tx order (True, f, c))"
  using assms(3) by (intro verify_inputs_cached [OF _ assms(4)]) (auto simp: assms(1,2))

text \<open>C21: an input nobody signed is accepted. Take a two-input transaction that passes the version check and
  the checks against the chain, whose range proof is valid and whose commitments balance. If its
  first input is properly signed and the second carries a copy of that signature, validation
  succeeds whatever ring and pseudo-output commitment the second input names, so its amount can be
  chosen freely: the cached result of the first input answers for the second. The inputs are
  verified by parallel workers, modelled as an order of the two. From any cache the transaction
  passes when the first input is verified before the second is looked up; and once the cache holds
  the result of the first input, as after an earlier verification of it, it passes in both
  orders.\<close>

theorem forged_input_accepted:
  assumes "check_tx_version_range tx = ok" and "context_checks testnet tx u h network = ok"
    and "tx_inputs tx = [a, b]" and "signature b = signature a" and "cr_borsh_sig cr (signature a) \<noteq> None"
    and "ring_signature_valid cr tx a" and "verify_balance_proof cr tx" and "range_proof_valid cr tx h"
  shows "fst (validate_transaction_for_network cr testnet now [0, 1] tx u h network c) = ok
    \<and> (\<forall>order \<in> {[0, 1], [1, 0]}. fst (validate_transaction_for_network cr testnet now order tx u h network
           (snd (verify_ring_signature cr before tx a c))) = ok)"
proof -
  note a = valid_signature_accepted [OF assms(6,5)]
  have warm: "fst (verify_inputs cr now tx order (True, u64_max, snd (verify_ring_signature cr t tx a c)))"
    if "set order \<subseteq> {0, 1}" for order t
    by (rule shared_inputs_accept [OF assms(3,4) that verified_ring_cached [OF a]])
  have "fst (verify_inputs cr now tx [0, 1] (True, u64_max, c))"
    using a [of now c] warm [of "[1]" now] by (cases "verify_ring_signature cr now tx a c") (simp add: assms(3))
  moreover have "fst (verify_inputs cr now tx order (True, u64_max, snd (verify_ring_signature cr before tx a c)))"
    if "order \<in> {[0, 1], [1, 0]}" for order
    using that by (intro warm) auto
  ultimately show ?thesis
    unfolding validate_accepts ring_check_fst range_check_fst
    using assms(1,2,7) valid_range_accepted [OF assms(8)] by blast
qed

subsection \<open>Concrete transactions\<close>

text \<open>Two-input transfers at height 50 of an empty chain, under the toy signature scheme that accepts the
  pseudo-output 5 only. Values are the first bytes of the commitments.\<close>

definition spend_input :: "u8 \<Rightarrow> u8 \<Rightarrow> tx_input" where
  "spend_input k p = \<lparr> key_image = [k], ring_members = [\<lparr> rm_public_key = [1], rm_commitment = [1] \<rparr>,
      \<lparr> rm_public_key = [2], rm_commitment = [2] \<rparr>], signature = sample_signature, pseudo_output_commitment = [p] \<rparr>"

definition spend_output_to :: "u8 \<Rightarrow> u8 \<Rightarrow> tx_output" where
  "spend_output_to a v = \<lparr> stealth_address = [a], tx_public_key = [2], commitment = [v], encrypted_amount = replicate 8 0,
     view_tag = 0, lock_height = None, encrypted_memo = [] \<rparr>"

definition spend_tx :: "u8 \<Rightarrow> u8 \<Rightarrow> u8 \<Rightarrow> u8 \<Rightarrow> transaction" where
  "spend_tx p q v w = \<lparr> tx_version = 1, tx_ty = Transfer, tx_inputs = [spend_input 11 p, spend_input 12 q],
     tx_outputs = [spend_output_to 7 v, spend_output_to 8 w], tx_fee = Amount 2, range_proof = [1], tx_extra = [] \<rparr>"

lemmas spend_defs = spend_tx_def spend_input_def spend_output_to_def

lemma spend_ring_size: "effective_ring_size 50 (available_outputs utxo_new True) = 2"
  by (simp add: effective_ring_size_def available_outputs_def utxo_new_def ring_size_at_height_def tx_params)

lemma spend_context: "context_checks False (spend_tx p q v w) utxo_new 50 Mainnet = ok"
proof -
  have "spendable_member False utxo_new 50 m" for m
    by (simp add: spendable_member_def chain_record_def get_output_by_stealth_def get_output_index_entry_def
        utxo_new_def tx_params)
  moreover have "get_output_index_entry utxo_new a = None" for a
    by (simp add: get_output_index_entry_def utxo_new_def)
  moreover have "spent_key_images utxo_new = {}" by (simp add: utxo_new_def)
  moreover have "check_tx_io_ratio_legacy (spend_tx p q v w) = ok"
    by (simp add: check_tx_io_ratio_legacy_def spend_defs saturating_mul_def u64_max_def)
  ultimately show ?thesis
    using spend_ring_size
    by (simp add: context_checks_def Let_def check_ok) (simp add: spend_defs key_images_def tx_params)
qed

lemma spend_version: "check_tx_version_range (spend_tx p q v w) = ok"
  by (simp add: version_ok spend_defs MAX_TX_VERSION_def)

lemma spend_range: "fst (verify_output_range_proofs sample_crypto now (spend_tx p q v w) h c)"
  by (auto simp: verify_output_range_proofs_def spend_defs sample_crypto_def is_coinbase_def Let_def
      check_bulletproof_def verify_range_proofs_dispatch_def RANGE_PROOF_VERSION_BP_PLUS_def
      BULLETPROOFS_PLUS_HEIGHT_def RANGE_PROOF_VERSION_def split: option.splits)

lemma spend_balance:
  "uint p \<noteq> 0 \<Longrightarrow> uint q \<noteq> 0 \<Longrightarrow> uint p + uint q = uint v + uint w + 2
   \<Longrightarrow> verify_balance_proof sample_crypto (spend_tx p q v w)"
  by (simp add: verify_balance_proof_def is_coinbase_def spend_defs sample_crypto_def)

lemma spend_borsh: "cr_borsh_sig sample_crypto sig = Some (clsag_c1 sig)" "signature (spend_input k p) = sample_signature"
  by (simp_all add: sample_crypto_def spend_defs)

lemma spend_signature: "ring_signature_valid sample_crypto tx (spend_input k p) \<longleftrightarrow> p = 5"
proof -
  have "uint p = 5 \<longleftrightarrow> p = 5" using word_uint_eq_iff [of p 5] by simp
  then show ?thesis by (simp add: ring_signature_valid_def ring_points_def spend_input_def sample_crypto_def)
qed

lemma spend_range_valid: "range_proof_valid sample_crypto (spend_tx p q v w) h"
  by (simp add: range_proof_valid_def spend_defs sample_crypto_def verify_range_proofs_dispatch_def
      RANGE_PROOF_VERSION_BP_PLUS_def BULLETPROOFS_PLUS_HEIGHT_def RANGE_PROOF_VERSION_def)

theorem forged_input_accepted_witness:
  "\<not> ring_signature_valid sample_crypto (spend_tx 5 200 101 102) (spend_input 12 200)
   \<and> fst (validate_transaction_for_network sample_crypto False 0 [0, 1] (spend_tx 5 200 101 102) utxo_new 50 Mainnet
        cache_new) = ok
   \<and> fst (validate_transaction_for_network sample_crypto False 0 [1, 0] (spend_tx 5 200 101 102) utxo_new 50 Mainnet
        (snd (verify_ring_signature sample_crypto 0 (spend_tx 5 200 101 102) (spend_input 11 5) cache_new))) = ok"
proof -
  have "tx_inputs (spend_tx 5 200 101 102) = [spend_input 11 5, spend_input 12 200]" by (simp add: spend_tx_def)
  from forged_input_accepted [OF spend_version spend_context this _ _ _ _ spend_range_valid,
      where now = 0 and before = 0 and c = cache_new]
  show ?thesis by (simp add: spend_borsh spend_signature spend_balance)
qed

definition honest_tx :: transaction where "honest_tx = spend_tx 5 5 4 4"

lemma honest_validates:
  assumes "context_checks False honest_tx u h Mainnet = ok"
  shows "fst (validate_transaction_for_network sample_crypto False 0 [0, 1] honest_tx u h Mainnet cache_new) = ok"
proof -
  have "fst (verify_inputs sample_crypto 0 honest_tx [0, 1] (True, u64_max, cache_new))"
    by (rule verify_inputs_accept)
      (auto simp: honest_tx_def spend_tx_def spend_signature spend_borsh intro!: valid_signature_accepted)
  then show ?thesis
    using assms unfolding validate_accepts ring_check_fst range_check_fst
    by (simp add: honest_tx_def spend_version spend_range spend_balance)
qed

lemmas honest_accepted = honest_validates [OF spend_context [of 5 5 4 4, folded honest_tx_def]]

lemma honest_result:
  "validate_transaction_for_network sample_crypto False 0 [0, 1] honest_tx utxo_new 50 Mainnet cache_new
   = (ok, snd (validate_transaction_for_network sample_crypto False 0 [0, 1] honest_tx utxo_new 50 Mainnet cache_new))"
  using honest_accepted by (metis prod.collapse)

lemma honest_not_coinbase: "\<not> is_coinbase honest_tx"
  by (simp add: honest_tx_def spend_tx_def is_coinbase_def)

definition funded_utxos :: utxo_set where
  "funded_utxos = snd (apply_batch (batch_from_block (\<lambda>_. Hash [1]) 5
     [sample_coinbase [9] \<lparr> tx_outputs := [spend_output_to 1 1, spend_output_to 2 2] \<rparr>]) utxo_new)"

lemma funded_simps:
  "spent_key_images funded_utxos = {}"
  "available_outputs funded_utxos True = 2"
  "chain_record funded_utxos [1] = Some ([1], 5, True, None)"
  "chain_record funded_utxos [2] = Some ([2], 5, True, None)"
  "get_output_index_entry funded_utxos [7] = None" "get_output_index_entry funded_utxos [8] = None"
  by (simp_all add: funded_utxos_def apply_batch_def apply_counted_def apply_add_def batch_from_block_def tx_adds_def tx_spends_def sample_coinbase_def is_coinbase_def
     utxo_new_def add_output_ext_def or_insert_def spend_output_to_def available_outputs_def chain_record_def
     get_output_by_stealth_def get_output_index_entry_def Let_def)

lemma funded_context: "context_checks False (spend_tx p q v w) funded_utxos 150 Mainnet = ok"
proof -
  have age: "min_output_age_at_height False 150 \<le> 145"
    by (simp add: min_output_age_at_height_def MIN_OUTPUT_AGE_HARDFORK_HEIGHT_def tx_params)
  have "spendable_member False funded_utxos 150 \<lparr> rm_public_key = [1], rm_commitment = [1] \<rparr>"
    "spendable_member False funded_utxos 150 \<lparr> rm_public_key = [2], rm_commitment = [2] \<rparr>"
    using age by (simp_all add: spendable_member_def funded_simps)
  moreover have "check_tx_io_ratio_legacy (spend_tx p q v w) = ok"
    by (simp add: check_tx_io_ratio_legacy_def spend_defs saturating_mul_def u64_max_def)
  moreover have "effective_ring_size 150 2 = 2"
    by (simp add: effective_ring_size_def ring_size_at_height_def tx_params)
  ultimately show ?thesis
    by (simp add: context_checks_def Let_def check_ok funded_simps)
      (simp add: spend_defs key_images_def tx_params funded_simps)
qed

lemma honest_funded:
  "validate_transaction_for_network sample_crypto False 0 [0, 1] honest_tx funded_utxos 150 Mainnet cache_new
   = (ok, snd (validate_transaction_for_network sample_crypto False 0 [0, 1] honest_tx funded_utxos 150 Mainnet cache_new))"
  using honest_validates [OF funded_context [of 5 5 4 4, folded honest_tx_def]] by (metis prod.collapse)

theorem validated_transaction_sound_witness:
  "distinct (key_images honest_tx) \<and> length (tx_inputs honest_tx) = 2
   \<and> (\<exists>inp \<in> set (tx_inputs honest_tx). \<exists>m \<in> set (ring_members inp). chain_record funded_utxos (rm_public_key m) \<noteq> None)
   \<and> fst (check_tx_ring_signatures sample_crypto 0 [0, 1] honest_tx cache_new) = ok
   \<and> verify_balance_proof sample_crypto honest_tx"
proof -
  note s = validated_transaction_sound [OF honest_funded honest_not_coinbase]
  have "spend_input 11 5 \<in> set (tx_inputs honest_tx)"
    "\<lparr> rm_public_key = [1], rm_commitment = [1] \<rparr> \<in> set (ring_members (spend_input 11 5))"
    by (simp_all add: honest_tx_def spend_defs)
  moreover have "STRICT_RING_MEMBER_HEIGHT \<le> 150" by (simp add: tx_params)
  ultimately show ?thesis using s by blast
qed

definition respend_keys :: "(key_image \<times> clsag_signature) list" where
  "respend_keys = [([21], sample_signature), ([22], sample_signature)]"

theorem key_image_not_bound_witness:
  "fst (validate_transaction_for_network sample_crypto False 0 [0, 1] (resign honest_tx respend_keys)
     (utxo_new \<lparr> spent_key_images := {[11], [12], clsag_key_image sample_signature} \<rparr>) 50 Mainnet
     (snd (validate_transaction_for_network sample_crypto False 0 [0, 1] honest_tx utxo_new 50 Mainnet cache_new))) = ok"
proof (rule key_image_not_bound [OF honest_result honest_not_coinbase])
  have inps: "tx_inputs (resign honest_tx respend_keys) = [spend_input 21 5, spend_input 22 5]"
    by (simp add: resign_def respend_keys_def honest_tx_def spend_defs)
  show "\<forall>inp \<in> set (tx_inputs (resign honest_tx respend_keys)).
      ring_signature_valid sample_crypto (resign honest_tx respend_keys) inp
      \<and> cr_borsh_sig sample_crypto (signature inp) \<noteq> None"
    unfolding inps by (simp add: spend_signature spend_borsh)
  show "set (map fst respend_keys) \<inter> {[11], [12], clsag_key_image sample_signature} = {}"
    by (simp add: respend_keys_def sample_signature_def)
qed (simp_all add: respend_keys_def honest_tx_def spend_defs)

theorem validation_reorg_independent_witness:
  "fst (validate_transaction_for_network sample_crypto False 0 [0, 1] honest_tx
     (snd (apply_batch (batch_disconnect_block (\<lambda>_. Hash [1]) [sample_coinbase [9]])
        (snd (apply_batch (batch_from_block (\<lambda>_. Hash [1]) 5 [sample_coinbase [9]]) utxo_new)))) 50 Mainnet cache_new) = ok"
  using validation_reorg_independent [of utxo_new "\<lambda>_. Hash [1]" 5 "[sample_coinbase [9]]" sample_crypto False 0 "[0, 1]"
      honest_tx 50 Mainnet cache_new] honest_accepted
  by (simp add: batch_from_block_def tx_adds_def sample_coinbase_def tx_spends_def is_coinbase_def
      fresh_entry_def indices_ok_def idx_ok_def idx_absent_def utxo_new_def u64_max_def)

end
