(* ===== verification/Proof_Of_Work.thy ===== *)
theory Proof_Of_Work
  imports Transactions Std_Maps
begin

section \<open>Block headers and proof of work (consensus/header.rs, consensus/pow.rs)\<close>

text \<open>
  The header and its hash, the anchor a miner works on with the FIFO cache in front of it, the RandomX
  key schedule and \<open>verify_pow\<close>. RandomX itself is the parameter \<open>randomx\<close>, from key and input to a
  hash or a failure (a build without the feature, or no memory for the dataset); \<open>genesis\<close> are the
  bytes bound at start-up by \<open>bind_randomx_genesis_for_network\<close>. The lemmas show that the header
  hash commits to every field, that the cache is transparent and bounded, and that the proof of
  work commits to fewer fields than the header hash.
\<close>

record block_header =
  network_magic :: bytes
  bh_version :: u8
  bh_height :: nat
  bh_timestamp :: nat
  bh_prev_hash :: hash
  bh_tx_root :: hash
  bh_anchor :: hash
  bh_algorithm :: u8
  bh_nonce :: nat
  bh_target :: hash
  miner_pubkey_of :: public_key
  supply_commitment :: bytes
  checkpoint_vote :: "(nat \<times> hash) option"
  spark_set_root :: bytes
  mw_kernel_root :: bytes

subsection \<open>The header hash\<close>

definition HEADER_HASH_DOMAIN_TAG :: bytes where
  "HEADER_HASH_DOMAIN_TAG = ascii_bytes ''coincync/header/v1''"

definition vote_bytes :: "(nat \<times> hash) option \<Rightarrow> bytes" where
  "vote_bytes v = (case v of Some (h, x) \<Rightarrow> 1 # le_bytes 8 h @ hash_bytes x | None \<Rightarrow> [0])"

definition header_preimage :: "block_header \<Rightarrow> bytes" where
  "header_preimage b = HEADER_HASH_DOMAIN_TAG @ network_magic b @ [bh_version b] @ le_bytes 8 (bh_height b)
     @ le_bytes 8 (bh_timestamp b) @ hash_bytes (bh_prev_hash b) @ hash_bytes (bh_tx_root b)
     @ hash_bytes (bh_anchor b) @ [bh_algorithm b] @ le_bytes 8 (bh_nonce b) @ hash_bytes (bh_target b)
     @ miner_pubkey_of b @ supply_commitment b @ vote_bytes (checkpoint_vote b)
     @ spark_set_root b @ mw_kernel_root b"

definition header_hash :: "(bytes \<Rightarrow> hash) \<Rightarrow> block_header \<Rightarrow> hash" where
  "header_hash blake3 b = hash_concat blake3 [header_preimage b]"

subsection \<open>Anchors\<close>

definition SEQ_PAD_ITERATIONS :: nat where "SEQ_PAD_ITERATIONS = 1"

record pow_anchor =
  sequential_hash :: hash
  mixed_hash :: hash
  an_algorithm :: u8
  an_height :: nat
  an_timestamp :: nat

fun compute_sequential_padding :: "(bytes \<Rightarrow> hash) \<Rightarrow> hash \<Rightarrow> nat \<Rightarrow> hash" where
  "compute_sequential_padding blake3 seed 0 = seed"
| "compute_sequential_padding blake3 seed (Suc n) =
     compute_sequential_padding blake3 (hash_domain blake3 (ascii_bytes ''SEQ_PAD_ITER'') (hash_bytes seed)) n"

definition blake3_mix :: "(bytes \<Rightarrow> hash) \<Rightarrow> hash \<Rightarrow> hash \<Rightarrow> hash" where
  "blake3_mix blake3 sequential prev_hash =
     hash_domain blake3 (ascii_bytes ''CYNC1_ANCHOR_MIX'') (hash_bytes sequential @ hash_bytes prev_hash)"

text \<open>What \<open>compute_full_anchor\<close> computes on a cache miss.\<close>

definition fresh_anchor :: "(bytes \<Rightarrow> hash) \<Rightarrow> hash \<Rightarrow> nat \<Rightarrow> nat \<Rightarrow> pow_anchor" where
  "fresh_anchor blake3 prev_hash height timestamp =
     (let seed = hash_concat blake3 [hash_bytes prev_hash, le_bytes 8 height, le_bytes 8 timestamp];
          sequential = compute_sequential_padding blake3 seed SEQ_PAD_ITERATIONS
      in \<lparr> sequential_hash = sequential, mixed_hash = blake3_mix blake3 sequential prev_hash,
           an_algorithm = 0, an_height = height, an_timestamp = timestamp \<rparr>)"

subsection \<open>The anchor cache\<close>

type_synonym anchor_key = "hash \<times> nat \<times> nat"

record seq_pad_cache =
  anchors :: "(anchor_key, pow_anchor) hash_map"
  insertion_order :: "anchor_key list"

definition SEQ_PAD_CACHE_MAX :: nat where "SEQ_PAD_CACHE_MAX = 10000"

definition seq_pad_new :: seq_pad_cache where
  "seq_pad_new = \<lparr> anchors = [], insertion_order = [] \<rparr>"

definition seq_pad_insert :: "anchor_key \<Rightarrow> pow_anchor \<Rightarrow> seq_pad_cache \<Rightarrow> seq_pad_cache" where
  "seq_pad_insert k a c =
     (if map_of (anchors c) k \<noteq> None then c
      else
        let c = (if SEQ_PAD_CACHE_MAX \<le> length (anchors c)
                 then case insertion_order c of
                        oldest # rest \<Rightarrow> c \<lparr> insertion_order := rest, anchors := hm_remove oldest (anchors c) \<rparr>
                      | [] \<Rightarrow> c
                 else c)
        in c \<lparr> insertion_order := insertion_order c @ [k], anchors := hm_insert k a (anchors c) \<rparr>)"

definition compute_full_anchor ::
    "(bytes \<Rightarrow> hash) \<Rightarrow> hash \<Rightarrow> nat \<Rightarrow> nat \<Rightarrow> seq_pad_cache \<Rightarrow> pow_anchor \<times> seq_pad_cache" where
  "compute_full_anchor blake3 prev_hash height timestamp c =
     (case map_of (anchors c) (prev_hash, height, timestamp) of
        Some a \<Rightarrow> (a, c)
      | None \<Rightarrow>
          let a = fresh_anchor blake3 prev_hash height timestamp
          in (a, seq_pad_insert (prev_hash, height, timestamp) a c))"

subsection \<open>RandomX\<close>

definition RANDOMX_KEY_EPOCH :: nat where "RANDOMX_KEY_EPOCH = 2048"

definition randomx_key_for_height :: "(bytes \<Rightarrow> hash) \<Rightarrow> bytes \<Rightarrow> nat \<Rightarrow> bytes" where
  "randomx_key_for_height blake3 genesis height =
     hash_bytes (hash_domain blake3 (ascii_bytes ''CYNC1_RANDOMX_KEY_EPOCH'')
       (le_bytes 8 (height div RANDOMX_KEY_EPOCH) @ genesis))"

definition compute_pow_hash ::
    "(bytes \<Rightarrow> hash) \<Rightarrow> bytes \<Rightarrow> (bytes \<Rightarrow> bytes \<Rightarrow> hash option) \<Rightarrow> hash \<Rightarrow> nat \<Rightarrow> hash \<Rightarrow> nat \<Rightarrow> hash option" where
  "compute_pow_hash blake3 genesis randomx anchor nonce tx_root height =
     randomx (randomx_key_for_height blake3 genesis height)
       (hash_bytes (hash_concat blake3 [hash_bytes anchor, le_bytes 8 nonce, hash_bytes tx_root]))"

datatype pow_error = AnchorMismatch hash hash | AlgorithmMismatch u8 u8 | RandomxFailed | TargetNotMet hash hash

definition verify_pow ::
    "(bytes \<Rightarrow> hash) \<Rightarrow> bytes \<Rightarrow> (bytes \<Rightarrow> bytes \<Rightarrow> hash option) \<Rightarrow> hash \<Rightarrow> block_header \<Rightarrow> seq_pad_cache
     \<Rightarrow> pow_error check \<times> seq_pad_cache" where
  "verify_pow blake3 genesis randomx prev_hash b c =
     (let (anchor, c) = compute_full_anchor blake3 prev_hash (bh_height b) (bh_timestamp b) c
      in if mixed_hash anchor \<noteq> bh_anchor b then (Inl (AnchorMismatch (mixed_hash anchor) (bh_anchor b)), c)
         else if an_algorithm anchor \<noteq> bh_algorithm b
           then (Inl (AlgorithmMismatch (an_algorithm anchor) (bh_algorithm b)), c)
         else case compute_pow_hash blake3 genesis randomx (mixed_hash anchor) (bh_nonce b) (bh_tx_root b) (bh_height b) of
           None \<Rightarrow> (Inl RandomxFailed, c)
         | Some pow_hash \<Rightarrow>
             if meets_difficulty pow_hash (bh_target b) then (ok, c)
             else (Inl (TargetNotMet pow_hash (bh_target b)), c))"

subsection \<open>The header hash commits to the header\<close>

definition wf_header :: "block_header \<Rightarrow> bool" where
  "wf_header b = (length (network_magic b) = 4 \<and> bh_height b \<le> u64_max \<and> bh_timestamp b \<le> u64_max
     \<and> bh_nonce b \<le> u64_max \<and> wf_hash (bh_prev_hash b) \<and> wf_hash (bh_tx_root b) \<and> wf_hash (bh_anchor b)
     \<and> wf_hash (bh_target b) \<and> length (miner_pubkey_of b) = 32 \<and> length (supply_commitment b) = 32
     \<and> (case checkpoint_vote b of Some (h, x) \<Rightarrow> h \<le> u64_max \<and> wf_hash x | None \<Rightarrow> True)
     \<and> length (spark_set_root b) = 32 \<and> length (mw_kernel_root b) = 32)"

lemma le_bytes_inj:
  assumes "le_bytes 8 a = le_bytes 8 b" and "a \<le> u64_max" and "b \<le> u64_max"
  shows "a = b"
proof -
  have "a mod 256 ^ 8 = b mod 256 ^ 8" using assms(1) by (metis from_le_bytes_le_bytes)
  with assms(2,3) show ?thesis by (simp add: u64_max_def)
qed

lemma vote_bytes_delimits:
  assumes "vote_bytes v @ r = vote_bytes w @ s"
    and "case v of Some (h, x) \<Rightarrow> h \<le> u64_max \<and> wf_hash x | None \<Rightarrow> True"
    and "case w of Some (h, x) \<Rightarrow> h \<le> u64_max \<and> wf_hash x | None \<Rightarrow> True"
  shows "v = w \<and> r = s"
proof (cases v; cases w)
  fix p q assume vw: "v = Some p" "w = Some q"
  obtain h x h' x' where pq: "p = (h, x)" "q = (h', x')" by (cases p; cases q) auto
  have "le_bytes 8 h = le_bytes 8 h'" "hash_bytes x = hash_bytes x'" "r = s"
    using assms vw pq by (auto simp: vote_bytes_def wf_hash_def)
  moreover have "h \<le> u64_max" "h' \<le> u64_max" using assms vw pq by simp_all
  ultimately have "h = h'" "x = x'" "r = s" using le_bytes_inj hash.expand by blast+
  with vw pq show ?thesis by simp
qed (use assms in \<open>auto simp: vote_bytes_def\<close>)

lemma header_preimage_inj:
  assumes "wf_header a" and "wf_header b"
  shows "header_preimage a = header_preimage b \<longleftrightarrow> a = b"
proof
  assume eq: "header_preimage a = header_preimage b"
  let ?tail = "\<lambda>b. vote_bytes (checkpoint_vote b) @ spark_set_root b @ mw_kernel_root b"
  have f: "network_magic a = network_magic b" "bh_version a = bh_version b"
    "le_bytes 8 (bh_height a) = le_bytes 8 (bh_height b)" "le_bytes 8 (bh_timestamp a) = le_bytes 8 (bh_timestamp b)"
    "hash_bytes (bh_prev_hash a) = hash_bytes (bh_prev_hash b)" "hash_bytes (bh_tx_root a) = hash_bytes (bh_tx_root b)"
    "hash_bytes (bh_anchor a) = hash_bytes (bh_anchor b)" "bh_algorithm a = bh_algorithm b"
    "le_bytes 8 (bh_nonce a) = le_bytes 8 (bh_nonce b)" "hash_bytes (bh_target a) = hash_bytes (bh_target b)"
    "miner_pubkey_of a = miner_pubkey_of b" "supply_commitment a = supply_commitment b" and t: "?tail a = ?tail b"
    using eq assms by (simp_all add: header_preimage_def wf_header_def wf_hash_def)
  from vote_bytes_delimits [OF t] assms
  have "checkpoint_vote a = checkpoint_vote b" "spark_set_root a = spark_set_root b" "mw_kernel_root a = mw_kernel_root b"
    by (auto simp: wf_header_def)
  moreover have "bh_height a = bh_height b" "bh_timestamp a = bh_timestamp b" "bh_nonce a = bh_nonce b"
    using f assms le_bytes_inj by (simp_all add: wf_header_def)
  ultimately show "a = b" using f by (simp add: hash.expand)
qed simp

text \<open>The header hash commits to the whole header. Two well-formed headers with the same preimage are
  equal, whether or not they carry a checkpoint vote; so, barring a BLAKE3 collision, no field can
  change without changing the block's identity.\<close>

theorem header_hash_binding:
  assumes "wf_header a" and "wf_header b"
  shows "header_preimage a = header_preimage b \<longleftrightarrow> a = b"
  using assms by (rule header_preimage_inj)

definition sample_header :: block_header where
  "sample_header = \<lparr> network_magic = [0x43, 0x59, 0x4E, 0x43], bh_version = 1, bh_height = 1, bh_timestamp = 100,
     bh_prev_hash = hash_zero, bh_tx_root = hash_zero, bh_anchor = hash_zero, bh_algorithm = 0, bh_nonce = 7,
     bh_target = Hash (replicate 32 255), miner_pubkey_of = replicate 32 1, supply_commitment = replicate 32 0,
     checkpoint_vote = None, spark_set_root = replicate 32 0, mw_kernel_root = replicate 32 0 \<rparr>"

lemma wf_sample_header: "wf_header (sample_header \<lparr> miner_pubkey_of := replicate 32 k \<rparr>)"
  by (simp add: wf_header_def sample_header_def wf_hash_def hash_zero_def u64_max_def)

theorem header_hash_binding_witness:
  "header_preimage (sample_header \<lparr> miner_pubkey_of := replicate 32 1 \<rparr>)
     \<noteq> header_preimage (sample_header \<lparr> miner_pubkey_of := replicate 32 2 \<rparr>)"
proof -
  have "sample_header \<lparr> miner_pubkey_of := replicate 32 1 \<rparr> \<noteq> sample_header \<lparr> miner_pubkey_of := replicate 32 2 \<rparr>"
    by (simp add: sample_header_def)
  with header_hash_binding [OF wf_sample_header wf_sample_header] show ?thesis by blast
qed

subsection \<open>The anchor cache is transparent and bounded\<close>

definition seq_pad_inv :: "(bytes \<Rightarrow> hash) \<Rightarrow> seq_pad_cache \<Rightarrow> bool" where
  "seq_pad_inv blake3 c =
     (hm_invar (anchors c) \<and> distinct (insertion_order c)
      \<and> set (insertion_order c) = fst ` set (anchors c)
      \<and> length (anchors c) \<le> SEQ_PAD_CACHE_MAX
      \<and> (\<forall>p h t a. map_of (anchors c) (p, h, t) = Some a \<longrightarrow> a = fresh_anchor blake3 p h t))"

lemma fst_hm_remove: "fst ` set (hm_remove k m) = fst ` set m - {k}"
  by (auto simp: hm_remove_def)

lemma fst_hm_insert: "fst ` set (hm_insert k v m) = insert k (fst ` set m)"
  by (auto simp: hm_insert_def)

lemma length_hm_insert_absent: "map_of m k = None \<Longrightarrow> length (hm_insert k v m) = Suc (length m)"
  using hm_remove_absent [of m k] by (simp add: hm_insert_def hm_remove_def)

lemma seq_pad_push:
  assumes "seq_pad_inv blake3 c" and "length (anchors c) < SEQ_PAD_CACHE_MAX"
    and "map_of (anchors c) (p, h, t) = None"
  shows "seq_pad_inv blake3 (c \<lparr> insertion_order := insertion_order c @ [(p, h, t)],
    anchors := hm_insert (p, h, t) (fresh_anchor blake3 p h t) (anchors c) \<rparr>)"
  using assms length_hm_insert_absent [OF assms(3)]
  by (auto simp: seq_pad_inv_def hmap.invar_insert fst_hm_insert map_of_eq_None_iff)

lemma seq_pad_pop:
  assumes "seq_pad_inv blake3 c" and "insertion_order c = k # rest"
  shows "seq_pad_inv blake3 (c \<lparr> insertion_order := rest, anchors := hm_remove k (anchors c) \<rparr>)
    \<and> Suc (length (hm_remove k (anchors c))) = length (anchors c)"
proof
  have "k \<in> fst ` set (anchors c)" using assms by (auto simp: seq_pad_inv_def)
  then obtain a where "map_of (anchors c) k = Some a" by (metis domD dom_map_of_conv_image_fst)
  with assms(1) show len: "Suc (length (hm_remove k (anchors c))) = length (anchors c)"
    by (simp add: seq_pad_inv_def length_hm_remove)
  have "hm_invar (hm_remove k (anchors c))"
    using assms(1) by (auto simp: seq_pad_inv_def hm_invar_def hm_remove_def distinct_fst_filter)
  moreover have "set rest = fst ` set (anchors c) - {k}" "distinct rest"
    using assms by (auto simp: seq_pad_inv_def)
  ultimately show "seq_pad_inv blake3 (c \<lparr> insertion_order := rest, anchors := hm_remove k (anchors c) \<rparr>)"
    using assms(1) len by (simp add: seq_pad_inv_def fst_hm_remove)
qed

lemma seq_pad_insert_inv:
  assumes "seq_pad_inv blake3 c"
  shows "seq_pad_inv blake3 (seq_pad_insert (p, h, t) (fresh_anchor blake3 p h t) c)"
proof (cases "map_of (anchors c) (p, h, t)")
  case (Some a)
  with assms show ?thesis by (simp add: seq_pad_insert_def)
next
  case None
  show ?thesis
  proof (cases "SEQ_PAD_CACHE_MAX \<le> length (anchors c)")
    case False
    with None seq_pad_push [OF assms] show ?thesis by (simp add: seq_pad_insert_def)
  next
    case True
    then have "set (insertion_order c) \<noteq> {}"
      using assms by (auto simp: seq_pad_inv_def SEQ_PAD_CACHE_MAX_def)
    then obtain k rest where o: "insertion_order c = k # rest" by (cases "insertion_order c") auto
    let ?c = "c \<lparr> insertion_order := rest, anchors := hm_remove k (anchors c) \<rparr>"
    from seq_pad_pop [OF assms o] have inv: "seq_pad_inv blake3 ?c"
      and len: "length (anchors ?c) < SEQ_PAD_CACHE_MAX" using assms by (auto simp: seq_pad_inv_def)
    have "map_of (anchors ?c) (p, h, t) = None" using None by simp
    from seq_pad_push [OF inv len this] show ?thesis using None True o by (simp add: seq_pad_insert_def)
  qed
qed

fun query_anchors :: "(bytes \<Rightarrow> hash) \<Rightarrow> anchor_key list \<Rightarrow> seq_pad_cache \<Rightarrow> pow_anchor list \<times> seq_pad_cache" where
  "query_anchors blake3 [] c = ([], c)"
| "query_anchors blake3 ((p, h, t) # qs) c =
     (let (a, c) = compute_full_anchor blake3 p h t c; (as, c) = query_anchors blake3 qs c in (a # as, c))"

lemma compute_full_anchor_inv:
  assumes "seq_pad_inv blake3 c"
  shows "fst (compute_full_anchor blake3 p h t c) = fresh_anchor blake3 p h t
    \<and> seq_pad_inv blake3 (snd (compute_full_anchor blake3 p h t c))"
proof (cases "map_of (anchors c) (p, h, t)")
  case None
  then show ?thesis using seq_pad_insert_inv [OF assms] by (simp add: compute_full_anchor_def Let_def)
next
  case (Some a)
  with assms show ?thesis by (simp add: compute_full_anchor_def seq_pad_inv_def)
qed

lemma query_anchors_inv:
  assumes "seq_pad_inv blake3 c"
  shows "fst (query_anchors blake3 qs c) = map (\<lambda>(p, h, t). fresh_anchor blake3 p h t) qs
    \<and> seq_pad_inv blake3 (snd (query_anchors blake3 qs c))"
  using assms
proof (induction qs arbitrary: c)
  case (Cons q qs)
  obtain p h t where q: "q = (p, h, t)" by (cases q) auto
  from compute_full_anchor_inv [OF Cons.prems, of p h t] Cons.IH q show ?case
    by (simp add: Let_def case_prod_beta)
qed simp

text \<open>The anchor cache cannot be observed. Over any sequence of queries from an empty cache the anchor
  returned is the one a direct computation gives, the cache never holds more than
  \<open>SEQ_PAD_CACHE_MAX\<close> entries, and its queue lists exactly the cached keys.\<close>

theorem anchor_cache_transparent:
  "fst (query_anchors blake3 qs seq_pad_new) = map (\<lambda>(p, h, t). fresh_anchor blake3 p h t) qs
   \<and> length (anchors (snd (query_anchors blake3 qs seq_pad_new))) \<le> SEQ_PAD_CACHE_MAX
   \<and> set (insertion_order (snd (query_anchors blake3 qs seq_pad_new)))
       = fst ` set (anchors (snd (query_anchors blake3 qs seq_pad_new)))"
proof -
  have "seq_pad_inv blake3 seq_pad_new" by (simp add: seq_pad_inv_def seq_pad_new_def hm_invar_def)
  from query_anchors_inv [OF this] show ?thesis by (simp add: seq_pad_inv_def)
qed

subsection \<open>What the proof of work covers\<close>

lemma verify_pow_fst:
  assumes "seq_pad_inv blake3 c"
  shows "fst (verify_pow blake3 genesis randomx prev b c) = ok \<longleftrightarrow>
    bh_anchor b = mixed_hash (fresh_anchor blake3 prev (bh_height b) (bh_timestamp b)) \<and> bh_algorithm b = 0
    \<and> (\<exists>x. compute_pow_hash blake3 genesis randomx (bh_anchor b) (bh_nonce b) (bh_tx_root b) (bh_height b) = Some x
           \<and> meets_difficulty x (bh_target b))"
proof -
  obtain a c' where ac: "compute_full_anchor blake3 prev (bh_height b) (bh_timestamp b) c = (a, c')"
    by (cases "compute_full_anchor blake3 prev (bh_height b) (bh_timestamp b) c")
  then have a: "a = fresh_anchor blake3 prev (bh_height b) (bh_timestamp b)"
    using compute_full_anchor_inv [OF assms, of prev "bh_height b" "bh_timestamp b"] by simp
  have alg: "an_algorithm a = 0" by (simp add: a fresh_anchor_def Let_def)
  show ?thesis
    using ac alg a by (auto simp: verify_pow_def split: option.splits)
qed

text \<open>Proof of work does not commit to the whole header. Verification only reads the height, timestamp,
  transaction root, anchor, algorithm, nonce, target and parent. Changing the miner key, the supply
  commitment, the checkpoint vote, the version, the magic or the two phase-2 roots of a mined
  block keeps its proof of work valid, while the block's hash preimage changes.\<close>

theorem pow_malleable:
  assumes "seq_pad_inv blake3 c"
    and "bh_height a = bh_height b" and "bh_timestamp a = bh_timestamp b" and "bh_tx_root a = bh_tx_root b"
    and "bh_anchor a = bh_anchor b" and "bh_algorithm a = bh_algorithm b" and "bh_nonce a = bh_nonce b"
    and "bh_target a = bh_target b" and "wf_header a" and "wf_header b" and "a \<noteq> b"
  shows "(fst (verify_pow blake3 genesis randomx prev a c) = ok
            \<longleftrightarrow> fst (verify_pow blake3 genesis randomx prev b c) = ok)
       \<and> header_preimage a \<noteq> header_preimage b"
  using assms verify_pow_fst [OF assms(1)] header_preimage_inj by simp

theorem pow_malleable_witness:
  "fst (verify_pow (\<lambda>_. hash_zero) [] (\<lambda>_ _. Some hash_zero) hash_zero
       (sample_header \<lparr> miner_pubkey_of := replicate 32 2 \<rparr>) seq_pad_new) = ok
   \<and> header_preimage (sample_header \<lparr> miner_pubkey_of := replicate 32 1 \<rparr>)
       \<noteq> header_preimage (sample_header \<lparr> miner_pubkey_of := replicate 32 2 \<rparr>)"
proof -
  let ?a = "sample_header \<lparr> miner_pubkey_of := replicate 32 1 \<rparr>"
  let ?b = "sample_header \<lparr> miner_pubkey_of := replicate 32 2 \<rparr>"
  have inv: "seq_pad_inv (\<lambda>_. hash_zero) seq_pad_new" by (simp add: seq_pad_inv_def seq_pad_new_def hm_invar_def)
  have "meets_difficulty hash_zero (Hash (replicate 32 255))" by code_simp
  then have "fst (verify_pow (\<lambda>_. hash_zero) [] (\<lambda>_ _. Some hash_zero) hash_zero ?a seq_pad_new) = ok"
    by (simp add: verify_pow_def compute_full_anchor_def seq_pad_new_def fresh_anchor_def blake3_mix_def
        hash_domain_def sample_header_def compute_pow_hash_def Let_def)
  moreover have "?a \<noteq> ?b" by (simp add: sample_header_def)
  ultimately show ?thesis
    using pow_malleable [OF inv, of ?a ?b "[]" "\<lambda>_ _. Some hash_zero" hash_zero] wf_sample_header
    by (simp add: sample_header_def)
qed

end
