(* ===== verification/Block_Validation.thy ===== *)
theory Block_Validation
  imports Tx_Validation Proof_Of_Work
begin

section \<open>Block validation (consensus/block.rs, consensus/validation.rs)\<close>

text \<open>
  \<open>validate_block_with_checkpoint_for_network\<close> with its sub-checks. The source collects error texts in
  a \<open>BlockValidation\<close> and returns early from five places; the model threads the same record through
  the same steps, keeping of each text the part without numbers. The record \<open>node_env\<close> holds what
  the build and the host contribute: the cargo features \<open>testnet\<close> and \<open>insecure-fast-sync\<close>, the wall
  clock (\<open>None\<close> when it cannot be read), the monotonic clock of the cache, the order in which the
  threads reach a transaction's inputs, the external functions and the genesis bytes RandomX is
  bound to. The transactions of a block are verified in parallel in the source; here they reach the
  shared cache in block order.
\<close>

record block =
  header :: block_header
  transactions :: "transaction list"

record 'p node_env =
  ne_crypto :: "'p crypto"
  ne_testnet :: bool
  ne_insecure_fast_sync :: bool
  ne_clock :: "nat option"
  ne_now :: nat
  ne_order :: "transaction \<Rightarrow> nat list"
  ne_randomx :: "bytes \<Rightarrow> bytes \<Rightarrow> hash option"
  ne_genesis :: bytes

subsection \<open>Blocks (block.rs)\<close>

definition block_height :: "block \<Rightarrow> nat" where
  "block_height b = bh_height (header b)"

definition block_hash_of :: "'p node_env \<Rightarrow> block \<Rightarrow> hash" where
  "block_hash_of env b = header_hash (cr_blake3 (ne_crypto env)) (header b)"

definition coinbase :: "block \<Rightarrow> transaction option" where
  "coinbase b = (case transactions b of [] \<Rightarrow> None | t # _ \<Rightarrow> Some t)"

definition non_coinbase_transactions :: "block \<Rightarrow> transaction list" where
  "non_coinbase_transactions b = drop 1 (transactions b)"

definition block_total_fees :: "block \<Rightarrow> amount" where
  "block_total_fees b = foldl amount_saturating_add amount_ZERO (map tx_fee (non_coinbase_transactions b))"

definition all_key_images :: "block \<Rightarrow> key_image list" where
  "all_key_images b = concat (map key_images (non_coinbase_transactions b))"

definition txid :: "'p node_env \<Rightarrow> transaction \<Rightarrow> hash" where
  "txid env = tx_hash (cr_blake3 (ne_crypto env)) (cr_borsh_tx (ne_crypto env))"

definition verify_merkle_root :: "'p node_env \<Rightarrow> block \<Rightarrow> bool" where
  "verify_merkle_root env b =
     (if transactions b = [] then bh_tx_root (header b) = hash_zero
      else merkle_root (cr_blake3 (ne_crypto env)) (map (txid env) (transactions b)) = bh_tx_root (header b))"

definition block_size :: "'p node_env \<Rightarrow> block \<Rightarrow> nat" where
  "block_size env b =
     saturating_add u64_max 200
       (foldl (saturating_add u64_max) 0 (map (tx_size (cr_borsh_tx (ne_crypto env))) (transactions b)))"

subsection \<open>Collecting errors\<close>

record block_validation =
  bv_valid :: bool
  bv_errors :: "string list"
  bv_warnings :: "string list"

definition bv_ok :: block_validation where
  "bv_ok = \<lparr> bv_valid = True, bv_errors = [], bv_warnings = [] \<rparr>"

definition add_error :: "string \<Rightarrow> block_validation \<Rightarrow> block_validation" where
  "add_error msg r = r \<lparr> bv_errors := bv_errors r @ [msg], bv_valid := False \<rparr>"

definition add_warning :: "string \<Rightarrow> block_validation \<Rightarrow> block_validation" where
  "add_warning msg r = r \<lparr> bv_warnings := bv_warnings r @ [msg] \<rparr>"

definition error_if :: "bool \<Rightarrow> string \<Rightarrow> block_validation \<Rightarrow> block_validation" where
  "error_if bad msg r = (if bad then add_error msg r else r)"

definition add_errors :: "string list \<Rightarrow> block_validation \<Rightarrow> block_validation" where
  "add_errors msgs r = fold add_error msgs r"

subsection \<open>Header checks\<close>

definition MAX_TIMESTAMP_DRIFT :: nat where "MAX_TIMESTAMP_DRIFT = 600"
definition MAX_TXS_PER_BLOCK :: nat where "MAX_TXS_PER_BLOCK = 5000"

definition block_version_at_height :: "nat \<Rightarrow> nat" where
  "block_version_at_height height = (if V2_TX_ACTIVATION_HEIGHT \<le> height then 2 else 1)"

fun magic_bytes :: "network_type \<Rightarrow> bytes" where
  "magic_bytes Mainnet = [0x43, 0x59, 0x4E, 0x43]"
| "magic_bytes Testnet = [0x74, 0x43, 0x59, 0x4E]"
| "magic_bytes Regtest = [0x72, 0x43, 0x59, 0x4E]"

definition check_block_network_magic :: "network_type \<Rightarrow> block \<Rightarrow> block_validation \<Rightarrow> bool \<times> block_validation" where
  "check_block_network_magic network b r =
     (if network_magic (header b) = [0, 0, 0, 0] \<and> block_height b = 0 then (True, r)
      else if network_magic (header b) \<noteq> magic_bytes network then (False, add_error ''Wrong network magic'' r)
      else (True, r))"

text \<open>Both checkpoint tables of the source are empty; the lookup is a binary search by height.\<close>

definition CONSENSUS_CHECKPOINTS :: "(nat \<times> hash) list" where
  "CONSENSUS_CHECKPOINTS = []"

definition expected_checkpoint_hash :: "nat \<Rightarrow> hash option" where
  "expected_checkpoint_hash height = map_of CONSENSUS_CHECKPOINTS height"

definition check_block_consensus_checkpoint :: "'p node_env \<Rightarrow> block \<Rightarrow> block_validation \<Rightarrow> bool \<times> block_validation" where
  "check_block_consensus_checkpoint env b r =
     (case expected_checkpoint_hash (block_height b) of
        Some expected_hash \<Rightarrow>
          if block_hash_of env b \<noteq> expected_hash then (False, add_error ''consensus checkpoint mismatch'' r) else (True, r)
      | None \<Rightarrow> (True, r))"

definition check_header_version_min :: "block_header \<Rightarrow> block_validation \<Rightarrow> block_validation" where
  "check_header_version_min h =
     error_if (unat (bh_version h) < block_version_at_height (bh_height h)) ''Block version below minimum''"

definition check_header_vs_prev ::
    "(block_header \<Rightarrow> hash) \<Rightarrow> block_header \<Rightarrow> block_header option \<Rightarrow> block_validation \<Rightarrow> block_validation" where
  "check_header_vs_prev hash_of h prev_header r =
     (case prev_header of
        None \<Rightarrow> error_if (bh_height h \<noteq> 0) ''Non-genesis block without parent'' r
      | Some prev \<Rightarrow>
          error_if (bh_timestamp h \<le> bh_timestamp prev) ''Timestamp not greater than previous block''
            (error_if (bh_prev_hash h \<noteq> hash_of prev) ''Previous hash mismatch''
              (error_if (bh_height h \<noteq> wrapping_add u64_max (bh_height prev) 1) ''Invalid height''
                (error_if (bh_version h < bh_version prev) ''Block version cannot decrease'' r))))"

definition check_header_checkpoint_vote :: "block_header \<Rightarrow> block_validation \<Rightarrow> block_validation" where
  "check_header_checkpoint_vote h =
     error_if (case checkpoint_vote h of Some (cp_height, _) \<Rightarrow> bh_height h \<le> cp_height | None \<Rightarrow> False)
       ''checkpoint_vote references future height''"

definition check_header_future_timestamp :: "nat option \<Rightarrow> block_header \<Rightarrow> block_validation \<Rightarrow> block_validation" where
  "check_header_future_timestamp clock h r =
     (case clock of
        None \<Rightarrow> add_error ''System clock error'' r
      | Some current_time \<Rightarrow>
          let r = (if current_time < 1577836800
                   then add_warning ''System clock appears to be set incorrectly'' r else r)
          in error_if (0 < bh_height h \<and> wrapping_add u64_max current_time MAX_TIMESTAMP_DRIFT < bh_timestamp h)
               ''Block timestamp too far in future'' r)"

definition validate_header :: "'p node_env \<Rightarrow> block_header \<Rightarrow> block_header option \<Rightarrow> block_validation \<Rightarrow> block_validation" where
  "validate_header env h prev_header r =
     check_header_future_timestamp (ne_clock env) h
       (check_header_checkpoint_vote h
         (check_header_vs_prev (header_hash (cr_blake3 (ne_crypto env))) h prev_header
           (check_header_version_min h r)))"

subsection \<open>The sanity gate on the target\<close>

definition target_prefix_u128 :: "hash \<Rightarrow> nat" where
  "target_prefix_u128 target = from_be_bytes (take 16 (hash_bytes target))"

definition ratio_scaled :: "nat \<Rightarrow> nat \<Rightarrow> nat" where
  "ratio_scaled target_value prev_value =
     (if u128_max div 1000 < target_value
      then (target_value div 1024) * 1000 div max (prev_value div 1024) 1
      else target_value * 1000 div prev_value)"

definition validate_difficulty_target :: "block \<Rightarrow> block option \<Rightarrow> block_validation \<Rightarrow> block_validation" where
  "validate_difficulty_target b prev_block r =
     (let target = bh_target (header b)
      in if target_prefix_u128 max_target < target_prefix_u128 target
           then add_error ''Target easier than max_target (minimum difficulty)'' r
         else if list_all (\<lambda>x. x = 0) (hash_bytes target) then add_error ''Target is zero (impossible difficulty)'' r
         else case prev_block of
           None \<Rightarrow> r
         | Some prev \<Rightarrow>
             let target_value = target_prefix_u128 target;
                 prev_value = target_prefix_u128 (bh_target (header prev))
             in if 0 < prev_value \<and> 0 < target_value
                then
                  let time_diff = bh_timestamp (header b) - bh_timestamp (header prev);
                      (min_ratio, max_ratio) = (if TARGET_BLOCK_TIME * 5 \<le> time_diff then (4, 256000) else (31, 32000));
                      ratio = ratio_scaled target_value prev_value
                  in error_if (ratio < min_ratio \<or> max_ratio < ratio) ''Difficulty adjustment out of bounds'' r
                else r)"

subsection \<open>Structure checks\<close>

definition check_block_size :: "nat \<Rightarrow> block_validation \<Rightarrow> block_validation" where
  "check_block_size sz = error_if (MAX_BLOCK_SIZE < sz) ''Block too large''"

definition RING_SIG_WEIGHT :: nat where "RING_SIG_WEIGHT = 256"
definition MAX_BLOCK_WEIGHT :: nat where "MAX_BLOCK_WEIGHT = MAX_BLOCK_SIZE * 4"

definition block_weight :: "'p node_env \<Rightarrow> block \<Rightarrow> nat" where
  "block_weight env b =
     as_u64 (\<Sum>tx \<leftarrow> transactions b.
       tx_size (cr_borsh_tx (ne_crypto env)) tx
       + (\<Sum>inp \<leftarrow> tx_inputs tx. length (ring_members inp)) * RING_SIG_WEIGHT)"

definition check_block_weight :: "'p node_env \<Rightarrow> block \<Rightarrow> block_validation \<Rightarrow> block_validation" where
  "check_block_weight env b = error_if (MAX_BLOCK_WEIGHT < block_weight env b) ''Block weight too high''"

definition check_block_tx_count :: "block \<Rightarrow> block_validation \<Rightarrow> block_validation" where
  "check_block_tx_count b = error_if (MAX_TXS_PER_BLOCK < length (transactions b)) ''Too many transactions''"

definition check_block_has_coinbase :: "block \<Rightarrow> block_validation \<Rightarrow> bool \<times> block_validation" where
  "check_block_has_coinbase b r =
     (if transactions b = [] then (False, add_error ''Missing coinbase transaction'' r) else (True, r))"

definition check_block_first_tx_is_coinbase :: "block \<Rightarrow> block_validation \<Rightarrow> block_validation" where
  "check_block_first_tx_is_coinbase b r =
     (case transactions b of
        first_tx # _ \<Rightarrow> error_if (\<not> is_coinbase first_tx) ''First transaction must be coinbase'' r
      | [] \<Rightarrow> add_error ''Block has no transactions'' r)"

definition check_block_merkle_root :: "'p node_env \<Rightarrow> block \<Rightarrow> hash list \<Rightarrow> block_validation \<Rightarrow> block_validation" where
  "check_block_merkle_root env b tx_hashes =
     error_if (merkle_root (cr_blake3 (ne_crypto env)) tx_hashes \<noteq> bh_tx_root (header b)) ''Invalid merkle root''"

definition check_block_privacy_policy ::
    "'p::ab_group_add node_env \<Rightarrow> block \<Rightarrow> block_validation \<Rightarrow> block_validation" where
  "check_block_privacy_policy env b =
     error_if (enforce_privacy_policy (ne_crypto env) (transactions b) \<noteq> ok) ''Privacy policy violation''"

definition check_block_tail_supply :: "amount \<Rightarrow> block_validation \<Rightarrow> block_validation" where
  "check_block_tail_supply expected_reward r =
     error_if (as_atomic (calculate_block_reward 0) < as_atomic expected_reward) ''Emission reward exceeds the height-0 maximum''
       (error_if (as_atomic expected_reward < TAIL_EMISSION) ''Emission reward below tail floor'' r)"

fun report_duplicates :: "string \<Rightarrow> 'a set \<Rightarrow> 'a list \<Rightarrow> block_validation \<Rightarrow> block_validation" where
  "report_duplicates msg seen [] r = r"
| "report_duplicates msg seen (x # xs) r =
     (if x \<in> seen then report_duplicates msg seen xs (add_error msg r)
      else report_duplicates msg (insert x seen) xs r)"

definition check_block_duplicate_tx_hashes :: "hash list \<Rightarrow> block_validation \<Rightarrow> block_validation" where
  "check_block_duplicate_tx_hashes tx_hashes = report_duplicates ''Duplicate transaction hash in block'' {} tx_hashes"

definition check_block_duplicate_key_images :: "block \<Rightarrow> block_validation \<Rightarrow> block_validation" where
  "check_block_duplicate_key_images b =
     report_duplicates ''Duplicate key image in block'' {} (concat (map key_images (transactions b)))"

definition check_block_duplicate_stealth :: "block \<Rightarrow> block_validation \<Rightarrow> block_validation" where
  "check_block_duplicate_stealth b =
     report_duplicates ''Cross-tx duplicate stealth address in block'' {}
       (map stealth_address (concat (map tx_outputs (transactions b))))"

subsection \<open>The coinbase\<close>

definition FEE_DISTRIBUTION_HEIGHT :: "bool \<Rightarrow> nat" where
  "FEE_DISTRIBUTION_HEIGHT testnet = (if testnet then 525 else 0)"

definition block_congestion_pct :: "nat \<Rightarrow> nat" where
  "block_congestion_pct sz = as_u64 (sz * 100 div MAX_BLOCK_SIZE)"

definition max_coinbase_of :: "'p node_env \<Rightarrow> block \<Rightarrow> nat \<Rightarrow> amount \<Rightarrow> amount \<Rightarrow> prim_error + amount" where
  "max_coinbase_of env b sz expected_reward total_fees =
     (if FEE_DISTRIBUTION_HEIGHT (ne_testnet env) \<le> block_height b \<and> 0 < as_atomic total_fees
      then amount_checked_add expected_reward
             (to_miner (distribute_fee total_fees (CONGESTION_THRESHOLD \<le> block_congestion_pct sz)))
      else amount_checked_add expected_reward total_fees)"

definition declared_amount :: "tx_output \<Rightarrow> nat" where
  "declared_amount out = from_le_bytes (take 8 (encrypted_amount out))"

fun coinbase_outputs_loop ::
    "'p::ab_group_add crypto \<Rightarrow> bool \<Rightarrow> tx_output list \<Rightarrow> nat \<times> bool \<times> block_validation \<Rightarrow> nat \<times> bool \<times> block_validation" where
  "coinbase_outputs_loop cr active [] st = st"
| "coinbase_outputs_loop cr active (out # outs) (total_declared, all_valid, r) =
     (if \<not> (if active then length (encrypted_amount out) = 8 else 8 \<le> length (encrypted_amount out))
      then coinbase_outputs_loop cr active outs
             (total_declared, False, add_error ''Coinbase output has invalid amount encoding'' r)
      else
        let declared = declared_amount out;
            (all_valid, r) =
              (if commitment out \<noteq> cr_commit_zero cr declared
               then (False, add_error ''Coinbase output commitment mismatch'' r) else (all_valid, r));
            (all_valid, r) =
              (case cr_decompress cr (commitment out) of
                 Some point \<Rightarrow>
                   if point = 0 then (False, add_error ''Coinbase output has zero commitment (identity point)'' r)
                   else (all_valid, r)
               | None \<Rightarrow> (False, add_error ''Coinbase output has invalid commitment (not on curve)'' r))
        in case checked_add u64_max total_declared declared of
             Some next_total \<Rightarrow> coinbase_outputs_loop cr active outs (next_total, all_valid, r)
           | None \<Rightarrow> (total_declared, False, add_error ''Coinbase output sum overflow'' r))"

definition check_coinbase_amounts ::
    "'p::ab_group_add crypto \<Rightarrow> bool \<Rightarrow> transaction \<Rightarrow> amount \<Rightarrow> block_validation \<Rightarrow> block_validation" where
  "check_coinbase_amounts cr active cb max_coinbase r =
     (case coinbase_outputs_loop cr active (tx_outputs cb) (0, True, r) of
        (total_declared, all_valid, r) \<Rightarrow>
          error_if (all_valid \<and> total_declared \<noteq> as_atomic max_coinbase) ''Coinbase total doesn't match expected'' r)"

definition check_coinbase ::
    "'p::ab_group_add node_env \<Rightarrow> block \<Rightarrow> bool \<Rightarrow> bool \<Rightarrow> amount \<Rightarrow> block_validation \<Rightarrow> block_validation" where
  "check_coinbase env b active fast_sync max_coinbase r =
     (case coinbase b of
        None \<Rightarrow> r
      | Some cb \<Rightarrow>
          let n = length (tx_outputs cb);
              r = error_if (tx_outputs cb = []) ''Coinbase has no outputs'' r;
              r = error_if (tx_inputs cb \<noteq> [] \<and> \<not> is_coinbase cb) ''Coinbase transaction has invalid inputs'' r;
              r = error_if (16 < n) ''Coinbase has too many outputs'' r;
              r = error_if (1 < n \<and> as_atomic max_coinbase < saturating_mul u64_max MIN_OUTPUT_AMOUNT n)
                    ''Coinbase splits into outputs but reward is too small'' r
          in if 0 < block_height b \<and> \<not> fast_sync then check_coinbase_amounts (ne_crypto env) active cb max_coinbase r else r)"

subsection \<open>Fees and transactions\<close>

definition dynamic_min_fee :: "nat \<Rightarrow> nat \<Rightarrow> nat option" where
  "dynamic_min_fee sz multiplier_x100 =
     map_option (\<lambda>v. v div 100)
       (Option.bind (checked_mul u64_max sz MIN_FEE_PER_BYTE) (\<lambda>v. checked_mul u64_max v multiplier_x100))"

definition check_dynamic_fee :: "'p node_env \<Rightarrow> nat \<Rightarrow> transaction \<Rightarrow> block_validation \<Rightarrow> block_validation" where
  "check_dynamic_fee env multiplier_x100 tx r =
     (case dynamic_min_fee (tx_size (cr_borsh_tx (ne_crypto env)) tx) multiplier_x100 of
        None \<Rightarrow> add_error ''Transaction fee calculation overflow'' r
      | Some dynamic_min \<Rightarrow> error_if (as_atomic (tx_fee tx) < dynamic_min) ''Transaction fee too low for congestion'' r)"

definition check_dynamic_fees :: "'p node_env \<Rightarrow> nat \<Rightarrow> block \<Rightarrow> block_validation \<Rightarrow> block_validation" where
  "check_dynamic_fees env sz b r =
     fold (check_dynamic_fee env (congestion_multiplier (block_congestion_pct sz))) (drop 1 (transactions b)) r"

definition check_multiple_coinbase :: "block \<Rightarrow> block_validation \<Rightarrow> block_validation" where
  "check_multiple_coinbase b r =
     fold (\<lambda>tx. error_if (is_coinbase tx) ''Invalid transaction: Multiple coinbase transactions'') (drop 1 (transactions b)) r"

text \<open>The code validates the transactions of a block, and the inputs of each, with parallel workers that share the
  verification cache. The model takes one family of their schedules: the transactions in block order, and the inputs of
  each in the order \<open>ne_order\<close> gives. What is proved of accepted blocks uses of each transaction only that it validated
  with some cache (\<open>tx_accepted\<close>).\<close>

fun block_tx_errors ::
    "'p::ab_group_add node_env \<Rightarrow> utxo_set \<Rightarrow> nat \<Rightarrow> network_type \<Rightarrow> transaction list \<Rightarrow> verification_cache
     \<Rightarrow> string list \<times> verification_cache" where
  "block_tx_errors env u height network [] c = ([], c)"
| "block_tx_errors env u height network (tx # txs) c =
     (if is_coinbase tx
      then case block_tx_errors env u height network txs c of
             (errs, c) \<Rightarrow> (''Invalid transaction: Multiple coinbase transactions'' # errs, c)
      else case validate_transaction_for_network (ne_crypto env) (ne_testnet env) (ne_now env) (ne_order env tx)
                  tx u height network c of
             (res, c) \<Rightarrow>
               case block_tx_errors env u height network txs c of
                 (errs, c) \<Rightarrow> (if res = ok then errs else ''Invalid transaction'' # errs, c))"

subsection \<open>The driver\<close>

definition fast_sync_requested :: "nat option \<Rightarrow> nat \<Rightarrow> bool" where
  "fast_sync_requested checkpoint_height height = (case checkpoint_height of Some cp \<Rightarrow> height \<le> cp | None \<Rightarrow> False)"

definition check_block_pow ::
    "'p node_env \<Rightarrow> block \<Rightarrow> block option \<Rightarrow> bool \<Rightarrow> bool \<Rightarrow> block_validation \<Rightarrow> seq_pad_cache
     \<Rightarrow> block_validation \<times> seq_pad_cache" where
  "check_block_pow env b prev_block requested fast_sync r pc =
     (if block_height b = 0 then (r, pc)
      else case prev_block of
        None \<Rightarrow> (add_error ''Cannot verify PoW without previous block'' r, pc)
      | Some prev \<Rightarrow>
          let (r, pc) =
            (if fast_sync then (r, pc)
             else if requested then (r, pc)
             else case verify_pow (cr_blake3 (ne_crypto env)) (ne_genesis env) (ne_randomx env)
                         (block_hash_of env prev) (header b) pc of
                    (res, pc) \<Rightarrow> (error_if (res \<noteq> ok) ''Proof of work validation error'' r, pc))
          in (validate_difficulty_target b prev_block r, pc))"

definition check_block_body ::
    "'p::ab_group_add node_env \<Rightarrow> block \<Rightarrow> bool \<Rightarrow> bool \<Rightarrow> amount \<Rightarrow> amount \<Rightarrow> block_validation \<Rightarrow> block_validation" where
  "check_block_body env b active fast_sync expected_reward max_coinbase r =
     (let tx_hashes = map (txid env) (transactions b);
          r = check_block_tail_supply expected_reward r;
          r = check_coinbase env b active fast_sync max_coinbase r;
          r = check_block_duplicate_tx_hashes tx_hashes r;
          r = check_block_duplicate_key_images b r;
          r = check_block_duplicate_key_images b r
      in if active then check_block_duplicate_stealth b r else r)"

definition check_block_txs ::
    "'p::ab_group_add node_env \<Rightarrow> block \<Rightarrow> utxo_set \<Rightarrow> bool \<Rightarrow> network_type \<Rightarrow> block_validation \<Rightarrow> verification_cache
     \<Rightarrow> block_validation \<times> verification_cache" where
  "check_block_txs env b u fast_sync network r c =
     (let r = (if 0 < block_height b \<and> \<not> fast_sync then check_dynamic_fees env (block_size env b) b r else r)
      in if fast_sync then (check_multiple_coinbase b r, c)
         else case block_tx_errors env u (block_height b) network (drop 1 (transactions b)) c of
                (errs, c) \<Rightarrow> (add_errors errs r, c))"

definition check_block_structure :: "'p::ab_group_add node_env \<Rightarrow> block \<Rightarrow> block_validation \<Rightarrow> block_validation" where
  "check_block_structure env b r =
     (let r = check_block_first_tx_is_coinbase b r;
          r = check_block_merkle_root env b (map (txid env) (transactions b)) r
      in check_block_privacy_policy env b r)"

definition validate_block_with_checkpoint_for_network ::
    "'p::ab_group_add node_env \<Rightarrow> block \<Rightarrow> block option \<Rightarrow> utxo_set \<Rightarrow> nat option \<Rightarrow> network_type
     \<Rightarrow> verification_cache \<times> seq_pad_cache \<Rightarrow> block_validation \<times> verification_cache \<times> seq_pad_cache" where
  "validate_block_with_checkpoint_for_network env b prev_block u checkpoint_height network caches =
     (case caches of (c, pc) \<Rightarrow>
        case check_block_network_magic network b bv_ok of
          (False, r) \<Rightarrow> (r, c, pc)
        | (True, r) \<Rightarrow>
        case check_block_consensus_checkpoint env b r of
          (False, r) \<Rightarrow> (r, c, pc)
        | (True, r) \<Rightarrow>
          let active = v1_0_12_rules_active network (block_height b);
              requested = fast_sync_requested checkpoint_height (block_height b);
              fast_sync = (requested \<and> ne_insecure_fast_sync env);
              r = validate_header env (header b) (map_option header prev_block) r;
              (r, pc) = check_block_pow env b prev_block requested fast_sync r pc;
              r = check_block_size (block_size env b) r;
              r = check_block_weight env b r;
              r = check_block_tx_count b r
          in case check_block_has_coinbase b r of
               (False, r) \<Rightarrow> (r, c, pc)
             | (True, r) \<Rightarrow>
                 let r = check_block_structure env b r;
                     expected_reward = calculate_block_reward (block_height b);
                     total_fees = amount_sum (map tx_fee (drop 1 (transactions b)))
                 in case max_coinbase_of env b (block_size env b) expected_reward total_fees of
                      Inl _ \<Rightarrow> (add_error ''Coinbase max overflow'' r, c, pc)
                    | Inr max_coinbase \<Rightarrow>
                        let r = check_block_body env b active fast_sync expected_reward max_coinbase r
                        in if \<not> bv_valid r then (r, c, pc)
                           else case check_block_txs env b u fast_sync network r c of (r, c) \<Rightarrow> (r, c, pc))"

definition block_fee_burn :: "'p node_env \<Rightarrow> block \<Rightarrow> nat" where
  "block_fee_burn env b =
     (let total_fees = amount_sum (map tx_fee (filter (\<lambda>tx. \<not> is_coinbase tx) (transactions b)))
      in if block_height b < FEE_DISTRIBUTION_HEIGHT (ne_testnet env) \<or> as_atomic total_fees = 0 then 0
         else as_atomic (burned (distribute_fee total_fees
                (CONGESTION_THRESHOLD \<le> block_congestion_pct (block_size env b)))))"

subsection \<open>When a check leaves the result valid\<close>

named_theorems block_ok

lemma bv_valid_simps [block_ok, simp]:
  "bv_valid bv_ok"
  "\<not> bv_valid (add_error m r)"
  "bv_valid (add_warning m r) = bv_valid r"
  "bv_valid (error_if bad m r) \<longleftrightarrow> bv_valid r \<and> \<not> bad"
  by (simp_all add: bv_ok_def add_error_def add_warning_def error_if_def)

lemma add_errors_valid [block_ok]: "bv_valid (add_errors ms r) \<longleftrightarrow> bv_valid r \<and> ms = []"
proof -
  have "\<not> bv_valid r \<Longrightarrow> \<not> bv_valid (fold add_error ms r)" for ms r
    by (induction ms arbitrary: r) simp_all
  then show ?thesis by (cases ms) (simp_all add: add_errors_def)
qed

lemma report_duplicates_valid:
  "bv_valid (report_duplicates m seen xs r) \<longleftrightarrow> bv_valid r \<and> distinct xs \<and> set xs \<inter> seen = {}"
proof (induction xs arbitrary: seen r)
  case (Cons x xs)
  show ?case using Cons.IH by (cases "x \<in> seen") auto
qed simp

lemma duplicates_ok [block_ok]:
  "bv_valid (check_block_duplicate_tx_hashes hs r) \<longleftrightarrow> bv_valid r \<and> distinct hs"
  "bv_valid (check_block_duplicate_key_images b r) \<longleftrightarrow> bv_valid r \<and> distinct (concat (map key_images (transactions b)))"
  "bv_valid (check_block_duplicate_stealth b r) \<longleftrightarrow>
     bv_valid r \<and> distinct (map stealth_address (concat (map tx_outputs (transactions b))))"
  by (simp_all add: check_block_duplicate_tx_hashes_def check_block_duplicate_key_images_def
      check_block_duplicate_stealth_def report_duplicates_valid)

lemma header_checks_ok [block_ok]:
  "bv_valid (check_header_version_min h r) \<longleftrightarrow> bv_valid r \<and> block_version_at_height (bh_height h) \<le> unat (bh_version h)"
  "bv_valid (check_header_checkpoint_vote h r) \<longleftrightarrow>
     bv_valid r \<and> (case checkpoint_vote h of Some (cp, _) \<Rightarrow> cp < bh_height h | None \<Rightarrow> True)"
  "bv_valid (check_header_vs_prev hash_of h (Some p) r) \<longleftrightarrow>
     bv_valid r \<and> bh_version p \<le> bh_version h \<and> bh_height h = wrapping_add u64_max (bh_height p) 1
     \<and> bh_prev_hash h = hash_of p \<and> bh_timestamp p < bh_timestamp h"
  "bv_valid (check_header_vs_prev hash_of h None r) \<longleftrightarrow> bv_valid r \<and> bh_height h = 0"
  "bv_valid (check_header_future_timestamp clk h r) \<longleftrightarrow>
     bv_valid r \<and> (case clk of None \<Rightarrow> False
       | Some t \<Rightarrow> bh_height h = 0 \<or> bh_timestamp h \<le> wrapping_add u64_max t MAX_TIMESTAMP_DRIFT)"
  by (auto simp: check_header_version_min_def check_header_checkpoint_vote_def check_header_vs_prev_def
      check_header_future_timestamp_def Let_def split: option.splits)

lemma weight_ok [block_ok]:
  "bv_valid (check_block_weight env b r) \<longleftrightarrow> bv_valid r \<and> block_weight env b \<le> MAX_BLOCK_WEIGHT"
  by (auto simp: check_block_weight_def)

lemma structure_checks_ok [block_ok]:
  "bv_valid (check_block_size sz r) \<longleftrightarrow> bv_valid r \<and> sz \<le> MAX_BLOCK_SIZE"
  "bv_valid (check_block_tx_count b r) \<longleftrightarrow> bv_valid r \<and> length (transactions b) \<le> MAX_TXS_PER_BLOCK"
  "bv_valid (check_block_first_tx_is_coinbase b r) \<longleftrightarrow>
     bv_valid r \<and> transactions b \<noteq> [] \<and> is_coinbase (hd (transactions b))"
  "bv_valid (check_block_merkle_root env b hs r) \<longleftrightarrow>
     bv_valid r \<and> merkle_root (cr_blake3 (ne_crypto env)) hs = bh_tx_root (header b)"
  "bv_valid (check_block_privacy_policy env b r) \<longleftrightarrow>
     bv_valid r \<and> enforce_privacy_policy (ne_crypto env) (transactions b) = ok"
  "bv_valid (check_block_tail_supply reward r) \<longleftrightarrow>
     bv_valid r \<and> TAIL_EMISSION \<le> as_atomic reward \<and> as_atomic reward \<le> as_atomic (calculate_block_reward 0)"
  by (auto simp: check_block_size_def check_block_tx_count_def
      check_block_first_tx_is_coinbase_def check_block_merkle_root_def check_block_privacy_policy_def
      check_block_tail_supply_def split: list.splits)

lemma target_check_valid: "bv_valid (validate_difficulty_target b p r) \<Longrightarrow> bv_valid r"
  by (auto simp: validate_difficulty_target_def Let_def split: if_splits option.splits)

subsection \<open>Coinbase outputs\<close>

definition coinbase_output_ok :: "'p::ab_group_add crypto \<Rightarrow> bool \<Rightarrow> tx_output \<Rightarrow> bool" where
  "coinbase_output_ok cr active out =
     ((if active then length (encrypted_amount out) = 8 else 8 \<le> length (encrypted_amount out))
      \<and> commitment out = cr_commit_zero cr (declared_amount out)
      \<and> cr_decompress cr (commitment out) \<notin> {None, Some 0})"

lemma coinbase_loop_invalid:
  "\<not> bv_valid r \<Longrightarrow> coinbase_outputs_loop cr active outs (t, v, r) = (t', v', r') \<Longrightarrow> \<not> bv_valid r'"
  by (induction cr active outs "(t, v, r)" arbitrary: t v r rule: coinbase_outputs_loop.induct)
    (auto simp: Let_def split: if_splits option.splits)

lemma coinbase_loop_ok:
  assumes "coinbase_outputs_loop cr active outs (t, v, r) = (t', v', r')"
  shows "bv_valid r' \<longleftrightarrow>
     bv_valid r \<and> (\<forall>out \<in> set outs. coinbase_output_ok cr active out)
     \<and> (outs = [] \<or> t + sum_list (map declared_amount outs) \<le> u64_max)"
    and "bv_valid r' \<Longrightarrow> v' = v \<and> t' = t + sum_list (map declared_amount outs)"
proof -
  have "(bv_valid r' \<longleftrightarrow> bv_valid r \<and> (\<forall>out \<in> set outs. coinbase_output_ok cr active out)
      \<and> (outs = [] \<or> t + sum_list (map declared_amount outs) \<le> u64_max))
    \<and> (bv_valid r' \<longrightarrow> v' = v \<and> t' = t + sum_list (map declared_amount outs))"
    using assms
  proof (induction outs arbitrary: t v r)
    case (Cons out outs)
    show ?case
    proof (cases "coinbase_output_ok cr active out \<and> t + declared_amount out \<le> u64_max")
      case True
      then have "coinbase_outputs_loop cr active outs (t + declared_amount out, v, r) = (t', v', r')"
        using Cons.prems
        by (auto simp: coinbase_output_ok_def Let_def checked_add_def split: if_splits option.splits)
      from Cons.IH [OF this] True show ?thesis by (auto simp: add.assoc)
    next
      case False
      have "\<not> bv_valid r'"
        using Cons.prems False
        by (auto simp: coinbase_output_ok_def Let_def checked_add_def split: if_splits option.splits
            dest: coinbase_loop_invalid [rotated])
      with False show ?thesis by auto
    qed
  qed auto
  then show "bv_valid r' \<longleftrightarrow>
     bv_valid r \<and> (\<forall>out \<in> set outs. coinbase_output_ok cr active out)
     \<and> (outs = [] \<or> t + sum_list (map declared_amount outs) \<le> u64_max)"
    and "bv_valid r' \<Longrightarrow> v' = v \<and> t' = t + sum_list (map declared_amount outs)" by blast+
qed

lemma coinbase_amounts_ok [block_ok]:
  assumes "wf_amount m"
  shows "bv_valid (check_coinbase_amounts cr active cb m r) \<longleftrightarrow>
    bv_valid r \<and> (\<forall>out \<in> set (tx_outputs cb). coinbase_output_ok cr active out)
    \<and> sum_list (map declared_amount (tx_outputs cb)) = as_atomic m"
proof -
  obtain t v r' where l: "coinbase_outputs_loop cr active (tx_outputs cb) (0, True, r) = (t, v, r')"
    by (metis prod_cases3)
  from coinbase_loop_ok [OF l] assms show ?thesis
    by (auto simp: check_coinbase_amounts_def l wf_amount_def)
qed

definition coinbase_valid :: "'p::ab_group_add node_env \<Rightarrow> block \<Rightarrow> bool \<Rightarrow> bool \<Rightarrow> amount \<Rightarrow> transaction \<Rightarrow> bool" where
  "coinbase_valid env b active fs m cb \<longleftrightarrow>
     tx_outputs cb \<noteq> [] \<and> (tx_inputs cb = [] \<or> is_coinbase cb) \<and> length (tx_outputs cb) \<le> 16
     \<and> (1 < length (tx_outputs cb) \<longrightarrow> saturating_mul u64_max MIN_OUTPUT_AMOUNT (length (tx_outputs cb)) \<le> as_atomic m)
     \<and> (0 < block_height b \<and> \<not> fs \<longrightarrow>
         (\<forall>out \<in> set (tx_outputs cb). coinbase_output_ok (ne_crypto env) active out)
         \<and> sum_list (map declared_amount (tx_outputs cb)) = as_atomic m)"

lemma check_coinbase_ok:
  assumes "wf_amount m" and "transactions b = cb # txs"
  shows "bv_valid (check_coinbase env b active fs m r) \<longleftrightarrow> bv_valid r \<and> coinbase_valid env b active fs m cb"
  using assms(2) coinbase_amounts_ok [OF assms(1)]
  by (auto simp: check_coinbase_def coinbase_def coinbase_valid_def Let_def)

subsection \<open>Fees and transactions of an accepted block\<close>

definition pays_dynamic_fee :: "'p node_env \<Rightarrow> nat \<Rightarrow> transaction \<Rightarrow> bool" where
  "pays_dynamic_fee env mult tx \<longleftrightarrow>
     (\<exists>m. dynamic_min_fee (tx_size (cr_borsh_tx (ne_crypto env)) tx) mult = Some m \<and> m \<le> as_atomic (tx_fee tx))"

lemma fold_checks_valid:
  assumes "\<And>x r. bv_valid (f x r) \<longleftrightarrow> bv_valid r \<and> P x"
  shows "bv_valid (fold f xs r) \<longleftrightarrow> bv_valid r \<and> (\<forall>x \<in> set xs. P x)"
  using assms by (induction xs arbitrary: r) auto

lemma dynamic_fees_ok [block_ok]:
  "bv_valid (check_dynamic_fees env sz b r) \<longleftrightarrow>
     bv_valid r \<and> (\<forall>tx \<in> set (drop 1 (transactions b)).
       pays_dynamic_fee env (congestion_multiplier (block_congestion_pct sz)) tx)"
  unfolding check_dynamic_fees_def
  by (rule fold_checks_valid) (auto simp: check_dynamic_fee_def pays_dynamic_fee_def split: option.splits)

lemma multiple_coinbase_ok [block_ok]:
  "bv_valid (check_multiple_coinbase b r) \<longleftrightarrow> bv_valid r \<and> (\<forall>tx \<in> set (drop 1 (transactions b)). \<not> is_coinbase tx)"
  unfolding check_multiple_coinbase_def by (rule fold_checks_valid) auto

definition tx_accepted :: "'p::ab_group_add node_env \<Rightarrow> utxo_set \<Rightarrow> nat \<Rightarrow> network_type \<Rightarrow> transaction \<Rightarrow> bool" where
  "tx_accepted env u h network tx \<longleftrightarrow>
     (\<exists>c. fst (validate_transaction_for_network (ne_crypto env) (ne_testnet env) (ne_now env) (ne_order env tx)
            tx u h network c) = ok)"

lemma block_tx_errors_none:
  assumes "fst (block_tx_errors env u h network txs c) = []"
  shows "\<forall>tx \<in> set txs. \<not> is_coinbase tx \<and> tx_accepted env u h network tx"
  using assms
proof (induction txs arbitrary: c)
  case (Cons tx txs)
  from Cons.prems have nc: "\<not> is_coinbase tx" by (auto split: prod.splits if_splits)
  obtain res c1 where v: "validate_transaction_for_network (ne_crypto env) (ne_testnet env) (ne_now env)
      (ne_order env tx) tx u h network c = (res, c1)" by fastforce
  from Cons.prems nc v have "res = ok" and rest: "fst (block_tx_errors env u h network txs c1) = []"
    by (auto split: prod.splits if_splits)
  with v have "tx_accepted env u h network tx" by (auto simp: tx_accepted_def intro: exI [of _ c])
  with nc Cons.IH [OF rest] show ?case by simp
qed simp

lemma accepted_fresh_images:
  assumes "tx_accepted env u h network tx" and "\<not> is_coinbase tx"
  shows "set (key_images tx) \<inter> spent_key_images u = {}"
proof -
  from assms have "context_checks (ne_testnet env) tx u h network = ok"
    by (auto simp: tx_accepted_def validate_accepts)
  then show ?thesis by (simp add: context_checks_def Let_def check_ok)
qed

subsection \<open>Accepted blocks\<close>

definition header_stage :: "'p node_env \<Rightarrow> block \<Rightarrow> block option \<Rightarrow> bool \<Rightarrow> bool \<Rightarrow> seq_pad_cache \<Rightarrow> block_validation" where
  "header_stage env b prev requested fs pc =
     check_block_tx_count b (check_block_weight env b (check_block_size (block_size env b)
       (fst (check_block_pow env b prev requested fs (validate_header env (header b) (map_option header prev) bv_ok) pc))))"

abbreviation reward_at :: "block \<Rightarrow> amount" where
  "reward_at b \<equiv> calculate_block_reward (block_height b)"

abbreviation fees_of :: "block \<Rightarrow> amount" where
  "fees_of b \<equiv> amount_sum (map tx_fee (drop 1 (transactions b)))"

lemma no_checkpoints [simp]: "check_block_consensus_checkpoint env b r = (True, r)"
  by (simp add: check_block_consensus_checkpoint_def expected_checkpoint_hash_def CONSENSUS_CHECKPOINTS_def)

lemma magic_cases:
  "check_block_network_magic network b r =
     (if network_magic (header b) = magic_bytes network \<or> network_magic (header b) = [0, 0, 0, 0] \<and> block_height b = 0
      then (True, r) else (False, add_error ''Wrong network magic'' r))"
  by (auto simp: check_block_network_magic_def)

lemma check_block_body_ok:
  assumes "wf_amount m" and "transactions b = cb # txs"
  shows "bv_valid (check_block_body env b active fs reward m r) \<longleftrightarrow>
    bv_valid r \<and> TAIL_EMISSION \<le> as_atomic reward \<and> as_atomic reward \<le> as_atomic (calculate_block_reward 0)
    \<and> coinbase_valid env b active fs m cb \<and> distinct (map (txid env) (transactions b))
    \<and> distinct (concat (map key_images (transactions b)))
    \<and> (active \<longrightarrow> distinct (map stealth_address (concat (map tx_outputs (transactions b)))))"
  unfolding check_block_body_def Let_def by (cases active) (auto simp: block_ok check_coinbase_ok [OF assms])

lemma check_block_structure_ok:
  "bv_valid (check_block_structure env b r) \<longleftrightarrow>
     bv_valid r \<and> transactions b \<noteq> [] \<and> is_coinbase (hd (transactions b))
     \<and> merkle_root (cr_blake3 (ne_crypto env)) (map (txid env) (transactions b)) = bh_tx_root (header b)
     \<and> enforce_privacy_policy (ne_crypto env) (transactions b) = ok"
  by (auto simp: check_block_structure_def Let_def block_ok)

lemma check_block_txs_ok:
  assumes "bv_valid (fst (check_block_txs env b u fs network r c))"
  shows "\<forall>tx \<in> set (drop 1 (transactions b)). \<not> is_coinbase tx
    \<and> (\<not> fs \<longrightarrow> tx_accepted env u (block_height b) network tx
       \<and> (0 < block_height b \<longrightarrow>
            pays_dynamic_fee env (congestion_multiplier (block_congestion_pct (block_size env b))) tx))"
proof (cases fs)
  case True
  with assms show ?thesis by (auto simp: check_block_txs_def block_ok Let_def)
next
  case False
  from assms False have "fst (block_tx_errors env u (block_height b) network (drop 1 (transactions b)) c) = []"
    by (auto simp: check_block_txs_def Let_def block_ok split: prod.splits)
  moreover from assms False have "0 < block_height b \<Longrightarrow> \<forall>tx \<in> set (drop 1 (transactions b)).
      pays_dynamic_fee env (congestion_multiplier (block_congestion_pct (block_size env b))) tx"
    by (auto simp: check_block_txs_def Let_def block_ok split: prod.splits)
  ultimately show ?thesis using block_tx_errors_none by blast
qed

lemma max_coinbase_wf: "max_coinbase_of env b sz reward fees = Inr m \<Longrightarrow> wf_amount m"
  by (auto simp: max_coinbase_of_def amount_checked_add_exact split: if_splits)

lemma accepted_stages:
  fixes env :: "'p::ab_group_add node_env" and b cp network
  defines "active \<equiv> v1_0_12_rules_active network (block_height b)"
    and "requested \<equiv> fast_sync_requested cp (block_height b)"
  defines "fs \<equiv> requested \<and> ne_insecure_fast_sync env"
  assumes "bv_valid (fst (validate_block_with_checkpoint_for_network env b prev u cp network (c, pc)))"
  shows "\<exists>m r. max_coinbase_of env b (block_size env b) (reward_at b) (fees_of b) = Inr m
     \<and> bv_valid (header_stage env b prev requested fs pc)
     \<and> r = check_block_body env b active fs (reward_at b) m (check_block_structure env b (header_stage env b prev requested fs pc))
     \<and> bv_valid r \<and> bv_valid (fst (check_block_txs env b u fs network r c))
     \<and> transactions b \<noteq> [] \<and> (network_magic (header b) = magic_bytes network \<or> block_height b = 0)"
proof -
  obtain r0 pc' where pow: "check_block_pow env b prev requested fs
      (validate_header env (header b) (map_option header prev) bv_ok) pc = (r0, pc')" by fastforce
  then have hs: "header_stage env b prev requested fs pc =
      check_block_tx_count b (check_block_weight env b (check_block_size (block_size env b) r0))"
    by (simp add: header_stage_def)
  note a = assms(4) [unfolded validate_block_with_checkpoint_for_network_def magic_cases no_checkpoints Let_def,
      folded active_def requested_def, folded fs_def]
  from a have magic: "network_magic (header b) = magic_bytes network \<or> network_magic (header b) = [0, 0, 0, 0] \<and> block_height b = 0"
    by (auto split: if_splits)
  from a magic pow hs have ne: "transactions b \<noteq> []"
    by (auto simp: check_block_has_coinbase_def split: if_splits)
  from a magic pow hs ne obtain m where m: "max_coinbase_of env b (block_size env b) (reward_at b) (fees_of b) = Inr m"
    by (auto simp: check_block_has_coinbase_def split: if_splits sum.splits)
  let ?r = "check_block_body env b active fs (reward_at b) m (check_block_structure env b (header_stage env b prev requested fs pc))"
  from a magic pow hs ne m have r: "bv_valid ?r" and t: "bv_valid (fst (check_block_txs env b u fs network ?r c))"
    by (auto simp: check_block_has_coinbase_def case_prod_unfold split: if_splits)
  from r ne have "bv_valid (header_stage env b prev requested fs pc)"
    using check_block_body_ok [OF max_coinbase_wf [OF m]] check_block_structure_ok
    by (metis list.exhaust)
  with m r t ne magic show ?thesis by blast
qed

lemma header_stage_ok:
  assumes "bv_valid (header_stage env b (Some prev) requested fs pc)" and "0 < block_height b"
  shows "block_height b = wrapping_add u64_max (block_height prev) 1
    \<and> bh_prev_hash (header b) = block_hash_of env prev
    \<and> bh_timestamp (header prev) < bh_timestamp (header b)
    \<and> block_version_at_height (block_height b) \<le> unat (bh_version (header b))
    \<and> bh_version (header prev) \<le> bh_version (header b)
    \<and> (\<exists>t. ne_clock env = Some t \<and> bh_timestamp (header b) \<le> wrapping_add u64_max t MAX_TIMESTAMP_DRIFT)
    \<and> block_size env b \<le> MAX_BLOCK_SIZE \<and> block_weight env b \<le> MAX_BLOCK_WEIGHT
    \<and> length (transactions b) \<le> MAX_TXS_PER_BLOCK
    \<and> (\<not> requested \<longrightarrow> fs \<or> fst (verify_pow (cr_blake3 (ne_crypto env)) (ne_genesis env) (ne_randomx env)
          (block_hash_of env prev) (header b) pc) = ok)"
proof -
  let ?h = "validate_header env (header b) (Some (header prev)) bv_ok"
  let ?p = "verify_pow (cr_blake3 (ne_crypto env)) (ne_genesis env) (ne_randomx env) (block_hash_of env prev) (header b) pc"
  from assms(1) have p: "bv_valid (fst (check_block_pow env b (Some prev) requested fs ?h pc))"
    and sz: "block_size env b \<le> MAX_BLOCK_SIZE" "block_weight env b \<le> MAX_BLOCK_WEIGHT"
      "length (transactions b) \<le> MAX_TXS_PER_BLOCK"
    by (simp_all add: header_stage_def block_ok)
  have "bv_valid (validate_difficulty_target b (Some prev)
      (if fs \<or> requested then ?h else error_if (fst ?p \<noteq> ok) ''Proof of work validation error'' ?h))"
    using p assms(2) by (auto simp: check_block_pow_def Let_def case_prod_unfold split: if_splits)
  from target_check_valid [OF this] have v: "bv_valid ?h" and pw: "\<not> requested \<longrightarrow> fs \<or> fst ?p = ok"
    by (auto split: if_splits)
  from v assms(2) have "\<exists>t. ne_clock env = Some t \<and> bh_timestamp (header b) \<le> wrapping_add u64_max t MAX_TIMESTAMP_DRIFT"
    by (auto simp: validate_header_def block_ok block_height_def split: option.splits)
  moreover from v have "block_height b = wrapping_add u64_max (block_height prev) 1"
    "bh_prev_hash (header b) = block_hash_of env prev" "bh_timestamp (header prev) < bh_timestamp (header b)"
    "block_version_at_height (block_height b) \<le> unat (bh_version (header b))"
    "bh_version (header prev) \<le> bh_version (header b)"
    by (auto simp: validate_header_def block_ok block_height_def block_hash_of_def)
  ultimately show ?thesis using sz pw by blast
qed

lemma accepted_block:
  assumes "bv_valid (fst (validate_block_with_checkpoint_for_network env b (Some prev) u cp network (c, pc)))"
    and "0 < block_height b" and "\<not> ne_insecure_fast_sync env"
  shows "network_magic (header b) = magic_bytes network
    \<and> block_height b = wrapping_add u64_max (block_height prev) 1
    \<and> bh_prev_hash (header b) = block_hash_of env prev
    \<and> bh_timestamp (header prev) < bh_timestamp (header b)
    \<and> block_version_at_height (block_height b) \<le> unat (bh_version (header b))
    \<and> bh_version (header prev) \<le> bh_version (header b)
    \<and> (\<exists>t. ne_clock env = Some t \<and> bh_timestamp (header b) \<le> wrapping_add u64_max t MAX_TIMESTAMP_DRIFT)
    \<and> block_size env b \<le> MAX_BLOCK_SIZE \<and> block_weight env b \<le> MAX_BLOCK_WEIGHT
    \<and> length (transactions b) \<le> MAX_TXS_PER_BLOCK
    \<and> (\<not> fast_sync_requested cp (block_height b) \<longrightarrow>
         fst (verify_pow (cr_blake3 (ne_crypto env)) (ne_genesis env) (ne_randomx env)
           (block_hash_of env prev) (header b) pc) = ok)
    \<and> transactions b \<noteq> [] \<and> is_coinbase (hd (transactions b)) \<and> verify_merkle_root env b
    \<and> distinct (concat (map key_images (transactions b)))
    \<and> (\<forall>tx \<in> set (tl (transactions b)). \<not> is_coinbase tx \<and> tx_accepted env u (block_height b) network tx
         \<and> set (key_images tx) \<inter> spent_key_images u = {}
         \<and> pays_dynamic_fee env (congestion_multiplier (block_congestion_pct (block_size env b))) tx)"
proof -
  let ?req = "fast_sync_requested cp (block_height b)"
  let ?hs = "header_stage env b (Some prev) ?req False pc"
  from accepted_stages [OF assms(1)] assms(3)
  obtain m r where m: "max_coinbase_of env b (block_size env b) (reward_at b) (fees_of b) = Inr m"
    and hs: "bv_valid ?hs"
    and r: "bv_valid (check_block_body env b (v1_0_12_rules_active network (block_height b)) False (reward_at b) m
        (check_block_structure env b ?hs))"
    and txs: "bv_valid (fst (check_block_txs env b u False network r c))"
    and ne: "transactions b \<noteq> []" and magic: "network_magic (header b) = magic_bytes network \<or> block_height b = 0"
    by auto
  from ne obtain cb rest where cb: "transactions b = cb # rest" by (cases "transactions b") auto
  note body = r [unfolded check_block_body_ok [OF max_coinbase_wf [OF m] cb] check_block_structure_ok]
  have "\<forall>tx \<in> set (tl (transactions b)). \<not> is_coinbase tx \<and> tx_accepted env u (block_height b) network tx
      \<and> set (key_images tx) \<inter> spent_key_images u = {}
      \<and> pays_dynamic_fee env (congestion_multiplier (block_congestion_pct (block_size env b))) tx"
    using check_block_txs_ok [OF txs] assms(2) accepted_fresh_images by (simp add: drop_Suc) blast
  moreover have "verify_merkle_root env b" using body ne by (simp add: verify_merkle_root_def)
  moreover note header_stage_ok [OF hs assms(2)]
  moreover have "network_magic (header b) = magic_bytes network" using magic assms(2) by simp
  ultimately show ?thesis using body ne by blast
qed

text \<open>C3: in the default build (without the \<open>insecure-fast-sync\<close> feature) an accepted block on a known
  parent extends it. Its height, parent hash and timestamp fit the parent, its version is at least
  the minimum of its height and not below the parent's, the node's clock could be read and the
  timestamp is at most the drift ahead of it (a clock that cannot be read rejects the block), size,
  weight and count are within limits, its proof of work verifies unless checkpoint sync was
  requested for its height, the first transaction and no other is the coinbase, the Merkle root
  commits to the transactions, no key image occurs twice in the block or is spent in the UTXO set,
  and every other transaction validated and pays the congestion fee.\<close>

theorem accepted_block_sound:
  assumes "bv_valid (fst (validate_block_with_checkpoint_for_network env b (Some prev) u cp network (c, pc)))"
    and "0 < block_height b" and "\<not> ne_insecure_fast_sync env"
  shows "network_magic (header b) = magic_bytes network
    \<and> block_height b = wrapping_add u64_max (block_height prev) 1
    \<and> bh_prev_hash (header b) = block_hash_of env prev
    \<and> bh_timestamp (header prev) < bh_timestamp (header b)
    \<and> block_version_at_height (block_height b) \<le> unat (bh_version (header b))
    \<and> bh_version (header prev) \<le> bh_version (header b)
    \<and> (\<exists>t. ne_clock env = Some t \<and> bh_timestamp (header b) \<le> wrapping_add u64_max t MAX_TIMESTAMP_DRIFT)
    \<and> block_size env b \<le> MAX_BLOCK_SIZE \<and> block_weight env b \<le> MAX_BLOCK_WEIGHT
    \<and> length (transactions b) \<le> MAX_TXS_PER_BLOCK
    \<and> (\<not> fast_sync_requested cp (block_height b) \<longrightarrow>
         fst (verify_pow (cr_blake3 (ne_crypto env)) (ne_genesis env) (ne_randomx env)
           (block_hash_of env prev) (header b) pc) = ok)
    \<and> transactions b \<noteq> [] \<and> is_coinbase (hd (transactions b)) \<and> verify_merkle_root env b
    \<and> distinct (concat (map key_images (transactions b)))
    \<and> (\<forall>tx \<in> set (tl (transactions b)). \<not> is_coinbase tx \<and> tx_accepted env u (block_height b) network tx
         \<and> set (key_images tx) \<inter> spent_key_images u = {}
         \<and> pays_dynamic_fee env (congestion_multiplier (block_congestion_pct (block_size env b))) tx)"
  by (rule accepted_block [OF assms])

subsection \<open>Supply\<close>

lemma amount_sum_wf: "wf_amount (amount_sum as)"
proof -
  have "wf_amount a \<Longrightarrow> wf_amount (foldl amount_saturating_add a as)" for a
    by (induction as arbitrary: a) (auto simp: wf_amount_def amount_saturating_add_def saturating_add_def)
  then show ?thesis by (simp add: amount_sum_def amount_ZERO_def wf_amount_def)
qed

lemma accepted_coinbase:
  assumes "bv_valid (fst (validate_block_with_checkpoint_for_network env b prev u cp network (c, pc)))"
    and "0 < block_height b" and "\<not> ne_insecure_fast_sync env"
  shows "(\<forall>out \<in> set (tx_outputs (hd (transactions b))).
            commitment out = cr_commit_zero (ne_crypto env) (declared_amount out))
       \<and> sum_list (map declared_amount (tx_outputs (hd (transactions b)))) + block_fee_burn env b
           = as_atomic (calculate_block_reward (block_height b)) + as_atomic (block_total_fees b)"
proof -
  from accepted_stages [OF assms(1)] assms(3)
  obtain m r h where m: "max_coinbase_of env b (block_size env b) (reward_at b) (fees_of b) = Inr m"
    and r: "bv_valid (check_block_body env b (v1_0_12_rules_active network (block_height b)) False (reward_at b) m
        (check_block_structure env b h))"
    and txs: "bv_valid (fst (check_block_txs env b u False network r c))" and ne: "transactions b \<noteq> []"
    by auto
  from ne obtain cb rest where cb: "transactions b = cb # rest" by (cases "transactions b") auto
  note body = r [unfolded check_block_body_ok [OF max_coinbase_wf [OF m] cb] check_block_structure_ok]
  have out: "\<forall>out \<in> set (tx_outputs cb). commitment out = cr_commit_zero (ne_crypto env) (declared_amount out)"
    and tot: "sum_list (map declared_amount (tx_outputs cb)) = as_atomic m"
    using body assms(2) by (auto simp: coinbase_valid_def coinbase_output_ok_def)
  have "\<forall>tx \<in> set rest. \<not> is_coinbase tx" using check_block_txs_ok [OF txs] cb by simp
  then have "filter (\<lambda>tx. \<not> is_coinbase tx) (transactions b) = rest" using body cb by simp
  then have burn: "block_fee_burn env b =
      (if block_height b < FEE_DISTRIBUTION_HEIGHT (ne_testnet env) \<or> as_atomic (fees_of b) = 0 then 0
       else as_atomic (burned (distribute_fee (fees_of b) (CONGESTION_THRESHOLD \<le> block_congestion_pct (block_size env b)))))"
    by (simp add: block_fee_burn_def cb)
  have fees: "block_total_fees b = fees_of b"
    by (simp add: block_total_fees_def non_coinbase_transactions_def amount_sum_def)
  have "as_atomic m + block_fee_burn env b = as_atomic (reward_at b) + as_atomic (fees_of b)"
    using m burn distribute_fee_exact(3) [OF amount_sum_wf]
    by (auto simp: max_coinbase_of_def amount_checked_add_exact split: if_splits)
  with out tot fees cb show ?thesis by simp
qed

text \<open>C9: a block accepted above height zero mints exactly what the schedule allows. Every coinbase output
  commits to its declared amount with a zero blinding factor, and the declared amounts plus the
  burn that the chain books (\<open>block_fee_burn\<close>) are the block reward plus the fees: miner claim and
  booked burn are computed at two places in the source and agree.\<close>

theorem coinbase_conserves_supply:
  assumes "bv_valid (fst (validate_block_with_checkpoint_for_network env b prev u cp network (c, pc)))"
    and "0 < block_height b" and "\<not> ne_insecure_fast_sync env"
  shows "(\<forall>out \<in> set (tx_outputs (hd (transactions b))).
            commitment out = cr_commit_zero (ne_crypto env) (declared_amount out))
       \<and> sum_list (map declared_amount (tx_outputs (hd (transactions b)))) + block_fee_burn env b
           = as_atomic (calculate_block_reward (block_height b)) + as_atomic (block_total_fees b)"
  by (rule accepted_coinbase [OF assms])

subsection \<open>What acceptance does not depend on\<close>

lemma block_tx_errors_env:
  assumes "ne_crypto env' = ne_crypto env" and "ne_testnet env' = ne_testnet env" and "ne_now env' = ne_now env"
    and "ne_order env' = ne_order env"
  shows "block_tx_errors env' u h network txs c = block_tx_errors env u h network txs c"
  using assms by (induction txs arbitrary: c) (simp_all split: prod.splits)

text \<open>C36: when checkpoint sync is requested for a block's height, the build without the
  \<open>insecure-fast-sync\<close> feature still does not verify its proof of work: the verdict is the same for
  any two RandomX functions, though the source logs that full verification will run.\<close>

theorem pow_skipped_below_checkpoint:
  fixes env :: "'p::ab_group_add node_env"
  defines "secure \<equiv> env \<lparr> ne_insecure_fast_sync := False \<rparr>"
  assumes "block_height b \<le> cp"
  shows "validate_block_with_checkpoint_for_network (secure \<lparr> ne_randomx := f \<rparr>) b prev u (Some cp) network caches
       = validate_block_with_checkpoint_for_network (secure \<lparr> ne_randomx := g \<rparr>) b prev u (Some cp) network caches"
proof -
  let ?e = "\<lambda>f. secure \<lparr> ne_randomx := f \<rparr>"
  have req: "fast_sync_requested (Some cp) (block_height b) = True" using assms(2) by (simp add: fast_sync_requested_def)
  have e1: "validate_header (?e f) = validate_header (?e g)" "block_size (?e f) = block_size (?e g)"
    "check_block_weight (?e f) = check_block_weight (?e g)" "txid (?e f) = txid (?e g)"
    "ne_insecure_fast_sync (?e f) = ne_insecure_fast_sync (?e g)" "max_coinbase_of (?e f) = max_coinbase_of (?e g)"
    by (simp_all add: fun_eq_iff validate_header_def block_size_def check_block_weight_def block_weight_def txid_def
        max_coinbase_of_def)
  have e2: "check_block_pow (?e f) b prev True fs r pc = check_block_pow (?e g) b prev True fs r pc" for fs r pc
    by (simp add: check_block_pow_def split: option.splits)
  have e3: "check_coinbase (?e f) = check_coinbase (?e g)"
    by (simp add: fun_eq_iff check_coinbase_def Let_def split: option.splits)
  have e4: "check_block_structure (?e f) = check_block_structure (?e g)" "check_block_body (?e f) = check_block_body (?e g)"
    by (simp_all add: fun_eq_iff check_block_structure_def check_block_merkle_root_def check_block_privacy_policy_def
        check_block_body_def e1 e3 Let_def)
  have e5: "check_block_txs (?e f) b u fs network r c = check_block_txs (?e g) b u fs network r c" for fs r c
    using block_tx_errors_env [of "?e f" "?e g"]
    by (simp add: check_block_txs_def check_dynamic_fees_def check_dynamic_fee_def [abs_def] e1 Let_def)
  show ?thesis
    unfolding validate_block_with_checkpoint_for_network_def Let_def req no_checkpoints e1 e2 e4 e5 ..
qed

definition malleate :: "bytes \<Rightarrow> bytes \<Rightarrow> bytes \<Rightarrow> bytes \<Rightarrow> block \<Rightarrow> block" where
  "malleate k s x y b = b \<lparr> header := (header b) \<lparr> miner_pubkey_of := k, supply_commitment := s,
     spark_set_root := x, mw_kernel_root := y \<rparr> \<rparr>"

lemma malleate_simps [simp]:
  "transactions (malleate k s x y b) = transactions b" "block_height (malleate k s x y b) = block_height b"
  "network_magic (header (malleate k s x y b)) = network_magic (header b)"
  "bh_timestamp (header (malleate k s x y b)) = bh_timestamp (header b)"
  "bh_target (header (malleate k s x y b)) = bh_target (header b)"
  "bh_tx_root (header (malleate k s x y b)) = bh_tx_root (header b)"
  "bh_height (header (malleate k s x y b)) = bh_height (header b)"
  "bh_version (header (malleate k s x y b)) = bh_version (header b)"
  "bh_prev_hash (header (malleate k s x y b)) = bh_prev_hash (header b)"
  "bh_anchor (header (malleate k s x y b)) = bh_anchor (header b)"
  "bh_algorithm (header (malleate k s x y b)) = bh_algorithm (header b)"
  "bh_nonce (header (malleate k s x y b)) = bh_nonce (header b)"
  "checkpoint_vote (header (malleate k s x y b)) = checkpoint_vote (header b)"
  by (simp_all add: malleate_def block_height_def)

text \<open>Acceptance does not commit to the miner key, the supply commitment or the two phase-2 roots of
  the header. Replacing them in a mined block gives the same verdict without redoing the proof of
  work, while the block's hash preimage, and so its identity, changes.\<close>

theorem block_malleable:
  assumes "wf_header (header b)" and "wf_header (header (malleate k s x y b))"
    and "supply_commitment (header b) \<noteq> s \<or> miner_pubkey_of (header b) \<noteq> k"
  shows "validate_block_with_checkpoint_for_network env (malleate k s x y b) prev u cp network caches
           = validate_block_with_checkpoint_for_network env b prev u cp network caches
       \<and> header_preimage (header (malleate k s x y b)) \<noteq> header_preimage (header b)"
proof
  let ?b = "malleate k s x y b"
  have hd: "header ?b = (header b) \<lparr> miner_pubkey_of := k, supply_commitment := s, spark_set_root := x, mw_kernel_root := y \<rparr>"
    by (simp add: malleate_def)
  have "miner_pubkey_of (header ?b) = k" "supply_commitment (header ?b) = s" by (simp_all add: hd)
  with assms(3) have "header ?b \<noteq> header b" by auto
  with header_preimage_inj [OF assms(2,1)] show "header_preimage (header ?b) \<noteq> header_preimage (header b)" by blast
  have e1: "transactions ?b = transactions b" "block_height ?b = block_height b" by simp_all
  have e2: "validate_header env (header ?b) = validate_header env (header b)"
    unfolding validate_header_def [abs_def] check_header_version_min_def check_header_vs_prev_def
      check_header_checkpoint_vote_def check_header_future_timestamp_def malleate_simps ..
  have e3: "check_block_pow env ?b = check_block_pow env b"
    unfolding check_block_pow_def [abs_def] validate_difficulty_target_def verify_pow_def malleate_simps ..
  have e4: "block_size env ?b = block_size env b" "check_block_weight env ?b = check_block_weight env b"
    "check_block_tx_count ?b = check_block_tx_count b" "check_block_has_coinbase ?b = check_block_has_coinbase b"
    "check_block_structure env ?b = check_block_structure env b" "max_coinbase_of env ?b = max_coinbase_of env b"
    by (simp_all add: fun_eq_iff block_size_def check_block_weight_def block_weight_def check_block_tx_count_def
        check_block_has_coinbase_def check_block_structure_def check_block_first_tx_is_coinbase_def
        check_block_merkle_root_def check_block_privacy_policy_def max_coinbase_of_def)
  have e5: "check_coinbase env ?b = check_coinbase env b"
    unfolding check_coinbase_def [abs_def] coinbase_def malleate_simps ..
  have e6: "check_block_body env ?b = check_block_body env b"
    by (simp add: fun_eq_iff check_block_body_def e5 check_block_duplicate_key_images_def check_block_duplicate_stealth_def
        Let_def)
  have e7: "check_block_txs env ?b = check_block_txs env b"
    by (simp add: fun_eq_iff check_block_txs_def check_dynamic_fees_def check_multiple_coinbase_def e4)
  show "validate_block_with_checkpoint_for_network env ?b prev u cp network caches
      = validate_block_with_checkpoint_for_network env b prev u cp network caches"
    unfolding validate_block_with_checkpoint_for_network_def check_block_network_magic_def Let_def no_checkpoints
      malleate_simps e1 e2 e3 e4 e6 e7 ..
qed

subsection \<open>The sanity gate never rejects a correct retarget\<close>

lemma from_be_bytes_zero: "list_all (\<lambda>x. x = 0) xs \<Longrightarrow> from_be_bytes xs = 0"
proof -
  have "list_all (\<lambda>x. x = 0) ys \<Longrightarrow> from_le_bytes ys = 0" for ys :: bytes by (induction ys) simp_all
  then show "list_all (\<lambda>x. x = 0) xs \<Longrightarrow> from_be_bytes xs = 0" by (simp add: from_be_bytes_def list_all_iff)
qed

lemma from_le_bytes_ff: "from_le_bytes (replicate n 255) = 256 ^ n - 1"
proof (induction n)
  case (Suc n)
  have "1 \<le> (256 :: nat) ^ n" by simp
  with Suc show ?case by (simp add: diff_mult_distrib2)
qed simp

lemma ratio_scaled_gate:
  assumes "1 \<le> p" and "max (p div 2) 1 \<le> t" and "t \<le> 8 * p"
  shows "31 \<le> ratio_scaled t p \<and> ratio_scaled t p \<le> 32000"
proof (cases "u128_max div 1000 < t")
  case True
  let ?a = "t div 1024" and ?b = "max (p div 1024) 1"
  have "1024 \<le> t" using True by (simp add: u128_max_def)
  have half: "p div 2 \<le> t" using assms(2) by simp
  have "1 \<le> ?a" "p div 1024 \<le> 2 * ?a + 2" "?a \<le> 8 * (p div 1024) + 8"
    using \<open>1024 \<le> t\<close> half assms(3) by linarith+
  then have "31 * ?b \<le> ?a * 1000" "?a * 1000 < 32001 * ?b" by (auto simp: max_def)
  then have "31 \<le> ?a * 1000 div ?b" "?a * 1000 div ?b < 32001"
    by (simp_all add: less_eq_div_iff_mult_less_eq div_less_iff_less_mult)
  with True show ?thesis by (simp add: ratio_scaled_def)
next
  case False
  have "31 * p \<le> t * 1000" "t * 1000 < 32001 * p" using assms by linarith+
  then have "31 \<le> t * 1000 div p" "t * 1000 div p < 32001"
    using assms(1) by (simp_all add: less_eq_div_iff_mult_less_eq div_less_iff_less_mult)
  with False show ?thesis by (simp add: ratio_scaled_def)
qed

text \<open>The two layers of difficulty validation fit together: a block that carries the target ASERT
  computes from a window ending in its parent always passes the ratio bounds of
  \<open>validate_difficulty_target\<close>, in the normal and in the emergency regime.\<close>

theorem retarget_passes_gate:
  assumes "2 \<le> length blocks" and "db_target (last blocks) = bh_target (header prev)"
    and "wf_hash (bh_target (header prev))" and "bh_target (header b) = calculate_difficulty blocks h"
  shows "validate_difficulty_target b (Some prev) r = r"
proof -
  let ?t = "final_target blocks h"
  let ?p = "target_prefix_u128 (bh_target (header prev))"
  have wf: "wf_hash (db_target (last blocks))" using assms(2,3) by simp
  have t: "1 \<le> ?t" "?t \<le> u128_max" using final_target_u128 [OF wf] by blast+
  have tgt: "bh_target (header b) = u128_to_target ?t" using assms(1,4) by (simp add: calculate_difficulty_def)
  have bytes: "hash_bytes (u128_to_target ?t) = be_bytes 16 ?t @ replicate 16 0"
    using t by (simp add: u128_to_target_def)
  then have pre: "target_prefix_u128 (bh_target (header b)) = ?t"
    using t tgt by (simp add: target_prefix_u128_def from_be_bytes_be_bytes u128_max_less)
  have mx: "target_prefix_u128 max_target = u128_max"
    by (simp add: target_prefix_u128_def max_target_def from_be_bytes_def from_le_bytes_ff u128_max_def)
  have nz: "\<not> list_all (\<lambda>x. x = 0) (hash_bytes (bh_target (header b)))"
    using pre t from_be_bytes_zero [of "take 16 (hash_bytes (bh_target (header b)))"]
    by (auto simp: target_prefix_u128_def list_all_iff dest: in_set_takeD)
  show ?thesis
  proof (cases "0 < ?p")
    case False
    with pre mx nz t show ?thesis by (simp add: validate_difficulty_target_def Let_def)
  next
    case True
    then have tip: "target_to_u128 (db_target (last blocks)) = ?p"
      using assms(2) by (simp add: target_to_u128_def target_prefix_u128_def)
    have "max (min ((if needs_emergency_drop blocks h then 8 else 2) * ?p) (u128_max div 500)) (max (?p div 2) 1) \<le> 8 * ?p"
      using True by (auto intro: min.coboundedI1)
    with final_target_bounds(2) [OF wf, of h] have "?t \<le> 8 * ?p" unfolding tip by (rule le_trans)
    then have "31 \<le> ratio_scaled ?t ?p \<and> ratio_scaled ?t ?p \<le> 32000"
      using final_target_bounds(1) [OF wf, of h] True tip by (intro ratio_scaled_gate) simp_all
    then show ?thesis using pre mx nz t by (simp add: validate_difficulty_target_def Let_def error_if_def)
  qed
qed

subsection \<open>The emission bounds\<close>

lemma calculate_block_reward_atomic:
  "as_atomic (calculate_block_reward h) = reward_atomic (estimate_supply_at_height h)"
  by (simp add: calculate_block_reward_def block_reward_def base_reward_def reward_atomic_def from_atomic_def)

lemma calculate_block_reward_range:
  "TAIL_EMISSION \<le> as_atomic (calculate_block_reward h)"
  "as_atomic (calculate_block_reward h) \<le> as_atomic (calculate_block_reward 0)"
  "as_atomic (calculate_block_reward h) \<le> u64_max"
proof -
  have z: "as_atomic (calculate_block_reward 0) = 50 * COIN"
    by (simp add: calculate_block_reward_atomic estimate_supply_at_height_def reward_atomic_eq emission_consts)
  show "TAIL_EMISSION \<le> as_atomic (calculate_block_reward h)" by (simp add: calculate_block_reward_atomic reward_atomic_eq)
  show "as_atomic (calculate_block_reward h) \<le> as_atomic (calculate_block_reward 0)"
    unfolding z by (simp add: calculate_block_reward_atomic reward_atomic_le)
  also have "\<dots> \<le> u64_max" by (simp add: z COIN_def u64_max_def)
  finally show "as_atomic (calculate_block_reward h) \<le> u64_max" .
qed

text \<open>The bounds that \<open>check_block_tail_supply\<close> puts on the reward never reject a block, at any
  height: the reward of the emission curve lies between the tail and the reward of height zero, and
  adding it to an empty fee total never overflows.\<close>

theorem tail_supply_never_rejects:
  "check_block_tail_supply (calculate_block_reward h) r = r
   \<and> max_coinbase_of env b sz (calculate_block_reward h) amount_ZERO = Inr (calculate_block_reward h)"
proof
  show "check_block_tail_supply (calculate_block_reward h) r = r"
    using calculate_block_reward_range(1,2) [of h] by (simp add: check_block_tail_supply_def error_if_def)
  show "max_coinbase_of env b sz (calculate_block_reward h) amount_ZERO = Inr (calculate_block_reward h)"
    using calculate_block_reward_range(3) [of h]
    by (simp add: max_coinbase_of_def amount_checked_add_exact amount_ZERO_def wf_amount_def)
qed

subsection \<open>A concrete block\<close>

definition sample_env :: "int node_env" where
  "sample_env = \<lparr> ne_crypto = sample_crypto \<lparr> cr_blake3 := \<lambda>_. hash_zero, cr_commit_zero := \<lambda>v. 1 # le_bytes 8 v \<rparr>,
     ne_testnet = False, ne_insecure_fast_sync = False, ne_clock = Some 1700000000, ne_now = 0, ne_order = \<lambda>_. [],
     ne_randomx = \<lambda>_ _. Some hash_zero, ne_genesis = [] \<rparr>"

definition sample_parent :: block where
  "sample_parent = \<lparr> header = sample_header \<lparr> bh_height := 0, bh_timestamp := 50 \<rparr>, transactions = [] \<rparr>"

definition reward_output :: "nat \<Rightarrow> tx_output" where
  "reward_output v = \<lparr> stealth_address = [1], tx_public_key = [2], commitment = 1 # le_bytes 8 v,
     encrypted_amount = le_bytes 8 v, view_tag = 0, lock_height = None, encrypted_memo = [] \<rparr>"

definition reward_tx :: "nat \<Rightarrow> transaction" where
  "reward_tx v = \<lparr> tx_version = 1, tx_ty = Coinbase, tx_inputs = [], tx_outputs = [reward_output v],
     tx_fee = Amount 0, range_proof = [], tx_extra = [] \<rparr>"

definition sample_block :: block where
  "sample_block = \<lparr> header = sample_header, transactions = [reward_tx (as_atomic (calculate_block_reward 1))] \<rparr>"

lemmas sample_defs = sample_env_def sample_parent_def sample_block_def reward_tx_def reward_output_def sample_header_def
  sample_crypto_def

lemma sample_height [simp]: "block_height sample_block = 1" "block_height sample_parent = 0"
  by (simp_all add: sample_block_def sample_parent_def sample_header_def block_height_def)

lemma sample_size: "block_size (sample_env \<lparr> ne_randomx := f \<rparr>) sample_block = 300"
  by (simp add: block_size_def sample_defs tx_size_def MIN_TX_SIZE_def saturating_add_def u64_max_def)

lemma sample_weight: "block_weight (sample_env \<lparr> ne_randomx := f \<rparr>) sample_block = 100"
  by (simp add: block_weight_def sample_defs tx_size_def MIN_TX_SIZE_def as_u64_def)

lemma sample_header_valid:
  "validate_header (sample_env \<lparr> ne_randomx := f \<rparr>) (header sample_block) (Some (header sample_parent)) r = r"
  by (simp add: validate_header_def check_header_version_min_def check_header_vs_prev_def check_header_checkpoint_vote_def
      check_header_future_timestamp_def error_if_def sample_defs header_hash_def hash_concat_def block_version_at_height_def
      V2_TX_ACTIVATION_HEIGHT_def MAX_TIMESTAMP_DRIFT_def wrapping_add_def u64_max_def Let_def)

lemma sample_target_valid: "validate_difficulty_target sample_block (Some sample_parent) r = r"
proof -
  have p: "target_prefix_u128 (bh_target sample_header) = u128_max"
    by (simp add: target_prefix_u128_def sample_header_def from_be_bytes_def from_le_bytes_ff u128_max_def)
  have "ratio_scaled u128_max u128_max = 1000" by (simp add: ratio_scaled_def u128_max_def)
  moreover have "max_target = bh_target sample_header" by (simp add: max_target_def sample_header_def)
  moreover have "\<not> list_all (\<lambda>x. x = 0) (hash_bytes (bh_target sample_header))"
    by (simp add: sample_header_def list_all_iff)
  ultimately show ?thesis using p
    by (simp add: validate_difficulty_target_def sample_block_def sample_parent_def Let_def error_if_def)
qed

lemma sample_pow:
  "check_block_pow sample_env sample_block (Some sample_parent) False False r seq_pad_new = (r, snd (check_block_pow sample_env
     sample_block (Some sample_parent) False False r seq_pad_new))"
proof -
  have "meets_difficulty hash_zero (Hash (replicate 32 255))" by code_simp
  then have "fst (verify_pow (cr_blake3 (ne_crypto sample_env)) (ne_genesis sample_env) (ne_randomx sample_env)
      (block_hash_of sample_env sample_parent) (header sample_block) seq_pad_new) = ok"
    by (simp add: verify_pow_def compute_full_anchor_def seq_pad_new_def fresh_anchor_def blake3_mix_def
        hash_domain_def sample_defs compute_pow_hash_def block_hash_of_def header_hash_def hash_concat_def Let_def)
  then show ?thesis
    by (simp add: check_block_pow_def Let_def case_prod_unfold sample_target_valid error_if_def)
qed

lemma sample_structure: "check_block_structure (sample_env \<lparr> ne_randomx := f \<rparr>) sample_block r = r"
  by (simp add: check_block_structure_def check_block_first_tx_is_coinbase_def check_block_merkle_root_def
      check_block_privacy_policy_def enforce_privacy_policy_def error_if_def merkle_root_def txid_def tx_hash_def
      merkle_leaf_def hash_concat_def sample_defs is_coinbase_def Let_def)

lemma sample_declared: "declared_amount (reward_output (as_atomic (calculate_block_reward h))) = as_atomic (calculate_block_reward h)"
  using calculate_block_reward_range(3) [of h]
  by (simp add: declared_amount_def reward_output_def from_le_bytes_le_bytes u64_max_def)

lemma sample_output_ok:
  "coinbase_output_ok (ne_crypto (sample_env \<lparr> ne_randomx := f \<rparr>)) True (reward_output (as_atomic (calculate_block_reward h)))"
  using sample_declared [of h] by (simp add: coinbase_output_ok_def sample_env_def sample_crypto_def) (simp add: reward_output_def)

lemma sample_body:
  "bv_valid (check_block_body (sample_env \<lparr> ne_randomx := f \<rparr>) sample_block True False (calculate_block_reward 1)
     (calculate_block_reward 1) r) = bv_valid r"
proof -
  let ?v = "as_atomic (calculate_block_reward 1)"
  have txs: "transactions sample_block = [reward_tx ?v]" by (simp add: sample_block_def)
  have outs: "tx_outputs (reward_tx ?v) = [reward_output ?v]" by (simp add: reward_tx_def)
  have wf: "wf_amount (calculate_block_reward 1)" using calculate_block_reward_range(3) by (simp add: wf_amount_def)
  have "coinbase_valid (sample_env \<lparr> ne_randomx := f \<rparr>) sample_block True False (calculate_block_reward 1) (reward_tx ?v)"
    unfolding coinbase_valid_def outs using sample_declared [of 1] sample_output_ok [of f 1]
    by (simp add: reward_tx_def)
  then show ?thesis
    unfolding check_block_body_ok [OF wf txs] using calculate_block_reward_range(1,2) [of 1] txs outs
    by (simp add: key_images_def reward_tx_def)
qed

lemma sample_validates:
  assumes "\<And>r. fst (check_block_pow (sample_env \<lparr> ne_randomx := f \<rparr>) sample_block (Some sample_parent)
      (fast_sync_requested cp 1) False r seq_pad_new) = r"
  shows "bv_valid (fst (validate_block_with_checkpoint_for_network (sample_env \<lparr> ne_randomx := f \<rparr>) sample_block
     (Some sample_parent) utxo_new cp Mainnet (cache_new, seq_pad_new)))"
proof -
  let ?e = "sample_env \<lparr> ne_randomx := f \<rparr>"
  have fees: "fees_of sample_block = amount_ZERO" by (simp add: sample_block_def amount_sum_def)
  have mc: "max_coinbase_of ?e sample_block sz (calculate_block_reward 1) amount_ZERO = Inr (calculate_block_reward 1)" for sz
    using calculate_block_reward_range(3) [of 1]
    by (simp add: max_coinbase_of_def amount_checked_add_exact amount_ZERO_def wf_amount_def)
  have small: "check_block_size 300 r = r" "check_block_weight ?e sample_block r = r" "check_block_tx_count sample_block r = r"
    "check_block_has_coinbase sample_block r = (True, r)" for r
    unfolding check_block_weight_def sample_weight
    by (simp_all add: check_block_size_def check_block_tx_count_def check_block_has_coinbase_def error_if_def
        MAX_BLOCK_SIZE_def MAX_BLOCK_WEIGHT_def MAX_TXS_PER_BLOCK_def sample_block_def)
  have magic: "check_block_network_magic Mainnet sample_block r = (True, r)" for r
    by (simp add: check_block_network_magic_def sample_block_def sample_header_def)
  have txs: "check_block_txs ?e sample_block u False n r c = (r, c)" for u n r c
    by (simp add: check_block_txs_def check_dynamic_fees_def add_errors_def sample_block_def Let_def)
  have fs: "ne_insecure_fast_sync ?e = False" by (simp add: sample_env_def)
  show ?thesis
    using assms
    by (simp add: validate_block_with_checkpoint_for_network_def magic sample_header_valid sample_size small fs txs fees mc
        sample_structure sample_body case_prod_unfold Let_def del: One_nat_def)
qed

lemma sample_accepted:
  "bv_valid (fst (validate_block_with_checkpoint_for_network sample_env sample_block
     (Some sample_parent) utxo_new None Mainnet (cache_new, seq_pad_new)))"
proof -
  have e: "sample_env \<lparr> ne_randomx := ne_randomx sample_env \<rparr> = sample_env" by simp
  have "fst (check_block_pow sample_env sample_block (Some sample_parent) (fast_sync_requested None 1) False r seq_pad_new) = r" for r
    unfolding fast_sync_requested_def option.case(1) using sample_pow by (metis fst_conv)
  then show ?thesis using sample_validates [of "ne_randomx sample_env" None] unfolding e by blast
qed

theorem accepted_block_sound_witness:
  "bh_prev_hash (header sample_block) = block_hash_of sample_env sample_parent
   \<and> bh_version (header sample_parent) \<le> bh_version (header sample_block)
   \<and> fst (verify_pow (cr_blake3 (ne_crypto sample_env)) (ne_genesis sample_env) (ne_randomx sample_env)
        (block_hash_of sample_env sample_parent) (header sample_block) seq_pad_new) = ok
   \<and> verify_merkle_root sample_env sample_block"
proof -
  from accepted_block_sound [OF sample_accepted] show ?thesis
    by (simp add: fast_sync_requested_def sample_env_def)
qed

theorem coinbase_conserves_supply_witness:
  "sum_list (map declared_amount (tx_outputs (hd (transactions sample_block)))) + block_fee_burn sample_env sample_block
     = as_atomic (calculate_block_reward 1)"
proof -
  have "block_total_fees sample_block = amount_ZERO"
    by (simp add: block_total_fees_def non_coinbase_transactions_def sample_block_def)
  moreover have "\<not> ne_insecure_fast_sync sample_env" by (simp add: sample_env_def)
  ultimately show ?thesis
    using coinbase_conserves_supply [OF sample_accepted] by (simp add: amount_ZERO_def)
qed

theorem pow_skipped_below_checkpoint_witness:
  "bv_valid (fst (validate_block_with_checkpoint_for_network
     (sample_env \<lparr> ne_insecure_fast_sync := False, ne_randomx := \<lambda>_ _. None \<rparr>) sample_block
     (Some sample_parent) utxo_new (Some 1) Mainnet (cache_new, seq_pad_new)))"
proof -
  have "bv_valid (fst (validate_block_with_checkpoint_for_network (sample_env \<lparr> ne_randomx := \<lambda>_ _. Some hash_zero \<rparr>) sample_block
     (Some sample_parent) utxo_new (Some 1) Mainnet (cache_new, seq_pad_new)))"
    by (rule sample_validates) (simp add: check_block_pow_def sample_target_valid fast_sync_requested_def)
  moreover have "sample_env \<lparr> ne_randomx := f \<rparr> = sample_env \<lparr> ne_insecure_fast_sync := False, ne_randomx := f \<rparr>" for f
    by (simp add: sample_env_def)
  ultimately show ?thesis
    using pow_skipped_below_checkpoint [where b = sample_block and cp = 1 and env = sample_env
        and f = "\<lambda>_ _. Some hash_zero" and g = "\<lambda>_ _. None" and prev = "Some sample_parent" and u = utxo_new
        and network = Mainnet and caches = "(cache_new, seq_pad_new)"]
    by simp
qed

theorem block_malleable_witness:
  "validate_block_with_checkpoint_for_network sample_env
     (malleate (replicate 32 2) (replicate 32 9) (replicate 32 0) (replicate 32 0) sample_block)
     (Some sample_parent) utxo_new None Mainnet (cache_new, seq_pad_new)
   = validate_block_with_checkpoint_for_network sample_env sample_block
     (Some sample_parent) utxo_new None Mainnet (cache_new, seq_pad_new)"
proof -
  have "wf_header (header sample_block)"
    "wf_header (header (malleate (replicate 32 2) (replicate 32 9) (replicate 32 0) (replicate 32 0) sample_block))"
    by (simp_all add: malleate_def sample_block_def sample_header_def wf_header_def wf_hash_def hash_zero_def u64_max_def)
  moreover have "supply_commitment (header sample_block) \<noteq> replicate 32 9"
    by (simp add: sample_block_def sample_header_def)
  ultimately show ?thesis using block_malleable by blast
qed

theorem retarget_passes_gate_witness:
  "validate_difficulty_target
     (sample_block \<lparr> header := sample_header \<lparr> bh_target := calculate_difficulty
        [\<lparr> db_height = 0, db_timestamp = 0, db_target = max_target \<rparr>, \<lparr> db_height = 1, db_timestamp = 50, db_target = max_target \<rparr>] 2 \<rparr> \<rparr>)
     (Some sample_parent) bv_ok = bv_ok"
  by (rule retarget_passes_gate [of "[\<lparr> db_height = 0, db_timestamp = 0, db_target = max_target \<rparr>,
        \<lparr> db_height = 1, db_timestamp = 50, db_target = max_target \<rparr>]" _ _ 2])
    (simp_all add: sample_parent_def sample_header_def max_target_def wf_hash_def)

end
