(* ===== verification/Finality_Adapter.thy ===== *)
theory Finality_Adapter
  imports Finality
begin

section \<open>Attestations on the chain (codec.rs, consensus/rolling_finality.rs)\<close>

text \<open>
  The wire codec of attestations and the consensus adapter that feeds accepted blocks to the
  tracker. The body is serialised by the borsh crate, which is not part of the repository: its two
  functions for the derived \<open>WireAttestation\<close> are the parameters \<open>to_vec\<close> and \<open>try_from_slice\<close>,
  and the interface \<open>body_codec\<close> states what the codec relies on (decoding inverts encoding). It is
  interpreted on the published borsh layout of the struct: the arrays as they are, the height in
  eight and the signature length in four little-endian bytes.
\<close>

subsection \<open>The wire codec\<close>

definition SIGNATURE_LEN :: nat where "SIGNATURE_LEN = 64"

definition WIRE_MAGIC :: bytes where
  "WIRE_MAGIC = map (\<lambda>c. word_of_nat (of_char c)) ''CIP9''"

definition WIRE_VERSION :: u8 where "WIRE_VERSION = 1"

datatype wire_error =
    TooShort
  | BadMagic
  | UnknownVersion u8
  | BorshDecode
  | WrongSignatureLength (sig_expected: nat) (sig_actual: nat)

type_synonym body_encoder = "finality_attestation \<Rightarrow> bytes"
type_synonym body_decoder = "bytes \<Rightarrow> finality_attestation option"

definition wire_encode :: "body_encoder \<Rightarrow> finality_attestation \<Rightarrow> bytes" where
  "wire_encode to_vec att = WIRE_MAGIC @ [WIRE_VERSION] @ to_vec att"

definition wire_decode :: "body_decoder \<Rightarrow> bytes \<Rightarrow> wire_error + finality_attestation" where
  "wire_decode try_from_slice bs =
     (if length bs < length WIRE_MAGIC + 1 then Inl TooShort
      else if take (length WIRE_MAGIC) bs \<noteq> WIRE_MAGIC then Inl BadMagic
      else
        let version = bs ! length WIRE_MAGIC
        in if version \<noteq> WIRE_VERSION then Inl (UnknownVersion version)
           else
             case try_from_slice (drop (length WIRE_MAGIC + 1) bs) of
               None \<Rightarrow> Inl BorshDecode
             | Some wire \<Rightarrow>
                 if length (att_signature wire) \<noteq> SIGNATURE_LEN
                 then Inl (WrongSignatureLength SIGNATURE_LEN (length (att_signature wire)))
                 else Inr wire)"

subsection \<open>The adapter\<close>

datatype on_block_outcome =
    NoAttestation
  | Malformed wire_error
  | Rejected finality_error
  | Recorded
  | NewlyFinalizedBlock (nfb_height: nat) (nfb_hash: block_hash)

text \<open>\<open>extra.windows(4).position(..)\<close>: the suffix that starts at the first occurrence of the magic.\<close>

fun find_magic :: "bytes \<Rightarrow> bytes option" where
  "find_magic [] = None"
| "find_magic (b # bs) =
     (if length (b # bs) < length WIRE_MAGIC then None
      else if take (length WIRE_MAGIC) (b # bs) = WIRE_MAGIC then Some (b # bs)
      else find_magic bs)"

definition find_attestation :: "bytes \<Rightarrow> bytes option" where
  "find_attestation extra = (if length extra < length WIRE_MAGIC then None else find_magic extra)"

definition on_accepted_block ::
    "body_decoder \<Rightarrow> (finality_attestation \<Rightarrow> bool) \<Rightarrow> finality_tracker \<Rightarrow> nat \<Rightarrow> bytes
       \<Rightarrow> on_block_outcome \<times> finality_tracker" where
  "on_accepted_block try_from_slice verify t block_height coinbase_extra =
     (case find_attestation coinbase_extra of
        None \<Rightarrow> (NoAttestation, t)
      | Some attestation_bytes \<Rightarrow>
          case wire_decode try_from_slice attestation_bytes of
            Inl e \<Rightarrow> (Malformed e, t)
          | Inr attestation \<Rightarrow>
              let t = record_block t (att_miner attestation) block_height
              in case apply_attestation verify t attestation of
                   (Inr Accepted, t') \<Rightarrow> (Recorded, t')
                 | (Inr (NewlyFinalized h x), t') \<Rightarrow> (NewlyFinalizedBlock h x, t')
                 | (Inl e, t') \<Rightarrow> (Rejected e, t'))"

subsection \<open>Round trip\<close>

lemma length_WIRE_MAGIC [simp]: "length WIRE_MAGIC = 4"
  by (simp add: WIRE_MAGIC_def)

locale body_codec =
  fixes to_vec :: "finality_attestation \<Rightarrow> bytes"
    and try_from_slice :: "bytes \<Rightarrow> finality_attestation option"
    and well_formed :: "finality_attestation \<Rightarrow> bool"
  assumes decode_encode: "well_formed a \<Longrightarrow> try_from_slice (to_vec a) = Some a"
begin

lemma wire_decode_encode:
  "well_formed a \<Longrightarrow> wire_decode try_from_slice (wire_encode to_vec a) =
     (if length (att_signature a) = SIGNATURE_LEN then Inr a
      else Inl (WrongSignatureLength SIGNATURE_LEN (length (att_signature a))))"
  by (simp add: wire_decode_def wire_encode_def decode_encode Let_def nth_append)

lemma wire_encode_inj:
  "well_formed a \<Longrightarrow> well_formed b \<Longrightarrow> wire_encode to_vec a = wire_encode to_vec b \<Longrightarrow> a = b"
  by (metis decode_encode option.inject append_same_eq append.assoc same_append_eq wire_encode_def)

end

text \<open>The published layout of the derived struct.\<close>

definition wf_attestation :: "finality_attestation \<Rightarrow> bool" where
  "wf_attestation a =
     (length (att_miner a) = 32 \<and> length (att_hash a) = 32 \<and> att_height a \<le> u64_max
      \<and> length (att_signature a) < 2 ^ 32)"

definition borsh_to_vec :: "finality_attestation \<Rightarrow> bytes" where
  "borsh_to_vec a = att_miner a @ le_bytes 8 (att_height a) @ att_hash a
     @ le_bytes 4 (length (att_signature a)) @ att_signature a"

definition borsh_try_from_slice :: "bytes \<Rightarrow> finality_attestation option" where
  "borsh_try_from_slice bs =
     (if length bs < 76 then None
      else
        let n = from_le_bytes (take 4 (drop 72 bs));
            s = drop 76 bs
        in if length s \<noteq> n then None
           else Some \<lparr> att_miner = take 32 bs, att_height = from_le_bytes (take 8 (drop 32 bs)),
                       att_hash = take 32 (drop 40 bs), att_signature = s \<rparr>)"

interpretation borsh: body_codec borsh_to_vec borsh_try_from_slice wf_attestation
proof
  fix a assume a: "wf_attestation a"
  have "from_le_bytes (le_bytes 8 (att_height a)) = att_height a"
    using a by (simp add: from_le_bytes_le_bytes wf_attestation_def u64_max_def)
  moreover have "from_le_bytes (le_bytes 4 (length (att_signature a))) = length (att_signature a)"
    using a by (simp add: from_le_bytes_le_bytes wf_attestation_def)
  ultimately show "borsh_try_from_slice (borsh_to_vec a) = Some a"
    using a by (cases a) (simp add: borsh_try_from_slice_def borsh_to_vec_def wf_attestation_def Let_def)
qed

lemma WIRE_MAGIC_bytes: "WIRE_MAGIC = [67, 73, 80, 57]"
  by code_simp

lemma find_attestation_start:
  "find_attestation (wire_encode to_vec a) = Some (wire_encode to_vec a)"
  by (simp add: find_attestation_def wire_encode_def WIRE_MAGIC_bytes)

lemma le_bytes_0: "le_bytes k 0 = replicate k 0"
  by (induction k) auto

lemma le_bytes_8_small:
  assumes "height < 2 ^ 24"
  obtains b0 b1 b2 where "le_bytes 8 height = [b0, b1, b2, 0, 0, 0, 0, 0]"
proof -
  have "height div 256 div 256 div 256 = 0" using assms by (simp add: div_mult2_eq [symmetric])
  then have "le_bytes (Suc (Suc (Suc 5))) height = word_of_nat height # word_of_nat (height div 256)
      # word_of_nat (height div 256 div 256) # replicate 5 0"
    by (simp only: le_bytes.simps le_bytes_0)
  moreover have "replicate 5 (0 :: u8) = [0, 0, 0, 0, 0]" by code_simp
  ultimately show ?thesis by (intro that) simp
qed

lemma find_attestation_after_height:
  assumes "height < 2 ^ 24"
  shows "find_attestation (le_bytes 8 height @ wire_encode to_vec a) = Some (wire_encode to_vec a)"
proof -
  obtain b0 b1 b2 where "le_bytes 8 height = [b0, b1, b2, 0, 0, 0, 0, 0]"
    using assms by (rule le_bytes_8_small)
  then show ?thesis
    by (simp add: find_attestation_def wire_encode_def WIRE_MAGIC_bytes)
qed

text \<open>An attestation written after the height in the coinbase is found and read back unchanged, for
  every encoder and decoder of the body that are inverse on it; a signature of another length is
  reported as such.\<close>

theorem attestation_roundtrip:
  assumes "try_from_slice (to_vec a) = Some a" and "height < 2 ^ 24"
  shows "find_attestation (le_bytes 8 height @ wire_encode to_vec a) = Some (wire_encode to_vec a)
       \<and> wire_decode try_from_slice (wire_encode to_vec a) =
           (if length (att_signature a) = SIGNATURE_LEN then Inr a
            else Inl (WrongSignatureLength SIGNATURE_LEN (length (att_signature a))))"
  using find_attestation_after_height [OF assms(2)] assms(1)
  by (simp add: wire_decode_def wire_encode_def Let_def nth_append)

definition sample_attestation :: finality_attestation where
  "sample_attestation = \<lparr> att_miner = replicate 32 17, att_height = 12345, att_hash = replicate 32 34,
     att_signature = replicate 64 51 \<rparr>"

lemma sample_attestation_wf: "wf_attestation sample_attestation"
  by (simp add: wf_attestation_def sample_attestation_def u64_max_def)

lemma sample_attestation_decodes:
  "wire_decode borsh_try_from_slice (wire_encode borsh_to_vec sample_attestation) = Inr sample_attestation"
  using borsh.wire_decode_encode [OF sample_attestation_wf]
  by (simp add: sample_attestation_def SIGNATURE_LEN_def)

theorem attestation_roundtrip_witness:
  "wire_decode borsh_try_from_slice (wire_encode borsh_to_vec sample_attestation) = Inr sample_attestation
   \<and> find_attestation (le_bytes 8 500 @ wire_encode borsh_to_vec sample_attestation)
       = Some (wire_encode borsh_to_vec sample_attestation)"
  using attestation_roundtrip [of borsh_try_from_slice borsh_to_vec sample_attestation 500]
    borsh.decode_encode [OF sample_attestation_wf]
  by (simp add: sample_attestation_def SIGNATURE_LEN_def)

subsection \<open>The adapter and the tracker\<close>

lemma on_accepted_block_inv:
  "tracker_inv t \<Longrightarrow> tracker_inv (snd (on_accepted_block try_from_slice verify t h extra))"
  by (auto simp: on_accepted_block_def Let_def record_block_inv split: option.splits sum.splits
      apply_outcome.splits prod.splits dest: apply_inv [OF record_block_inv])

lemma on_accepted_block_decoded:
  assumes "find_attestation extra = Some bs" and "wire_decode try_from_slice bs = Inr a"
  shows "on_accepted_block try_from_slice verify t h extra =
    (case apply_attestation verify (record_block t (att_miner a) h) a of
       (Inr Accepted, t') \<Rightarrow> (Recorded, t')
     | (Inr (NewlyFinalized h x), t') \<Rightarrow> (NewlyFinalizedBlock h x, t')
     | (Inl e, t') \<Rightarrow> (Rejected e, t'))"
  using assms by (simp add: on_accepted_block_def Let_def)

lemma length_bt_insert:
  "bt_invar m \<Longrightarrow> map_of m k = None \<Longrightarrow> length (bt_insert k v m) = length m + 1"
proof -
  assume "bt_invar m" "map_of m k = None"
  then have "filter (\<lambda>p. k < fst p) m = filter (\<lambda>p. \<not> fst p < k) m"
    by (intro filter_cong) (force simp: map_of_eq_None_iff not_less)+
  then show ?thesis using sum_length_filter_compl [of "\<lambda>p. fst p < k" m] by (simp add: bt_insert_def)
qed

text \<open>An attestation with an invalid signature still enters its claimed key into the active set. The
  adapter records the block for the unverified key before it applies the attestation, so the
  outcome is a rejection, yet the set of miners whose two thirds are needed has grown by the
  forged key.\<close>

theorem forged_attestation_joins_active_set:
  assumes "tracker_inv t" and "find_attestation extra = Some bs" and "wire_decode try_from_slice bs = Inr a"
    and "\<not> verify a" and "map_of (miners (active_set t)) (att_miner a) = None"
    and "0 < window (active_set t)"
  shows "fst (on_accepted_block try_from_slice verify t h extra) = Rejected InvalidSignature
       \<and> is_active (active_set (snd (on_accepted_block try_from_slice verify t h extra))) (att_miner a) h
       \<and> total_count (active_set (snd (on_accepted_block try_from_slice verify t h extra)))
           = total_count (active_set t) + 1"
proof -
  let ?t = "record_block t (att_miner a) h"
  have out: "on_accepted_block try_from_slice verify t h extra = (Rejected InvalidSignature, ?t)"
    using on_accepted_block_decoded [OF assms(2,3), of verify t h] assms(4)
    by (simp add: apply_attestation_alt)
  have "active_set ?t = active_record_block (active_set t) (att_miner a) h"
    by (simp add: record_block_def prune_stale_attestations_def Let_def)
  then show ?thesis
    using out assms(1,5,6)
    by (simp add: active_record_block_def is_active_def is_active_record_def total_count_def
        length_bt_insert tracker_inv_def)
qed

theorem forged_attestation_joins_active_set_witness:
  "fst (on_accepted_block borsh_try_from_slice (\<lambda>_. False) tracker_new_default 500
     (wire_encode borsh_to_vec sample_attestation)) = Rejected InvalidSignature
   \<and> total_count (active_set (snd (on_accepted_block borsh_try_from_slice (\<lambda>_. False) tracker_new_default 500
       (wire_encode borsh_to_vec sample_attestation)))) = 1"
  using forged_attestation_joins_active_set [OF tracker_inv_new(2) find_attestation_start
      sample_attestation_decodes, of "\<lambda>_. False" 500]
  by (simp add: tracker_new_default_def active_set_new_def DEFAULT_WINDOW_def total_count_def)

end
