(* ===== verification/Chain.thy ===== *)
theory Chain
  imports Block_Validation Finality_Adapter
begin

section \<open>The block chain (chain.rs)\<close>

text \<open>
  \<open>Blockchain\<close> with the state behind its lock, and the operations that change it: \<open>init_genesis\<close>,
  \<open>add_block\<close> with the extension of the tip, the storing of a fork block and the reorganisation with
  its two rollback paths, and \<open>rollback_to_height\<close>. A call is one atomic step: the source serialises
  the mutations with a write lock, and the re-check for a tip that moved in between never fires when
  calls do not overlap. The database is optional; its trees are maps whose operations succeed (the
  source aborts the process when persisting an accepted block fails). Arithmetic the source guards
  with a panic gives \<open>Halted\<close> (the release profile aborts), and a loop of the source that would not
  end gives \<open>Diverges\<close>. The shielded, spark and kernel stores and the cut-through engine are \<open>None\<close> in
  both constructors and their hooks do nothing.
\<close>

subsection \<open>State\<close>

datatype block_status =
    Accepted
  | AcceptedFork
  | AcceptedReorg (orphaned_txs: "transaction list")
  | AlreadyKnown
  | Orphan
  | Invalid (reasons: "string list")

datatype chain_error =
    ReorgTooDeepError (cerr_depth: nat) (cerr_max: nat)
  | Corruption
  | GenesisMismatch
  | RollbackPastCheckpoint (cerr_checkpoint: nat)
  | Halted
  | Diverges

record chain_tip =
  ct_hash :: hash
  ct_height :: nat
  ct_difficulty :: nat
  ct_timestamp :: nat

record chain_stats =
  cs_height :: nat
  cs_total_blocks :: nat
  cs_total_transactions :: nat
  cs_total_supply :: nat
  cs_total_burned :: nat
  cs_difficulty :: nat
  cs_tip_hash :: hash
  cs_total_difficulty :: nat

definition chain_stats_default :: chain_stats where
  "chain_stats_default = \<lparr> cs_height = 0, cs_total_blocks = 0, cs_total_transactions = 0, cs_total_supply = 0,
     cs_total_burned = 0, cs_difficulty = 0, cs_tip_hash = hash_zero, cs_total_difficulty = 0 \<rparr>"

datatype chain_event_type = BlockAccepted | ForkDetected | Reorg | OrphanReceived | BlockRejected | CheckpointRecorded

record chain_event =
  ev_type :: chain_event_type
  ev_height :: nat
  ev_hash :: hash
  ev_timestamp :: nat

definition MAX_CHAIN_EVENTS :: nat where "MAX_CHAIN_EVENTS = 500"
definition MAX_BLOCK_CACHE :: nat where "MAX_BLOCK_CACHE = 500"
definition MTP_WINDOW :: nat where "MTP_WINDOW = 11"

text \<open>The chain state row and the trees of the database (\<open>db/state.rs\<close>, \<open>db/blocks.rs\<close>). The output index
  of the database is the field \<open>db_output_index\<close> of the UTXO set, which shares the handle.\<close>

record chain_state_data =
  csd_tip_hash :: hash
  csd_height :: nat
  csd_total_difficulty :: nat
  csd_total_supply :: nat
  csd_total_burned :: nat
  csd_last_checkpoint :: nat

record chain_db =
  cd_blocks :: "(hash, block) hash_map"
  cd_heights :: "nat \<rightharpoonup> hash"
  cd_state :: "chain_state_data option"
  cd_checkpoints :: "nat \<rightharpoonup> hash"
  cd_tx_index :: "hash \<rightharpoonup> nat \<times> nat"
  cd_genesis :: "hash option"

record blockchain =
  bc_network :: network_type
  bc_blocks :: "(hash, block) hash_map"
  bc_heights :: "(nat, hash) hash_map"
  bc_tip :: chain_tip
  bc_stats :: chain_stats
  bc_genesis_hash :: "hash option"
  bc_utxos :: utxo_set
  bc_events :: "chain_event list"
  bc_db :: "chain_db option"
  bc_finality :: "finality_tracker option"
  bc_caches :: "verification_cache \<times> seq_pad_cache"
  bc_generation :: nat

definition new_with_network :: "network_type \<Rightarrow> blockchain" where
  "new_with_network network = \<lparr> bc_network = network, bc_blocks = [], bc_heights = [],
     bc_tip = \<lparr> ct_hash = hash_zero, ct_height = 0, ct_difficulty = 1, ct_timestamp = 0 \<rparr>,
     bc_stats = chain_stats_default, bc_genesis_hash = None, bc_utxos = utxo_new, bc_events = [], bc_db = None,
     bc_finality = None, bc_caches = (cache_new, seq_pad_new), bc_generation = 0 \<rparr>"

definition with_database :: "chain_db \<Rightarrow> (public_key \<rightharpoonup> output_index_entry) \<Rightarrow> network_type \<Rightarrow> blockchain" where
  "with_database db oi network = (new_with_network network)
     \<lparr> bc_db := Some db, bc_utxos := utxo_new \<lparr> db_output_index := Some oi \<rparr> \<rparr>"

subsection \<open>Queries\<close>

definition get_block :: "blockchain \<Rightarrow> hash \<Rightarrow> block option" where
  "get_block bc h =
     (case map_of (bc_blocks bc) h of
        Some b \<Rightarrow> Some b
      | None \<Rightarrow> (case bc_db bc of Some db \<Rightarrow> map_of (cd_blocks db) h | None \<Rightarrow> None))"

definition get_block_hash :: "blockchain \<Rightarrow> nat \<Rightarrow> hash option" where
  "get_block_hash bc height =
     (case map_of (bc_heights bc) height of
        Some h \<Rightarrow> Some h
      | None \<Rightarrow> (case bc_db bc of Some db \<Rightarrow> cd_heights db height | None \<Rightarrow> None))"

definition is_known :: "blockchain \<Rightarrow> hash \<Rightarrow> bool" where
  "is_known bc h = (map_of (bc_blocks bc) h \<noteq> None
     \<or> (case bc_db bc of Some db \<Rightarrow> map_of (cd_blocks db) h \<noteq> None | None \<Rightarrow> False))"

fun lineage_timestamps :: "blockchain \<Rightarrow> nat \<Rightarrow> hash \<Rightarrow> nat list" where
  "lineage_timestamps bc 0 cursor = []"
| "lineage_timestamps bc (Suc n) cursor =
     (case get_block bc cursor of
        Some anc \<Rightarrow> bh_timestamp (header anc) # lineage_timestamps bc n (bh_prev_hash (header anc))
      | None \<Rightarrow> [])"

definition median_time_past_of_lineage :: "blockchain \<Rightarrow> hash \<Rightarrow> nat option" where
  "median_time_past_of_lineage bc prev_hash =
     (let timestamps = lineage_timestamps bc MTP_WINDOW prev_hash
      in if MTP_WINDOW \<le> length timestamps then Some (sort timestamps ! (length timestamps div 2)) else None)"

subsection \<open>Difficulty windows\<close>

definition DIFFICULTY_WINDOW :: nat where "DIFFICULTY_WINDOW = 144"

definition difficulty_entry :: "nat \<Rightarrow> block \<Rightarrow> difficulty_block" where
  "difficulty_entry h b = \<lparr> db_height = h, db_timestamp = bh_timestamp (header b), db_target = bh_target (header b) \<rparr>"

definition main_difficulty_block :: "blockchain \<Rightarrow> nat \<Rightarrow> difficulty_block option" where
  "main_difficulty_block bc h =
     Option.bind (map_of (bc_heights bc) h) (\<lambda>x. map_option (difficulty_entry h) (map_of (bc_blocks bc) x))"

definition get_difficulty_blocks :: "blockchain \<Rightarrow> nat \<Rightarrow> difficulty_block list" where
  "get_difficulty_blocks bc up_to_height =
     List.map_filter (main_difficulty_block bc) [up_to_height - DIFFICULTY_WINDOW..<up_to_height]"

text \<open>Main-chain blocks up to the fork point, blocks of the branch above it.\<close>

definition mixed_window :: "blockchain \<Rightarrow> nat \<Rightarrow> (nat \<Rightarrow> difficulty_block option) \<Rightarrow> nat \<Rightarrow> difficulty_block list" where
  "mixed_window bc fork_point upper height =
     List.map_filter (\<lambda>h. if h \<le> fork_point then main_difficulty_block bc h else upper (h - fork_point - 1))
       [height - DIFFICULTY_WINDOW..<height]"

definition nth_opt :: "'a list \<Rightarrow> nat \<Rightarrow> 'a option" where
  "nth_opt xs i = (if i < length xs then Some (xs ! i) else None)"

text \<open>The walk back to the main chain over the cached blocks, newest first. A block met twice means that the
  loop of the source never ends.\<close>

function fork_trace :: "blockchain \<Rightarrow> hash set \<Rightarrow> hash \<Rightarrow> (difficulty_block list \<times> nat) option" where
  "fork_trace bc visited cursor =
     (if cursor \<in> visited then None
      else
        case map_of (bc_blocks bc) cursor of
          None \<Rightarrow> Some ([], 0)
        | Some blk \<Rightarrow>
            let h = block_height blk
            in if map_of (bc_heights bc) h = Some cursor then Some ([], h)
               else if h = 0 then Some ([difficulty_entry h blk], 0)
               else map_option (\<lambda>(rest, fork_point). (difficulty_entry h blk # rest, fork_point))
                      (fork_trace bc (insert cursor visited) (bh_prev_hash (header blk))))"
  by pat_completeness auto
termination
  by (relation "measure (\<lambda>(bc, visited, _). card (fst ` set (bc_blocks bc) - visited))")
    (simp_all add: visited_decreases)

declare fork_trace.simps [simp del]

definition fork_window :: "blockchain \<Rightarrow> block \<Rightarrow> difficulty_block list option" where
  "fork_window bc b =
     map_option (\<lambda>(trace, fork_point). mixed_window bc fork_point (nth_opt (rev trace)) (block_height b))
       (fork_trace bc {} (bh_prev_hash (header b)))"

definition target_matches :: "difficulty_block list \<Rightarrow> block \<Rightarrow> bool" where
  "target_matches w b =
     (2 \<le> length w \<longrightarrow> bh_target (header b) = calculate_difficulty w (block_height b))"

subsection \<open>Small updates\<close>

definition record_event :: "'p node_env \<Rightarrow> chain_event_type \<Rightarrow> nat \<Rightarrow> hash \<Rightarrow> blockchain \<Rightarrow> blockchain" where
  "record_event env ty height h bc = bc \<lparr> bc_events :=
     (if MAX_CHAIN_EVENTS \<le> length (bc_events bc) then drop 1 (bc_events bc) else bc_events bc)
       @ [\<lparr> ev_type = ty, ev_height = height, ev_hash = h, ev_timestamp = ne_now env \<rparr>] \<rparr>"

definition get_events :: "blockchain \<Rightarrow> nat \<Rightarrow> chain_event list" where
  "get_events bc limit = take (min limit (length (bc_events bc))) (rev (bc_events bc))"

fun evict_entries :: "nat \<Rightarrow> (nat \<times> hash) list \<Rightarrow> blockchain \<Rightarrow> blockchain" where
  "evict_entries n [] bc = bc"
| "evict_entries n ((height, h) # es) bc =
     (if n = 0 then bc
      else if height = 0 then evict_entries n es bc
      else if ct_height (bc_tip bc) \<le> height + 200 then evict_entries n es bc
      else evict_entries (n - 1) es
             (bc \<lparr> bc_blocks := hm_remove h (bc_blocks bc), bc_heights := hm_remove height (bc_heights bc) \<rparr>))"

definition evict_block_cache :: "blockchain \<Rightarrow> blockchain" where
  "evict_block_cache bc =
     (if length (bc_blocks bc) \<le> MAX_BLOCK_CACHE then bc
      else evict_entries (length (bc_blocks bc) - MAX_BLOCK_CACHE) (sort_key fst (bc_heights bc)) bc)"

text \<open>Supply and burn move together; the checked operations panic in the source.\<close>

definition add_emission :: "'p node_env \<Rightarrow> nat \<Rightarrow> block \<Rightarrow> chain_stats \<Rightarrow> chain_stats option" where
  "add_emission env height b s =
     Option.bind (checked_add u128_max (cs_total_supply s) (as_atomic (calculate_block_reward height)))
       (\<lambda>sup. map_option (\<lambda>burn. s \<lparr> cs_total_supply := sup, cs_total_burned := burn \<rparr>)
          (checked_add u128_max (cs_total_burned s) (block_fee_burn env b)))"

definition sub_emission :: "'p node_env \<Rightarrow> nat \<Rightarrow> block \<Rightarrow> chain_stats \<Rightarrow> chain_stats option" where
  "sub_emission env height b s =
     Option.bind (checked_sub (cs_total_supply s) (as_atomic (calculate_block_reward height)))
       (\<lambda>sup. map_option (\<lambda>burn. s \<lparr> cs_total_supply := sup, cs_total_burned := burn \<rparr>)
          (checked_sub (cs_total_burned s) (block_fee_burn env b)))"

definition connect_utxos :: "'p node_env \<Rightarrow> nat \<Rightarrow> block \<Rightarrow> utxo_set \<Rightarrow> utxo_set" where
  "connect_utxos env height b u = snd (apply_batch (batch_from_block (txid env) height (transactions b)) u)"

definition disconnect_utxos :: "'p node_env \<Rightarrow> block \<Rightarrow> utxo_set \<Rightarrow> utxo_set" where
  "disconnect_utxos env b u = snd (apply_batch (batch_disconnect_block (txid env) (transactions b)) u)"

definition index_entries :: "nat \<Rightarrow> transaction list \<Rightarrow> (public_key \<times> output_index_entry) list" where
  "index_entries height txs = concat (map (\<lambda>tx. map (\<lambda>out. (stealth_address out,
     \<lparr> oi_commitment = commitment out, oi_height = height, oi_is_coinbase = is_coinbase tx,
       oi_lock_height = lock_height out \<rparr>)) (tx_outputs tx)) txs)"

definition persist_output_index :: "transaction list \<Rightarrow> nat \<Rightarrow> blockchain \<Rightarrow> blockchain" where
  "persist_output_index txs height bc =
     bc \<lparr> bc_utxos := bc_utxos bc \<lparr> db_output_index :=
       map_option (fold (\<lambda>(a, e). or_insert a e) (index_entries height txs)) (db_output_index (bc_utxos bc)) \<rparr> \<rparr>"

definition index_txs :: "'p node_env \<Rightarrow> nat \<Rightarrow> transaction list \<Rightarrow> (hash \<rightharpoonup> nat \<times> nat) \<Rightarrow> (hash \<rightharpoonup> nat \<times> nat)" where
  "index_txs env height txs m = fold (\<lambda>(i, tx) m. m(txid env tx \<mapsto> (height, i))) (enumerate 0 txs) m"

subsection \<open>Genesis\<close>

definition MAINNET_GENESIS_HASH :: bytes where
  "MAINNET_GENESIS_HASH =
     [0x9d, 0xbb, 0x99, 0xab, 0x3e, 0x63, 0xac, 0x14, 0x0f, 0x4a, 0xdf, 0xb8, 0xfb, 0x76, 0xef, 0xbd,
      0x66, 0x5f, 0xb7, 0xf2, 0x3d, 0x75, 0xda, 0x9f, 0xa7, 0xda, 0x82, 0xe4, 0xd5, 0xc0, 0x33, 0x68]"

definition TESTNET_GENESIS_HASH :: bytes where
  "TESTNET_GENESIS_HASH =
     [0x41, 0xf9, 0x70, 0xdf, 0x61, 0x52, 0x42, 0x5a, 0x29, 0x38, 0x72, 0x54, 0x23, 0x23, 0x5c, 0x2c,
      0x40, 0xec, 0x52, 0x55, 0x6e, 0xcc, 0x0f, 0xd1, 0x42, 0x2d, 0x58, 0x86, 0x52, 0xcc, 0x56, 0xb4]"

fun expected_genesis_hash :: "network_type \<Rightarrow> hash" where
  "expected_genesis_hash Mainnet = Hash MAINNET_GENESIS_HASH"
| "expected_genesis_hash Testnet = Hash TESTNET_GENESIS_HASH"
| "expected_genesis_hash Regtest = Hash TESTNET_GENESIS_HASH"

definition create_genesis_coinbase :: "bytes \<Rightarrow> transaction" where
  "create_genesis_coinbase message =
     \<lparr> tx_version = 1, tx_ty = Coinbase, tx_inputs = [],
       tx_outputs = [\<lparr> stealth_address = replicate 32 0, tx_public_key = replicate 32 0, commitment = replicate 32 0,
         encrypted_amount = replicate 8 0, view_tag = 0, lock_height = None, encrypted_memo = [] \<rparr>],
       tx_fee = Amount 0, range_proof = [], tx_extra = message \<rparr>"

definition genesis_block :: "'p node_env \<Rightarrow> network_type \<Rightarrow> nat \<Rightarrow> bytes \<Rightarrow> nat \<Rightarrow> block" where
  "genesis_block env magic_of timestamp message difficulty =
     (let coinbase_tx = create_genesis_coinbase message
      in \<lparr> header = \<lparr> network_magic = magic_bytes magic_of, bh_version = 1, bh_height = 0, bh_timestamp = timestamp,
             bh_prev_hash = hash_zero, bh_tx_root = merkle_root (cr_blake3 (ne_crypto env)) [txid env coinbase_tx],
             bh_anchor = hash_zero, bh_algorithm = 0, bh_nonce = 0, bh_target = from_difficulty difficulty,
             miner_pubkey_of = replicate 32 0, supply_commitment = replicate 32 0, checkpoint_vote = None,
             spark_set_root = replicate 32 0, mw_kernel_root = replicate 32 0 \<rparr>,
           transactions = [coinbase_tx] \<rparr>)"

definition mainnet_genesis :: "'p node_env \<Rightarrow> block" where
  "mainnet_genesis env = genesis_block env Mainnet 1790812800
     (ascii_bytes ''CoinCync Mainnet Genesis - Privacy You Can Audit - October 2026'') 10000"

definition testnet_genesis :: "'p node_env \<Rightarrow> block" where
  "testnet_genesis env = genesis_block env Testnet 1776818628
     (ascii_bytes ''CoinCync Public Testnet - April 2026 - Trust the Math'') 4800"

fun create_genesis_block_for :: "'p node_env \<Rightarrow> network_type \<Rightarrow> block" where
  "create_genesis_block_for env Mainnet = mainnet_genesis env"
| "create_genesis_block_for env Testnet = testnet_genesis env"
| "create_genesis_block_for env Regtest = testnet_genesis env"

text \<open>Both hardcoded tables hold the genesis block only.\<close>

definition verify_checkpoint :: "network_type \<Rightarrow> nat \<Rightarrow> hash \<Rightarrow> bool option" where
  "verify_checkpoint network height h = (if height = 0 then Some (expected_genesis_hash network = h) else None)"

definition init_genesis :: "'p node_env \<Rightarrow> blockchain \<Rightarrow> (chain_error + hash) \<times> blockchain" where
  "init_genesis env bc =
     (let genesis = create_genesis_block_for env (bc_network bc);
          h = block_hash_of env genesis;
          bc = bc \<lparr> bc_generation := bc_generation bc + 1 \<rparr>
      in if h \<noteq> expected_genesis_hash (bc_network bc) then (Inl GenesisMismatch, bc)
         else
           let reward = as_atomic (calculate_block_reward 0);
               bc = bc \<lparr> bc_blocks := hm_insert h genesis (bc_blocks bc),
                         bc_heights := hm_insert 0 h (bc_heights bc),
                         bc_genesis_hash := Some h,
                         bc_tip := \<lparr> ct_hash = h, ct_height = 0, ct_difficulty = 1,
                                     ct_timestamp = bh_timestamp (header genesis) \<rparr>,
                         bc_stats := bc_stats bc \<lparr> cs_height := 0, cs_total_blocks := 1,
                           cs_total_transactions := length (transactions genesis), cs_tip_hash := h,
                           cs_total_supply := reward, cs_total_burned := 0 \<rparr>,
                         bc_utxos := connect_utxos env 0 genesis (bc_utxos bc) \<rparr>;
               bc = persist_output_index (transactions genesis) 0 bc;
               bc = bc \<lparr> bc_db := map_option (\<lambda>db. db
                         \<lparr> cd_blocks := hm_insert h genesis (cd_blocks db), cd_heights := (cd_heights db)(0 \<mapsto> h),
                           cd_genesis := Some h,
                           cd_state := Some \<lparr> csd_tip_hash = h, csd_height = 0, csd_total_difficulty = 1,
                             csd_total_supply = reward, csd_total_burned = 0, csd_last_checkpoint = 0 \<rparr>,
                           cd_checkpoints := (cd_checkpoints db)(0 \<mapsto> h) \<rparr>) (bc_db bc) \<rparr>
           in (Inr h, bc))"

subsection \<open>Accepting a block: the checks\<close>

text \<open>The last recorded checkpoint, handed to the validation of an arriving block.\<close>

definition stored_checkpoint :: "blockchain \<Rightarrow> nat option" where
  "stored_checkpoint bc =
     (case bc_db bc of
        None \<Rightarrow> None
      | Some db \<Rightarrow> (case cd_state db of
          None \<Rightarrow> None
        | Some s \<Rightarrow> if 0 < csd_last_checkpoint s then Some (csd_last_checkpoint s) else None))"

definition is_main_chain :: "blockchain \<Rightarrow> block \<Rightarrow> bool" where
  "is_main_chain bc b = (bh_prev_hash (header b) = ct_hash (bc_tip bc) \<or> block_height b = 0)"

definition mtp_ok :: "blockchain \<Rightarrow> block \<Rightarrow> bool" where
  "mtp_ok bc b = (11 \<le> block_height b \<longrightarrow>
     (case median_time_past_of_lineage bc (bh_prev_hash (header b)) of
        Some mtp \<Rightarrow> mtp < bh_timestamp (header b)
      | None \<Rightarrow> True))"

definition difficulty_window :: "blockchain \<Rightarrow> block \<Rightarrow> difficulty_block list option" where
  "difficulty_window bc b =
     (if is_main_chain bc b then Some (get_difficulty_blocks bc (block_height b)) else fork_window bc b)"

definition difficulty_check :: "blockchain \<Rightarrow> block \<Rightarrow> bool option" where
  "difficulty_check bc b =
     (if 1 \<le> block_height b then map_option (\<lambda>w. target_matches w b) (difficulty_window bc b) else Some True)"

text \<open>Everything \<open>add_block\<close> decides before it stores the block: \<open>None\<close> when the block may be stored.\<close>

definition check_new_block ::
    "'p::ab_group_add node_env \<Rightarrow> block \<Rightarrow> blockchain \<Rightarrow> (chain_error + block_status) option \<times> blockchain" where
  "check_new_block env b bc =
     (let h = block_hash_of env b;
          parent = get_block bc (bh_prev_hash (header b))
      in if is_known bc h then (Some (Inr AlreadyKnown), bc)
         else if parent = None \<and> 0 < block_height b
         then (Some (Inr Orphan), record_event env OrphanReceived (block_height b) h bc)
         else if block_height b \<noteq>
                (if block_height b = 0 then 0
                 else case parent of Some p \<Rightarrow> wrapping_add u64_max (block_height p) 1 | None \<Rightarrow> 0)
         then (Some (Inr (Invalid [''Invalid height''])), bc)
         else if verify_checkpoint (bc_network bc) (block_height b) h = Some False
         then (Some (Inr (Invalid [''Hardcoded checkpoint mismatch''])), bc)
         else
           case validate_block_with_checkpoint_for_network env b parent (bc_utxos bc) (stored_checkpoint bc)
                  (bc_network bc) (bc_caches bc) of
             (v, caches) \<Rightarrow>
               let bc = bc \<lparr> bc_caches := caches \<rparr>
               in if \<not> bv_valid v
                  then (Some (Inr (Invalid (bv_errors v))), record_event env BlockRejected (block_height b) h bc)
                  else if \<not> mtp_ok bc b
                  then (Some (Inr (Invalid [''Block timestamp is not greater than median-time-past''])), bc)
                  else
                    case difficulty_check bc b of
                      None \<Rightarrow> (Some (Inl Diverges), bc)
                    | Some False \<Rightarrow> (Some (Inr (Invalid [''Difficulty target mismatch''])), bc)
                    | Some True \<Rightarrow> (None, bc))"

definition store_block :: "hash \<Rightarrow> block \<Rightarrow> blockchain \<Rightarrow> blockchain" where
  "store_block h b bc = bc
     \<lparr> bc_blocks := hm_insert h b (bc_blocks bc),
       bc_db := map_option (\<lambda>db. db \<lparr> cd_blocks := hm_insert h b (cd_blocks db) \<rparr>) (bc_db bc) \<rparr>"

subsection \<open>Extending the tip\<close>

definition ROLLING_FINALITY_ENABLE_HEIGHT :: "bool \<Rightarrow> nat" where
  "ROLLING_FINALITY_ENABLE_HEIGHT testnet = (if testnet then 50000 else 25000)"

definition ROLLING_FINALITY_ENFORCE_HEIGHT :: "bool \<Rightarrow> nat" where
  "ROLLING_FINALITY_ENFORCE_HEIGHT testnet = (if testnet then 75000 else 50000)"

text \<open>The attestation codec's decoder and the signature verifier of the finality adapter.\<close>

record finality_env =
  fe_try_from_slice :: body_decoder
  fe_verify :: "finality_attestation \<Rightarrow> bool"

definition feed_finality :: "'p node_env \<Rightarrow> finality_env \<Rightarrow> block \<Rightarrow> blockchain \<Rightarrow> blockchain" where
  "feed_finality env fin b bc =
     (case bc_finality bc of
        None \<Rightarrow> bc
      | Some rf \<Rightarrow>
          if ROLLING_FINALITY_ENABLE_HEIGHT (ne_testnet env) \<le> block_height b
          then
            let extra = (case transactions b of tx # _ \<Rightarrow> if is_coinbase tx then tx_extra tx else [] | [] \<Rightarrow> [])
            in bc \<lparr> bc_finality :=
                 Some (snd (on_accepted_block (fe_try_from_slice fin) (fe_verify fin) rf (block_height b) extra)) \<rparr>
          else bc)"

definition state_row :: "hash \<Rightarrow> nat \<Rightarrow> chain_stats \<Rightarrow> nat \<Rightarrow> chain_state_data" where
  "state_row h height s last_checkpoint =
     \<lparr> csd_tip_hash = h, csd_height = height, csd_total_difficulty = cs_total_difficulty s,
       csd_total_supply = cs_total_supply s, csd_total_burned = as_u64 (cs_total_burned s),
       csd_last_checkpoint = last_checkpoint \<rparr>"

definition last_checkpoint_of :: "chain_db \<Rightarrow> nat" where
  "last_checkpoint_of db = (case cd_state db of Some s \<Rightarrow> csd_last_checkpoint s | None \<Rightarrow> 0)"

definition persist_tip :: "'p node_env \<Rightarrow> hash \<Rightarrow> block \<Rightarrow> blockchain \<Rightarrow> blockchain" where
  "persist_tip env h b bc =
     (case bc_db bc of
        None \<Rightarrow> bc
      | Some db \<Rightarrow>
          let height = block_height b;
              due = (0 < height \<and> height mod CHECKPOINT_INTERVAL = 0);
              db = db \<lparr> cd_tx_index := index_txs env height (transactions b) (cd_tx_index db),
                        cd_heights := (cd_heights db)(height \<mapsto> h),
                        cd_checkpoints := (if due then (cd_checkpoints db)(height \<mapsto> h) else cd_checkpoints db) \<rparr>;
              bc = (if due then record_event env CheckpointRecorded height h bc else bc)
          in bc \<lparr> bc_db := Some (db \<lparr> cd_state :=
               Some (state_row h height (bc_stats bc) (if due then height else last_checkpoint_of db)) \<rparr>) \<rparr>)"

definition tip_of :: "hash \<Rightarrow> block \<Rightarrow> chain_tip" where
  "tip_of h b = \<lparr> ct_hash = h, ct_height = block_height b,
     ct_difficulty = chain_work_from_target (bh_target (header b)), ct_timestamp = bh_timestamp (header b) \<rparr>"

definition extend_tip ::
    "'p node_env \<Rightarrow> finality_env \<Rightarrow> hash \<Rightarrow> block \<Rightarrow> blockchain \<Rightarrow> (chain_error + block_status) \<times> blockchain" where
  "extend_tip env fin h b bc =
     (let difficulty = chain_work_from_target (bh_target (header b));
          s = bc_stats bc;
          s = s \<lparr> cs_height := block_height b, cs_total_blocks := cs_total_blocks s + 1,
                  cs_total_transactions := cs_total_transactions s + length (transactions b),
                  cs_difficulty := difficulty, cs_tip_hash := h,
                  cs_total_difficulty := wrapping_add u128_max (cs_total_difficulty s) difficulty \<rparr>
      in case add_emission env (block_height b) b s of
           None \<Rightarrow> (Inl Halted, bc)
         | Some s \<Rightarrow>
             let bc = bc \<lparr> bc_heights := hm_insert (block_height b) h (bc_heights bc), bc_tip := tip_of h b,
                           bc_stats := s,
                           bc_utxos := evict_old_outputs (block_height b) 1000
                             (connect_utxos env (block_height b) b (bc_utxos bc)) \<rparr>;
                 bc = evict_block_cache bc;
                 bc = persist_output_index (transactions b) (block_height b) bc;
                 bc = persist_tip env h b bc;
                 bc = feed_finality env fin b bc
             in (Inr Accepted, record_event env BlockAccepted (block_height b) h bc))"

subsection \<open>Reorganisation: disconnecting\<close>

record disconnected =
  dc_blocks :: nat
  dc_txs :: nat
  dc_tx_lists :: "transaction list list"
  dc_heights :: "(nat \<times> hash) list"

definition nothing_disconnected :: disconnected where
  "nothing_disconnected = \<lparr> dc_blocks = 0, dc_txs = 0, dc_tx_lists = [], dc_heights = [] \<rparr>"

definition disconnect_at ::
    "'p node_env \<Rightarrow> nat \<Rightarrow> blockchain \<times> disconnected \<Rightarrow> (blockchain \<times> disconnected) option" where
  "disconnect_at env h = (\<lambda>(bc, dc).
     case map_of (bc_heights bc) h of
       None \<Rightarrow> Some (bc, dc)
     | Some oh \<Rightarrow>
         let finish = (\<lambda>(bc, dc). (bc \<lparr> bc_heights := hm_remove h (bc_heights bc) \<rparr>,
                                   dc \<lparr> dc_heights := dc_heights dc @ [(h, oh)] \<rparr>))
         in case map_of (bc_blocks bc) oh of
              None \<Rightarrow> Some (finish (bc, dc))
            | Some b \<Rightarrow>
                map_option (\<lambda>s. finish
                    (bc \<lparr> bc_utxos := disconnect_utxos env b (bc_utxos bc), bc_stats := s \<rparr>,
                     dc \<lparr> dc_blocks := dc_blocks dc + 1, dc_txs := dc_txs dc + length (transactions b),
                          dc_tx_lists := dc_tx_lists dc @ [transactions b] \<rparr>))
                  (sub_emission env h b (bc_stats bc)))"

fun disconnect_loop ::
    "'p node_env \<Rightarrow> nat list \<Rightarrow> blockchain \<times> disconnected \<Rightarrow> (blockchain \<times> disconnected) option" where
  "disconnect_loop env [] s = Some s"
| "disconnect_loop env (h # hs) s = Option.bind (disconnect_at env h s) (disconnect_loop env hs)"

subsection \<open>Reorganisation: connecting the branch\<close>

function collect_blocks :: "blockchain \<Rightarrow> nat \<Rightarrow> hash set \<Rightarrow> hash \<Rightarrow> block list" where
  "collect_blocks bc fork_point visited current_hash =
     (if current_hash \<in> visited then []
      else
        case get_block bc current_hash of
          None \<Rightarrow> []
        | Some b \<Rightarrow>
            if block_height b \<le> fork_point then []
            else b # collect_blocks bc fork_point (insert current_hash visited) (bh_prev_hash (header b)))"
  by pat_completeness auto
termination
proof (relation "measure (\<lambda>(bc, _, visited, _). card (fst ` set (bc_blocks bc
    @ (case bc_db bc of Some db \<Rightarrow> cd_blocks db | None \<Rightarrow> [])) - visited))", goal_cases)
  case (2 bc fork_point visited current_hash b)
  let ?store = "bc_blocks bc @ (case bc_db bc of Some db \<Rightarrow> cd_blocks db | None \<Rightarrow> [])"
  have "map_of ?store current_hash = Some b"
    using 2(2) by (auto simp: get_block_def map_add_def split: option.splits)
  with visited_decreases [OF this 2(1)] show ?case by simp
qed simp

declare collect_blocks.simps [simp del]

definition collect_fork_blocks :: "blockchain \<Rightarrow> block \<Rightarrow> nat \<Rightarrow> block list" where
  "collect_fork_blocks bc fork_tip fork_point = rev (collect_blocks bc fork_point {} (bh_prev_hash (header fork_tip)))"

text \<open>The window of the \<open>i\<close>-th branch block: main-chain blocks up to the fork point, then the branch blocks
  before it.\<close>

definition branch_window :: "blockchain \<Rightarrow> nat \<Rightarrow> block list \<Rightarrow> block \<Rightarrow> difficulty_block list" where
  "branch_window bc fork_point before b =
     mixed_window bc fork_point (\<lambda>i. map_option (\<lambda>fb. difficulty_entry (block_height fb) fb) (nth_opt before i))
       (block_height b)"

definition branch_target_ok :: "blockchain \<Rightarrow> nat \<Rightarrow> block list \<Rightarrow> block \<Rightarrow> bool" where
  "branch_target_ok bc fork_point before b =
     (1 \<le> block_height b \<longrightarrow> target_matches (branch_window bc fork_point before b) b)"

definition validate_against ::
    "'p::ab_group_add node_env \<Rightarrow> block \<Rightarrow> blockchain \<Rightarrow> block_validation \<times> blockchain" where
  "validate_against env b bc =
     (case validate_block_with_checkpoint_for_network env b (map_of (bc_blocks bc) (bh_prev_hash (header b)))
             (bc_utxos bc) None (bc_network bc) (bc_caches bc) of
        (v, caches) \<Rightarrow> (v, bc \<lparr> bc_caches := caches \<rparr>))"

text \<open>\<open>None\<close>: the process halted; otherwise the state and the error that stopped the loop, if any.\<close>

fun connect_fork ::
    "'p::ab_group_add node_env \<Rightarrow> nat \<Rightarrow> block list \<Rightarrow> block list \<Rightarrow> blockchain
     \<Rightarrow> (blockchain \<times> string list option) option" where
  "connect_fork env fork_point before [] bc = Some (bc, None)"
| "connect_fork env fork_point before (b # bs) bc =
     (case validate_against env b bc of
        (v, bc) \<Rightarrow>
          if \<not> bv_valid v then Some (bc, Some (''Invalid fork block'' # bv_errors v))
          else if \<not> branch_target_ok bc fork_point before b
          then Some (bc, Some [''Fork block difficulty mismatch''])
          else
            case add_emission env (block_height b) b (bc_stats bc) of
              None \<Rightarrow> None
            | Some s \<Rightarrow>
                connect_fork env fork_point (before @ [b]) bs
                  (bc \<lparr> bc_heights := hm_insert (block_height b) (block_hash_of env b) (bc_heights bc),
                        bc_utxos := connect_utxos env (block_height b) b (bc_utxos bc),
                        bc_stats := s \<rparr>))"

definition check_reorg_tip ::
    "'p::ab_group_add node_env \<Rightarrow> block \<Rightarrow> blockchain \<Rightarrow> blockchain \<times> string list option" where
  "check_reorg_tip env b bc =
     (case validate_against env b bc of
        (v, bc) \<Rightarrow> (bc, if bv_valid v then None else Some (''Invalid reorg tip block'' # bv_errors v)))"

subsection \<open>Reorganisation: rolling back a failed attempt\<close>

text \<open>Path A undoes the branch blocks that own their height, path B undoes all of them.\<close>

fun undo_fork :: "'p node_env \<Rightarrow> bool \<Rightarrow> block list \<Rightarrow> blockchain \<Rightarrow> blockchain option" where
  "undo_fork env guarded [] bc = Some bc"
| "undo_fork env guarded (b # bs) bc =
     (if guarded \<and> map_of (bc_heights bc) (block_height b) \<noteq> Some (block_hash_of env b)
      then undo_fork env guarded bs bc
      else
        case sub_emission env (block_height b) b (bc_stats bc) of
          None \<Rightarrow> None
        | Some s \<Rightarrow> undo_fork env guarded bs
                      (bc \<lparr> bc_utxos := disconnect_utxos env b (bc_utxos bc), bc_stats := s \<rparr>))"

definition remove_heights :: "nat list \<Rightarrow> blockchain \<Rightarrow> blockchain" where
  "remove_heights hs bc = bc \<lparr> bc_heights := fold hm_remove hs (bc_heights bc) \<rparr>"

definition reapply_block :: "'p node_env \<Rightarrow> nat \<times> hash \<Rightarrow> blockchain \<Rightarrow> blockchain" where
  "reapply_block env = (\<lambda>(h, oh) bc.
     let bc = bc \<lparr> bc_heights := hm_insert h oh (bc_heights bc) \<rparr>
     in case map_of (bc_blocks bc) oh of
          None \<Rightarrow> bc
        | Some b \<Rightarrow> bc \<lparr> bc_utxos := connect_utxos env h b (bc_utxos bc) \<rparr>)"

definition rollback_reorg ::
    "'p node_env \<Rightarrow> bool \<Rightarrow> nat \<Rightarrow> nat \<Rightarrow> block list \<Rightarrow> disconnected \<Rightarrow> chain_tip \<Rightarrow> chain_stats \<Rightarrow> blockchain
     \<Rightarrow> blockchain option" where
  "rollback_reorg env guarded fork_point top_height fork_blocks dc tip stats bc =
     map_option (\<lambda>bc.
         (fold (reapply_block env) (rev (dc_heights dc)) (remove_heights (rev [fork_point + 1..<top_height + 1]) bc))
           \<lparr> bc_tip := tip, bc_stats := stats \<rparr>)
       (undo_fork env guarded (rev fork_blocks) bc)"

subsection \<open>Reorganisation: the commit\<close>

definition recount :: "nat \<Rightarrow> nat \<Rightarrow> nat \<Rightarrow> nat" where
  "recount have gone new =
     (case checked_sub have gone of Some v \<Rightarrow> saturating_add u64_max v new | None \<Rightarrow> new)"

text \<open>\<open>Database::apply_reorg_atomic\<close>: the additions to the output index are filtered against the committed
  tree before the removals are applied.\<close>

definition apply_reorg_atomic ::
    "'p node_env \<Rightarrow> transaction list list \<Rightarrow> block list \<Rightarrow> nat \<Rightarrow> chain_state_data \<Rightarrow> blockchain \<Rightarrow> blockchain" where
  "apply_reorg_atomic env gone new_blocks old_height row bc =
     (case (bc_db bc, db_output_index (bc_utxos bc)) of
        (Some db, Some oi) \<Rightarrow>
          let removals = map stealth_address (concat (map tx_outputs (concat gone)));
              additions = filter (\<lambda>(a, e). oi a = None)
                            (concat (map (\<lambda>b. index_entries (block_height b) (transactions b)) new_blocks));
              oi = fold (\<lambda>(a, e) m. m(a \<mapsto> e)) additions (fold (\<lambda>a m. m(a := None)) removals oi);
              heights = fold (\<lambda>b m. m(block_height b \<mapsto> block_hash_of env b)) new_blocks (cd_heights db);
              heights = fold (\<lambda>h m. m(h := None)) [csd_height row + 1..<old_height + 1] heights;
              txs = fold (\<lambda>tx m. m(txid env tx := None)) (concat gone) (cd_tx_index db);
              txs = fold (\<lambda>b. index_txs env (block_height b) (transactions b)) new_blocks txs
          in bc \<lparr> bc_db := Some (db \<lparr> cd_heights := heights, cd_state := Some row, cd_tx_index := txs \<rparr>),
                  bc_utxos := bc_utxos bc \<lparr> db_output_index := Some oi \<rparr> \<rparr>
      | _ \<Rightarrow> bc)"

definition commit_reorg ::
    "'p node_env \<Rightarrow> hash \<Rightarrow> block \<Rightarrow> nat \<Rightarrow> block list \<Rightarrow> disconnected \<Rightarrow> nat \<Rightarrow> blockchain
     \<Rightarrow> (chain_error + block_status) \<times> blockchain" where
  "commit_reorg env h b fork_cumulative fork_blocks dc old_height bc =
     (case add_emission env (block_height b) b (bc_stats bc) of
        None \<Rightarrow> (Inl Halted, bc)
      | Some s \<Rightarrow>
          let difficulty = chain_work_from_target (bh_target (header b));
              txs = sum_list (map (length \<circ> transactions) fork_blocks) + length (transactions b);
              s = s \<lparr> cs_height := block_height b, cs_difficulty := difficulty, cs_tip_hash := h,
                      cs_total_difficulty := fork_cumulative,
                      cs_total_blocks := recount (cs_total_blocks s) (dc_blocks dc) (length fork_blocks + 1),
                      cs_total_transactions := recount (cs_total_transactions s) (dc_txs dc) txs \<rparr>;
              bc = bc \<lparr> bc_utxos := connect_utxos env (block_height b) b (bc_utxos bc), bc_tip := tip_of h b,
                        bc_stats := s, bc_heights := hm_insert (block_height b) h (bc_heights bc) \<rparr>;
              row = state_row h (block_height b) s (case bc_db bc of Some db \<Rightarrow> last_checkpoint_of db | None \<Rightarrow> 0);
              bc = apply_reorg_atomic env (dc_tx_lists dc) (fork_blocks @ [b]) old_height row bc
          in (Inr (AcceptedReorg (filter (\<lambda>tx. \<not> is_coinbase tx) (concat (dc_tx_lists dc)))),
              record_event env Reorg (block_height b) h bc))"

definition perform_reorg ::
    "'p::ab_group_add node_env \<Rightarrow> hash \<Rightarrow> block \<Rightarrow> nat \<Rightarrow> nat \<Rightarrow> blockchain
     \<Rightarrow> (chain_error + block_status) \<times> blockchain" where
  "perform_reorg env h b fork_point fork_cumulative bc =
     (let tip = bc_tip bc;
          stats = bc_stats bc;
          halt = (Inl Halted, bc)
      in case disconnect_loop env (rev [fork_point + 1..<ct_height tip + 1]) (bc, nothing_disconnected) of
           None \<Rightarrow> halt
         | Some (bc1, dc) \<Rightarrow>
             let fork_blocks = collect_fork_blocks bc1 b fork_point
             in case connect_fork env fork_point [] fork_blocks bc1 of
                  None \<Rightarrow> halt
                | Some (bc2, err) \<Rightarrow>
                    case (if err = None then check_reorg_tip env b bc2 else (bc2, err)) of
                      (bc3, Some e) \<Rightarrow>
                        (case rollback_reorg env True fork_point (ct_height tip) fork_blocks dc tip stats bc3 of
                           None \<Rightarrow> halt
                         | Some bc4 \<Rightarrow> (Inr (Invalid e), bc4))
                    | (bc3, None) \<Rightarrow>
                        if branch_target_ok bc3 fork_point fork_blocks b
                        then commit_reorg env h b fork_cumulative fork_blocks dc (ct_height tip) bc3
                        else
                          case rollback_reorg env False fork_point (max (ct_height tip) (block_height b))
                                 fork_blocks dc tip stats bc3 of
                            None \<Rightarrow> halt
                          | Some bc4 \<Rightarrow> (Inr (Invalid [''Reorg tip difficulty mismatch'']), bc4))"

subsection \<open>Accepting a block\<close>

definition fork_header_of :: "block \<Rightarrow> fork_header" where
  "fork_header_of b = \<lparr> fh_height = block_height b, fh_prev = bh_prev_hash (header b), fh_target = bh_target (header b) \<rparr>"

definition chain_view_of :: "'p node_env \<Rightarrow> blockchain \<Rightarrow> chain_view" where
  "chain_view_of env bc =
     \<lparr> cv_network = bc_network bc, cv_tip_height = ct_height (bc_tip bc), cv_tip_hash = ct_hash (bc_tip bc),
       cv_total_difficulty = cs_total_difficulty (bc_stats bc),
       cv_store = map (apsnd fork_header_of) (bc_blocks bc @ (case bc_db bc of Some db \<Rightarrow> cd_blocks db | None \<Rightarrow> [])),
       cv_main = get_block_hash bc, cv_finality = bc_finality bc,
       cv_enforce_height = ROLLING_FINALITY_ENFORCE_HEIGHT (ne_testnet env) \<rparr>"

definition evaluate_fork ::
    "'p::ab_group_add node_env \<Rightarrow> hash \<Rightarrow> block \<Rightarrow> blockchain \<Rightarrow> (chain_error + block_status) \<times> blockchain" where
  "evaluate_fork env h b bc =
     (let view = chain_view_of env bc
      in case decide_fork view (fork_header_of b) h of
           StoreFork \<Rightarrow> (Inr AcceptedFork, record_event env ForkDetected (block_height b) h bc)
         | CorruptStore \<Rightarrow> (Inl Corruption, bc)
         | ReorgTooDeep depth mx \<Rightarrow> (Inl (ReorgTooDeepError depth mx), bc)
         | BelowFinalityFloor fork_point fl \<Rightarrow> (Inr (Invalid [''Reorg rejected: fork point is before checkpoint'']), bc)
         | PerformReorg fork_point depth \<Rightarrow>
             perform_reorg env h b fork_point (calculate_fork_cumulative_work (cv_store view) (fork_header_of b)) bc)"

definition add_block ::
    "'p::ab_group_add node_env \<Rightarrow> finality_env \<Rightarrow> block \<Rightarrow> blockchain \<Rightarrow> (chain_error + block_status) \<times> blockchain" where
  "add_block env fin b bc =
     (let h = block_hash_of env b
      in apsnd (\<lambda>bc. bc \<lparr> bc_generation := bc_generation bc + 1 \<rparr>)
           (case check_new_block env b bc of
              (Some status, bc') \<Rightarrow> (status, bc')
            | (None, bc') \<Rightarrow>
                if is_main_chain bc b then extend_tip env fin h b (store_block h b bc')
                else evaluate_fork env h b (store_block h b bc')))"

subsection \<open>Rolling back\<close>

definition rollback_tip :: "nat \<Rightarrow> blockchain \<Rightarrow> blockchain" where
  "rollback_tip target bc =
     (case get_block_hash bc target of
        Some h \<Rightarrow>
          let tip = (case get_block bc h of
                       Some b \<Rightarrow> \<lparr> ct_hash = h, ct_height = target,
                                   ct_difficulty = chain_work_from_target (bh_target (header b)),
                                   ct_timestamp = bh_timestamp (header b) \<rparr>
                     | None \<Rightarrow> bc_tip bc \<lparr> ct_hash := h, ct_height := target \<rparr>)
          in bc \<lparr> bc_tip := tip, bc_stats := bc_stats bc \<lparr> cs_height := target, cs_tip_hash := h \<rparr> \<rparr>
      | None \<Rightarrow>
          if target = 0
          then (case bc_genesis_hash bc of
                  Some g \<Rightarrow> bc \<lparr> bc_tip := bc_tip bc \<lparr> ct_hash := g, ct_height := 0 \<rparr>,
                                 bc_stats := bc_stats bc \<lparr> cs_height := 0, cs_tip_hash := g \<rparr> \<rparr>
                | None \<Rightarrow> bc)
          else bc)"

definition rollback_to_height ::
    "'p node_env \<Rightarrow> nat \<Rightarrow> blockchain \<Rightarrow> (chain_error + transaction list) \<times> blockchain" where
  "rollback_to_height env target bc =
     (let current_height = ct_height (bc_tip bc);
          last_checkpoint = (case bc_db bc of Some db \<Rightarrow> last_checkpoint_of db | None \<Rightarrow> 0);
          bump = (\<lambda>bc. bc \<lparr> bc_generation := bc_generation bc + 1 \<rparr>)
      in if current_height \<le> target then (Inr [], bump bc)
         else if target < last_checkpoint then (Inl (RollbackPastCheckpoint last_checkpoint), bump bc)
         else
           case disconnect_loop env (rev [target + 1..<current_height + 1]) (bc, nothing_disconnected) of
             None \<Rightarrow> (Inl Halted, bc)
           | Some (bc, dc) \<Rightarrow>
               let bc = rollback_tip target bc;
                   bc = bc \<lparr> bc_db := map_option (\<lambda>db. db
                          \<lparr> cd_heights := (\<lambda>h. if target < h then None else cd_heights db h),
                            cd_state := Some (state_row (cs_tip_hash (bc_stats bc)) (cs_height (bc_stats bc)) (bc_stats bc)
                              (last_checkpoint_of db)) \<rparr>) (bc_db bc) \<rparr>
               in (Inr (filter (\<lambda>tx. \<not> is_coinbase tx) (concat (dc_tx_lists dc))), bump bc))"

end
