(* ===== verification/Chain_Load.thy ===== *)
theory Chain_Load
  imports Chain
begin

text \<open>
  Starting a node on an existing database (\<open>src/src/chain.rs\<close>): \<open>load_from_database_with_outcome\<close> reads the state
  row, checks the genesis entry and the tip block, recomputes the total difficulty and replays every block into a
  fresh UTXO set (\<open>rebuild_utxo_set\<close>), cutting the chain at the first block that does not link to its predecessor.
\<close>

datatype chain_load_outcome = Fresh | Loaded

text \<open>\<open>LoadLoops\<close>: the reload of \<open>verify_tip_integrity\<close> ran out of the allowed number of rounds.\<close>

datatype load_error = StateMissing | NoGenesisEntry | WrongGenesis | TipHeightMismatch | MissingTipBlock | LoadLoops

text \<open>The tree of block metadata is never written; pruned headers are left by the pruner only, which the model does
  not run.\<close>

definition has_any_chain_data :: "chain_db \<Rightarrow> bool" where
  "has_any_chain_data db = (cd_blocks db \<noteq> [] \<or> cd_heights db \<noteq> Map.empty)"

definition db_get_by_height :: "chain_db \<Rightarrow> nat \<Rightarrow> block option" where
  "db_get_by_height db height = Option.bind (cd_heights db height) (map_of (cd_blocks db))"

definition get_block_by_height_of :: "blockchain \<Rightarrow> nat \<Rightarrow> block option" where
  "get_block_by_height_of bc height = Option.bind (get_block_hash bc height) (get_block bc)"

fun work_of_heights :: "blockchain \<Rightarrow> nat list \<Rightarrow> nat \<Rightarrow> nat option" where
  "work_of_heights bc [] acc = Some acc"
| "work_of_heights bc (h # hs) acc =
     (case get_block_by_height_of bc h of
        None \<Rightarrow> None
      | Some b \<Rightarrow> work_of_heights bc hs (saturating_add u128_max acc (chain_work_from_target (bh_target (header b)))))"

definition recompute_total_difficulty_of :: "blockchain \<Rightarrow> nat \<Rightarrow> nat option" where
  "recompute_total_difficulty_of bc height = work_of_heights bc [1..<height + 1] 1"

subsection \<open>Replaying the blocks\<close>

text \<open>The cut at a broken link: tip and state row move back to the last good height, the totals stay.\<close>

definition truncate_chain :: "nat \<Rightarrow> nat \<Rightarrow> hash \<Rightarrow> blockchain \<Rightarrow> blockchain" where
  "truncate_chain height tip_height good_hash bc =
     (let good_height = height - 1;
          bc = bc \<lparr> bc_stats := bc_stats bc \<lparr> cs_height := good_height, cs_tip_hash := good_hash \<rparr>,
                    bc_tip := bc_tip bc \<lparr> ct_height := good_height, ct_hash := good_hash \<rparr> \<rparr>
      in bc \<lparr> bc_db := map_option (\<lambda>db. db
           \<lparr> cd_heights := fold (\<lambda>h m. m(h := None)) [height..<tip_height + 1] (cd_heights db),
             cd_state := Some (state_row good_hash good_height (bc_stats bc) (last_checkpoint_of db)) \<rparr>) (bc_db bc) \<rparr>)"

record rebuild_state =
  rb_chain :: blockchain
  rb_prev :: hash
  rb_blocks :: nat
  rb_txs :: nat

definition replay_block :: "'p node_env \<Rightarrow> nat \<Rightarrow> nat \<Rightarrow> block \<Rightarrow> rebuild_state \<Rightarrow> rebuild_state" where
  "replay_block env cache_start height b s =
     (let h = block_hash_of env b;
          bc = rb_chain s;
          bc = bc \<lparr> bc_utxos := connect_utxos env height b (bc_utxos bc) \<rparr>;
          bc = (if cache_start \<le> height
                then bc \<lparr> bc_heights := hm_insert height h (bc_heights bc), bc_blocks := hm_insert h b (bc_blocks bc) \<rparr>
                else bc)
      in \<lparr> rb_chain = bc, rb_prev = h, rb_blocks = rb_blocks s + 1, rb_txs = rb_txs s + length (transactions b) \<rparr>)"

fun replay_heights :: "'p node_env \<Rightarrow> chain_db \<Rightarrow> nat \<Rightarrow> nat \<Rightarrow> nat list \<Rightarrow> rebuild_state \<Rightarrow> rebuild_state" where
  "replay_heights env db tip_height cache_start [] s = s"
| "replay_heights env db tip_height cache_start (height # hs) s =
     (case db_get_by_height db height of
        None \<Rightarrow> replay_heights env db tip_height cache_start hs s
      | Some b \<Rightarrow>
          if 0 < height \<and> bh_prev_hash (header b) \<noteq> rb_prev s
          then s \<lparr> rb_chain := truncate_chain height tip_height (rb_prev s) (rb_chain s) \<rparr>
          else replay_heights env db tip_height cache_start hs (replay_block env cache_start height b s))"

definition migrate_output_index :: "nat \<Rightarrow> utxo_set \<Rightarrow> utxo_set" where
  "migrate_output_index tip_height u =
     (case db_output_index u of
        Some oi \<Rightarrow> if oi = Map.empty \<and> 0 < tip_height then u \<lparr> db_output_index := Some (output_index u) \<rparr> else u
      | None \<Rightarrow> u)"

definition rebuild_utxo_set :: "'p node_env \<Rightarrow> nat \<Rightarrow> blockchain \<Rightarrow> blockchain" where
  "rebuild_utxo_set env tip_height bc =
     (case bc_db bc of
        None \<Rightarrow> bc
      | Some db \<Rightarrow>
          let bc = bc \<lparr> bc_utxos := utxo_new \<lparr> db_output_index := db_output_index (bc_utxos bc) \<rparr> \<rparr>;
              cache_start = tip_height - 200;
              s = replay_heights env db tip_height cache_start [0..<tip_height + 1]
                    \<lparr> rb_chain = bc, rb_prev = hash_zero, rb_blocks = 0, rb_txs = 0 \<rparr>;
              bc = rb_chain s
          in bc \<lparr> bc_stats := bc_stats bc \<lparr> cs_total_blocks := rb_blocks s, cs_total_transactions := rb_txs s \<rparr>,
                  bc_utxos := evict_old_outputs tip_height 1000 (migrate_output_index tip_height (bc_utxos bc)) \<rparr>)"

subsection \<open>Loading\<close>

definition load_tip :: "chain_state_data \<Rightarrow> block \<Rightarrow> blockchain \<Rightarrow> blockchain" where
  "load_tip state tip_block bc =
     (let difficulty = chain_work_from_target (bh_target (header tip_block))
      in bc \<lparr> bc_tip := \<lparr> ct_hash = csd_tip_hash state, ct_height = csd_height state, ct_difficulty = difficulty,
                           ct_timestamp = bh_timestamp (header tip_block) \<rparr>,
              bc_stats := bc_stats bc \<lparr> cs_height := csd_height state, cs_total_supply := csd_total_supply state,
                cs_total_burned := csd_total_burned state, cs_tip_hash := csd_tip_hash state,
                cs_total_difficulty := csd_total_difficulty state, cs_difficulty := difficulty \<rparr> \<rparr>)"

definition heal_total_difficulty :: "nat \<Rightarrow> blockchain \<Rightarrow> blockchain" where
  "heal_total_difficulty height bc =
     (case recompute_total_difficulty_of bc height of
        Some recomputed \<Rightarrow> bc \<lparr> bc_stats := bc_stats bc \<lparr> cs_total_difficulty := recomputed \<rparr> \<rparr>
      | None \<Rightarrow> bc)"

definition rebuild_tx_index :: "'p node_env \<Rightarrow> nat \<Rightarrow> blockchain \<Rightarrow> blockchain" where
  "rebuild_tx_index env height bc =
     bc \<lparr> bc_db := map_option (\<lambda>db.
       if cd_tx_index db = Map.empty \<and> 0 < height
       then db \<lparr> cd_tx_index := fold (\<lambda>h m. case get_block_by_height_of bc h of
                  Some b \<Rightarrow> index_txs env h (transactions b) m | None \<Rightarrow> m) [0..<height + 1] (cd_tx_index db) \<rparr>
       else db) (bc_db bc) \<rparr>"

definition verify_tip_integrity :: "blockchain \<Rightarrow> bool" where
  "verify_tip_integrity bc =
     (case bc_db bc of
        None \<Rightarrow> True
      | Some db \<Rightarrow> (case cd_state db of
          None \<Rightarrow> True
        | Some state \<Rightarrow> ct_hash (bc_tip bc) = csd_tip_hash state \<or> ct_height (bc_tip bc) = 0))"

fun load_rounds :: "'p node_env \<Rightarrow> nat \<Rightarrow> blockchain \<Rightarrow> (load_error + chain_load_outcome) \<times> blockchain" where
  "load_rounds env 0 bc = (Inl LoadLoops, bc)"
| "load_rounds env (Suc rounds) bc =
     (case bc_db bc of
        None \<Rightarrow> (Inr Fresh, bc)
      | Some db \<Rightarrow>
          case cd_state db of
            None \<Rightarrow> (if has_any_chain_data db then Inl StateMissing else Inr Fresh, bc)
          | Some state \<Rightarrow>
              case cd_heights db 0 of
                None \<Rightarrow> (Inl NoGenesisEntry, bc)
              | Some actual_genesis \<Rightarrow>
                  if actual_genesis \<noteq> expected_genesis_hash (bc_network bc) then (Inl WrongGenesis, bc)
                  else
                    case map_of (cd_blocks db) (csd_tip_hash state) of
                      None \<Rightarrow> (Inl MissingTipBlock, bc)
                    | Some tip_block \<Rightarrow>
                        if block_height tip_block \<noteq> csd_height state then (Inl TipHeightMismatch, bc)
                        else
                          let bc = load_tip state tip_block bc;
                              bc = heal_total_difficulty (csd_height state) bc;
                              bc = rebuild_utxo_set env (csd_height state) bc;
                              bc = rebuild_tx_index env (csd_height state) bc
                          in if verify_tip_integrity bc then (Inr Loaded, bc) else load_rounds env rounds bc)"

text \<open>One round is enough: \<open>rebuild_tx_index_ok\<close>.\<close>

definition load_from_database :: "'p node_env \<Rightarrow> blockchain \<Rightarrow> (load_error + chain_load_outcome) \<times> blockchain" where
  "load_from_database env bc = apsnd (\<lambda>bc. bc \<lparr> bc_generation := bc_generation bc + 1 \<rparr>) (load_rounds env 2 bc)"

end
