(* ===== verification/Chain_Invariant.thy ===== *)
theory Chain_Invariant
  imports Chain_Load
begin

text \<open>
  The invariant of the blockchain of \<open>src/src/chain.rs\<close>. A ghost list of blocks, newest first, describes the main
  chain; the invariant says that the height index, the block cache, the block store, the tip, the emission totals and
  the spent key images all agree with it. Each piece of \<open>add_block\<close> (storing, extending the tip, disconnecting,
  connecting a branch, rolling a failed attempt back, committing) has a lemma that says how it moves the list; the
  theorems at the end state the consequences for every state a node reaches.
\<close>

subsection \<open>Nodes\<close>

text \<open>Clocks and caches change from call to call; the cryptography and the network parameters do not. The build is the
  default one: with the \<open>insecure-fast-sync\<close> feature blocks below a checkpoint are not validated in full, and nothing
  here is claimed for it.\<close>

definition same_node :: "'p node_env \<Rightarrow> 'p node_env \<Rightarrow> bool" where
  "same_node e env = (ne_crypto env = ne_crypto e \<and> ne_testnet env = ne_testnet e \<and> \<not> ne_insecure_fast_sync env)"

lemma same_node_eqs:
  assumes "same_node e env"
  shows "block_hash_of env = block_hash_of e" "txid env = txid e" "block_fee_burn env = block_fee_burn e"
    "connect_utxos env = connect_utxos e" "disconnect_utxos env = disconnect_utxos e"
    "add_emission env = add_emission e" "sub_emission env = sub_emission e"
proof -
  have c: "ne_crypto env = ne_crypto e" "ne_testnet env = ne_testnet e" using assms by (auto simp: same_node_def)
  show "block_hash_of env = block_hash_of e" by (rule ext) (simp add: block_hash_of_def c)
  show t: "txid env = txid e" by (simp add: txid_def c)
  show f: "block_fee_burn env = block_fee_burn e"
    by (rule ext) (simp add: block_fee_burn_def block_congestion_pct_def block_size_def c Let_def)
  show "connect_utxos env = connect_utxos e" "disconnect_utxos env = disconnect_utxos e"
    by (intro ext; simp add: connect_utxos_def disconnect_utxos_def t)+
  show "add_emission env = add_emission e" "sub_emission env = sub_emission e"
    by (intro ext; simp add: add_emission_def sub_emission_def f)+
qed

subsection \<open>Chains of accepted blocks\<close>

definition was_accepted :: "'p::ab_group_add node_env \<Rightarrow> network_type \<Rightarrow> block \<Rightarrow> block \<Rightarrow> bool" where
  "was_accepted e network b p = (\<exists>env u cp caches. same_node e env
     \<and> bv_valid (fst (validate_block_with_checkpoint_for_network env b (Some p) u cp network caches)))"

text \<open>Newest block first; the last one is a genesis block.\<close>

fun chain_list :: "'p::ab_group_add node_env \<Rightarrow> network_type \<Rightarrow> block list \<Rightarrow> bool" where
  "chain_list e network [] = False"
| "chain_list e network [g] = (block_height g = 0 \<and> list_all is_coinbase (transactions g)
     \<and> block_hash_of e g = expected_genesis_hash network)"
| "chain_list e network (b # p # bs) =
     (bh_prev_hash (header b) = block_hash_of e p \<and> block_height b = Suc (block_height p) \<and> block_height b \<le> u64_max
      \<and> was_accepted e network b p \<and> chain_list e network (p # bs))"

definition blk :: "block list \<Rightarrow> nat \<Rightarrow> block" where
  "blk bs h = rev bs ! h"

lemma blk_Cons: "h \<le> length bs \<Longrightarrow> blk (b # bs) h = (if h = length bs then b else blk bs h)"
  by (auto simp: blk_def nth_append)

lemma blk_append: "h < length bs \<Longrightarrow> blk (cs @ bs) h = blk bs h"
  by (simp add: blk_def nth_append)

lemma blk_last: "bs \<noteq> [] \<Longrightarrow> blk bs 0 = last bs"
  by (cases bs rule: rev_cases) (simp_all add: blk_def)

lemma blk_hd: "bs \<noteq> [] \<Longrightarrow> blk bs (length bs - 1) = hd bs"
  by (cases bs) (simp_all add: blk_def nth_append)

lemma chain_list_nonempty: "chain_list e n bs \<Longrightarrow> bs \<noteq> []"
  by (cases bs) auto

lemma chain_list_hd_height: "chain_list e n bs \<Longrightarrow> block_height (hd bs) = length bs - 1"
  by (induction e n bs rule: chain_list.induct) auto

lemma chain_list_append: "chain_list e n (cs @ bs) \<Longrightarrow> bs \<noteq> [] \<Longrightarrow> chain_list e n bs"
proof (induction cs)
  case (Cons c cs)
  then show ?case by (cases "cs @ bs") auto
qed simp

lemma chain_list_height:
  assumes "chain_list e n bs" and "h < length bs"
  shows "block_height (blk bs h) = h"
  using assms
proof (induction e n bs rule: chain_list.induct)
  case (3 e n b p bs)
  have "block_height b = length (p # bs)"
    using chain_list_hd_height [OF "3.prems"(1)] by simp
  with 3 show ?case by (cases "h = length (p # bs)") (auto simp: blk_Cons)
qed (auto simp: blk_def)

lemma chain_list_bound:
  assumes "chain_list e n bs" shows "length bs \<le> Suc u64_max"
  using assms chain_list_hd_height [OF assms] by (cases bs rule: chain_list.cases [of "(e, n, bs)" for bs]) auto

lemma chain_list_genesis: "chain_list e n bs \<Longrightarrow> block_hash_of e (blk bs 0) = expected_genesis_hash n"
  by (induction e n bs rule: chain_list.induct) (auto simp: blk_last)

lemma chain_list_Cons:
  "bs \<noteq> [] \<Longrightarrow> chain_list e n (b # bs) \<longleftrightarrow>
     bh_prev_hash (header b) = block_hash_of e (hd bs) \<and> block_height b = Suc (block_height (hd bs))
     \<and> block_height b \<le> u64_max \<and> was_accepted e n b (hd bs) \<and> chain_list e n bs"
  by (cases bs) auto

subsection \<open>Money and key images\<close>

definition block_spends :: "block \<Rightarrow> key_image list" where
  "block_spends b = concat (map tx_spends (transactions b))"

lemma tx_spends_images: "tx_spends tx = (if is_coinbase tx then [] else key_images tx)"
  by (simp add: tx_spends_def key_images_def)

definition money_ok :: "'p node_env \<Rightarrow> block list \<Rightarrow> chain_stats \<Rightarrow> bool" where
  "money_ok e bs s = (cs_total_supply s = (\<Sum>b \<leftarrow> bs. as_atomic (calculate_block_reward (block_height b)))
     \<and> cs_total_burned s = (\<Sum>b \<leftarrow> bs. block_fee_burn e b))"

definition spends_ok :: "block list \<Rightarrow> utxo_set \<Rightarrow> bool" where
  "spends_ok bs u = (distinct (concat (map block_spends bs)) \<and> spent_key_images u = set (concat (map block_spends bs))
     \<and> db_output_index u \<noteq> None)"

lemma spent_fold_remove [simp]: "spent_key_images (fold remove_key ks u) = spent_key_images u"
proof (induction ks arbitrary: u)
  case (Cons k ks)
  have "spent_key_images (remove_key k u) = spent_key_images u"
    by (simp add: remove_key_def remove_output_def Let_def split: option.splits)
  with Cons show ?case by simp
qed simp

lemma db_index_add [simp]: "db_output_index (fold apply_add as u) = db_output_index u"
proof (induction as arbitrary: u)
  case (Cons a as)
  have "db_output_index (apply_add a u) = db_output_index u" by (cases a) (simp add: apply_add_def add_output_ext_def Let_def)
  with Cons show ?case by simp
qed simp

lemma db_index_remove [simp]: "db_output_index (fold remove_key ks u) = None \<longleftrightarrow> db_output_index u = None"
proof (induction ks arbitrary: u)
  case (Cons k ks)
  have "db_output_index (remove_key k u) = None \<longleftrightarrow> db_output_index u = None"
    by (simp add: remove_key_def remove_output_def Let_def split: option.splits)
  with Cons show ?case by simp
qed simp

lemma connect_spent: "spent_key_images (connect_utxos e h b u) = spent_key_images u \<union> set (block_spends b)"
  by (simp add: connect_utxos_def apply_batch_state batch_from_block_def mark_all block_spends_def)

lemma connect_db_index: "db_output_index (connect_utxos e h b u) = db_output_index u"
  by (simp add: connect_utxos_def apply_batch_state batch_from_block_def mark_all)

lemma disconnect_spent: "spent_key_images (disconnect_utxos e b u) = spent_key_images u - set (block_spends b)"
  by (simp add: disconnect_utxos_def apply_batch_state batch_disconnect_block_def unmark_all block_spends_def)

lemma disconnect_db_index: "db_output_index (disconnect_utxos e b u) = None \<longleftrightarrow> db_output_index u = None"
  by (simp add: disconnect_utxos_def apply_batch_state batch_disconnect_block_def unmark_all)

lemma spends_ok_disconnect: "spends_ok (b # bs) u \<Longrightarrow> spends_ok bs (disconnect_utxos e b u)"
  by (auto simp: spends_ok_def disconnect_spent disconnect_db_index)

lemma spends_ok_connect:
  "spends_ok bs u \<Longrightarrow> distinct (block_spends b) \<Longrightarrow> set (block_spends b) \<inter> spent_key_images u = {}
     \<Longrightarrow> spends_ok (b # bs) (connect_utxos e h b u)"
  by (auto simp: spends_ok_def connect_spent connect_db_index)

lemma spends_ok_reconnect: "spends_ok bs u \<Longrightarrow> distinct (concat (map block_spends (b # bs))) \<Longrightarrow> spends_ok (b # bs) (connect_utxos e h b u)"
  by (auto simp: spends_ok_def connect_spent connect_db_index)

lemma money_ok_sub:
  assumes "money_ok e (b # bs) s" and "h = block_height b"
  shows "\<exists>s'. sub_emission e h b s = Some s' \<and> money_ok e bs s'"
  using assms by (auto simp: money_ok_def sub_emission_def checked_sub_def)

lemma accepted_spends:
  assumes "bv_valid (fst (validate_block_with_checkpoint_for_network env b (Some p) u cp network caches))"
    and "0 < block_height b" and "\<not> ne_insecure_fast_sync env"
  shows "distinct (block_spends b) \<and> set (block_spends b) \<inter> spent_key_images u = {}"
proof -
  obtain c pc where caches: "caches = (c, pc)" by fastforce
  note ab = accepted_block [OF assms(1) [unfolded caches] assms(2,3)]
  then obtain cb txs where t: "transactions b = cb # txs" and cb: "is_coinbase cb"
    and d: "distinct (concat (map key_images (cb # txs)))"
    and rest: "\<forall>tx \<in> set txs. \<not> is_coinbase tx \<and> set (key_images tx) \<inter> spent_key_images u = {}"
    by (cases "transactions b") auto
  have "map tx_spends txs = map key_images txs" using rest by (simp add: tx_spends_images)
  then have "concat (map tx_spends txs) = concat (map key_images txs)" by (simp only:)
  then have "block_spends b = concat (map key_images txs)" using t cb by (simp add: block_spends_def tx_spends_images)
  with d rest show ?thesis by auto
qed

lemma block_fee_burn_le: "block_fee_burn e b \<le> u64_max"
proof -
  let ?t = "amount_sum (map tx_fee (filter (\<lambda>tx. \<not> is_coinbase tx) (transactions b)))"
  let ?c = "CONGESTION_THRESHOLD \<le> block_congestion_pct (block_size e b)"
  have "as_atomic (burned (distribute_fee ?t ?c)) \<le> as_atomic ?t"
    by (simp add: distribute_fee_exact(2) [OF amount_sum_wf])
  also have "\<dots> \<le> u64_max" using amount_sum_wf by (simp add: wf_amount_def)
  finally show ?thesis by (simp add: block_fee_burn_def Let_def)
qed

lemma sum_list_le_bound: "(\<forall>x \<in> set xs. f x \<le> k) \<Longrightarrow> (\<Sum>x \<leftarrow> xs. f x) \<le> length xs * (k::nat)"
  by (induction xs) auto

text \<open>Neither total can overflow 128 bits: there are at most \<open>2\<^sup>6\<^sup>4\<close> heights and each block adds less than \<open>2\<^sup>6\<^sup>4\<close>.\<close>

lemma totals_fit: "n \<le> Suc u64_max \<Longrightarrow> n * u64_max \<le> u128_max"
proof -
  assume "n \<le> Suc u64_max"
  then have "n * u64_max \<le> Suc u64_max * u64_max" by (rule mult_le_mono1)
  also have "\<dots> \<le> u128_max" by (simp add: u64_max_def u128_max_def)
  finally show ?thesis .
qed

lemma money_ok_add:
  assumes "money_ok e bs s" and "h = block_height b" and "length bs \<le> u64_max"
  shows "\<exists>s'. add_emission e h b s = Some s' \<and> money_ok e (b # bs) s'
    \<and> cs_total_difficulty s' = cs_total_difficulty s \<and> cs_total_blocks s' = cs_total_blocks s"
proof -
  let ?R = "\<Sum>b \<leftarrow> b # bs. as_atomic (calculate_block_reward (block_height b))" and ?B = "\<Sum>b \<leftarrow> b # bs. block_fee_burn e b"
  have "?R \<le> length (b # bs) * u64_max" "?B \<le> length (b # bs) * u64_max"
    by (rule sum_list_le_bound; simp add: calculate_block_reward_range(3) block_fee_burn_le)+
  moreover have "length (b # bs) * u64_max \<le> u128_max" using assms(3) by (intro totals_fit) simp
  ultimately have "?R \<le> u128_max" "?B \<le> u128_max" by linarith+
  with assms show ?thesis by (auto simp: money_ok_def add_emission_def checked_add_def add.commute)
qed

subsection \<open>The caches\<close>

definition heights_ok :: "'p node_env \<Rightarrow> nat \<Rightarrow> (nat, hash) hash_map \<Rightarrow> block list \<Rightarrow> bool" where
  "heights_ok e fl hm bs = (hm_invar hm
     \<and> (\<forall>h k. map_of hm h = Some k \<longrightarrow> h < length bs \<and> k = block_hash_of e (blk bs h))
     \<and> (\<forall>h. fl \<le> h \<and> h < length bs \<longrightarrow> map_of hm h = Some (block_hash_of e (blk bs h))))"

lemma heights_ok_bound: "heights_ok e fl hm bs \<Longrightarrow> map_of hm h = Some k \<Longrightarrow> h < length bs"
  and heights_ok_hash: "heights_ok e fl hm bs \<Longrightarrow> map_of hm h = Some k \<Longrightarrow> k = block_hash_of e (blk bs h)"
  and heights_ok_complete: "heights_ok e fl hm bs \<Longrightarrow> fl \<le> h \<Longrightarrow> h < length bs \<Longrightarrow> map_of hm h = Some (block_hash_of e (blk bs h))"
  and heights_ok_invar: "heights_ok e fl hm bs \<Longrightarrow> hm_invar hm"
  unfolding heights_ok_def by blast+

definition below_same :: "nat \<Rightarrow> (nat, hash) hash_map \<Rightarrow> (nat, hash) hash_map \<Rightarrow> bool" where
  "below_same n hm hm' = (\<forall>h < n. map_of hm' h = map_of hm h)"

definition cached_ok :: "(hash, block) hash_map \<Rightarrow> (nat, hash) hash_map \<Rightarrow> block list \<Rightarrow> bool" where
  "cached_ok blocks hm bs = (\<forall>h k. map_of hm h = Some k \<longrightarrow> map_of blocks k = Some (blk bs h))"

text \<open>The state in the middle of a reorganisation whose current main chain is \<open>bs\<close>.\<close>

definition work_ok :: "'p::ab_group_add node_env \<Rightarrow> nat \<Rightarrow> blockchain \<Rightarrow> block list \<Rightarrow> bool" where
  "work_ok e fl bc bs = (chain_list e (bc_network bc) bs \<and> heights_ok e fl (bc_heights bc) bs
     \<and> money_ok e bs (bc_stats bc) \<and> spends_ok bs (bc_utxos bc))"

text \<open>What no step of a reorganisation touches.\<close>

definition frame :: "blockchain \<Rightarrow> blockchain \<Rightarrow> bool" where
  "frame bc bc' = (bc_network bc' = bc_network bc \<and> bc_blocks bc' = bc_blocks bc \<and> bc_db bc' = bc_db bc
     \<and> bc_tip bc' = bc_tip bc \<and> bc_finality bc' = bc_finality bc \<and> bc_genesis_hash bc' = bc_genesis_hash bc
     \<and> bc_events bc' = bc_events bc \<and> cs_total_difficulty (bc_stats bc') = cs_total_difficulty (bc_stats bc))"

lemma frame_refl [simp]: "frame bc bc"
  by (simp add: frame_def)

lemma frame_trans: "frame a b \<Longrightarrow> frame b c \<Longrightarrow> frame a c"
  by (simp add: frame_def)

lemma frame_get_block: "frame bc bc' \<Longrightarrow> get_block bc' = get_block bc"
  by (intro ext) (simp add: frame_def get_block_def split: option.splits)

lemma sub_emission_difficulty: "sub_emission e h b s = Some s' \<Longrightarrow> cs_total_difficulty s' = cs_total_difficulty s"
  by (auto simp: sub_emission_def bind_eq_Some_conv)

lemma heights_ok_drop:
  assumes "heights_ok e fl hm (b # bs)"
  shows "heights_ok e fl (hm_remove (length bs) hm) bs"
  unfolding heights_ok_def
proof (intro conjI allI impI)
  show "hm_invar (hm_remove (length bs) hm)" using assms by (simp add: heights_ok_def hmap.invar_remove)
  fix h k assume "map_of (hm_remove (length bs) hm) h = Some k"
  then have "h \<noteq> length bs" "map_of hm h = Some k" by (auto split: if_splits)
  with assms have "h < Suc (length bs)" "k = block_hash_of e (blk (b # bs) h)" by (auto simp: heights_ok_def)
  with \<open>h \<noteq> length bs\<close> show "h < length bs" "k = block_hash_of e (blk bs h)" by (auto simp: blk_Cons)
next
  fix h assume "fl \<le> h \<and> h < length bs"
  with assms show "map_of (hm_remove (length bs) hm) h = Some (block_hash_of e (blk bs h))"
    by (simp add: heights_ok_def blk_Cons)
qed

lemma heights_ok_insert:
  assumes "heights_ok e fl hm bs"
  shows "heights_ok e fl (hm_insert (length bs) (block_hash_of e b) hm) (b # bs)"
  unfolding heights_ok_def
proof (intro conjI allI impI)
  show "hm_invar (hm_insert (length bs) (block_hash_of e b) hm)" using assms by (simp add: heights_ok_def hmap.invar_insert)
  fix h k assume k: "map_of (hm_insert (length bs) (block_hash_of e b) hm) h = Some k"
  show "h < length (b # bs)" "k = block_hash_of e (blk (b # bs) h)"
  proof (atomize (full), cases "h = length bs")
    case False
    with k have "map_of hm h = Some k" by simp
    with assms have "h < length bs" "k = block_hash_of e (blk bs h)" unfolding heights_ok_def by blast+
    then show "h < length (b # bs) \<and> k = block_hash_of e (blk (b # bs) h)" by (simp add: blk_Cons)
  qed (use k in \<open>simp add: blk_Cons\<close>)
next
  fix h assume h: "fl \<le> h \<and> h < length (b # bs)"
  show "map_of (hm_insert (length bs) (block_hash_of e b) hm) h = Some (block_hash_of e (blk (b # bs) h))"
  proof (cases "h = length bs")
    case False
    with h have "fl \<le> h \<and> h < length bs" by simp
    with assms have "map_of hm h = Some (block_hash_of e (blk bs h))" unfolding heights_ok_def by blast
    with False h show ?thesis by (simp add: blk_Cons)
  qed (simp add: blk_Cons)
qed

lemma cached_ok_drop:
  assumes "cached_ok blocks hm (b # bs)" and "heights_ok e fl hm (b # bs)"
  shows "cached_ok blocks (hm_remove (length bs) hm) bs"
  unfolding cached_ok_def
proof (intro allI impI)
  fix h k assume "map_of (hm_remove (length bs) hm) h = Some k"
  then have "h \<noteq> length bs" and k: "map_of hm h = Some k" by (auto split: if_splits)
  moreover have "h < Suc (length bs)" using assms(2) k by (auto simp: heights_ok_def)
  ultimately show "map_of blocks k = Some (blk bs h)" using assms(1) by (auto simp: cached_ok_def blk_Cons)
qed

subsection \<open>Disconnecting\<close>

lemma disconnect_at_ok:
  assumes w: "work_ok e fl bc (b # bs)" and c: "cached_ok (bc_blocks bc) (bc_heights bc) (b # bs)"
    and "bs \<noteq> []" and fl: "fl \<le> length bs" and env: "same_node e env"
  shows "\<exists>bc' dc'. disconnect_at env (length bs) (bc, dc) = Some (bc', dc') \<and> work_ok e fl bc' bs
    \<and> cached_ok (bc_blocks bc') (bc_heights bc') bs \<and> frame bc bc'
    \<and> dc_heights dc' = dc_heights dc @ [(length bs, block_hash_of e b)]
    \<and> dc_tx_lists dc' = dc_tx_lists dc @ [transactions b]"
proof -
  have ch: "chain_list e (bc_network bc) (b # bs)" and h: "heights_ok e fl (bc_heights bc) (b # bs)"
    and m: "money_ok e (b # bs) (bc_stats bc)" and s: "spends_ok (b # bs) (bc_utxos bc)"
    using w by (auto simp: work_ok_def)
  have ht: "block_height b = length bs" using chain_list_hd_height [OF ch] by simp
  have oh: "map_of (bc_heights bc) (length bs) = Some (block_hash_of e b)"
    using h fl by (simp add: heights_ok_def blk_Cons)
  with c have blkb: "map_of (bc_blocks bc) (block_hash_of e b) = Some b" by (simp add: cached_ok_def blk_Cons)
  from money_ok_sub [OF m ht [symmetric]] obtain s' where sub: "sub_emission e (length bs) b (bc_stats bc) = Some s'"
    and m': "money_ok e bs s'" by blast
  have "chain_list e (bc_network bc) bs" using ch \<open>bs \<noteq> []\<close> by (simp add: chain_list_Cons)
  moreover have "cached_ok (bc_blocks bc) (hm_remove (length bs) (bc_heights bc)) bs"
    by (rule cached_ok_drop [OF c h])
  ultimately show ?thesis using oh blkb sub m' spends_ok_disconnect [OF s] heights_ok_drop [OF h]
    by (simp add: disconnect_at_def same_node_eqs [OF env] Let_def work_ok_def frame_def sub_emission_difficulty)
qed

lemma upt_rev_Suc: "a \<le> n \<Longrightarrow> rev [a..<Suc n] = n # rev [a..<n]"
  by simp

lemma disconnect_loop_ok:
  assumes "work_ok e fl bc (cs @ bs)" and "cached_ok (bc_blocks bc) (bc_heights bc) (cs @ bs)" and "bs \<noteq> []"
    and "fl \<le> length bs" and env: "same_node e env"
  shows "\<exists>bc' dc'. disconnect_loop env (rev [length bs..<length bs + length cs]) (bc, dc) = Some (bc', dc')
    \<and> work_ok e fl bc' bs \<and> cached_ok (bc_blocks bc') (bc_heights bc') bs \<and> frame bc bc'
    \<and> dc_heights dc' = dc_heights dc @ rev (map (\<lambda>h. (h, block_hash_of e (blk (cs @ bs) h))) [length bs..<length bs + length cs])
    \<and> dc_tx_lists dc' = dc_tx_lists dc @ map transactions cs"
  using assms(1,2)
proof (induction cs arbitrary: bc dc)
  case (Cons c cs)
  have ne: "cs @ bs \<noteq> []" and fl: "fl \<le> length (cs @ bs)" using assms(3,4) by auto
  from disconnect_at_ok [OF Cons.prems(1,2) [simplified append_Cons] ne fl env, of dc]
  obtain bc1 dc1 where d: "disconnect_at env (length (cs @ bs)) (bc, dc) = Some (bc1, dc1)"
    and w: "work_ok e fl bc1 (cs @ bs)" "cached_ok (bc_blocks bc1) (bc_heights bc1) (cs @ bs)" and f: "frame bc bc1"
    and dc1: "dc_heights dc1 = dc_heights dc @ [(length (cs @ bs), block_hash_of e c)]"
      "dc_tx_lists dc1 = dc_tx_lists dc @ [transactions c]" by blast
  from Cons.IH [OF w, of dc1] obtain bc2 dc2
    where l: "disconnect_loop env (rev [length bs..<length bs + length cs]) (bc1, dc1) = Some (bc2, dc2)"
      and w2: "work_ok e fl bc2 bs" "cached_ok (bc_blocks bc2) (bc_heights bc2) bs" "frame bc1 bc2"
      and dc2: "dc_heights dc2 = dc_heights dc1
          @ rev (map (\<lambda>h. (h, block_hash_of e (blk (cs @ bs) h))) [length bs..<length bs + length cs])"
        "dc_tx_lists dc2 = dc_tx_lists dc1 @ map transactions cs" by blast
  have r: "rev [length bs..<length bs + length (c # cs)] = length (cs @ bs) # rev [length bs..<length bs + length cs]"
    by (simp add: add.commute)
  have m: "map (\<lambda>h. (h, block_hash_of e (blk ((c # cs) @ bs) h))) [length bs..<length bs + length cs]
      = map (\<lambda>h. (h, block_hash_of e (blk (cs @ bs) h))) [length bs..<length bs + length cs]"
    by (intro map_cong refl) (simp add: blk_Cons)
  have top: "blk ((c # cs) @ bs) (length bs + length cs) = c" by (simp add: blk_Cons add.commute)
  have up: "[length bs..<length bs + length (c # cs)] = [length bs..<length bs + length cs] @ [length bs + length cs]" by simp
  have "rev (map (\<lambda>h. (h, block_hash_of e (blk ((c # cs) @ bs) h))) [length bs..<length bs + length (c # cs)])
      = (length (cs @ bs), block_hash_of e c)
        # rev (map (\<lambda>h. (h, block_hash_of e (blk (cs @ bs) h))) [length bs..<length bs + length cs])"
    unfolding up map_append m rev_append using top by (simp add: add.commute)
  with d l w2 frame_trans [OF f w2(3)] dc1 dc2 show ?case unfolding r by simp
qed simp

subsection \<open>Connecting\<close>

lemma accepted_has_parent:
  assumes "bv_valid (fst (validate_block_with_checkpoint_for_network env b prev u cp network caches))"
    and "0 < block_height b"
  shows "prev \<noteq> None"
proof
  assume n: "prev = None"
  obtain c pc where caches: "caches = (c, pc)" by fastforce
  from accepted_stages [OF assms(1) [unfolded caches]] n assms(2) show False
    by (auto simp: header_stage_def check_block_pow_def block_ok)
qed

lemma accepted_links:
  assumes "bv_valid (fst (validate_block_with_checkpoint_for_network env b (Some p) u cp network caches))"
    and "0 < block_height b" and "\<not> ne_insecure_fast_sync env"
  shows "bh_prev_hash (header b) = block_hash_of env p" "block_height b = wrapping_add u64_max (block_height p) 1"
    "block_height b \<le> u64_max"
proof -
  obtain c pc where caches: "caches = (c, pc)" by fastforce
  note a = accepted_block [OF assms(1) [unfolded caches] assms(2,3)]
  show "bh_prev_hash (header b) = block_hash_of env p" using a by blast
  show h: "block_height b = wrapping_add u64_max (block_height p) 1" using a by blast
  have "wrapping_add u64_max (block_height p) 1 < u64_max + 1" unfolding wrapping_add_def by (rule mod_less_divisor) simp
  with h show "block_height b \<le> u64_max" by simp
qed

text \<open>Every cached block is the stored block of its hash.\<close>

definition store_agrees :: "(hash \<rightharpoonup> block) \<Rightarrow> (hash, block) hash_map \<Rightarrow> bool" where
  "store_agrees stored blocks = (\<forall>k b. map_of blocks k = Some b \<longrightarrow> stored k = Some b)"

fun extends :: "'p node_env \<Rightarrow> block \<Rightarrow> block list \<Rightarrow> bool" where
  "extends e g [] = True"
| "extends e g (f # fs) = (bh_prev_hash (header f) = block_hash_of e g \<and> block_height f = Suc (block_height g) \<and> extends e f fs)"

lemma extends_snoc:
  "extends e g (fs @ [f]) \<longleftrightarrow> extends e g fs \<and> bh_prev_hash (header f) = block_hash_of e (last (g # fs))
     \<and> block_height f = Suc (block_height (last (g # fs)))"
  by (induction fs arbitrary: g) auto

lemma extends_height: "extends e g fs \<Longrightarrow> i < length fs \<Longrightarrow> block_height (fs ! i) = Suc (block_height g + i)"
proof (induction fs arbitrary: g i)
  case (Cons f fs)
  then show ?case by (cases i) auto
qed simp

lemma validate_against_parent:
  assumes v: "validate_against env b bc = (v, bc1)" "bv_valid v" and "0 < block_height b" and env: "same_node e env"
    and st: "store_agrees stored (bc_blocks bc)" and p: "bh_prev_hash (header b) = block_hash_of e p"
    and stp: "stored (block_hash_of e p) = Some p"
  shows "map_of (bc_blocks bc) (bh_prev_hash (header b)) = Some p \<and> was_accepted e (bc_network bc) b p
    \<and> distinct (block_spends b) \<and> set (block_spends b) \<inter> spent_key_images (bc_utxos bc) = {} \<and> block_height b \<le> u64_max"
proof -
  let ?par = "map_of (bc_blocks bc) (bh_prev_hash (header b))"
  have a: "bv_valid (fst (validate_block_with_checkpoint_for_network env b ?par (bc_utxos bc) None (bc_network bc) (bc_caches bc)))"
    using v by (auto simp: validate_against_def split: prod.splits)
  from accepted_has_parent [OF a assms(3)] obtain q where q: "?par = Some q" by blast
  with st p stp have "q = p" by (simp add: store_agrees_def)
  with q have qp: "?par = Some p" by simp
  note a = a [unfolded qp]
  have fs: "\<not> ne_insecure_fast_sync env" using env by (simp add: same_node_def)
  have "was_accepted e (bc_network bc) b p" unfolding was_accepted_def using a env by blast
  with qp accepted_spends [OF a assms(3) fs] accepted_links(3) [OF a assms(3) fs] show ?thesis by blast
qed

lemma validate_against_frame: "validate_against env b bc = (v, bc1) \<Longrightarrow> \<exists>c. bc1 = bc \<lparr> bc_caches := c \<rparr>"
  by (auto simp: validate_against_def split: prod.splits)

lemma work_ok_caches [simp]: "work_ok e fl (bc \<lparr> bc_caches := c \<rparr>) bs = work_ok e fl bc bs"
  by (simp add: work_ok_def)

lemma frame_caches [simp]: "frame bc (bc \<lparr> bc_caches := c \<rparr>)"
  by (simp add: frame_def)

lemma work_ok_connect:
  assumes w: "work_ok e fl bc bs" and fl: "fl \<le> length bs"
    and b: "bh_prev_hash (header b) = block_hash_of e (hd bs)" "block_height b = Suc (block_height (hd bs))" "block_height b \<le> u64_max"
    and acc: "was_accepted e (bc_network bc) b (hd bs)" and d: "distinct (block_spends b)"
      "set (block_spends b) \<inter> spent_key_images (bc_utxos bc) = {}"
  shows "\<exists>s. add_emission e (block_height b) b (bc_stats bc) = Some s \<and> cs_total_difficulty s = cs_total_difficulty (bc_stats bc)
    \<and> work_ok e fl (bc \<lparr> bc_heights := hm_insert (block_height b) (block_hash_of e b) (bc_heights bc),
         bc_utxos := connect_utxos e (block_height b) b (bc_utxos bc), bc_stats := s \<rparr>) (b # bs)"
proof -
  have ch: "chain_list e (bc_network bc) bs" and ne: "bs \<noteq> []" using w chain_list_nonempty by (auto simp: work_ok_def)
  have ht: "block_height b = length bs" using b(2) chain_list_hd_height [OF ch] ne by (cases bs) auto
  have "length bs \<le> u64_max" using ht b(3) by simp
  from money_ok_add [OF _ refl this] w obtain s where s: "add_emission e (block_height b) b (bc_stats bc) = Some s"
    "money_ok e (b # bs) s" "cs_total_difficulty s = cs_total_difficulty (bc_stats bc)" by (fastforce simp: work_ok_def)
  moreover have "chain_list e (bc_network bc) (b # bs)" using b acc ch by (simp add: chain_list_Cons [OF ne])
  moreover have "heights_ok e fl (hm_insert (block_height b) (block_hash_of e b) (bc_heights bc)) (b # bs)"
    unfolding ht by (rule heights_ok_insert) (use w in \<open>simp add: work_ok_def\<close>)
  moreover have "spends_ok (b # bs) (connect_utxos e (block_height b) b (bc_utxos bc))"
    by (rule spends_ok_connect [OF _ d]) (use w in \<open>simp add: work_ok_def\<close>)
  ultimately show ?thesis by (simp add: work_ok_def)
qed

lemma connect_fork_ok:
  assumes "work_ok e fl bc bs" and "fl \<le> length bs" and "extends e (hd bs) fs" and "store_agrees stored (bc_blocks bc)"
    and "stored (block_hash_of e (hd bs)) = Some (hd bs)" and "\<forall>f \<in> set fs. stored (block_hash_of e f) = Some f"
    and env: "same_node e env"
  shows "\<exists>bc' err k. connect_fork env fork_point before fs bc = Some (bc', err) \<and> k \<le> length fs
    \<and> work_ok e fl bc' (rev (take k fs) @ bs) \<and> frame bc bc' \<and> below_same (length bs) (bc_heights bc) (bc_heights bc')
    \<and> (err = None \<longrightarrow> k = length fs \<and> (\<forall>f \<in> set fs. map_of (bc_blocks bc) (bh_prev_hash (header f)) \<noteq> None))"
  using assms(1-6)
proof (induction fs arbitrary: bc bs before)
  case Nil
  then show ?case by (simp add: below_same_def)
next
  case (Cons f fs)
  obtain v bc1 where v: "validate_against env f bc = (v, bc1)" by fastforce
  from validate_against_frame [OF v] obtain c where bc1: "bc1 = bc \<lparr> bc_caches := c \<rparr>" by blast
  show ?case
  proof (cases "bv_valid v \<and> branch_target_ok bc1 fork_point before f")
    case False
    then have "\<exists>err. connect_fork env fork_point before (f # fs) bc = Some (bc1, Some err)" by (auto simp: v)
    then show ?thesis using Cons.prems(1) bc1 by (intro exI [of _ bc1]) (auto intro!: exI [of _ "0::nat"] simp: below_same_def)
  next
    case True
    have hp: "bh_prev_hash (header f) = block_hash_of e (hd bs)" "block_height f = Suc (block_height (hd bs))"
      and ex: "extends e f fs" using Cons.prems(3) by auto
    have pos: "0 < block_height f" using hp(2) by simp
    from True have vv: "bv_valid v" by simp
    note p = validate_against_parent [OF v vv pos env Cons.prems(4) hp(1) Cons.prems(5)]
    have w1: "work_ok e fl bc1 bs" using Cons.prems(1) bc1 by simp
    from work_ok_connect [OF w1 Cons.prems(2) hp] p bc1
    obtain s where s: "add_emission e (block_height f) f (bc_stats bc1) = Some s" "cs_total_difficulty s = cs_total_difficulty (bc_stats bc1)"
      and w2: "work_ok e fl (bc1 \<lparr> bc_heights := hm_insert (block_height f) (block_hash_of e f) (bc_heights bc1),
         bc_utxos := connect_utxos e (block_height f) f (bc_utxos bc1), bc_stats := s \<rparr>) (f # bs)" (is "work_ok _ _ ?bc2 _") by auto
    have fr: "frame bc ?bc2" using bc1 s(2) by (simp add: frame_def)
    have st2: "store_agrees stored (bc_blocks ?bc2)" using Cons.prems(4) bc1 by simp
    have "fl \<le> length (f # bs)" "extends e (hd (f # bs)) fs" "stored (block_hash_of e (hd (f # bs))) = Some (hd (f # bs))"
      "\<forall>f \<in> set fs. stored (block_hash_of e f) = Some f" using Cons.prems(2,6) ex by auto
    from Cons.IH [OF w2 this(1,2) st2 this(3,4), of "before @ [f]"] obtain bc' err k
      where r: "connect_fork env fork_point (before @ [f]) fs ?bc2 = Some (bc', err)" "k \<le> length fs"
        "work_ok e fl bc' (rev (take k fs) @ f # bs)" "frame ?bc2 bc'" "below_same (length (f # bs)) (bc_heights ?bc2) (bc_heights bc')"
        "err = None \<longrightarrow> k = length fs \<and> (\<forall>f \<in> set fs. map_of (bc_blocks ?bc2) (bh_prev_hash (header f)) \<noteq> None)" by blast
    have "connect_fork env fork_point before (f # fs) bc = Some (bc', err)"
      using True r(1) s(1) by (simp add: v same_node_eqs [OF env])
    moreover have "err = None \<longrightarrow> Suc k = length (f # fs)
        \<and> (\<forall>x \<in> set (f # fs). map_of (bc_blocks bc) (bh_prev_hash (header x)) \<noteq> None)"
      using r(6) p bc1 by auto
    moreover have "work_ok e fl bc' (rev (take (Suc k) (f # fs)) @ bs)" using r(3) by simp
    moreover have "Suc k \<le> length (f # fs)" using r(2) by simp
    moreover have "block_height f = length bs"
      using hp(2) chain_list_hd_height [of e "bc_network bc" bs] chain_list_nonempty [of e "bc_network bc" bs] Cons.prems(1)
      by (cases bs) (auto simp: work_ok_def)
    then have "below_same (length bs) (bc_heights bc) (bc_heights bc')" using r(5) bc1 by (simp add: below_same_def)
    ultimately show ?thesis using frame_trans [OF fr r(4)] by blast
  qed
qed

subsection \<open>Rolling back\<close>

lemma undo_fork_append:
  "undo_fork env g (xs @ ys) bc = Option.bind (undo_fork env g xs bc) (undo_fork env g ys)"
  by (induction xs arbitrary: bc) (auto split: option.splits)

lemma undo_fork_skip:
  "\<forall>b \<in> set us. map_of (bc_heights bc) (block_height b) \<noteq> Some (block_hash_of env b) \<Longrightarrow> undo_fork env True us bc = Some bc"
  by (induction us) auto

lemma undo_fork_all:
  assumes "money_ok e (us @ bs) (bc_stats bc)" and "spends_ok (us @ bs) (bc_utxos bc)"
    and "g \<longrightarrow> (\<forall>b \<in> set us. map_of (bc_heights bc) (block_height b) = Some (block_hash_of e b))"
    and env: "same_node e env"
  shows "\<exists>bc'. undo_fork env g us bc = Some bc' \<and> spends_ok bs (bc_utxos bc') \<and> frame bc bc' \<and> bc_heights bc' = bc_heights bc"
  using assms(1-3)
proof (induction us arbitrary: bc)
  case (Cons u us)
  from money_ok_sub [of e u "us @ bs" "bc_stats bc", OF _ refl] Cons.prems(1)
  obtain s where s: "sub_emission e (block_height u) u (bc_stats bc) = Some s" "money_ok e (us @ bs) s" by auto
  let ?bc = "bc \<lparr> bc_utxos := disconnect_utxos e u (bc_utxos bc), bc_stats := s \<rparr>"
  have "spends_ok (us @ bs) (bc_utxos ?bc)" using spends_ok_disconnect [of u "us @ bs" "bc_utxos bc" e] Cons.prems(2) by simp
  with Cons.IH [of ?bc] s(2) Cons.prems(3) obtain bc' where r: "undo_fork env g us ?bc = Some bc'" "spends_ok bs (bc_utxos bc')"
    "frame ?bc bc'" "bc_heights bc' = bc_heights bc" by auto
  moreover have "frame bc ?bc" using s(1) by (simp add: frame_def sub_emission_difficulty)
  moreover have "undo_fork env g (u # us) bc = undo_fork env g us ?bc"
    using Cons.prems(3) s(1) by (auto simp: same_node_eqs [OF env])
  ultimately show ?case using frame_trans by metis
qed simp

lemma lookup_remove_heights: "map_of (fold hm_remove hs m) h = (if h \<in> set hs then None else map_of m h)"
  by (induction hs arbitrary: m) auto

lemma invar_remove_heights: "hm_invar m \<Longrightarrow> hm_invar (fold hm_remove hs m)"
  by (induction hs arbitrary: m) (auto simp: hmap.invar_remove)

lemma heights_ok_truncate:
  assumes "heights_ok e fl hm (cs @ bs)" and "length cs + length bs \<le> Suc top_height" and "bs \<noteq> []"
  shows "heights_ok e fl (fold hm_remove (rev [length bs..<Suc top_height]) hm) bs"
  unfolding heights_ok_def
proof (intro conjI allI impI)
  show "hm_invar (fold hm_remove (rev [length bs..<Suc top_height]) hm)"
    using assms(1) by (simp add: heights_ok_def invar_remove_heights del: upt_Suc)
  fix h k assume "map_of (fold hm_remove (rev [length bs..<Suc top_height]) hm) h = Some k"
  then have o: "h \<notin> {length bs..<Suc top_height}" and k: "map_of hm h = Some k"
    by (auto simp: lookup_remove_heights simp del: upt_Suc split: if_splits)
  note b = heights_ok_bound [OF assms(1) k] heights_ok_hash [OF assms(1) k]
  with o assms(2) have lt: "h < length bs" by auto
  with b show "h < length bs" "k = block_hash_of e (blk bs h)" by (simp_all add: blk_append)
next
  fix h assume "fl \<le> h \<and> h < length bs"
  moreover from this have "map_of hm h = Some (block_hash_of e (blk (cs @ bs) h))"
    by (intro heights_ok_complete [OF assms(1)]) simp_all
  ultimately show "map_of (fold hm_remove (rev [length bs..<Suc top_height]) hm) h = Some (block_hash_of e (blk bs h))"
    by (simp add: lookup_remove_heights blk_append del: upt_Suc)
qed

definition same_but_utxos :: "blockchain \<Rightarrow> blockchain \<Rightarrow> bool" where
  "same_but_utxos bc bc' = (frame bc bc' \<and> bc_stats bc' = bc_stats bc)"

lemma reapply_ok:
  assumes "heights_ok e fl (bc_heights bc) bs" and "spends_ok bs (bc_utxos bc)" and "distinct (concat (map block_spends (cs @ bs)))"
    and "\<forall>h. length bs \<le> h \<and> h < length (cs @ bs) \<longrightarrow> map_of (bc_blocks bc) (block_hash_of e (blk (cs @ bs) h)) = Some (blk (cs @ bs) h)"
    and env: "same_node e env"
  shows "\<exists>bc'. fold (reapply_block env) (map (\<lambda>h. (h, block_hash_of e (blk (cs @ bs) h))) [length bs..<length bs + length cs]) bc = bc'
    \<and> heights_ok e fl (bc_heights bc') (cs @ bs) \<and> spends_ok (cs @ bs) (bc_utxos bc') \<and> same_but_utxos bc bc'
    \<and> below_same (length bs) (bc_heights bc) (bc_heights bc')"
  using assms(3,4)
proof (induction cs)
  case Nil
  then show ?case using assms(1,2) by (simp add: same_but_utxos_def below_same_def)
next
  case (Cons c cs)
  let ?f = "\<lambda>cs h. (h, block_hash_of e (blk (cs @ bs) h))"
  have "\<forall>h. length bs \<le> h \<and> h < length (cs @ bs) \<longrightarrow> map_of (bc_blocks bc) (block_hash_of e (blk (cs @ bs) h)) = Some (blk (cs @ bs) h)"
    using Cons.prems(2) by (fastforce simp: blk_Cons)
  with Cons obtain bc1 where r: "fold (reapply_block env) (map (?f cs) [length bs..<length bs + length cs]) bc = bc1"
    "heights_ok e fl (bc_heights bc1) (cs @ bs)" "spends_ok (cs @ bs) (bc_utxos bc1)" "same_but_utxos bc bc1"
    "below_same (length bs) (bc_heights bc) (bc_heights bc1)" by auto
  have top: "blk ((c # cs) @ bs) (length bs + length cs) = c" by (simp add: blk_Cons add.commute)
  have m: "map (?f (c # cs)) [length bs..<length bs + length cs] = map (?f cs) [length bs..<length bs + length cs]"
    by (intro map_cong refl) (simp add: blk_Cons)
  have up: "[length bs..<length bs + length (c # cs)] = [length bs..<length bs + length cs] @ [length bs + length cs]" by simp
  have c: "map_of (bc_blocks bc1) (block_hash_of e c) = Some c"
    using Cons.prems(2) [rule_format, of "length bs + length cs"] top r(4) by (simp add: same_but_utxos_def frame_def)
  let ?bc2 = "bc1 \<lparr> bc_heights := hm_insert (length (cs @ bs)) (block_hash_of e c) (bc_heights bc1),
      bc_utxos := connect_utxos e (length (cs @ bs)) c (bc_utxos bc1) \<rparr>"
  have "fold (reapply_block env) (map (?f (c # cs)) [length bs..<length bs + length (c # cs)]) bc = ?bc2"
    unfolding up map_append fold_append m using r(1) c top
    by (simp add: reapply_block_def same_node_eqs [OF env] Let_def add.commute)
  moreover have "heights_ok e fl (bc_heights ?bc2) (c # cs @ bs)" using heights_ok_insert [OF r(2)] by simp
  moreover have "spends_ok (c # cs @ bs) (bc_utxos ?bc2)" by (simp, rule spends_ok_reconnect [OF r(3)]) (use Cons.prems(1) in simp)
  moreover have "same_but_utxos bc ?bc2" using r(4) by (simp add: same_but_utxos_def frame_def)
  moreover have "below_same (length bs) (bc_heights bc) (bc_heights ?bc2)" using r(5) by (simp add: below_same_def)
  ultimately show ?case by simp
qed

lemma undo_branch_ok:
  assumes w: "work_ok e fl bc (rev (take k fs) @ bs)" and fl: "fl \<le> length bs" and k: "k \<le> length fs"
    and hts: "\<forall>i < length fs. block_height (fs ! i) = length bs + i" and g: "\<not> g \<longrightarrow> k = length fs"
    and env: "same_node e env"
  shows "\<exists>bc1. undo_fork env g (rev fs) bc = Some bc1 \<and> spends_ok bs (bc_utxos bc1) \<and> frame bc bc1 \<and> bc_heights bc1 = bc_heights bc"
proof -
  let ?us = "rev (take k fs)" and ?skip = "rev (drop k fs)"
  have h: "heights_ok e fl (bc_heights bc) (?us @ bs)" and m: "money_ok e (?us @ bs) (bc_stats bc)"
    and s: "spends_ok (?us @ bs) (bc_utxos bc)" using w by (auto simp: work_ok_def)
  have skip: "undo_fork env g ?skip bc = Some bc"
  proof (cases g)
    case True
    have "map_of (bc_heights bc) (block_height f) \<noteq> Some (block_hash_of env f)" if f: "f \<in> set ?skip" for f
    proof -
      from f obtain i where i: "k \<le> i" "i < length fs" "f = fs ! i"
        by (auto simp: in_set_conv_nth) (metis add.commute le_add1 less_diff_conv)
      then have "length (?us @ bs) \<le> block_height f" using hts k by simp
      then show ?thesis using heights_ok_bound [OF h] by (metis not_le)
    qed
    with True show ?thesis by (simp add: undo_fork_skip)
  qed (use g in simp)
  have guard: "map_of (bc_heights bc) (block_height f) = Some (block_hash_of e f)" if f: "f \<in> set ?us" for f
  proof -
    from f obtain i where i: "i < k" "f = fs ! i" by (auto simp: in_set_conv_nth)
    with hts k have ht: "block_height f = length bs + i" by simp
    moreover have "blk (?us @ bs) (length bs + i) = f" using i k by (simp add: blk_def nth_append)
    ultimately show ?thesis using heights_ok_complete [OF h, of "length bs + i"] fl i k by simp
  qed
  from undo_fork_all [OF m s _ env, of g] guard obtain bc1 where u: "undo_fork env g ?us bc = Some bc1" "spends_ok bs (bc_utxos bc1)"
    "frame bc bc1" "bc_heights bc1 = bc_heights bc" by blast
  have "rev fs = ?skip @ ?us" by (simp flip: rev_append)
  then have undo: "undo_fork env g (rev fs) bc = Some bc1"
    using skip u(1) by (simp only: undo_fork_append Option.bind.bind_lunit)
  with u show ?thesis by blast
qed

lemma rollback_ok:
  assumes w: "work_ok e fl bc (rev (take k fs) @ bs)" and fl: "fl \<le> length bs" and ne: "bs \<noteq> []" and k: "k \<le> length fs"
    and hts: "\<forall>i < length fs. block_height (fs ! i) = length bs + i" and g: "\<not> g \<longrightarrow> k = length fs"
    and top: "length bs + k \<le> Suc top_height"
    and d: "distinct (concat (map block_spends (cs @ bs)))"
    and cached: "\<forall>h. length bs \<le> h \<and> h < length (cs @ bs) \<longrightarrow>
      map_of (bc_blocks bc) (block_hash_of e (blk (cs @ bs) h)) = Some (blk (cs @ bs) h)"
    and dc: "dc_heights dc = rev (map (\<lambda>h. (h, block_hash_of e (blk (cs @ bs) h))) [length bs..<length bs + length cs])"
    and env: "same_node e env"
  shows "\<exists>bc'. rollback_reorg env g (length bs - 1) top_height fs dc tip stats bc = Some bc'
    \<and> heights_ok e fl (bc_heights bc') (cs @ bs) \<and> spends_ok (cs @ bs) (bc_utxos bc')
    \<and> bc_blocks bc' = bc_blocks bc \<and> bc_db bc' = bc_db bc \<and> bc_network bc' = bc_network bc
    \<and> bc_finality bc' = bc_finality bc \<and> bc_tip bc' = tip \<and> bc_stats bc' = stats
    \<and> below_same (length bs) (bc_heights bc) (bc_heights bc')"
proof -
  let ?us = "rev (take k fs)"
  have h: "heights_ok e fl (bc_heights bc) (?us @ bs)" using w by (simp add: work_ok_def)
  from undo_branch_ok [OF w fl k hts g env] obtain bc1 where undo: "undo_fork env g (rev fs) bc = Some bc1"
    and u: "spends_ok bs (bc_utxos bc1)" "frame bc bc1" "bc_heights bc1 = bc_heights bc" by blast
  let ?bc2 = "remove_heights (rev [length bs..<Suc top_height]) bc1"
  have t: "length ?us + length bs \<le> Suc top_height" using top k by simp
  have h2: "heights_ok e fl (bc_heights ?bc2) bs"
    using heights_ok_truncate [OF h t ne] u(3) by (simp add: remove_heights_def del: upt_Suc)
  have s2: "spends_ok bs (bc_utxos ?bc2)" using u(1) by (simp add: remove_heights_def)
  have b2: "bc_blocks ?bc2 = bc_blocks bc" using u(2) by (simp add: remove_heights_def frame_def)
  from reapply_ok [OF h2 s2 d cached [folded b2] env]
  obtain bc3 where r: "fold (reapply_block env) (map (\<lambda>h. (h, block_hash_of e (blk (cs @ bs) h))) [length bs..<length bs + length cs]) ?bc2 = bc3"
    "heights_ok e fl (bc_heights bc3) (cs @ bs)" "spends_ok (cs @ bs) (bc_utxos bc3)" "same_but_utxos ?bc2 bc3" "below_same (length bs) (bc_heights ?bc2) (bc_heights bc3)" by blast
  have "below_same (length bs) (bc_heights bc) (bc_heights ?bc2)"
    using u(3) by (simp add: below_same_def remove_heights_def lookup_remove_heights del: upt_Suc)
  then have bl: "below_same (length bs) (bc_heights bc) (bc_heights bc3)" using r(5) by (simp add: below_same_def)
  have one: "length bs - 1 + 1 = length bs" using ne by (cases bs) auto
  have "rollback_reorg env g (length bs - 1) top_height fs dc tip stats bc = Some (bc3 \<lparr> bc_tip := tip, bc_stats := stats \<rparr>)"
    unfolding rollback_reorg_def undo dc rev_rev_ident one option.map using r(1) by (simp only: Suc_eq_plus1)
  then show ?thesis using r(2-4) u(2) bl by (simp add: same_but_utxos_def frame_def remove_heights_def)
qed

subsection \<open>The invariant\<close>

definition stored :: "blockchain \<Rightarrow> hash \<Rightarrow> block option" where
  "stored bc k = (case bc_db bc of Some db \<Rightarrow> map_of (cd_blocks db) k | None \<Rightarrow> None)"

definition store_ok :: "'p node_env \<Rightarrow> blockchain \<Rightarrow> bool" where
  "store_ok e bc = (\<forall>k b. stored bc k = Some b \<longrightarrow> block_hash_of e b = k \<and> block_height b \<le> u64_max
     \<and> (block_height b = 0 \<longrightarrow> k = expected_genesis_hash (bc_network bc))
     \<and> (0 < block_height b \<longrightarrow>
          (\<exists>p. stored bc (bh_prev_hash (header b)) = Some p \<and> block_height b = Suc (block_height p))))"

lemma store_ok_hash: "store_ok e bc \<Longrightarrow> stored bc k = Some b \<Longrightarrow> block_hash_of e b = k"
  unfolding store_ok_def by blast

definition disk_ok :: "'p node_env \<Rightarrow> blockchain \<Rightarrow> block list \<Rightarrow> bool" where
  "disk_ok e bc bs = ((\<exists>db. bc_db bc = Some db
       \<and> (\<forall>h. cd_heights db h = (if h < length bs then Some (block_hash_of e (blk bs h)) else None)))
     \<and> (\<forall>h < length bs. stored bc (block_hash_of e (blk bs h)) = Some (blk bs h)))"

definition row_ok :: "'p node_env \<Rightarrow> chain_db option \<Rightarrow> block list \<Rightarrow> bool" where
  "row_ok e od bs = (\<exists>db row. od = Some db \<and> cd_state db = Some row
     \<and> csd_tip_hash row = block_hash_of e (hd bs) \<and> csd_height row = length bs - 1
     \<and> csd_total_supply row = (\<Sum>b \<leftarrow> bs. as_atomic (calculate_block_reward (block_height b)))
     \<and> csd_total_burned row = as_u64 (\<Sum>b \<leftarrow> bs. block_fee_burn e b))"

lemma row_ok_state_row:
  assumes "money_ok e bs s" and "h = block_hash_of e (hd bs)" and "n = length bs - 1"
    and "od = Some db" and "cd_state db = Some (state_row h n s cp)"
  shows "row_ok e od bs"
  using assms by (simp add: row_ok_def state_row_def money_ok_def)

definition tip_ok :: "'p node_env \<Rightarrow> blockchain \<Rightarrow> block list \<Rightarrow> bool" where
  "tip_ok e bc bs = (ct_height (bc_tip bc) = length bs - 1 \<and> ct_hash (bc_tip bc) = block_hash_of e (hd bs)
     \<and> cs_height (bc_stats bc) = length bs - 1 \<and> cs_tip_hash (bc_stats bc) = block_hash_of e (hd bs))"

definition chain_inv :: "'p::ab_group_add node_env \<Rightarrow> blockchain \<Rightarrow> block list \<Rightarrow> bool" where
  "chain_inv e bc bs = (work_ok e (finality_floor (length bs - 1)) bc bs
     \<and> cached_ok (bc_blocks bc) (bc_heights bc) bs \<and> store_agrees (stored bc) (bc_blocks bc)
     \<and> store_ok e bc \<and> disk_ok e bc bs \<and> tip_ok e bc bs \<and> row_ok e (bc_db bc) bs)"

lemma get_block_stored: "store_agrees (stored bc) (bc_blocks bc) \<Longrightarrow> get_block bc k = stored bc k"
  unfolding get_block_def store_agrees_def by (cases "map_of (bc_blocks bc) k") (auto simp: stored_def)

lemma get_block_hash_main:
  assumes "heights_ok e fl (bc_heights bc) bs" and "disk_ok e bc bs"
  shows "get_block_hash bc h = (if h < length bs then Some (block_hash_of e (blk bs h)) else None)"
proof (cases "map_of (bc_heights bc) h")
  case None
  then show ?thesis using assms(2) by (auto simp: get_block_hash_def disk_ok_def)
next
  case (Some k)
  then show ?thesis
    using heights_ok_bound [OF assms(1) Some] heights_ok_hash [OF assms(1) Some] by (simp add: get_block_hash_def)
qed

lemma map_of_apsnd: "map_of (map (apsnd f) xs) k = map_option f (map_of xs k)"
  by (induction xs) auto

lemma store_lookup:
  "map_of (map (apsnd fork_header_of) (bc_blocks bc @ (case bc_db bc of Some db \<Rightarrow> cd_blocks db | None \<Rightarrow> []))) k
     = map_option fork_header_of (get_block bc k)"
  unfolding map_of_apsnd by (auto simp: get_block_def map_add_def split: option.splits)

definition header_store :: "blockchain \<Rightarrow> block_store" where
  "header_store bc = map (apsnd fork_header_of) (bc_blocks bc @ (case bc_db bc of Some db \<Rightarrow> cd_blocks db | None \<Rightarrow> []))"

lemma fork_path:
  assumes ag: "store_agrees (stored bc) (bc_blocks bc)" and so: "store_ok e bc" and dk: "disk_ok e bc bs"
    and ch: "chain_list e (bc_network bc) bs"
    and "fork_point_loop st mn V x = Some fp" and "st = header_store bc"
    and "mn = (\<lambda>h. if h < length bs then Some (block_hash_of e (blk bs h)) else None)"
  shows "fp < length bs \<and> extends e (blk bs fp) (rev (collect_blocks bc fp V x))
    \<and> stored bc x = Some (last (blk bs fp # rev (collect_blocks bc fp V x)))
    \<and> (\<forall>f \<in> set (collect_blocks bc fp V x). stored bc (block_hash_of e f) = Some f)"
  using assms(5-7)
proof (induction st mn V x rule: fork_point_loop.induct)
  case (1 st mn V x)
  note st = "1.prems"(2) and mn = "1.prems"(3)
  have look: "map_of st x = map_option fork_header_of (stored bc x)"
    unfolding st header_store_def store_lookup get_block_stored [OF ag] ..
  from "1.prems"(1) have xV: "x \<notin> V" by (auto simp: fork_point_loop.simps [of st mn V x])
  from "1.prems"(1) xV obtain p where sx: "stored bc x = Some p"
    by (cases "stored bc x") (auto simp: fork_point_loop.simps [of st mn V x] look)
  with so have hx: "block_hash_of e p = x" and g0: "block_height p = 0 \<longrightarrow> x = expected_genesis_hash (bc_network bc)"
    and par: "0 < block_height p \<longrightarrow> (\<exists>q. stored bc (bh_prev_hash (header p)) = Some q \<and> block_height p = Suc (block_height q))"
    unfolding store_ok_def by blast+
  have hp: "fh_height (fork_header_of p) = block_height p" "fh_prev (fork_header_of p) = bh_prev_hash (header p)"
    by (simp_all add: fork_header_of_def)
  have look': "map_of st x = Some (fork_header_of p)" using look sx by simp
  have col: "collect_blocks bc fp V x = (if block_height p \<le> fp then []
      else p # collect_blocks bc fp (insert x V) (bh_prev_hash (header p)))"
    using xV sx by (simp add: collect_blocks.simps [of bc fp V x] get_block_stored [OF ag])
  show ?case
  proof (cases "mn (block_height p) = Some x")
    case True
    with "1.prems"(1) xV look' hp have fp: "fp = block_height p" by (simp add: fork_point_loop.simps [of st mn V x])
    from True mn have lt: "block_height p < length bs" and x: "x = block_hash_of e (blk bs (block_height p))"
      by (auto split: if_splits)
    with dk sx have pb: "blk bs fp = p" unfolding disk_ok_def fp by auto
    have "collect_blocks bc fp V x = []" "fp < length bs" using col lt fp by simp_all
    with pb sx show ?thesis by simp
  next
    case False
    have nz: "block_height p \<noteq> 0"
    proof
      assume z: "block_height p = 0"
      with g0 have "x = block_hash_of e (blk bs 0)" using chain_list_genesis [OF ch] by simp
      with False z mn chain_list_nonempty [OF ch] show False by simp
    qed
    with False "1.prems"(1) xV look' hp have rec: "fork_point_loop st mn (insert x V) (bh_prev_hash (header p)) = Some fp"
      by (simp add: fork_point_loop.simps [of st mn V x])
    let ?c = "collect_blocks bc fp (insert x V) (bh_prev_hash (header p))"
    from "1.IH" [OF xV look'] False nz hp rec st mn
    have ih: "fp < length bs" "extends e (blk bs fp) (rev ?c)" "stored bc (bh_prev_hash (header p)) = Some (last (blk bs fp # rev ?c))"
      "\<forall>f \<in> set ?c. stored bc (block_hash_of e f) = Some f" by auto
    from par nz ih(3) have ht: "block_height p = Suc (block_height (last (blk bs fp # rev ?c)))" by auto
    have prev: "bh_prev_hash (header p) = block_hash_of e (last (blk bs fp # rev ?c))"
      by (rule store_ok_hash [OF so ih(3), symmetric])
    have "fp \<le> block_height (last (blk bs fp # rev ?c))"
    proof (cases "?c")
      case Nil
      then show ?thesis using chain_list_height [OF ch ih(1)] by simp
    next
      case (Cons a l)
      then have "last (blk bs fp # rev ?c) = rev ?c ! (length ?c - 1)" by (simp add: last_conv_nth nth_append)
      then show ?thesis using extends_height [OF ih(2), of "length ?c - 1"] chain_list_height [OF ch ih(1)] Cons by simp
    qed
    with ht have "\<not> block_height p \<le> fp" by simp
    then have c: "collect_blocks bc fp V x = p # ?c" using col by simp
    have "extends e (blk bs fp) (rev (p # ?c))" using ih(2) prev ht by (simp add: extends_snoc)
    moreover have "stored bc (block_hash_of e p) = Some p" using hx sx by simp
    ultimately show ?thesis using c ih sx by simp
  qed
qed

subsection \<open>Checks and storage\<close>

lemma stored_cong: "bc_db bc' = bc_db bc \<Longrightarrow> stored bc' = stored bc"
  by (rule ext) (simp add: stored_def)

lemma stored_updates [simp]:
  "stored (bc \<lparr> bc_caches := c \<rparr>) = stored bc" "stored (bc \<lparr> bc_events := ev \<rparr>) = stored bc"
  "stored (bc \<lparr> bc_generation := n \<rparr>) = stored bc" "stored (bc \<lparr> bc_finality := rf \<rparr>) = stored bc"
  "stored (bc \<lparr> bc_blocks := bk \<rparr>) = stored bc" "stored (bc \<lparr> bc_heights := hm \<rparr>) = stored bc"
  "stored (bc \<lparr> bc_tip := tp \<rparr>) = stored bc" "stored (bc \<lparr> bc_stats := s \<rparr>) = stored bc"
  "stored (bc \<lparr> bc_utxos := u \<rparr>) = stored bc"
  by (rule stored_cong, simp)+

lemma chain_inv_volatile [simp]:
  "chain_inv e (bc \<lparr> bc_caches := c \<rparr>) bs = chain_inv e bc bs"
  "chain_inv e (bc \<lparr> bc_events := ev \<rparr>) bs = chain_inv e bc bs"
  "chain_inv e (bc \<lparr> bc_generation := n \<rparr>) bs = chain_inv e bc bs"
  "chain_inv e (bc \<lparr> bc_finality := rf \<rparr>) bs = chain_inv e bc bs"
  by (simp_all add: chain_inv_def work_ok_def store_ok_def disk_ok_def tip_ok_def)

lemma chain_inv_event [simp]: "chain_inv e (record_event env ty h x bc) bs = chain_inv e bc bs"
  by (simp add: record_event_def)

definition volatile_eq :: "blockchain \<Rightarrow> blockchain \<Rightarrow> bool" where
  "volatile_eq bc bc' = (bc' = bc \<lparr> bc_caches := bc_caches bc', bc_events := bc_events bc' \<rparr>)"

lemma volatile_eqs [simp]:
  "volatile_eq bc bc" "volatile_eq bc (bc \<lparr> bc_caches := c \<rparr>)" "volatile_eq bc (record_event env ty h x bc)"
  "volatile_eq bc (record_event env ty h x (bc \<lparr> bc_caches := c \<rparr>))"
  by (simp_all add: volatile_eq_def record_event_def)

lemma check_new_block_state:
  assumes "check_new_block env b bc = (r, bc')"
  shows "volatile_eq bc bc'"
  using assms unfolding check_new_block_def Let_def
  by (auto split: if_splits prod.splits option.splits bool.splits)

lemma check_new_block_pass:
  assumes "check_new_block env b bc = (None, bc')"
  shows "\<not> is_known bc (block_hash_of env b)"
    and "0 < block_height b \<Longrightarrow> \<exists>p. get_block bc (bh_prev_hash (header b)) = Some p"
    and "block_height b = 0 \<Longrightarrow> block_hash_of env b = expected_genesis_hash (bc_network bc)"
    and "bv_valid (fst (validate_block_with_checkpoint_for_network env b (get_block bc (bh_prev_hash (header b))) (bc_utxos bc)
           (stored_checkpoint bc) (bc_network bc) (bc_caches bc)))"
  using assms by (auto simp: check_new_block_def verify_checkpoint_def Let_def
      split: if_splits prod.splits option.splits bool.splits)

lemma pass_parent:
  assumes inv: "chain_inv e bc bs" and pass: "check_new_block env b bc = (None, bc')" and env: "same_node e env"
  shows "\<exists>p. stored bc (bh_prev_hash (header b)) = Some p \<and> 0 < block_height b \<and> block_height b = Suc (block_height p)
    \<and> block_height b \<le> u64_max \<and> stored bc (block_hash_of e b) = None \<and> map_of (bc_blocks bc) (block_hash_of e b) = None
    \<and> was_accepted e (bc_network bc) b p
    \<and> distinct (block_spends b) \<and> set (block_spends b) \<inter> spent_key_images (bc_utxos bc) = {}"
proof -
  note pa = check_new_block_pass [OF pass]
  have ag: "store_agrees (stored bc) (bc_blocks bc)" and so: "store_ok e bc" and dk: "disk_ok e bc bs"
    and ch: "chain_list e (bc_network bc) bs" using inv by (auto simp: chain_inv_def work_ok_def)
  note h = same_node_eqs(1) [OF env]
  have un: "stored bc (block_hash_of e b) = None" "map_of (bc_blocks bc) (block_hash_of e b) = None"
    using pa(1) by (auto simp: is_known_def stored_def h split: option.splits)
  have pos: "0 < block_height b"
  proof (rule ccontr)
    assume "\<not> 0 < block_height b"
    then have "block_hash_of e b = block_hash_of e (blk bs 0)" using pa(3) chain_list_genesis [OF ch] h by simp
    then have "stored bc (block_hash_of e b) \<noteq> None" using dk chain_list_nonempty [OF ch] by (auto simp: disk_ok_def)
    with un show False by simp
  qed
  from pa(2) [OF pos] obtain p where p: "stored bc (bh_prev_hash (header b)) = Some p" "get_block bc (bh_prev_hash (header b)) = Some p"
    by (auto simp: get_block_stored [OF ag])
  have fs: "\<not> ne_insecure_fast_sync env" using env by (simp add: same_node_def)
  note v = pa(4) [unfolded p(2)]
  have bound: "block_height p \<le> u64_max" using so p(1) unfolding store_ok_def by blast
  have "block_height b = Suc (block_height p)"
    using accepted_links(2) [OF v pos fs] pos bound by (cases "block_height p = u64_max") (auto simp: wrapping_add_def)
  moreover have "was_accepted e (bc_network bc) b p" unfolding was_accepted_def using v env by blast
  ultimately show ?thesis using p(1) pos un accepted_links(3) [OF v pos fs] accepted_spends [OF v pos fs] by blast
qed

lemma store_block_inv:
  assumes inv: "chain_inv e bc bs" and p: "stored bc (bh_prev_hash (header b)) = Some p" "0 < block_height b"
    "block_height b = Suc (block_height p)" "block_height b \<le> u64_max"
    and un: "stored bc (block_hash_of e b) = None"
  shows "chain_inv e (store_block (block_hash_of e b) b bc) bs"
proof -
  let ?h = "block_hash_of e b" and ?bc = "store_block (block_hash_of e b) b bc"
  from inv obtain db where db: "bc_db bc = Some db" by (auto simp: chain_inv_def disk_ok_def)
  have st: "stored ?bc = (stored bc)(?h \<mapsto> b)" by (rule ext) (simp add: store_block_def stored_def db)
  have ag: "store_agrees (stored ?bc) (bc_blocks ?bc)"
    using inv unfolding st by (auto simp: chain_inv_def store_agrees_def store_block_def)
  have so: "store_ok e ?bc"
    unfolding store_ok_def
  proof (intro allI impI)
    fix k c assume k: "stored ?bc k = Some c"
    have keep: "stored ?bc x = Some q" if "stored bc x = Some q" for x q using that un st by auto
    show "block_hash_of e c = k \<and> block_height c \<le> u64_max \<and> (block_height c = 0 \<longrightarrow> k = expected_genesis_hash (bc_network ?bc))
      \<and> (0 < block_height c \<longrightarrow> (\<exists>p. stored ?bc (bh_prev_hash (header c)) = Some p \<and> block_height c = Suc (block_height p)))"
    proof (cases "k = ?h")
      case True
      with k st have "c = b" by simp
      with True p keep [OF p(1)] show ?thesis by auto
    next
      case False
      with k st have "stored bc k = Some c" by simp
      moreover have "store_ok e bc" using inv by (simp add: chain_inv_def)
      ultimately have "block_hash_of e c = k \<and> block_height c \<le> u64_max \<and> (block_height c = 0 \<longrightarrow> k = expected_genesis_hash (bc_network bc))
        \<and> (0 < block_height c \<longrightarrow> (\<exists>p. stored bc (bh_prev_hash (header c)) = Some p \<and> block_height c = Suc (block_height p)))"
        unfolding store_ok_def by blast
      with keep show ?thesis by (auto simp: store_block_def)
    qed
  qed
  have dk: "disk_ok e ?bc bs"
  proof -
    have "stored ?bc (block_hash_of e (blk bs h)) = Some (blk bs h)" if "h < length bs" for h
    proof -
      from inv that have "stored bc (block_hash_of e (blk bs h)) = Some (blk bs h)" by (simp add: chain_inv_def disk_ok_def)
      with un st show ?thesis by auto
    qed
    moreover have "\<exists>db. bc_db ?bc = Some db \<and> (\<forall>h. cd_heights db h = (if h < length bs then Some (block_hash_of e (blk bs h)) else None))"
      using inv by (auto simp: chain_inv_def disk_ok_def store_block_def)
    ultimately show ?thesis by (simp add: disk_ok_def)
  qed
  have ca: "cached_ok (bc_blocks ?bc) (bc_heights ?bc) bs"
    unfolding cached_ok_def
  proof (intro allI impI)
    fix h k assume "map_of (bc_heights ?bc) h = Some k"
    then have k: "map_of (bc_blocks bc) k = Some (blk bs h)" using inv by (simp add: chain_inv_def cached_ok_def store_block_def)
    then have "stored bc k = Some (blk bs h)" using inv by (simp add: chain_inv_def store_agrees_def)
    with un k show "map_of (bc_blocks ?bc) k = Some (blk bs h)" by (auto simp: store_block_def)
  qed
  have "row_ok e (bc_db ?bc) bs" using inv by (auto simp: chain_inv_def row_ok_def store_block_def)
  then show ?thesis using inv ag so dk ca by (simp add: chain_inv_def work_ok_def tip_ok_def store_block_def)
qed

subsection \<open>Extending the tip\<close>

definition main_stored :: "'p node_env \<Rightarrow> blockchain \<Rightarrow> block list \<Rightarrow> bool" where
  "main_stored e bc bs = (\<forall>h < length bs. stored bc (block_hash_of e (blk bs h)) = Some (blk bs h))"

definition view_ok :: "'p::ab_group_add node_env \<Rightarrow> nat \<Rightarrow> blockchain \<Rightarrow> block list \<Rightarrow> bool" where
  "view_ok e fl bc bs = (heights_ok e fl (bc_heights bc) bs \<and> cached_ok (bc_blocks bc) (bc_heights bc) bs
     \<and> store_agrees (stored bc) (bc_blocks bc))"

lemma main_hash_inj:
  assumes "chain_list e n bs" and "main_stored e bc bs" and "h < length bs" and "h' < length bs"
    and "block_hash_of e (blk bs h) = block_hash_of e (blk bs h')"
  shows "h = h'"
proof -
  have "blk bs h = blk bs h'" using assms(2-5) unfolding main_stored_def by (metis option.inject)
  then show ?thesis using chain_list_height [OF assms(1)] assms(3,4) by metis
qed

lemma evict_one_ok:
  assumes v: "view_ok e fl bc bs" and ch: "chain_list e n bs" and ms: "main_stored e bc bs"
    and h: "h < length bs" "k = block_hash_of e (blk bs h)" "h < fl"
  shows "view_ok e fl (bc \<lparr> bc_blocks := hm_remove k (bc_blocks bc), bc_heights := hm_remove h (bc_heights bc) \<rparr>) bs"
proof -
  let ?bc = "bc \<lparr> bc_blocks := hm_remove k (bc_blocks bc), bc_heights := hm_remove h (bc_heights bc) \<rparr>"
  have ho: "heights_ok e fl (bc_heights bc) bs" using v by (simp add: view_ok_def)
  have "heights_ok e fl (bc_heights ?bc) bs"
    unfolding heights_ok_def
  proof (intro conjI allI impI)
    show "hm_invar (bc_heights ?bc)" using heights_ok_invar [OF ho] by (simp add: hmap.invar_remove)
    fix h' k' assume "map_of (bc_heights ?bc) h' = Some k'"
    then have "map_of (bc_heights bc) h' = Some k'" by (simp split: if_splits)
    from heights_ok_bound [OF ho this] heights_ok_hash [OF ho this]
    show "h' < length bs" "k' = block_hash_of e (blk bs h')" .
  next
    fix h' assume "fl \<le> h' \<and> h' < length bs"
    with heights_ok_complete [OF ho, of h'] h(3) show "map_of (bc_heights ?bc) h' = Some (block_hash_of e (blk bs h'))" by simp
  qed
  moreover have "cached_ok (bc_blocks ?bc) (bc_heights ?bc) bs"
    unfolding cached_ok_def
  proof (intro allI impI)
    fix h' k' assume "map_of (bc_heights ?bc) h' = Some k'"
    then have ne: "h' \<noteq> h" and k': "map_of (bc_heights bc) h' = Some k'" by (auto split: if_splits)
    have "k' \<noteq> k"
    proof
      assume "k' = k"
      then have "block_hash_of e (blk bs h') = block_hash_of e (blk bs h)" using heights_ok_hash [OF ho k'] h(2) by simp
      from main_hash_inj [OF ch ms heights_ok_bound [OF ho k'] h(1) this] ne show False by simp
    qed
    with v k' show "map_of (bc_blocks ?bc) k' = Some (blk bs h')" by (simp add: view_ok_def cached_ok_def)
  qed
  moreover have "store_agrees (stored ?bc) (bc_blocks ?bc)" using v by (simp add: view_ok_def store_agrees_def)
  ultimately show ?thesis by (simp add: view_ok_def)
qed

definition only_caches :: "blockchain \<Rightarrow> blockchain \<Rightarrow> bool" where
  "only_caches bc bc' = (bc_network bc' = bc_network bc \<and> bc_tip bc' = bc_tip bc \<and> bc_stats bc' = bc_stats bc
     \<and> bc_utxos bc' = bc_utxos bc \<and> bc_db bc' = bc_db bc \<and> bc_finality bc' = bc_finality bc)"

lemma only_caches_refl [simp]: "only_caches bc bc"
  by (simp add: only_caches_def)

lemma only_caches_step:
  assumes "only_caches (bc \<lparr> bc_blocks := bk, bc_heights := hm \<rparr>) bc'" shows "only_caches bc bc'"
  using assms by (simp add: only_caches_def)

lemma evict_entries_ok:
  assumes "view_ok e fl bc bs" and ch: "chain_list e n bs" and "main_stored e bc bs"
    and "\<forall>(h, k) \<in> set es. h < length bs \<and> k = block_hash_of e (blk bs h)" and "ct_height (bc_tip bc) < fl + 144"
  shows "view_ok e fl (evict_entries m es bc) bs
    \<and> only_caches bc (evict_entries m es bc)"
  using assms(1,3-)
proof (induction m es bc rule: evict_entries.induct)
  case (1 m bc)
  then show ?case by simp
next
  case (2 m h k es bc)
  show ?case
  proof (cases "m = 0")
    case True
    then show ?thesis using "2.prems"(1) by simp
  next
    case m: False
    show ?thesis
    proof (cases "h = 0 \<or> ct_height (bc_tip bc) \<le> h + 200")
      case True
      then have eq: "evict_entries m ((h, k) # es) bc = evict_entries m es bc" using m by auto
      have "\<forall>(h, k) \<in> set es. h < length bs \<and> k = block_hash_of e (blk bs h)" using "2.prems"(3) by simp
      with "2.IH"(1) [OF m] "2.IH"(2) [OF m] True "2.prems"(1,2,4) show ?thesis unfolding eq by blast
    next
      case False
      let ?bc = "bc \<lparr> bc_blocks := hm_remove k (bc_blocks bc), bc_heights := hm_remove h (bc_heights bc) \<rparr>"
      from "2.prems"(3) have hk: "h < length bs" "k = block_hash_of e (blk bs h)"
        and es: "\<forall>(h, k) \<in> set es. h < length bs \<and> k = block_hash_of e (blk bs h)" by auto
      have lt: "h < fl" using False "2.prems"(4) by simp
      have v: "view_ok e fl ?bc bs" by (rule evict_one_ok [OF "2.prems"(1) ch "2.prems"(2) hk lt])
      have ms: "main_stored e ?bc bs" using "2.prems"(2) by (simp add: main_stored_def)
      have tp: "ct_height (bc_tip ?bc) < fl + 144" using "2.prems"(4) by simp
      have eq: "evict_entries m ((h, k) # es) bc = evict_entries (m - 1) es ?bc" using m False by simp
      have "view_ok e fl (evict_entries (m - 1) es ?bc) bs \<and> only_caches ?bc (evict_entries (m - 1) es ?bc)"
        by (rule "2.IH"(3) [OF m _ _ v ms es tp]) (use False in auto)
      then show ?thesis unfolding eq using only_caches_step by blast
    qed
  qed
qed

lemma evict_block_cache_ok:
  assumes v: "view_ok e fl bc bs" and "chain_list e n bs" and "main_stored e bc bs" and "ct_height (bc_tip bc) < fl + 144"
  shows "view_ok e fl (evict_block_cache bc) bs \<and> only_caches bc (evict_block_cache bc)"
proof -
  have ho: "heights_ok e fl (bc_heights bc) bs" using v by (simp add: view_ok_def)
  have "\<forall>(h, k) \<in> set (sort_key fst (bc_heights bc)). h < length bs \<and> k = block_hash_of e (blk bs h)"
  proof clarify
    fix h k assume "(h, k) \<in> set (sort_key fst (bc_heights bc))"
    then have "map_of (bc_heights bc) h = Some k" using heights_ok_invar [OF ho] by (simp add: hm_invar_def)
    from heights_ok_bound [OF ho this] heights_ok_hash [OF ho this]
    show "h < length bs \<and> k = block_hash_of e (blk bs h)" by blast
  qed
  from evict_entries_ok [OF v assms(2,3) this assms(4)] v show ?thesis by (simp add: evict_block_cache_def)
qed

lemma finality_floor_mono: "a \<le> b \<Longrightarrow> finality_floor a \<le> finality_floor b"
proof -
  assume "a \<le> b"
  have eq: "finality_floor t = t div CHECKPOINT_INTERVAL * CHECKPOINT_INTERVAL" for t
    unfolding finality_floor_def by (metis minus_mod_eq_div_mult)
  show ?thesis unfolding eq by (rule mult_le_mono1) (rule div_le_mono [OF \<open>a \<le> b\<close>])
qed

lemma finality_floor_above: "finality_floor t \<le> s \<Longrightarrow> finality_floor t \<le> finality_floor s"
proof -
  assume "finality_floor t \<le> s"
  moreover have "finality_floor (finality_floor t) = finality_floor t"
    unfolding finality_floor_def by (simp add: minus_mod_eq_div_mult)
  ultimately show ?thesis using finality_floor_mono by metis
qed

lemma heights_ok_weaken: "heights_ok e fl hm bs \<Longrightarrow> fl \<le> fl' \<Longrightarrow> heights_ok e fl' hm bs"
  unfolding heights_ok_def by (meson order_trans)

lemma persist_index_utxos:
  "spent_key_images (bc_utxos (persist_output_index txs h bc)) = spent_key_images (bc_utxos bc)"
  "db_output_index (bc_utxos (persist_output_index txs h bc)) = None \<longleftrightarrow> db_output_index (bc_utxos bc) = None"
  by (simp_all add: persist_output_index_def)

lemma persist_tip_heights:
  assumes "bc_db bc = Some db"
  shows "\<exists>db' cp. bc_db (persist_tip env h b bc) = Some db' \<and> cd_heights db' = (cd_heights db)(block_height b \<mapsto> h)
    \<and> cd_state db' = Some (state_row h (block_height b) (bc_stats bc) cp)"
  using assms by (auto simp: persist_tip_def Let_def record_event_def)

lemma extend_tip_ok:
  assumes inv: "chain_inv e bc bs" and env: "same_node e env"
    and b: "bh_prev_hash (header b) = block_hash_of e (hd bs)" "block_height b = Suc (block_height (hd bs))" "block_height b \<le> u64_max"
    and acc: "was_accepted e (bc_network bc) b (hd bs)" and d: "distinct (block_spends b)"
      "set (block_spends b) \<inter> spent_key_images (bc_utxos bc) = {}"
    and st: "stored bc (block_hash_of e b) = Some b" "map_of (bc_blocks bc) (block_hash_of e b) = Some b"
  shows "\<exists>bc'. extend_tip env fin (block_hash_of e b) b bc = (Inr Accepted, bc') \<and> chain_inv e bc' (b # bs)"
proof -
  let ?h = "block_hash_of e b" and ?fl = "finality_floor (length bs)"
  have w: "work_ok e (finality_floor (length bs - 1)) bc bs" and so: "store_ok e bc" and dk: "disk_ok e bc bs"
    and ca: "cached_ok (bc_blocks bc) (bc_heights bc) bs" and ag: "store_agrees (stored bc) (bc_blocks bc)"
    using inv by (auto simp: chain_inv_def)
  have ch: "chain_list e (bc_network bc) bs" and ho: "heights_ok e (finality_floor (length bs - 1)) (bc_heights bc) bs"
    and mo: "money_ok e bs (bc_stats bc)" and sp: "spends_ok bs (bc_utxos bc)" using w by (auto simp: work_ok_def)
  have ne: "bs \<noteq> []" by (rule chain_list_nonempty [OF ch])
  have ht: "block_height b = length bs" using b(2) chain_list_hd_height [OF ch] ne by (cases bs) auto
  have ch': "chain_list e (bc_network bc) (b # bs)" using b acc ch by (simp add: chain_list_Cons [OF ne])
  let ?s0 = "bc_stats bc \<lparr> cs_height := block_height b, cs_total_blocks := cs_total_blocks (bc_stats bc) + 1,
      cs_total_transactions := cs_total_transactions (bc_stats bc) + length (transactions b),
      cs_difficulty := chain_work_from_target (bh_target (header b)), cs_tip_hash := ?h,
      cs_total_difficulty := wrapping_add u128_max (cs_total_difficulty (bc_stats bc)) (chain_work_from_target (bh_target (header b))) \<rparr>"
  have "money_ok e bs ?s0" using mo by (simp add: money_ok_def)
  from money_ok_add [OF this refl] ht b(3) obtain s where s: "add_emission e (block_height b) b ?s0 = Some s" "money_ok e (b # bs) s"
    by fastforce
  have s_tip: "cs_height s = block_height b" "cs_tip_hash s = ?h"
    using s(1) by (auto simp: add_emission_def bind_eq_Some_conv)
  let ?bc1 = "bc \<lparr> bc_heights := hm_insert (block_height b) ?h (bc_heights bc), bc_tip := tip_of ?h b, bc_stats := s,
      bc_utxos := evict_old_outputs (block_height b) 1000 (connect_utxos e (block_height b) b (bc_utxos bc)) \<rparr>"
  have sp1: "spends_ok (b # bs) (bc_utxos ?bc1)"
    using spends_ok_connect [OF sp d, of e "block_height b"] by (simp add: spends_ok_def evict_old_outputs_def Let_def)
  have "heights_ok e ?fl (bc_heights bc) bs" by (rule heights_ok_weaken [OF ho]) (rule finality_floor_mono, simp)
  from heights_ok_insert [OF this, of b] have h1: "heights_ok e ?fl (bc_heights ?bc1) (b # bs)" by (simp add: ht)
  have c1: "cached_ok (bc_blocks ?bc1) (bc_heights ?bc1) (b # bs)"
    unfolding cached_ok_def
  proof (intro allI impI)
    fix x k assume k: "map_of (bc_heights ?bc1) x = Some k"
    show "map_of (bc_blocks ?bc1) k = Some (blk (b # bs) x)"
    proof (cases "x = length bs")
      case True
      with k ht st(2) show ?thesis by (simp add: blk_Cons)
    next
      case False
      with k ht have x: "map_of (bc_heights bc) x = Some k" by simp
      with ca have "map_of (bc_blocks bc) k = Some (blk bs x)" by (simp add: cached_ok_def)
      with heights_ok_bound [OF ho x] show ?thesis by (simp add: blk_Cons)
    qed
  qed
  have v1: "view_ok e ?fl ?bc1 (b # bs)" using h1 c1 ag by (simp add: view_ok_def)
  have ms1: "main_stored e ?bc1 (b # bs)"
    unfolding main_stored_def
  proof (intro allI impI)
    fix x assume "x < length (b # bs)"
    then show "stored ?bc1 (block_hash_of e (blk (b # bs) x)) = Some (blk (b # bs) x)"
      using st(1) dk by (cases "x = length bs") (simp_all add: blk_Cons disk_ok_def)
  qed
  have "ct_height (bc_tip ?bc1) < ?fl + 144" using finality_floor_bound [of "length bs"] by (simp add: tip_of_def ht)
  from evict_block_cache_ok [OF v1 ch' ms1 this] have v2: "view_ok e ?fl (evict_block_cache ?bc1) (b # bs)"
    and oc: "only_caches ?bc1 (evict_block_cache ?bc1)" by blast+
  let ?bc2 = "evict_block_cache ?bc1"
  let ?bc3 = "persist_output_index (transactions b) (block_height b) ?bc2"
  let ?bc4 = "persist_tip env ?h b ?bc3"
  let ?bc5 = "record_event env BlockAccepted (block_height b) ?h (feed_finality env fin b ?bc4)"
  have e1: "extend_tip env fin ?h b bc = (Inr Accepted, ?bc5)"
    using s(1) by (simp add: extend_tip_def same_node_eqs [OF env] Let_def)
  have v3: "view_ok e ?fl ?bc3 (b # bs)" using v2 by (simp add: view_ok_def persist_output_index_def)
  from dk obtain db where db: "bc_db bc = Some db"
    and hs: "\<forall>x. cd_heights db x = (if x < length bs then Some (block_hash_of e (blk bs x)) else None)"
    by (auto simp: disk_ok_def)
  have db3: "bc_db ?bc3 = Some db" using oc db by (simp add: only_caches_def persist_output_index_def)
  have st4: "stored ?bc4 = stored bc"
    by (rule ext) (simp add: stored_def persist_tip_def db3 db record_event_def Let_def)
  have same4: "bc_network ?bc4 = bc_network bc" "bc_tip ?bc4 = tip_of ?h b" "bc_stats ?bc4 = s" "bc_heights ?bc4 = bc_heights ?bc3"
    "bc_blocks ?bc4 = bc_blocks ?bc3" "bc_utxos ?bc4 = bc_utxos ?bc3"
    using oc db3 by (simp_all add: only_caches_def persist_tip_def persist_output_index_def record_event_def Let_def)
  have "spends_ok (b # bs) (bc_utxos ?bc4)"
    using sp1 oc unfolding same4 spends_ok_def persist_index_utxos by (simp add: only_caches_def)
  then have w4: "work_ok e ?fl ?bc4 (b # bs)" using ch' v3 s(2) unfolding work_ok_def same4 by (simp add: view_ok_def)
  have st3: "stored ?bc3 = stored bc" using db3 db by (intro stored_cong) simp
  have v4: "cached_ok (bc_blocks ?bc4) (bc_heights ?bc4) (b # bs)" "store_agrees (stored ?bc4) (bc_blocks ?bc4)"
    using v3 unfolding same4 st4 view_ok_def st3 by simp_all
  have so4: "store_ok e ?bc4" using so unfolding store_ok_def st4 same4 by simp
  have "\<exists>db'. bc_db ?bc4 = Some db' \<and> (\<forall>x. cd_heights db' x = (if x < length (b # bs) then Some (block_hash_of e (blk (b # bs) x)) else None))"
    using persist_tip_heights [OF db3, of env ?h b] hs by (auto simp: ht blk_Cons)
  then have dk4: "disk_ok e ?bc4 (b # bs)" using ms1 unfolding disk_ok_def st4 main_stored_def by simp
  have tp4: "tip_ok e ?bc4 (b # bs)" unfolding tip_ok_def same4 using s_tip by (simp add: tip_of_def ht)
  have "bc_stats ?bc3 = s" using oc by (simp add: only_caches_def persist_output_index_def)
  with persist_tip_heights [OF db3, of env ?h b] obtain db4 cp where
    db4: "bc_db ?bc4 = Some db4" "cd_state db4 = Some (state_row ?h (block_height b) s cp)" by auto
  have "row_ok e (bc_db ?bc4) (b # bs)" by (rule row_ok_state_row [OF s(2) _ _ db4]) (simp_all add: ht)
  then have "chain_inv e ?bc4 (b # bs)" using w4 v4 so4 dk4 tp4 by (simp add: chain_inv_def)
  then have "chain_inv e ?bc5 (b # bs)" by (simp add: feed_finality_def Let_def split: option.splits)
  with e1 show ?thesis by blast
qed

subsection \<open>Reorganising\<close>

lemma decide_reorg:
  assumes "decide_fork c b x = PerformReorg p d"
  shows "find_fork_point (cv_store c) (cv_main c) b = Some p" and "finality_floor (cv_tip_height c) \<le> p"
  using assms by (auto simp: decide_fork_def Let_def split: if_splits option.splits sum.splits prod.splits)

lemma collect_blocks_cong:
  assumes "get_block bc' = get_block bc"
  shows "collect_blocks bc' fp V x = collect_blocks bc fp V x"
  using assms
proof (induction bc fp V x rule: collect_blocks.induct)
  case (1 bc fp V x)
  then show ?case
    by (cases "get_block bc x") (simp_all add: collect_blocks.simps [of bc fp V x] collect_blocks.simps [of bc' fp V x])
qed

lemma extends_link: "extends e g fs \<Longrightarrow> Suc i < length fs \<Longrightarrow> bh_prev_hash (header (fs ! Suc i)) = block_hash_of e (fs ! i)"
proof (induction fs arbitrary: g i)
  case (Cons f fs)
  show ?case
  proof (cases i)
    case 0
    then show ?thesis using Cons.prems by (cases fs) auto
  next
    case (Suc j)
    then show ?thesis using Cons.IH [of f j] Cons.prems by simp
  qed
qed simp

lemma branch_cached:
  assumes ex: "extends e g (fs @ [b])" and par: "\<forall>f \<in> set (fs @ [b]). map_of blocks (bh_prev_hash (header f)) \<noteq> None"
    and ag: "store_agrees st blocks" and st: "\<forall>f \<in> set fs. st (block_hash_of e f) = Some f" and i: "i < length fs"
  shows "map_of blocks (block_hash_of e (fs ! i)) = Some (fs ! i)"
proof -
  have "bh_prev_hash (header ((fs @ [b]) ! Suc i)) = block_hash_of e (fs ! i)"
    using extends_link [OF ex, of i] i by (simp add: nth_append)
  moreover have "(fs @ [b]) ! Suc i \<in> set (fs @ [b])" using i by (intro nth_mem) simp
  ultimately obtain c where c: "map_of blocks (block_hash_of e (fs ! i)) = Some c" using par by fastforce
  with ag have "st (block_hash_of e (fs ! i)) = Some c" by (simp add: store_agrees_def)
  with st i c show ?thesis by simp
qed

lemma fold_map_upd_other: "h \<notin> f ` set xs \<Longrightarrow> fold (\<lambda>b m. m(f b \<mapsto> g b)) xs m h = m h"
  by (induction xs arbitrary: m) auto

lemma fold_map_upd_heights:
  "\<forall>i < length xs. f (xs ! i) = n + i \<Longrightarrow>
   fold (\<lambda>b m. m(f b \<mapsto> g b)) xs m h = (if n \<le> h \<and> h < n + length xs then Some (g (xs ! (h - n))) else m h)"
proof (induction xs rule: rev_induct)
  case (snoc x xs)
  then have "\<forall>i < length xs. f (xs ! i) = n + i" by (metis length_append_singleton less_Suc_eq nth_append)
  moreover have "f x = n + length xs" using snoc.prems by (metis length_append_singleton lessI nth_append_length)
  ultimately show ?case using snoc.IH by (auto simp: nth_append)
qed auto

lemma fold_map_del: "fold (\<lambda>h m. m(h := None)) hs m x = (if x \<in> set hs then None else m x)"
  by (induction hs arbitrary: m) auto

lemma reorg_disk:
  assumes db: "bc_db bc = Some db" "db_output_index (bc_utxos bc) \<noteq> None"
    and hs: "\<forall>h. cd_heights db h = (if h < length (cs @ base) then Some (block_hash_of e (blk (cs @ base) h)) else None)"
    and env: "same_node e env" and hts: "\<forall>i < length ns. block_height (ns ! i) = length base + i"
    and row: "Suc (csd_height row) = length base + length ns" and old: "old = length (cs @ base) - 1" and ne: "base \<noteq> []"
  shows "\<exists>db'. bc_db (apply_reorg_atomic env gone ns old row bc) = Some db' \<and> cd_blocks db' = cd_blocks db \<and> cd_state db' = Some row
    \<and> (\<forall>h. cd_heights db' h = (if h < length (rev ns @ base) then Some (block_hash_of e (blk (rev ns @ base) h)) else None))"
proof -
  from db obtain oi where oi: "db_output_index (bc_utxos bc) = Some oi" by blast
  let ?H = "fold (\<lambda>h m. m(h := None)) [csd_height row + 1..<old + 1]
      (fold (\<lambda>b m. m(block_height b \<mapsto> block_hash_of e b)) ns (cd_heights db))"
  have "?H h = (if h < length (rev ns @ base) then Some (block_hash_of e (blk (rev ns @ base) h)) else None)" for h
  proof -
    have "blk (rev ns @ base) h = ns ! (h - length base)" if "length base \<le> h" "h < length base + length ns"
      using that by (simp add: blk_def nth_append)
    moreover have "blk (rev ns @ base) h = blk (cs @ base) h" if "h < length base" using that by (simp add: blk_append)
    ultimately show ?thesis
      using row old ne unfolding fold_map_del fold_map_upd_heights [OF hts] by (auto simp: hs simp del: upt_Suc)
  qed
  then show ?thesis using db(1) oi by (simp add: apply_reorg_atomic_def Let_def same_node_eqs [OF env] del: upt_Suc)
qed

lemma reorg_utxos: "spends_ok bs (bc_utxos (apply_reorg_atomic env gone ns old row bc)) = spends_ok bs (bc_utxos bc)"
  by (simp add: apply_reorg_atomic_def spends_ok_def Let_def split: option.split)

lemma reorg_rest:
  "bc_network (apply_reorg_atomic env gone ns old row bc) = bc_network bc"
  "bc_blocks (apply_reorg_atomic env gone ns old row bc) = bc_blocks bc"
  "bc_heights (apply_reorg_atomic env gone ns old row bc) = bc_heights bc"
  "bc_tip (apply_reorg_atomic env gone ns old row bc) = bc_tip bc"
  "bc_stats (apply_reorg_atomic env gone ns old row bc) = bc_stats bc"
  by (simp_all add: apply_reorg_atomic_def Let_def split: option.split)

lemma commit_ok:
  assumes w: "work_ok e fl bc (rev fs @ base)" and fl: "fl \<le> length base" and ne: "base \<noteq> []"
    and ca: "cached_ok (bc_blocks bc) (bc_heights bc) (rev fs @ base)"
    and ag: "store_agrees (stored bc) (bc_blocks bc)" and so: "store_ok e bc"
    and disk: "bc_db bc = Some db" "\<forall>h. cd_heights db h = (if h < length (cs @ base) then Some (block_hash_of e (blk (cs @ base) h)) else None)"
    and main: "\<forall>h < length (rev fs @ base). stored bc (block_hash_of e (blk (rev fs @ base) h)) = Some (blk (rev fs @ base) h)"
    and st: "stored bc (block_hash_of e b) = Some b" "map_of (bc_blocks bc) (block_hash_of e b) = Some b"
    and b: "bh_prev_hash (header b) = block_hash_of e (hd (rev fs @ base))" "block_height b = Suc (block_height (hd (rev fs @ base)))"
      "block_height b \<le> u64_max"
    and acc: "was_accepted e (bc_network bc) b (hd (rev fs @ base))" and d: "distinct (block_spends b)"
      "set (block_spends b) \<inter> spent_key_images (bc_utxos bc) = {}"
    and hts: "\<forall>i < length fs. block_height (fs ! i) = length base + i"
    and nfl: "fl \<le> finality_floor (block_height b)" and old: "old = length (cs @ base) - 1" and env: "same_node e env"
  shows "\<exists>bc'. commit_reorg env (block_hash_of e b) b cumulative fs dc old bc
      = (Inr (AcceptedReorg (filter (\<lambda>tx. \<not> is_coinbase tx) (concat (dc_tx_lists dc)))), bc')
    \<and> chain_inv e bc' (b # rev fs @ base)"
proof -
  let ?bs = "rev fs @ base" and ?h = "block_hash_of e b"
  have ch: "chain_list e (bc_network bc) ?bs" using w by (simp add: work_ok_def)
  have ht: "block_height b = length ?bs"
    using b(2) chain_list_hd_height [OF ch] ne by (cases "length ?bs") auto
  have "fl \<le> length ?bs" using fl by simp
  from work_ok_connect [OF w this b acc d] obtain s where s: "add_emission e (block_height b) b (bc_stats bc) = Some s"
    and w2: "work_ok e fl (bc \<lparr> bc_heights := hm_insert (block_height b) ?h (bc_heights bc),
      bc_utxos := connect_utxos e (block_height b) b (bc_utxos bc), bc_stats := s \<rparr>) (b # ?bs)" by blast
  let ?s = "s \<lparr> cs_height := block_height b, cs_difficulty := chain_work_from_target (bh_target (header b)), cs_tip_hash := ?h,
      cs_total_difficulty := cumulative,
      cs_total_blocks := recount (cs_total_blocks s) (dc_blocks dc) (length fs + 1),
      cs_total_transactions := recount (cs_total_transactions s) (dc_txs dc)
        (sum_list (map (length \<circ> transactions) fs) + length (transactions b)) \<rparr>"
  let ?bc1 = "bc \<lparr> bc_utxos := connect_utxos e (block_height b) b (bc_utxos bc), bc_tip := tip_of ?h b,
      bc_stats := ?s, bc_heights := hm_insert (block_height b) ?h (bc_heights bc) \<rparr>"
  let ?row = "state_row ?h (block_height b) ?s (last_checkpoint_of db)"
  let ?bc2 = "apply_reorg_atomic env (dc_tx_lists dc) (fs @ [b]) old ?row ?bc1"
  have e1: "commit_reorg env ?h b cumulative fs dc old bc
      = (Inr (AcceptedReorg (filter (\<lambda>tx. \<not> is_coinbase tx) (concat (dc_tx_lists dc)))), record_event env Reorg (block_height b) ?h ?bc2)"
    using s disk(1) by (simp add: commit_reorg_def same_node_eqs [OF env] Let_def)
  have "work_ok e fl ?bc1 (b # ?bs)" using w2 by (simp add: work_ok_def money_ok_def)
  then have w3: "work_ok e (finality_floor (block_height b)) ?bc2 (b # ?bs)"
    by (auto simp: work_ok_def reorg_rest reorg_utxos intro: heights_ok_weaken [OF _ nfl])
  have d1: "bc_db ?bc1 = Some db" "db_output_index (bc_utxos ?bc1) \<noteq> None"
    using disk(1) w2 by (auto simp: work_ok_def spends_ok_def)
  have hts': "\<forall>i < length (fs @ [b]). block_height ((fs @ [b]) ! i) = length base + i"
    using hts ht by (auto simp: nth_append less_Suc_eq)
  have "Suc (csd_height ?row) = length base + length (fs @ [b])" by (simp add: state_row_def ht)
  from reorg_disk [OF d1 disk(2) env hts' this old ne]
  obtain db' where db': "bc_db ?bc2 = Some db'" "cd_blocks db' = cd_blocks db" and row: "cd_state db' = Some ?row"
    and hs: "\<forall>h. cd_heights db' h = (if h < length (rev (fs @ [b]) @ base) then Some (block_hash_of e (blk (rev (fs @ [b]) @ base) h)) else None)"
    by blast
  have st2: "stored ?bc2 = stored bc" using db' disk(1) by (intro ext) (simp add: stored_def)
  have "stored ?bc2 (block_hash_of e (blk (b # ?bs) h)) = Some (blk (b # ?bs) h)" if "h < length (b # ?bs)" for h
    using that main st(1) unfolding st2 by (cases "h = length ?bs") (simp_all add: blk_Cons)
  with db' hs have dk: "disk_ok e ?bc2 (b # ?bs)" by (simp add: disk_ok_def)
  have "money_ok e (b # ?bs) ?s" using w2 by (simp add: work_ok_def money_ok_def)
  from row_ok_state_row [OF this _ _ db'(1) row] have ro: "row_ok e (bc_db ?bc2) (b # ?bs)" by (simp add: ht)
  have ca2: "cached_ok (bc_blocks ?bc2) (bc_heights ?bc2) (b # ?bs)"
    unfolding cached_ok_def reorg_rest
  proof (intro allI impI)
    fix x k assume k: "map_of (bc_heights ?bc1) x = Some k"
    show "map_of (bc_blocks ?bc1) k = Some (blk (b # ?bs) x)"
    proof (cases "x = length ?bs")
      case True
      with k ht st(2) show ?thesis by (simp add: blk_Cons)
    next
      case False
      with k ht have x: "map_of (bc_heights bc) x = Some k" by simp
      with w have "x < length ?bs" by (auto simp: work_ok_def dest: heights_ok_bound)
      with ca x show ?thesis by (simp add: cached_ok_def blk_Cons)
    qed
  qed
  have "chain_inv e ?bc2 (b # ?bs)"
    using w3 ca2 ag so dk ro unfolding chain_inv_def st2 store_ok_def tip_ok_def reorg_rest by (simp add: ht tip_of_def)
  with e1 show ?thesis by simp
qed

lemma rollback_inv:
  assumes w: "work_ok e fl bc (rev (take k fs) @ base)" and fl: "fl = finality_floor (length (cs @ base) - 1)" "fl \<le> length base"
    and ne: "base \<noteq> []" and k: "k \<le> length fs"
    and hts: "\<forall>i < length fs. block_height (fs ! i) = length base + i" and g: "\<not> g \<longrightarrow> k = length fs"
    and inv: "chain_inv e bc0 (cs @ base)" and fr: "frame bc0 bc"
    and low: "\<forall>x y. x < length base \<and> map_of (bc_heights bc) x = Some y \<longrightarrow> map_of (bc_blocks bc) y = Some (blk base x)"
    and dc: "dc_heights dc = rev (map (\<lambda>h. (h, block_hash_of e (blk (cs @ base) h))) [length base..<length base + length cs])"
    and env: "same_node e env"
  shows "\<exists>bc'. rollback_reorg env g (length base - 1) top_height fs dc (bc_tip bc0) (bc_stats bc0) bc = Some bc'
    \<and> (length base + k \<le> Suc top_height \<longrightarrow> chain_inv e bc' (cs @ base))"
proof (cases "length base + k \<le> Suc top_height")
  case False
  from undo_branch_ok [OF w fl(2) k hts g env] show ?thesis
    using False by (auto simp: rollback_reorg_def)
next
  case True
  have ch: "chain_list e (bc_network bc0) (cs @ base)" and ho: "heights_ok e fl (bc_heights bc0) (cs @ base)"
    and ca: "cached_ok (bc_blocks bc0) (bc_heights bc0) (cs @ base)"
    and sp: "spends_ok (cs @ base) (bc_utxos bc0)" using inv fl by (auto simp: chain_inv_def work_ok_def)
  have d: "distinct (concat (map block_spends (cs @ base)))" using sp by (simp add: spends_ok_def)
  have cached: "\<forall>h. length base \<le> h \<and> h < length (cs @ base) \<longrightarrow>
      map_of (bc_blocks bc) (block_hash_of e (blk (cs @ base) h)) = Some (blk (cs @ base) h)"
  proof (intro allI impI)
    fix h assume "length base \<le> h \<and> h < length (cs @ base)"
    with fl(2) have "map_of (bc_heights bc0) h = Some (block_hash_of e (blk (cs @ base) h))"
      by (intro heights_ok_complete [OF ho]) auto
    with ca fr show "map_of (bc_blocks bc) (block_hash_of e (blk (cs @ base) h)) = Some (blk (cs @ base) h)"
      by (simp add: cached_ok_def frame_def)
  qed
  from rollback_ok [OF w fl(2) ne k hts g True d cached dc env, of "bc_tip bc0" "bc_stats bc0"]
  obtain bc' where r: "rollback_reorg env g (length base - 1) top_height fs dc (bc_tip bc0) (bc_stats bc0) bc = Some bc'"
    and h: "heights_ok e fl (bc_heights bc') (cs @ base)" "spends_ok (cs @ base) (bc_utxos bc')"
    and eq: "bc_blocks bc' = bc_blocks bc" "bc_db bc' = bc_db bc" "bc_network bc' = bc_network bc"
      "bc_tip bc' = bc_tip bc0" "bc_stats bc' = bc_stats bc0" and bl: "below_same (length base) (bc_heights bc) (bc_heights bc')" by blast
  have st: "stored bc' = stored bc0" using eq(2) fr by (intro stored_cong) (simp add: frame_def)
  have "cached_ok (bc_blocks bc') (bc_heights bc') (cs @ base)"
    unfolding cached_ok_def
  proof (intro allI impI)
    fix x y assume x: "map_of (bc_heights bc') x = Some y"
    note y = heights_ok_hash [OF h(1) x] and lt = heights_ok_bound [OF h(1) x]
    show "map_of (bc_blocks bc') y = Some (blk (cs @ base) x)"
    proof (cases "length base \<le> x")
      case True
      with cached y lt eq(1) show ?thesis by simp
    next
      case False
      then show ?thesis using low x bl eq(1) by (simp add: below_same_def blk_append)
    qed
  qed
  then have "chain_inv e bc' (cs @ base)"
    using inv h eq fr fl(1) unfolding chain_inv_def work_ok_def store_ok_def disk_ok_def tip_ok_def st by (simp add: frame_def)
  with r show ?thesis by blast
qed

lemma reorg_attempt:
  assumes inv: "chain_inv e bc (cs @ base)" and env: "same_node e env"
    and fs: "collect_fork_blocks bc b fp = fs" and lb: "length base = Suc fp" and exb: "extends e (hd base) (fs @ [b])"
    and sfs: "\<forall>f \<in> set fs. stored bc (block_hash_of e f) = Some f"
    and fl: "finality_floor (length (cs @ base) - 1) \<le> fp"
  shows "\<exists>bc1 dc bc2 err bc3 er k.
      disconnect_loop env (rev [fp + 1..<ct_height (bc_tip bc) + 1]) (bc, nothing_disconnected) = Some (bc1, dc)
    \<and> collect_fork_blocks bc1 b fp = fs \<and> connect_fork env fp [] fs bc1 = Some (bc2, err)
    \<and> (if err = None then check_reorg_tip env b bc2 else (bc2, err)) = (bc3, er)
    \<and> work_ok e (finality_floor (length (cs @ base) - 1)) bc3 (rev (take k fs) @ base) \<and> k \<le> length fs \<and> frame bc bc3
    \<and> (\<forall>x y. x < length base \<and> map_of (bc_heights bc3) x = Some y \<longrightarrow> map_of (bc_blocks bc3) y = Some (blk base x))
    \<and> dc_heights dc = rev (map (\<lambda>h. (h, block_hash_of e (blk (cs @ base) h))) [length base..<length base + length cs])
    \<and> (er = None \<longrightarrow> k = length fs \<and> (\<forall>f \<in> set (fs @ [b]). map_of (bc_blocks bc) (bh_prev_hash (header f)) \<noteq> None)
         \<and> was_accepted e (bc_network bc) b (last (hd base # fs)) \<and> distinct (block_spends b)
         \<and> set (block_spends b) \<inter> spent_key_images (bc_utxos bc3) = {} \<and> block_height b \<le> u64_max)"
proof -
  define f where "f = finality_floor (length (cs @ base) - 1)"
  have w: "work_ok e f bc (cs @ base)" and so: "store_ok e bc" and dk: "disk_ok e bc (cs @ base)"
    and ca: "cached_ok (bc_blocks bc) (bc_heights bc) (cs @ base)" and ag: "store_agrees (stored bc) (bc_blocks bc)"
    and tp: "ct_height (bc_tip bc) = length (cs @ base) - 1"
    using inv by (auto simp: chain_inv_def tip_ok_def f_def)
  have bne: "base \<noteq> []" and flb: "f \<le> length base" using lb fl by (auto simp: f_def)
  from w have "chain_list e (bc_network bc) (cs @ base)" by (simp add: work_ok_def)
  from chain_list_append [OF this bne] have chb: "chain_list e (bc_network bc) base" .
  have hhd: "block_height (hd base) = fp" using chain_list_hd_height [OF chb] lb by simp
  have ex: "extends e (hd base) fs" using exb by (simp add: extends_snoc)
  have hts: "\<forall>i < length fs. block_height (fs ! i) = length base + i" using extends_height [OF ex] hhd lb by simp
  have hb: "block_height b = length base + length fs" using extends_height [OF exb, of "length fs"] hhd lb by simp
  have tops: "Suc (ct_height (bc_tip bc)) = length base + length cs" using tp bne by (cases base) auto
  from disconnect_loop_ok [OF w ca bne flb env, of nothing_disconnected] tops lb
  obtain bc1 dc where d1: "disconnect_loop env (rev [fp + 1..<ct_height (bc_tip bc) + 1]) (bc, nothing_disconnected) = Some (bc1, dc)"
    and w1: "work_ok e f bc1 base" and ca1: "cached_ok (bc_blocks bc1) (bc_heights bc1) base" and fr1: "frame bc bc1"
    and dch: "dc_heights dc = rev (map (\<lambda>h. (h, block_hash_of e (blk (cs @ base) h))) [length base..<length base + length cs])"
    by (auto simp: nothing_disconnected_def simp del: upt_Suc)
  have fs1: "collect_fork_blocks bc1 b fp = fs"
    using fs unfolding collect_fork_blocks_def collect_blocks_cong [OF frame_get_block [OF fr1]] .
  have ag1: "store_agrees (stored bc) (bc_blocks bc1)" using ag fr1 by (simp add: frame_def)
  have shd: "stored bc (block_hash_of e (hd base)) = Some (hd base)"
    using dk lb bne blk_append [of fp base cs] blk_hd [of base] by (auto simp: disk_ok_def dest!: spec [of _ fp])
  from connect_fork_ok [OF w1 flb ex ag1 shd sfs env, of fp "[]"]
  obtain bc2 err k where c2: "connect_fork env fp [] fs bc1 = Some (bc2, err)" "k \<le> length fs"
    "work_ok e f bc2 (rev (take k fs) @ base)" "frame bc1 bc2" "below_same (length base) (bc_heights bc1) (bc_heights bc2)"
    "err = None \<longrightarrow> k = length fs \<and> (\<forall>f \<in> set fs. map_of (bc_blocks bc1) (bh_prev_hash (header f)) \<noteq> None)" by blast
  define bc3 where "bc3 = fst (if err = None then check_reorg_tip env b bc2 else (bc2, err))"
  define er where "er = snd (if err = None then check_reorg_tip env b bc2 else (bc2, err))"
  obtain v bcv where v: "validate_against env b bc2 = (v, bcv)" by fastforce
  from validate_against_frame [OF v] obtain cc where bcv: "bcv = bc2 \<lparr> bc_caches := cc \<rparr>" by blast
  have b3: "bc3 = (if err = None then bc2 \<lparr> bc_caches := cc \<rparr> else bc2)" by (simp add: bc3_def check_reorg_tip_def v bcv)
  have w3: "work_ok e f bc3 (rev (take k fs) @ base)" using c2(3) b3 by simp
  have fr3: "frame bc bc3" using frame_trans [OF fr1 c2(4)] b3 by (auto intro: frame_trans)
  have low: "\<forall>x y. x < length base \<and> map_of (bc_heights bc3) x = Some y \<longrightarrow> map_of (bc_blocks bc3) y = Some (blk base x)"
    using c2(4,5) ca1 b3 by (auto simp: below_same_def cached_ok_def frame_def)
  have good: "k = length fs \<and> (\<forall>f \<in> set (fs @ [b]). map_of (bc_blocks bc) (bh_prev_hash (header f)) \<noteq> None)
         \<and> was_accepted e (bc_network bc) b (last (hd base # fs)) \<and> distinct (block_spends b)
         \<and> set (block_spends b) \<inter> spent_key_images (bc_utxos bc3) = {} \<and> block_height b \<le> u64_max" if ok: "er = None"
  proof -
    from ok have err: "err = None" and vv: "bv_valid v" by (auto simp: er_def check_reorg_tip_def v split: if_splits)
    have pos: "0 < block_height b" using hb lb by simp
    have hp: "bh_prev_hash (header b) = block_hash_of e (last (hd base # fs))" using exb by (simp add: extends_snoc)
    have ag2: "store_agrees (stored bc) (bc_blocks bc2)" using ag1 c2(4) by (simp add: frame_def)
    have "stored bc (block_hash_of e (last (hd base # fs))) = Some (last (hd base # fs))" using shd sfs by simp
    note p = validate_against_parent [OF v vv pos env ag2 hp this]
    from fr1 c2(4) have "bc_blocks bc2 = bc_blocks bc" "bc_blocks bc1 = bc_blocks bc" "bc_network bc2 = bc_network bc"
      by (simp_all add: frame_def)
    with p c2(6) err b3 show ?thesis by auto
  qed
  have "(if err = None then check_reorg_tip env b bc2 else (bc2, err)) = (bc3, er)" by (simp add: bc3_def er_def)
  with d1 fs1 c2(1,2) w3 fr3 low dch good show ?thesis unfolding f_def by blast
qed

lemma commit_branch_ok:
  assumes inv: "chain_inv e bc (cs @ base)" and env: "same_node e env" and lb: "length base = Suc fp"
    and exb: "extends e (hd base) (fs @ [b])" and sfs: "\<forall>f \<in> set fs. stored bc (block_hash_of e f) = Some f"
    and st: "stored bc (block_hash_of e b) = Some b" "map_of (bc_blocks bc) (block_hash_of e b) = Some b"
    and fl: "finality_floor (length (cs @ base) - 1) \<le> fp"
    and w3: "work_ok e (finality_floor (length (cs @ base) - 1)) bc3 (rev fs @ base)" and fr: "frame bc bc3"
    and low: "\<forall>x y. x < length base \<and> map_of (bc_heights bc3) x = Some y \<longrightarrow> map_of (bc_blocks bc3) y = Some (blk base x)"
    and par: "\<forall>f \<in> set (fs @ [b]). map_of (bc_blocks bc) (bh_prev_hash (header f)) \<noteq> None"
    and acc: "was_accepted e (bc_network bc) b (last (hd base # fs))" and d: "distinct (block_spends b)"
      "set (block_spends b) \<inter> spent_key_images (bc_utxos bc3) = {}" and bound: "block_height b \<le> u64_max"
  shows "\<exists>bc' ts. commit_reorg env (block_hash_of e b) b cumulative fs dc (ct_height (bc_tip bc)) bc3 = (Inr (AcceptedReorg ts), bc')
    \<and> chain_inv e bc' (b # rev fs @ base)"
proof -
  let ?f = "finality_floor (length (cs @ base) - 1)"
  have so: "store_ok e bc" and dk: "disk_ok e bc (cs @ base)" and ag: "store_agrees (stored bc) (bc_blocks bc)"
    and tp: "ct_height (bc_tip bc) = length (cs @ base) - 1" using inv by (auto simp: chain_inv_def tip_ok_def)
  have bne: "base \<noteq> []" and flb: "?f \<le> length base" using lb fl by auto
  have st3: "stored bc3 = stored bc" and eq: "bc_network bc3 = bc_network bc" "bc_blocks bc3 = bc_blocks bc" "bc_db bc3 = bc_db bc"
    using fr by (auto simp: frame_def intro: stored_cong)
  have ch: "chain_list e (bc_network bc) (rev fs @ base)" and ho: "heights_ok e ?f (bc_heights bc3) (rev fs @ base)"
    using w3 eq by (simp_all add: work_ok_def)
  have hhd: "block_height (hd base) = fp" using chain_list_hd_height [OF chain_list_append [OF ch bne]] lb by simp
  have hts: "\<forall>i < length fs. block_height (fs ! i) = length base + i"
    using extends_height [of e "hd base" fs] exb hhd lb by (simp add: extends_snoc)
  have hb: "block_height b = length base + length fs" using extends_height [OF exb, of "length fs"] hhd lb by simp
  have hd: "last (hd base # fs) = hd (rev fs @ base)" by (cases fs rule: rev_cases) simp_all
  have lnk: "bh_prev_hash (header b) = block_hash_of e (hd (rev fs @ base))" "block_height b = Suc (block_height (hd (rev fs @ base)))"
    using exb unfolding extends_snoc hd by simp_all
  have bk: "blk (rev fs @ base) h = (if h < length base then blk base h else fs ! (h - length base))"
    if "h < length (rev fs @ base)" for h using that by (simp add: blk_def nth_append)
  have ca: "cached_ok (bc_blocks bc3) (bc_heights bc3) (rev fs @ base)"
    unfolding cached_ok_def
  proof (intro allI impI)
    fix x y assume x: "map_of (bc_heights bc3) x = Some y"
    note lt = heights_ok_bound [OF ho x]
    show "map_of (bc_blocks bc3) y = Some (blk (rev fs @ base) x)"
      using low x heights_ok_hash [OF ho x] branch_cached [OF exb par ag sfs, of "x - length base"] lt
      unfolding bk [OF lt] eq by (cases "x < length base") auto
  qed
  have mb: "stored bc (block_hash_of e (blk base h)) = Some (blk base h)" if "h < length base" for h
    using dk that blk_append [of h base cs] by (auto simp: disk_ok_def dest!: spec [of _ h])
  have main: "\<forall>h < length (rev fs @ base). stored bc3 (block_hash_of e (blk (rev fs @ base) h)) = Some (blk (rev fs @ base) h)"
    using mb sfs bk by (auto simp: st3)
  from dk eq obtain db where db: "bc_db bc3 = Some db"
    "\<forall>h. cd_heights db h = (if h < length (cs @ base) then Some (block_hash_of e (blk (cs @ base) h)) else None)"
    by (auto simp: disk_ok_def)
  have nfl: "?f \<le> finality_floor (block_height b)" by (rule finality_floor_above) (use flb hb in simp)
  have ag3: "store_agrees (stored bc3) (bc_blocks bc3)" and so3: "store_ok e bc3"
    using ag so unfolding store_ok_def st3 eq by simp_all
  from commit_ok [OF w3 flb bne ca ag3 so3 db main st [folded st3 eq] lnk bound acc [unfolded hd, folded eq(1)] d hts nfl tp env]
  show ?thesis by blast
qed

lemma reorg_core:
  assumes inv: "chain_inv e bc (cs @ base)" and env: "same_node e env"
    and fs: "collect_fork_blocks bc b fp = fs" and lb: "length base = Suc fp" and exb: "extends e (hd base) (fs @ [b])"
    and sfs: "\<forall>f \<in> set fs. stored bc (block_hash_of e f) = Some f"
    and st: "stored bc (block_hash_of e b) = Some b" "map_of (bc_blocks bc) (block_hash_of e b) = Some b"
    and fl: "finality_floor (length (cs @ base) - 1) \<le> fp"
  shows "\<exists>s bc'. perform_reorg env (block_hash_of e b) b fp cumulative bc = (Inr s, bc')
    \<and> ((\<exists>ts. s = AcceptedReorg ts) \<and> chain_inv e bc' (b # rev fs @ base)
       \<or> (\<exists>er. s = Invalid er) \<and> (block_height b \<le> Suc (ct_height (bc_tip bc)) \<longrightarrow> chain_inv e bc' (cs @ base)))"
proof -
  let ?f = "finality_floor (length (cs @ base) - 1)"
  from reorg_attempt [OF inv env fs lb exb sfs fl] obtain bc1 dc bc2 err bc3 er k where
      d1: "disconnect_loop env (rev [fp + 1..<ct_height (bc_tip bc) + 1]) (bc, nothing_disconnected) = Some (bc1, dc)"
      "collect_fork_blocks bc1 b fp = fs" "connect_fork env fp [] fs bc1 = Some (bc2, err)"
      "(if err = None then check_reorg_tip env b bc2 else (bc2, err)) = (bc3, er)"
    and w3: "work_ok e ?f bc3 (rev (take k fs) @ base)" "k \<le> length fs" "frame bc bc3"
    and low: "\<forall>x y. x < length base \<and> map_of (bc_heights bc3) x = Some y \<longrightarrow> map_of (bc_blocks bc3) y = Some (blk base x)"
    and dch: "dc_heights dc = rev (map (\<lambda>h. (h, block_hash_of e (blk (cs @ base) h))) [length base..<length base + length cs])"
    and good: "er = None \<longrightarrow> k = length fs \<and> (\<forall>f \<in> set (fs @ [b]). map_of (bc_blocks bc) (bh_prev_hash (header f)) \<noteq> None)
         \<and> was_accepted e (bc_network bc) b (last (hd base # fs)) \<and> distinct (block_spends b)
         \<and> set (block_spends b) \<inter> spent_key_images (bc_utxos bc3) = {} \<and> block_height b \<le> u64_max" by blast
  note run = perform_reorg_def Let_def d1
  have bne: "base \<noteq> []" and flb: "?f \<le> length base" and fpl: "length base - 1 = fp" using lb fl by auto
  from inv chain_list_append [OF _ bne, of e "bc_network bc" cs] have chb: "chain_list e (bc_network bc) base"
    by (simp add: chain_inv_def work_ok_def)
  have hhd: "block_height (hd base) = fp" using chain_list_hd_height [OF chb] lb by simp
  have hts: "\<forall>i < length fs. block_height (fs ! i) = length base + i"
    using extends_height [of e "hd base" fs] exb hhd lb by (simp add: extends_snoc)
  have hb: "block_height b = length base + length fs" using extends_height [OF exb, of "length fs"] hhd lb by simp
  note roll = rollback_inv [OF w3(1) refl flb bne w3(2) hts _ inv w3(3) low dch env, unfolded fpl]
  show ?thesis
  proof (cases er)
    case (Some x)
    from roll [of True "ct_height (bc_tip bc)"] obtain bc4
      where r: "rollback_reorg env True fp (ct_height (bc_tip bc)) fs dc (bc_tip bc) (bc_stats bc) bc3 = Some bc4"
        "length base + k \<le> Suc (ct_height (bc_tip bc)) \<longrightarrow> chain_inv e bc4 (cs @ base)" by blast
    have "perform_reorg env (block_hash_of e b) b fp cumulative bc = (Inr (Invalid x), bc4)" 
      unfolding run option.case prod.case Some r(1) ..
    then show ?thesis using r(2) hb w3(2) by auto
  next
    case None
    with good have kl: "k = length fs" by blast
    show ?thesis
    proof (cases "branch_target_ok bc3 fp fs b")
      case False
      from roll [of False "max (ct_height (bc_tip bc)) (block_height b)"] kl obtain bc4
        where r: "rollback_reorg env False fp (max (ct_height (bc_tip bc)) (block_height b)) fs dc (bc_tip bc) (bc_stats bc) bc3 = Some bc4"
          "length base + k \<le> Suc (max (ct_height (bc_tip bc)) (block_height b)) \<longrightarrow> chain_inv e bc4 (cs @ base)" by blast
      have "perform_reorg env (block_hash_of e b) b fp cumulative bc = (Inr (Invalid [''Reorg tip difficulty mismatch'']), bc4)"
        unfolding run option.case prod.case None r(1) using False by simp
      then show ?thesis using r(2) hb kl by auto
    next
      case True
      from good None w3(1) have "\<exists>bc' ts. commit_reorg env (block_hash_of e b) b cumulative fs dc (ct_height (bc_tip bc)) bc3
          = (Inr (AcceptedReorg ts), bc') \<and> chain_inv e bc' (b # rev fs @ base)"
        by (intro commit_branch_ok [OF inv env lb exb sfs st fl _ w3(3) low]) auto
      moreover have "perform_reorg env (block_hash_of e b) b fp cumulative bc
          = commit_reorg env (block_hash_of e b) b cumulative fs dc (ct_height (bc_tip bc)) bc3"
        unfolding run option.case prod.case None using True by simp
      ultimately show ?thesis by auto
    qed
  qed
qed

lemma perform_reorg_ok:
  assumes inv: "chain_inv e bc bs" and env: "same_node e env"
    and fp: "find_fork_point (header_store bc) (get_block_hash bc) (fork_header_of b) = Some fp"
    and fl: "finality_floor (ct_height (bc_tip bc)) \<le> fp"
    and st: "stored bc (block_hash_of e b) = Some b" "map_of (bc_blocks bc) (block_hash_of e b) = Some b"
    and par: "stored bc (bh_prev_hash (header b)) = Some p" "block_height b = Suc (block_height p)"
  shows "\<exists>s bc'. perform_reorg env (block_hash_of e b) b fp cumulative bc = (Inr s, bc')
    \<and> (\<exists>base cs fs. bs = cs @ base \<and> length base = Suc fp \<and>
        ((\<exists>ts. s = AcceptedReorg ts) \<and> chain_inv e bc' (b # fs @ base)
         \<or> (\<exists>er. s = Invalid er) \<and> (block_height b \<le> Suc (ct_height (bc_tip bc)) \<longrightarrow> chain_inv e bc' bs)))"
proof -
  have w: "work_ok e (finality_floor (length bs - 1)) bc bs" and so: "store_ok e bc" and dk: "disk_ok e bc bs"
    and ca: "cached_ok (bc_blocks bc) (bc_heights bc) bs" and ag: "store_agrees (stored bc) (bc_blocks bc)"
    and tp: "ct_height (bc_tip bc) = length bs - 1"
    using inv by (auto simp: chain_inv_def tip_ok_def)
  have ch: "chain_list e (bc_network bc) bs" and ho: "heights_ok e (finality_floor (length bs - 1)) (bc_heights bc) bs"
    using w by (auto simp: work_ok_def)
  have ne: "bs \<noteq> []" by (rule chain_list_nonempty [OF ch])
  have mn: "get_block_hash bc = (\<lambda>h. if h < length bs then Some (block_hash_of e (blk bs h)) else None)"
    by (rule ext) (rule get_block_hash_main [OF ho dk])
  define fs where "fs = collect_fork_blocks bc b fp"
  have fpl: "fork_point_loop (header_store bc) (get_block_hash bc) {} (bh_prev_hash (header b)) = Some fp"
    using fp by (simp add: find_fork_point_def fork_header_of_def)
  from fork_path [OF ag so dk ch this refl mn]
  have path: "fp < length bs" "extends e (blk bs fp) fs" "stored bc (bh_prev_hash (header b)) = Some (last (blk bs fp # fs))"
    "\<forall>f \<in> set fs. stored bc (block_hash_of e f) = Some f" by (simp_all add: fs_def collect_fork_blocks_def)
  define base where "base = drop (length bs - Suc fp) bs"
  define cs where "cs = take (length bs - Suc fp) bs"
  have split: "bs = cs @ base" and lb: "length base = Suc fp" using path(1) by (simp_all add: base_def cs_def)
  then have bne: "base \<noteq> []" by auto
  have hd: "hd base = blk bs fp" using lb bne by (simp add: split blk_append flip: blk_hd)
  have pl: "last (hd base # fs) = p" using path(3) par(1) hd by simp
  have hp: "block_hash_of e p = bh_prev_hash (header b)" by (rule store_ok_hash [OF so par(1)])
  have exb: "extends e (hd base) (fs @ [b])"
    using path(2) par(2) pl hp unfolding extends_snoc hd by simp
  have flb: "finality_floor (length (cs @ base) - 1) \<le> fp" using fl tp split by simp
  from reorg_core [OF inv [unfolded split] env fs_def [symmetric] lb exb path(4) st flb, of cumulative] split lb
  show ?thesis by metis
qed

subsection \<open>Accepting a block\<close>

lemma header_store_view: "cv_store (chain_view_of env bc) = header_store bc"
  by (simp add: chain_view_of_def header_store_def)

text \<open>What \<^term>\<open>add_block\<close> does to the main chain.\<close>

definition chain_step :: "block \<Rightarrow> block list \<Rightarrow> block list \<Rightarrow> chain_error + block_status \<Rightarrow> bool" where
  "chain_step b bs bs' r =
     (r \<noteq> Inl Halted
      \<and> (case r of
           Inr Accepted \<Rightarrow> bs' = b # bs
         | Inr (AcceptedReorg ts) \<Rightarrow>
             \<exists>cs base fs. bs = cs @ base \<and> bs' = b # fs @ base \<and> finality_floor (length bs - 1) < length base
         | _ \<Rightarrow> bs' = bs))"

text \<open>A rejected reorganisation to a branch that ends two or more blocks above the tip leaves heights of the
  branch behind.\<close>

definition clean_step :: "blockchain \<Rightarrow> block \<Rightarrow> chain_error + block_status \<Rightarrow> bool" where
  "clean_step bc b r = (case r of Inr (Invalid er) \<Rightarrow> block_height b \<le> Suc (ct_height (bc_tip bc)) | _ \<Rightarrow> True)"

lemma evaluate_fork_ok:
  assumes inv: "chain_inv e bc bs" and env: "same_node e env"
    and st: "stored bc (block_hash_of e b) = Some b" "map_of (bc_blocks bc) (block_hash_of e b) = Some b"
    and par: "stored bc (bh_prev_hash (header b)) = Some p" "block_height b = Suc (block_height p)"
  shows "\<exists>r bc'. evaluate_fork env (block_hash_of e b) b bc = (r, bc') \<and> r \<noteq> Inl Halted
    \<and> (clean_step bc b r \<longrightarrow> (\<exists>bs'. chain_inv e bc' bs' \<and> chain_step b bs bs' r))"
proof (cases "decide_fork (chain_view_of env bc) (fork_header_of b) (block_hash_of e b)")
  case (PerformReorg fp d)
  note dr = decide_reorg [OF PerformReorg]
  have fp: "find_fork_point (header_store bc) (get_block_hash bc) (fork_header_of b) = Some fp"
    and fl: "finality_floor (ct_height (bc_tip bc)) \<le> fp"
    using dr by (simp_all add: header_store_view) (simp_all add: chain_view_of_def)
  let ?cum = "calculate_fork_cumulative_work (header_store bc) (fork_header_of b)"
  have ev: "evaluate_fork env (block_hash_of e b) b bc = perform_reorg env (block_hash_of e b) b fp ?cum bc"
    using PerformReorg by (simp add: evaluate_fork_def Let_def header_store_view)
  from perform_reorg_ok [OF inv env fp fl st par, of ?cum] obtain s bc' base cs fs where
    r: "perform_reorg env (block_hash_of e b) b fp ?cum bc = (Inr s, bc')" "bs = cs @ base" "length base = Suc fp"
      "(\<exists>ts. s = AcceptedReorg ts) \<and> chain_inv e bc' (b # fs @ base)
       \<or> (\<exists>er. s = Invalid er) \<and> (block_height b \<le> Suc (ct_height (bc_tip bc)) \<longrightarrow> chain_inv e bc' bs)" by metis
  have "ct_height (bc_tip bc) = length bs - 1" using inv by (simp add: chain_inv_def tip_ok_def)
  with fl r(3) have fl': "finality_floor (length bs - 1) < length base" by simp
  from r(4) have "clean_step bc b (Inr s) \<longrightarrow> (\<exists>bs'. chain_inv e bc' bs' \<and> chain_step b bs bs' (Inr s))"
  proof
    assume "(\<exists>ts. s = AcceptedReorg ts) \<and> chain_inv e bc' (b # fs @ base)"
    then show ?thesis using r(2) fl' by (fastforce simp: chain_step_def)
  next
    assume "(\<exists>er. s = Invalid er) \<and> (block_height b \<le> Suc (ct_height (bc_tip bc)) \<longrightarrow> chain_inv e bc' bs)"
    then show ?thesis by (auto simp: chain_step_def clean_step_def)
  qed
  with ev r(1) show ?thesis by simp
qed (use inv in \<open>auto simp: evaluate_fork_def Let_def chain_step_def\<close>)

lemma check_new_block_not_halted: "check_new_block env b bc = (Some r, bc') \<Longrightarrow> r \<noteq> Inl Halted \<and> r \<noteq> Inr Accepted
    \<and> (\<forall>ts. r \<noteq> Inr (AcceptedReorg ts))"
  unfolding check_new_block_def Let_def by (auto split: if_splits prod.splits option.splits bool.splits)

lemma volatile_obtain:
  assumes "volatile_eq bc bc'" obtains c ev where "bc' = bc \<lparr> bc_caches := c, bc_events := ev \<rparr>"
  using assms unfolding volatile_eq_def by blast

lemma tip_stored:
  assumes "chain_inv e bc bs" shows "stored bc (block_hash_of e (hd bs)) = Some (hd bs)"
proof -
  have ne: "bs \<noteq> []" using assms chain_list_nonempty by (auto simp: chain_inv_def work_ok_def)
  have "stored bc (block_hash_of e (blk bs (length bs - 1))) = Some (blk bs (length bs - 1))"
    using assms ne by (simp add: chain_inv_def disk_ok_def)
  then show ?thesis unfolding blk_hd [OF ne] .
qed

lemma add_block_ok:
  assumes inv: "chain_inv e bc bs" and env: "same_node e env"
  shows "\<exists>r bc'. add_block env fin b bc = (r, bc') \<and> r \<noteq> Inl Halted
    \<and> (clean_step bc b r \<longrightarrow> (\<exists>bs'. chain_inv e bc' bs' \<and> chain_step b bs bs' r))"
proof -
  obtain o1 bc1 where c: "check_new_block env b bc = (o1, bc1)" by fastforce
  from check_new_block_state [OF c] obtain ca ev where bc1: "bc1 = bc \<lparr> bc_caches := ca, bc_events := ev \<rparr>"
    by (rule volatile_obtain)
  have inv1: "chain_inv e bc1 bs" using inv bc1 by simp
  show ?thesis
  proof (cases o1)
    case (Some r)
    with c have "add_block env fin b bc = (r, bc1 \<lparr> bc_generation := bc_generation bc1 + 1 \<rparr>)" by (simp add: add_block_def)
    moreover have "chain_step b bs bs r" using check_new_block_not_halted [of env b bc r bc1] c Some
      by (auto simp: chain_step_def split: sum.split block_status.split)
    moreover have "chain_inv e (bc1 \<lparr> bc_generation := bc_generation bc1 + 1 \<rparr>) bs" using inv1 by simp
    ultimately show ?thesis by (auto simp: chain_step_def)
  next
    case None
    note c = c [unfolded None]
    from pass_parent [OF inv c env] obtain p where p: "stored bc (bh_prev_hash (header b)) = Some p" "0 < block_height b"
      "block_height b = Suc (block_height p)" "block_height b \<le> u64_max" and un: "stored bc (block_hash_of e b) = None"
      "map_of (bc_blocks bc) (block_hash_of e b) = None" and acc: "was_accepted e (bc_network bc) b p" "distinct (block_spends b)"
      "set (block_spends b) \<inter> spent_key_images (bc_utxos bc) = {}" by blast
    let ?bc2 = "store_block (block_hash_of e b) b bc1"
    have un1: "stored bc1 (block_hash_of e b) = None" and p1: "stored bc1 (bh_prev_hash (header b)) = Some p"
      using un p(1) bc1 by simp_all
    have inv2: "chain_inv e ?bc2 bs" by (rule store_block_inv [OF inv1 p1 p(2-4) un1])
    from inv obtain db where db: "bc_db bc = Some db" by (auto simp: chain_inv_def disk_ok_def)
    have st: "stored ?bc2 (block_hash_of e b) = Some b" "map_of (bc_blocks ?bc2) (block_hash_of e b) = Some b"
      "stored ?bc2 (bh_prev_hash (header b)) = Some p"
      using db bc1 p(1) un by (auto simp: store_block_def stored_def)
    have eq2: "bc_network ?bc2 = bc_network bc" "bc_utxos ?bc2 = bc_utxos bc" "bc_tip ?bc2 = bc_tip bc"
      using bc1 by (simp_all add: store_block_def)
    note go = add_block_def Let_def c prod.case option.case same_node_eqs(1) [OF env]
    show ?thesis
    proof (cases "is_main_chain bc b")
      case True
      have "bh_prev_hash (header b) = block_hash_of e (hd bs)"
        using True p(2) inv by (simp add: is_main_chain_def chain_inv_def tip_ok_def)
      moreover from this have "p = hd bs" using tip_stored [OF inv] p(1) by simp
      ultimately have "\<exists>bc'. extend_tip env fin (block_hash_of e b) b ?bc2 = (Inr Accepted, bc') \<and> chain_inv e bc' (b # bs)"
        using p acc st eq2 by (intro extend_tip_ok [OF inv2 env]) auto
      then show ?thesis using True unfolding go by (auto simp: chain_step_def)
    next
      case False
      from evaluate_fork_ok [OF inv2 env st p(3)] obtain r bc' where
        r: "evaluate_fork env (block_hash_of e b) b ?bc2 = (r, bc')" "r \<noteq> Inl Halted"
          "clean_step ?bc2 b r \<longrightarrow> (\<exists>bs'. chain_inv e bc' bs' \<and> chain_step b bs bs' r)" by blast
      have "clean_step ?bc2 b r = clean_step bc b r" unfolding clean_step_def eq2 ..
      with r False show ?thesis unfolding go by auto
    qed
  qed
qed

end
