(* ===== verification/Sample_Node.thy ===== *)
theory Sample_Node
  imports Chain_Invariant
begin

text \<open>
  A concrete node for the witnesses: a stand-in for blake3 that maps the header of the mainnet genesis block to the
  hardcoded genesis hash and every other string of the example to the zero hash, the genesis block of
  \<open>src/src/mainnet.rs\<close> under it, and a first block on top that passes every validation step.
\<close>

lemma genesis_target: "from_difficulty 10000 = Hash (0 # 7 # replicate 30 255)"
proof -
  have bl: "bit_len 10000 = 14" by (simp add: bit_len.simps)
  have u: "[0..<32] = 0 # 1 # [2..<32::nat]" by (simp add: upt_rec)
  have "map (\<lambda>i. if i < 1 then 0 else if i = 1 \<and> (0::nat) < 5 then drop_bit 5 255 else 255) [2..<32]
      = map (\<lambda>_. 255::u8) [2..<32]" by (rule map_cong) auto
  also have "\<dots> = replicate 30 255" unfolding map_replicate_const length_upt by simp
  finally have "map (\<lambda>i. if i < 1 then 0 else if i = 1 \<and> (0::nat) < 5 then drop_bit 5 255 else 255) [2..<32]
      = replicate 30 (255::u8)" .
  moreover have "drop_bit 5 255 = (7::u8)" by code_simp
  ultimately show ?thesis by (simp add: from_difficulty_def bl u del: upt_Suc)
qed

lemma genesis_target_prefix: "target_prefix_u128 (Hash (0 # 7 # replicate 30 255)) = 2 ^ 115 - 1"
  by (simp add: target_prefix_u128_def from_be_bytes_def from_le_bytes_append from_le_bytes_ff)

lemma genesis_target_met: "meets_difficulty hash_zero (Hash (0 # 7 # replicate 30 255))"
proof -
  have "replicate 32 (0::u8) = 0 # 0 # replicate 30 0" by (simp flip: replicate_Suc)
  then show ?thesis by (simp add: meets_difficulty_def hash_zero_def)
qed

definition live_blake3 :: "bytes \<Rightarrow> hash" where
  "live_blake3 x = (if take 31 x = HEADER_HASH_DOMAIN_TAG @ magic_bytes Mainnet @ [1] @ le_bytes 8 0
     then Hash MAINNET_GENESIS_HASH else hash_zero)"

definition live_env :: "int node_env" where
  "live_env = sample_env \<lparr> ne_crypto := (ne_crypto sample_env) \<lparr> cr_blake3 := live_blake3 \<rparr>, ne_clock := Some 1790812900 \<rparr>"

definition live_genesis :: block where
  "live_genesis = mainnet_genesis live_env"

definition live_block :: block where
  "live_block = \<lparr> header = sample_header \<lparr> bh_prev_hash := Hash MAINNET_GENESIS_HASH, bh_timestamp := 1790812900,
       bh_target := from_difficulty 10000 \<rparr>,
     transactions = [reward_tx (as_atomic (calculate_block_reward 1))] \<rparr>"

lemmas live_defs = live_env_def live_block_def sample_defs

lemma live_preimage: "take 31 (header_preimage b) = HEADER_HASH_DOMAIN_TAG @ network_magic b @ [bh_version b] @ le_bytes 8 (bh_height b)"
  if "length (network_magic b) = 4"
  using that by (simp add: header_preimage_def HEADER_HASH_DOMAIN_TAG_def ascii_bytes_def)

lemma live_env_simps [simp]: "cr_blake3 (ne_crypto live_env) = live_blake3" "cr_borsh_tx (ne_crypto live_env) = (\<lambda>_. None)"
  "ne_testnet live_env = False" "ne_insecure_fast_sync live_env = False" "ne_clock live_env = Some 1790812900"
  "ne_randomx live_env = (\<lambda>_ _. Some hash_zero)"
  by (simp_all add: live_env_def sample_env_def sample_crypto_def)

lemma live_genesis_hash: "block_hash_of live_env live_genesis = Hash MAINNET_GENESIS_HASH"
  unfolding block_hash_of_def header_hash_def hash_concat_def
  by (simp add: live_blake3_def live_preimage live_genesis_def mainnet_genesis_def genesis_block_def Let_def del: replicate.simps)

lemma le_bytes_height: "le_bytes 8 (Suc 0) \<noteq> le_bytes 8 0"
  by code_simp

lemma live_block_hash: "block_hash_of live_env live_block = hash_zero"
  unfolding block_hash_of_def header_hash_def hash_concat_def
  by (simp add: live_blake3_def live_preimage live_block_def sample_header_def le_bytes_height Let_def)

lemma hash_zero_other [simp]: "hash_zero \<noteq> Hash MAINNET_GENESIS_HASH" "Hash MAINNET_GENESIS_HASH \<noteq> hash_zero"
proof -
  show "hash_zero \<noteq> Hash MAINNET_GENESIS_HASH" by code_simp
  then show "Hash MAINNET_GENESIS_HASH \<noteq> hash_zero" by metis
qed

lemma live_other: "x = [] \<or> hd x \<noteq> 0x63 \<Longrightarrow> live_blake3 x = hash_zero"
  by (cases x) (auto simp: live_blake3_def HEADER_HASH_DOMAIN_TAG_def ascii_bytes_def)

lemma live_txid: "txid live_env tx = hash_zero" if "tx_version tx = 1"
  using that by (simp add: txid_def tx_hash_def hash_concat_def live_other)

lemma live_merkle: "merkle_root live_blake3 [h] = hash_zero"
  by (simp add: merkle_root_def merkle_leaf_def hash_concat_def live_other)

lemma live_heights [simp]: "block_height live_block = 1" "block_height live_genesis = 0"
  by (simp_all add: live_block_def sample_header_def block_height_def live_genesis_def mainnet_genesis_def genesis_block_def Let_def)

lemma live_size: "block_size live_env live_block = 300"
  by (simp add: block_size_def live_defs tx_size_def MIN_TX_SIZE_def saturating_add_def u64_max_def)

lemma live_weight: "block_weight live_env live_block = 100"
  by (simp add: block_weight_def live_defs tx_size_def MIN_TX_SIZE_def as_u64_def)

lemma live_genesis_header: "bh_timestamp (header live_genesis) = 1790812800" "bh_height (header live_genesis) = 0"
  "bh_target (header live_genesis) = from_difficulty 10000" "bh_version (header live_genesis) = 1"
  by (simp_all add: live_genesis_def mainnet_genesis_def genesis_block_def Let_def)

lemma live_header_valid: "validate_header live_env (header live_block) (Some (header live_genesis)) r = r"
proof -
  have "header_hash live_blake3 (header live_genesis) = Hash MAINNET_GENESIS_HASH"
    using live_genesis_hash by (simp add: block_hash_of_def)
  then show ?thesis
    by (simp add: validate_header_def check_header_version_min_def check_header_vs_prev_def check_header_checkpoint_vote_def
        check_header_future_timestamp_def error_if_def live_block_def sample_header_def live_genesis_header block_version_at_height_def
        V2_TX_ACTIVATION_HEIGHT_def MAX_TIMESTAMP_DRIFT_def wrapping_add_def u64_max_def Let_def)
qed

lemma live_target_valid: "validate_difficulty_target live_block (Some live_genesis) r = r"
proof -
  have t: "bh_target (header live_genesis) = Hash (0 # 7 # replicate 30 255)" "bh_target (header live_block) = Hash (0 # 7 # replicate 30 255)"
    by (simp_all add: live_genesis_header live_block_def genesis_target)
  have "ratio_scaled (2 ^ 115 - 1) (2 ^ 115 - 1) = 1000" by (simp add: ratio_scaled_def u128_max_def)
  moreover have "target_prefix_u128 max_target = u128_max"
    by (simp add: target_prefix_u128_def max_target_def from_be_bytes_def from_le_bytes_ff u128_max_def)
  ultimately show ?thesis
    by (simp add: validate_difficulty_target_def t genesis_target_prefix u128_max_def error_if_def Let_def)
qed

lemma live_pow: "fst (check_block_pow live_env live_block (Some live_genesis) False False r seq_pad_new) = r"
proof -
  have "meets_difficulty hash_zero (from_difficulty 10000)" by (simp add: genesis_target genesis_target_met)
  moreover have "hd (hash_bytes hash_zero) = 0" "hd MAINNET_GENESIS_HASH = 0x9d" "MAINNET_GENESIS_HASH \<noteq> []" "hash_bytes hash_zero \<noteq> []"
    by (simp_all add: hash_zero_def MAINNET_GENESIS_HASH_def)
  ultimately have "fst (verify_pow live_blake3 (ne_genesis live_env) (\<lambda>_ _. Some hash_zero)
      (Hash MAINNET_GENESIS_HASH) (header live_block) seq_pad_new) = ok"
    by (simp add: verify_pow_def compute_full_anchor_def seq_pad_new_def fresh_anchor_def blake3_mix_def
        hash_domain_def live_block_def sample_header_def compute_pow_hash_def hash_concat_def Let_def live_other ascii_bytes_def
        hd_append)
  then show ?thesis
    by (simp add: check_block_pow_def Let_def case_prod_unfold live_target_valid live_genesis_hash error_if_def)
qed

lemma live_structure: "check_block_structure live_env live_block r = r"
  by (simp add: check_block_structure_def check_block_first_tx_is_coinbase_def check_block_merkle_root_def
      check_block_privacy_policy_def enforce_privacy_policy_def error_if_def live_merkle
      live_block_def reward_tx_def sample_header_def is_coinbase_def Let_def)

lemma live_output_ok: "coinbase_output_ok (ne_crypto live_env) True (reward_output (as_atomic (calculate_block_reward h)))"
  using sample_declared [of h] by (simp add: coinbase_output_ok_def live_env_def sample_env_def sample_crypto_def) (simp add: reward_output_def)

lemma live_body:
  "bv_valid (check_block_body live_env live_block True False (calculate_block_reward 1) (calculate_block_reward 1) r) = bv_valid r"
proof -
  let ?v = "as_atomic (calculate_block_reward 1)"
  have txs: "transactions live_block = [reward_tx ?v]" by (simp add: live_block_def)
  have outs: "tx_outputs (reward_tx ?v) = [reward_output ?v]" by (simp add: reward_tx_def)
  have wf: "wf_amount (calculate_block_reward 1)" using calculate_block_reward_range(3) by (simp add: wf_amount_def)
  have "coinbase_valid live_env live_block True False (calculate_block_reward 1) (reward_tx ?v)"
    unfolding coinbase_valid_def outs using sample_declared [of 1] live_output_ok [of 1] by (simp add: reward_tx_def)
  then show ?thesis
    unfolding check_block_body_ok [OF wf txs] using calculate_block_reward_range(1,2) [of 1] txs outs
    by (simp add: key_images_def reward_tx_def)
qed

lemma live_validates:
  "bv_valid (fst (validate_block_with_checkpoint_for_network live_env live_block (Some live_genesis) u None Mainnet (cache_new, seq_pad_new)))"
proof -
  have fees: "fees_of live_block = amount_ZERO" by (simp add: live_block_def amount_sum_def)
  have mc: "max_coinbase_of live_env live_block sz (calculate_block_reward 1) amount_ZERO = Inr (calculate_block_reward 1)" for sz
    using calculate_block_reward_range(3) [of 1]
    by (simp add: max_coinbase_of_def amount_checked_add_exact amount_ZERO_def wf_amount_def)
  have small: "check_block_size 300 r = r" "check_block_weight live_env live_block r = r" "check_block_tx_count live_block r = r"
    "check_block_has_coinbase live_block r = (True, r)" for r
    unfolding check_block_weight_def live_weight
    by (simp_all add: check_block_size_def check_block_tx_count_def check_block_has_coinbase_def error_if_def
        MAX_BLOCK_SIZE_def MAX_BLOCK_WEIGHT_def MAX_TXS_PER_BLOCK_def live_block_def)
  have magic: "check_block_network_magic Mainnet live_block r = (True, r)" for r
    by (simp add: check_block_network_magic_def live_block_def sample_header_def)
  have txs: "check_block_txs live_env live_block u False n r c = (r, c)" for u n r c
    by (simp add: check_block_txs_def check_dynamic_fees_def add_errors_def live_block_def Let_def)
  have "fst (check_block_pow live_env live_block (Some live_genesis) (fast_sync_requested None 1) False r seq_pad_new) = r" for r
    unfolding fast_sync_requested_def option.case(1) using live_pow .
  then show ?thesis
    by (simp add: validate_block_with_checkpoint_for_network_def magic live_header_valid live_size small txs fees mc
        live_structure live_body case_prod_unfold Let_def del: One_nat_def)
qed

end
