(* ===== verification/Node_Chain.thy ===== *)
theory Node_Chain
  imports Sample_Node
begin

text \<open>
  The life of a node's chain: initialising the genesis block, accepting blocks, rolling back to a height and
  restarting from the database, each with the lemma that says how it moves the main chain of the invariant. The
  reachable states are closed under these steps; the theorems are about every reachable state.
\<close>

lemma inv_tip_height:
  assumes "chain_inv e bc bs" shows "Suc (ct_height (bc_tip bc)) = length bs" "bs \<noteq> []"
proof -
  show ne: "bs \<noteq> []" using assms chain_list_nonempty by (auto simp: chain_inv_def work_ok_def)
  then show "Suc (ct_height (bc_tip bc)) = length bs" using assms by (simp add: chain_inv_def tip_ok_def)
qed

subsection \<open>Genesis\<close>

definition empty_db :: chain_db where
  "empty_db = \<lparr> cd_blocks = [], cd_heights = Map.empty, cd_state = None, cd_checkpoints = Map.empty, cd_tx_index = Map.empty, cd_genesis = None \<rparr>"

lemma genesis_shape: "\<exists>m. transactions (create_genesis_block_for env n) = [create_genesis_coinbase m]
    \<and> block_height (create_genesis_block_for env n) = 0 \<and> is_coinbase (create_genesis_coinbase m)"
  by (cases n) (auto simp: mainnet_genesis_def testnet_genesis_def genesis_block_def block_height_def is_coinbase_def
      create_genesis_coinbase_def Let_def)

lemma init_genesis_inv:
  assumes i: "init_genesis env (with_database empty_db Map.empty network) = (Inr h, bc)" and env: "same_node e env"
  shows "\<exists>g. chain_inv e bc [g] \<and> bc_network bc = network"
proof -
  define g where "g = create_genesis_block_for env network"
  obtain m where g: "transactions g = [create_genesis_coinbase m]" "block_height g = 0" "is_coinbase (create_genesis_coinbase m)"
    using genesis_shape [of env network] unfolding g_def by blast
  note eq = same_node_eqs [OF env]
  have h: "block_hash_of e g = expected_genesis_hash network" "h = block_hash_of e g"
    using i by (auto simp: init_genesis_def with_database_def new_with_network_def eq Let_def g_def split: if_splits)
  let ?r = "as_atomic (calculate_block_reward 0)"
  define bc0 where "bc0 = with_database empty_db Map.empty network \<lparr> bc_generation := 1, bc_blocks := [(h, g)], bc_heights := [(0, h)],
      bc_genesis_hash := Some h, bc_tip := \<lparr> ct_hash = h, ct_height = 0, ct_difficulty = 1, ct_timestamp = bh_timestamp (header g) \<rparr>,
      bc_stats := chain_stats_default \<lparr> cs_height := 0, cs_total_blocks := 1, cs_total_transactions := 1, cs_tip_hash := h,
        cs_total_supply := ?r, cs_total_burned := 0 \<rparr>,
      bc_utxos := connect_utxos e 0 g (utxo_new \<lparr> db_output_index := Some Map.empty \<rparr>) \<rparr>"
  define bc1 where "bc1 = persist_output_index (transactions g) 0 bc0"
  have bc: "bc = bc1 \<lparr> bc_db := Some (empty_db \<lparr> cd_blocks := [(h, g)], cd_heights := [0 \<mapsto> h], cd_genesis := Some h,
      cd_state := Some \<lparr> csd_tip_hash = h, csd_height = 0, csd_total_difficulty = 1, csd_total_supply = ?r, csd_total_burned = 0,
        csd_last_checkpoint = 0 \<rparr>, cd_checkpoints := [0 \<mapsto> h] \<rparr>) \<rparr>"
    using i h g unfolding init_genesis_def Let_def
    by (simp add: bc1_def bc0_def with_database_def new_with_network_def eq empty_db_def persist_output_index_def g_def [symmetric] hm_insert_def)
  have sp: "spends_ok [g] (bc_utxos bc)"
  proof -
    have "block_spends g = []" using g(1,3) by (simp add: block_spends_def tx_spends_def)
    then show ?thesis
      by (simp add: bc spends_ok_def bc1_def persist_index_utxos bc0_def connect_spent connect_db_index utxo_new_def)
  qed
  have nb: "block_fee_burn e g = 0" using g by (simp add: block_fee_burn_def amount_sum_def amount_ZERO_def)
  have mo: "money_ok e [g] (bc_stats bc)"
    using g nb by (simp add: bc money_ok_def bc1_def bc0_def persist_output_index_def)
  have ro: "row_ok e (bc_db bc) [g]" using g h nb by (simp add: bc row_ok_def as_u64_def)
  have ch: "chain_list e network [g]" using g h by simp
  have f: "bc_network bc = network" "bc_heights bc = [(0, h)]" "bc_blocks bc = [(h, g)]" "ct_hash (bc_tip bc) = h" "ct_height (bc_tip bc) = 0"
    "cs_height (bc_stats bc) = 0" "cs_tip_hash (bc_stats bc) = h"
    by (simp_all add: bc bc1_def bc0_def persist_output_index_def with_database_def new_with_network_def)
  have st: "stored bc = [h \<mapsto> g]" by (rule ext) (simp add: bc stored_def)
  have b0: "blk [g] 0 = g" by (simp add: blk_def)
  have ho: "heights_ok e fl (bc_heights bc) [g]" for fl unfolding heights_ok_def f(2) by (simp add: hm_invar_def b0 h)
  have "chain_inv e bc [g]"
    unfolding chain_inv_def work_ok_def store_agrees_def store_ok_def disk_ok_def tip_ok_def cached_ok_def f st
    using ch mo sp ho [unfolded f(2)] g(2) h b0 ro by (simp add: bc f)
  with f(1) show ?thesis by blast
qed

subsection \<open>Rolling back to a height\<close>

lemma disk_ok_suffix:
  "disk_ok e bc (cs @ base) \<Longrightarrow> h < length base \<Longrightarrow> stored bc (block_hash_of e (blk base h)) = Some (blk base h)"
  using blk_append [of h base cs] by (auto simp: disk_ok_def dest!: spec [of _ h])

lemma rollback_to_height_ok:
  assumes inv: "chain_inv e bc bs" and env: "same_node e env" and target: "target < ct_height (bc_tip bc)"
    and fl: "finality_floor (ct_height (bc_tip bc)) \<le> target" and db: "bc_db bc = Some db" and cp: "last_checkpoint_of db \<le> target"
  shows "\<exists>bc'. rollback_to_height env target bc
      = (Inr (filter (\<lambda>tx. \<not> is_coinbase tx) (concat (map transactions (take (length bs - Suc target) bs)))), bc')
    \<and> chain_inv e bc' (drop (length bs - Suc target) bs) \<and> cs_total_difficulty (bc_stats bc') = cs_total_difficulty (bc_stats bc)"
proof -
  define base where "base = drop (length bs - Suc target) bs"
  define cs where "cs = take (length bs - Suc target) bs"
  let ?f = "finality_floor (length bs - 1)"
  have w: "work_ok e ?f bc bs" and so: "store_ok e bc" and dk: "disk_ok e bc bs"
    and ca: "cached_ok (bc_blocks bc) (bc_heights bc) bs" and ag: "store_agrees (stored bc) (bc_blocks bc)"
    and tp: "ct_height (bc_tip bc) = length bs - 1"
    using inv by (auto simp: chain_inv_def tip_ok_def)
  have split: "bs = cs @ base" and lb: "length base = Suc target" using target tp by (simp_all add: base_def cs_def)
  have bne: "base \<noteq> []" and flb: "?f \<le> length base" using lb fl tp by auto
  have tops: "[target + 1..<ct_height (bc_tip bc) + 1] = [length base..<length base + length cs]" using tp lb target split by (simp add: add.commute)
  from disconnect_loop_ok [OF w [unfolded split] ca [unfolded split] bne flb [unfolded split] env, of nothing_disconnected]
  obtain bc1 dc where d1: "disconnect_loop env (rev [target + 1..<ct_height (bc_tip bc) + 1]) (bc, nothing_disconnected) = Some (bc1, dc)"
    and w1: "work_ok e (finality_floor (length (cs @ base) - 1)) bc1 base" and ca1: "cached_ok (bc_blocks bc1) (bc_heights bc1) base"
    and fr: "frame bc bc1" and txs: "dc_tx_lists dc = map transactions cs"
    unfolding tops by (auto simp: nothing_disconnected_def)
  have ho: "heights_ok e ?f (bc_heights bc1) base" using w1 split by (simp add: work_ok_def)
  have bt: "blk base target = hd base" using blk_hd [OF bne] lb by simp
  have ht: "map_of (bc_heights bc1) target = Some (block_hash_of e (hd base))"
    using heights_ok_complete [OF ho, of target] fl tp lb bt by simp
  with ca1 bt have hb: "map_of (bc_blocks bc1) (block_hash_of e (hd base)) = Some (hd base)" by (auto simp: cached_ok_def)
  let ?tip = "\<lparr> ct_hash = block_hash_of e (hd base), ct_height = target,
      ct_difficulty = chain_work_from_target (bh_target (header (hd base))), ct_timestamp = bh_timestamp (header (hd base)) \<rparr>"
  let ?s = "bc_stats bc1 \<lparr> cs_height := target, cs_tip_hash := block_hash_of e (hd base) \<rparr>"
  let ?db = "db \<lparr> cd_heights := (\<lambda>h. if target < h then None else cd_heights db h),
      cd_state := Some (state_row (block_hash_of e (hd base)) target ?s (last_checkpoint_of db)) \<rparr>"
  define bc2 where "bc2 = bc1 \<lparr> bc_tip := ?tip, bc_stats := ?s, bc_db := Some ?db \<rparr>"
  have db1: "bc_db bc1 = Some db" using fr db by (simp add: frame_def)
  have "rollback_tip target bc1 = bc1 \<lparr> bc_tip := ?tip, bc_stats := ?s \<rparr>"
    by (simp add: rollback_tip_def get_block_hash_def get_block_def ht hb)
  then have run: "rollback_to_height env target bc
      = (Inr (filter (\<lambda>tx. \<not> is_coinbase tx) (concat (map transactions cs))), bc2 \<lparr> bc_generation := bc_generation bc2 + 1 \<rparr>)"
    unfolding rollback_to_height_def Let_def d1 option.case prod.case using target cp db db1 txs by (simp add: bc2_def)
  have st2: "stored bc2 = stored bc" using db by (intro ext) (simp add: stored_def bc2_def)
  have eq: "bc_network bc2 = bc_network bc" "bc_blocks bc2 = bc_blocks bc" using fr by (simp_all add: bc2_def frame_def)
  have "?f \<le> finality_floor (length base - 1)" by (rule finality_floor_above) (use lb fl tp in simp)
  then have w2: "work_ok e (finality_floor (length base - 1)) bc2 base"
    using w1 heights_ok_weaken [OF ho] by (simp add: work_ok_def bc2_def money_ok_def)
  have ro: "row_ok e (bc_db bc2) base"
    by (rule row_ok_state_row [of e base ?s, OF _ refl]) (use w1 lb in \<open>auto simp: bc2_def work_ok_def money_ok_def\<close>)
  have dk2: "disk_ok e bc2 base"
    using dk db lb disk_ok_suffix [OF dk [unfolded split]] unfolding disk_ok_def st2 split by (auto simp: bc2_def blk_append)
  have "store_ok e bc2" "store_agrees (stored bc2) (bc_blocks bc2)" using so ag unfolding store_ok_def st2 eq .
  moreover have "cached_ok (bc_blocks bc2) (bc_heights bc2) base" "tip_ok e bc2 base"
    using ca1 lb by (simp_all add: bc2_def tip_ok_def)
  ultimately have "chain_inv e bc2 base" using w2 ro dk2 by (simp add: chain_inv_def)
  moreover have "cs_total_difficulty (bc_stats bc2) = cs_total_difficulty (bc_stats bc)" using fr by (simp add: bc2_def frame_def)
  ultimately show ?thesis using run unfolding base_def cs_def by auto
qed

subsection \<open>Loading from the database\<close>

lemma chain_list_link: "chain_list e n bs \<Longrightarrow> Suc h < length bs \<Longrightarrow> bh_prev_hash (header (blk bs (Suc h))) = block_hash_of e (blk bs h)"
proof (induction e n bs rule: chain_list.induct)
  case (3 e n b p bs)
  have hd: "blk (p # bs) (length bs) = p" using blk_hd [of "p # bs"] by simp
  show ?case
  proof (cases "Suc h = length (p # bs)")
    case True
    with 3 hd show ?thesis by (simp add: blk_Cons)
  next
    case False
    with 3 show ?thesis by (simp add: blk_Cons)
  qed
qed auto

definition replay_inv :: "'p::ab_group_add node_env \<Rightarrow> block list \<Rightarrow> blockchain \<Rightarrow> nat \<Rightarrow> nat \<Rightarrow> rebuild_state \<Rightarrow> bool" where
  "replay_inv e bs bc0 cache_start k s =
     (let bc = rb_chain s
      in rb_prev s = (if k = 0 then hash_zero else block_hash_of e (blk bs (k - 1)))
       \<and> hm_invar (bc_heights bc)
       \<and> (\<forall>h x. map_of (bc_heights bc) h = Some x \<longleftrightarrow> cache_start \<le> h \<and> h < k \<and> x = block_hash_of e (blk bs h))
       \<and> cached_ok (bc_blocks bc) (bc_heights bc) bs \<and> store_agrees (stored bc0) (bc_blocks bc)
       \<and> spent_key_images (bc_utxos bc) = (\<Union>h<k. set (block_spends (blk bs h))) \<and> db_output_index (bc_utxos bc) \<noteq> None
       \<and> bc_network bc = bc_network bc0 \<and> bc_db bc = bc_db bc0 \<and> bc_tip bc = bc_tip bc0 \<and> bc_stats bc = bc_stats bc0)"

lemma replay_block_ok:
  assumes ch: "chain_list e n bs" and dk: "disk_ok e bc0 bs" and s: "replay_inv e bs bc0 cache_start k s" and k: "k < length bs"
    and env: "same_node e env"
  shows "replay_inv e bs bc0 cache_start (Suc k) (replay_block env cache_start k (blk bs k) s)"
proof -
  let ?b = "blk bs k" and ?h = "block_hash_of e (blk bs k)"
  have ms: "main_stored e bc0 bs" using dk by (simp add: disk_ok_def main_stored_def)
  have sb: "stored bc0 ?h = Some ?b" using ms k by (simp add: main_stored_def)
  have i: "rb_prev s = (if k = 0 then hash_zero else block_hash_of e (blk bs (k - 1)))" "hm_invar (bc_heights (rb_chain s))"
    "\<And>h x. map_of (bc_heights (rb_chain s)) h = Some x \<longleftrightarrow> cache_start \<le> h \<and> h < k \<and> x = block_hash_of e (blk bs h)"
    "cached_ok (bc_blocks (rb_chain s)) (bc_heights (rb_chain s)) bs" "store_agrees (stored bc0) (bc_blocks (rb_chain s))"
    "spent_key_images (bc_utxos (rb_chain s)) = (\<Union>h<k. set (block_spends (blk bs h)))" "db_output_index (bc_utxos (rb_chain s)) \<noteq> None"
    using s by (auto simp: replay_inv_def Let_def)
  note eqs = same_node_eqs(1,4) [OF env]
  have u: "spent_key_images (connect_utxos e k ?b (bc_utxos (rb_chain s))) = (\<Union>h<Suc k. set (block_spends (blk bs h)))"
    using i(6) by (simp add: connect_spent lessThan_Suc Un_commute)
  show ?thesis
  proof (cases "cache_start \<le> k")
    case False
    then show ?thesis using s u i(3)
      by (auto simp: replay_inv_def replay_block_def Let_def eqs connect_db_index less_Suc_eq)
  next
    case True
    let ?hm = "hm_insert k ?h (bc_heights (rb_chain s))" and ?bl = "hm_insert ?h ?b (bc_blocks (rb_chain s))"
    have "cached_ok ?bl ?hm bs"
      unfolding cached_ok_def
    proof (intro allI impI)
      fix h x assume x: "map_of ?hm h = Some x"
      show "map_of ?bl x = Some (blk bs h)"
      proof (cases "h = k")
        case False
        with x have hx: "map_of (bc_heights (rb_chain s)) h = Some x" by simp
        with i(3) have "h < k" "x = block_hash_of e (blk bs h)" by auto
        then have "x \<noteq> ?h" using main_hash_inj [OF ch ms _ k, of h] k by auto
        with i(4) hx show ?thesis by (simp add: cached_ok_def)
      qed (use x in simp)
    qed
    moreover have "store_agrees (stored bc0) ?bl" using i(5) sb by (auto simp: store_agrees_def)
    moreover have "map_of ?hm h = Some x \<longleftrightarrow> cache_start \<le> h \<and> h < Suc k \<and> x = block_hash_of e (blk bs h)" for h x
      using i(3) True by (auto simp: less_Suc_eq)
    ultimately show ?thesis using True s u i(2)
      by (simp add: replay_inv_def replay_block_def Let_def eqs connect_db_index hmap.invar_insert)
  qed
qed

lemma replay_heights_ok:
  assumes ch: "chain_list e n bs" and dk: "disk_ok e bc0 bs" and db: "bc_db bc0 = Some db" and env: "same_node e env"
    and s: "replay_inv e bs bc0 cache_start k s" and k: "k \<le> length bs"
  shows "replay_inv e bs bc0 cache_start (length bs) (replay_heights env db tip_height cache_start [k..<length bs] s)"
  using s k
proof (induction "length bs - k" arbitrary: k s)
  case (Suc m)
  then have lt: "k < length bs" by simp
  then have up: "[k..<length bs] = k # [Suc k..<length bs]" by (rule upt_conv_Cons)
  have get: "db_get_by_height db k = Some (blk bs k)"
    using dk db lt by (auto simp: disk_ok_def db_get_by_height_def stored_def)
  have "bh_prev_hash (header (blk bs k)) = rb_prev s" if "0 < k"
    using chain_list_link [OF ch, of "k - 1"] that lt Suc.prems(1) by (simp add: replay_inv_def Let_def)
  then have run: "replay_heights env db tip_height cache_start [k..<length bs] s
      = replay_heights env db tip_height cache_start [Suc k..<length bs] (replay_block env cache_start k (blk bs k) s)"
    unfolding up using get by auto
  show ?case unfolding run
    by (rule Suc.hyps(1)) (use Suc.hyps(2) lt replay_block_ok [OF ch dk Suc.prems(1) lt env] in auto)
qed simp

definition block_work :: "block \<Rightarrow> nat" where
  "block_work b = chain_work_from_target (bh_target (header b))"

lemma work_of_heights_ok:
  "\<forall>h \<in> set hs. get_block_by_height_of bc h = Some (f h) \<Longrightarrow> acc \<le> u128_max \<Longrightarrow>
   work_of_heights bc hs acc = Some (min u128_max (acc + (\<Sum>h \<leftarrow> hs. block_work (f h))))"
proof (induction hs arbitrary: acc)
  case (Cons h hs)
  then have "work_of_heights bc (h # hs) acc = work_of_heights bc hs (saturating_add u128_max acc (block_work (f h)))"
    by (simp add: block_work_def)
  also have "\<dots> = Some (min u128_max (saturating_add u128_max acc (block_work (f h)) + (\<Sum>h \<leftarrow> hs. block_work (f h))))"
    by (rule Cons.IH) (use Cons.prems in \<open>simp_all add: saturating_add_def\<close>)
  finally show ?case by (auto simp: saturating_add_def min_def)
qed simp

lemma spends_of_chain: "(\<Union>h<length bs. set (block_spends (blk bs h))) = set (concat (map block_spends bs))"
proof -
  have "set bs = blk bs ` {..<length bs}" unfolding blk_def by (metis lessThan_atLeast0 length_rev nth_image order_refl set_rev take_all list.set_map)
  then show ?thesis by simp
qed

lemma rebuild_ok:
  assumes ch: "chain_list e (bc_network bc) bs" and mo: "money_ok e bs (bc_stats bc)" and so: "store_ok e bc" and dk: "disk_ok e bc bs"
    and tp: "tip_ok e bc bs" and ro: "row_ok e (bc_db bc) bs" and d: "distinct (concat (map block_spends bs))"
    and empty: "bc_blocks bc = []" "bc_heights bc = []" and oi: "db_output_index (bc_utxos bc) \<noteq> None" and env: "same_node e env"
  shows "chain_inv e (rebuild_utxo_set env (length bs - 1) bc) bs
    \<and> cs_total_difficulty (bc_stats (rebuild_utxo_set env (length bs - 1) bc)) = cs_total_difficulty (bc_stats bc)
    \<and> bc_db (rebuild_utxo_set env (length bs - 1) bc) = bc_db bc"
proof -
  from dk obtain db where db: "bc_db bc = Some db" by (auto simp: disk_ok_def)
  have ne: "bs \<noteq> []" by (rule chain_list_nonempty [OF ch])
  then have up: "[0..<length bs - 1 + 1] = [0..<length bs]" by (cases bs) auto
  define bc0 where "bc0 = bc \<lparr> bc_utxos := utxo_new \<lparr> db_output_index := db_output_index (bc_utxos bc) \<rparr> \<rparr>"
  define s where "s = replay_heights env db (length bs - 1) (length bs - 1 - 200) [0..<length bs]
      \<lparr> rb_chain = bc0, rb_prev = hash_zero, rb_blocks = 0, rb_txs = 0 \<rparr>"
  have st0: "stored bc0 = stored bc" by (rule stored_cong) (simp add: bc0_def)
  have dk0: "disk_ok e bc0 bs" using dk unfolding disk_ok_def st0 by (simp add: bc0_def)
  have db0: "bc_db bc0 = Some db" using db by (simp add: bc0_def)
  have "replay_inv e bs bc0 c 0 \<lparr> rb_chain = bc0, rb_prev = hash_zero, rb_blocks = 0, rb_txs = 0 \<rparr>" for c
    using empty oi by (simp add: replay_inv_def bc0_def hm_invar_def cached_ok_def store_agrees_def utxo_new_def)
  from replay_heights_ok [OF ch dk0 db0 env this] have rep: "replay_inv e bs bc0 (length bs - 1 - 200) (length bs) s"
    by (simp add: s_def)
  define bc1 where "bc1 = rb_chain s"
  have r: "hm_invar (bc_heights bc1)"
    "\<And>h x. map_of (bc_heights bc1) h = Some x \<longleftrightarrow> length bs - 1 - 200 \<le> h \<and> h < length bs \<and> x = block_hash_of e (blk bs h)"
    "cached_ok (bc_blocks bc1) (bc_heights bc1) bs" "store_agrees (stored bc) (bc_blocks bc1)"
    "spent_key_images (bc_utxos bc1) = set (concat (map block_spends bs))" "db_output_index (bc_utxos bc1) \<noteq> None"
    "bc_network bc1 = bc_network bc" "bc_db bc1 = bc_db bc" "bc_tip bc1 = bc_tip bc" "bc_stats bc1 = bc_stats bc"
    using rep unfolding replay_inv_def Let_def bc1_def [symmetric] st0 spends_of_chain by (simp_all add: bc0_def)
  have rb: "rebuild_utxo_set env (length bs - 1) bc = bc1
      \<lparr> bc_stats := bc_stats bc1 \<lparr> cs_total_blocks := rb_blocks s, cs_total_transactions := rb_txs s \<rparr>,
        bc_utxos := evict_old_outputs (length bs - 1) 1000 (migrate_output_index (length bs - 1) (bc_utxos bc1)) \<rparr>" (is "_ = ?bc2")
    unfolding rebuild_utxo_set_def db option.case Let_def up bc0_def [symmetric] s_def [symmetric] bc1_def [symmetric] ..
  have fl: "length bs - 1 - 200 \<le> finality_floor (length bs - 1)" using finality_floor_bound [of "length bs - 1"] by linarith
  have "heights_ok e (finality_floor (length bs - 1)) (bc_heights bc1) bs" unfolding heights_ok_def using r(1,2) fl by force
  moreover have "spends_ok bs (bc_utxos ?bc2)"
    using d r(5,6) by (auto simp: spends_ok_def evict_old_outputs_def migrate_output_index_def Let_def split: option.split)
  moreover have "money_ok e bs (bc_stats ?bc2)" using mo r(10) by (simp add: money_ok_def)
  ultimately have "work_ok e (finality_floor (length bs - 1)) ?bc2 bs" using ch r(7) by (simp add: work_ok_def)
  moreover have st2: "stored ?bc2 = stored bc" by (rule stored_cong) (simp add: r(8))
  moreover have "store_ok e ?bc2" using so unfolding store_ok_def st2 by (simp add: r(7))
  moreover have "disk_ok e ?bc2 bs" using dk unfolding disk_ok_def st2 by (simp add: r(8))
  moreover have "tip_ok e ?bc2 bs" "row_ok e (bc_db ?bc2) bs" using tp ro by (simp_all add: tip_ok_def r)
  ultimately have "chain_inv e ?bc2 bs" using r(3,4) unfolding chain_inv_def st2 by simp
  then show ?thesis unfolding rb by (simp add: r)
qed

lemma rebuild_tx_index_ok:
  assumes inv: "chain_inv e bc bs"
  shows "chain_inv e (rebuild_tx_index env n bc) bs \<and> verify_tip_integrity (rebuild_tx_index env n bc)
    \<and> bc_stats (rebuild_tx_index env n bc) = bc_stats bc"
proof -
  from inv obtain db where db: "bc_db bc = Some db" by (auto simp: chain_inv_def disk_ok_def)
  then obtain t where t: "rebuild_tx_index env n bc = bc \<lparr> bc_db := Some (db \<lparr> cd_tx_index := t \<rparr>) \<rparr>" (is "_ = ?bc")
    by (cases "cd_tx_index db = Map.empty \<and> 0 < n") (auto simp: rebuild_tx_index_def intro: that [of "cd_tx_index db"])
  have st: "stored ?bc = stored bc" using db by (intro ext) (simp add: stored_def)
  have "chain_inv e ?bc bs"
    using inv db unfolding chain_inv_def work_ok_def store_ok_def disk_ok_def tip_ok_def row_ok_def st by auto
  moreover have "verify_tip_integrity ?bc"
    using inv db by (auto simp: verify_tip_integrity_def chain_inv_def tip_ok_def row_ok_def)
  ultimately show ?thesis unfolding t by simp
qed

lemma load_ok:
  assumes inv: "chain_inv e bc bs" and env: "same_node e env" and fits: "(\<Sum>b \<leftarrow> bs. block_fee_burn e b) \<le> u64_max"
    and db: "bc_db bc = Some db"
  shows "\<exists>bc'. load_from_database env (with_database db oi (bc_network bc)) = (Inr Loaded, bc') \<and> chain_inv e bc' bs
    \<and> cs_total_difficulty (bc_stats bc') = min u128_max (1 + (\<Sum>h \<leftarrow> [1..<length bs]. block_work (blk bs h)))"
proof -
  define s0 where "s0 = with_database db oi (bc_network bc)"
  have ch: "chain_list e (bc_network bc) bs" and so: "store_ok e bc" and dk: "disk_ok e bc bs"
    and d: "distinct (concat (map block_spends bs))"
    using inv by (auto simp: chain_inv_def work_ok_def spends_ok_def)
  have ne: "bs \<noteq> []" by (rule chain_list_nonempty [OF ch])
  from inv db obtain row where row: "cd_state db = Some row" "csd_tip_hash row = block_hash_of e (hd bs)" "csd_height row = length bs - 1"
     "csd_total_supply row = (\<Sum>b \<leftarrow> bs. as_atomic (calculate_block_reward (block_height b)))"
     "csd_total_burned row = as_u64 (\<Sum>b \<leftarrow> bs. block_fee_burn e b)" by (auto simp: chain_inv_def row_ok_def)
  have gen: "cd_heights db 0 = Some (expected_genesis_hash (bc_network bc))"
    using dk db ne chain_list_genesis [OF ch] by (auto simp: disk_ok_def)
  have tipb: "map_of (cd_blocks db) (block_hash_of e (hd bs)) = Some (hd bs)" using tip_stored [OF inv] db by (simp add: stored_def)
  have hh: "block_height (hd bs) = length bs - 1" by (rule chain_list_hd_height [OF ch])
  define bc1 where "bc1 = load_tip row (hd bs) s0"
  have f1: "bc_db bc1 = Some db" "bc_blocks bc1 = []" "bc_heights bc1 = []" "bc_network bc1 = bc_network bc"
    "db_output_index (bc_utxos bc1) = Some oi"
    by (simp_all add: bc1_def s0_def load_tip_def with_database_def new_with_network_def Let_def)
  have "get_block_by_height_of bc1 h = Some (blk bs h)" if "h < length bs" for h
    using dk db that by (auto simp: get_block_by_height_of_def get_block_hash_def get_block_def f1 disk_ok_def stored_def)
  then have "\<forall>h \<in> set [1..<length bs - 1 + 1]. get_block_by_height_of bc1 h = Some (blk bs h)" using ne by auto
  from work_of_heights_ok [OF this, of 1] ne have rec: "recompute_total_difficulty_of bc1 (length bs - 1)
      = Some (min u128_max (1 + (\<Sum>h \<leftarrow> [1..<length bs]. block_work (blk bs h))))" (is "_ = Some ?w")
    by (simp add: recompute_total_difficulty_of_def u128_max_def)
  define bc2 where "bc2 = heal_total_difficulty (length bs - 1) bc1"
  have bc2: "bc2 = bc1 \<lparr> bc_stats := bc_stats bc1 \<lparr> cs_total_difficulty := ?w \<rparr> \<rparr>" 
    unfolding bc2_def heal_total_difficulty_def rec option.case ..
  have st: "stored bc2 = stored bc" using db by (intro stored_cong) (simp add: bc2 f1)
  have c2: "chain_inv e (rebuild_utxo_set env (length bs - 1) bc2) bs
      \<and> cs_total_difficulty (bc_stats (rebuild_utxo_set env (length bs - 1) bc2)) = cs_total_difficulty (bc_stats bc2)
      \<and> bc_db (rebuild_utxo_set env (length bs - 1) bc2) = bc_db bc2"
  proof (rule rebuild_ok [OF _ _ _ _ _ _ d _ _ _ env])
    show "money_ok e bs (bc_stats bc2)"
      using row fits by (simp add: money_ok_def bc2 bc1_def load_tip_def Let_def as_u64_def u64_max_def)
    show "tip_ok e bc2 bs" using row by (simp add: tip_ok_def bc2 bc1_def load_tip_def Let_def)
    show "store_ok e bc2" using so unfolding store_ok_def st by (simp add: bc2 f1)
    show "disk_ok e bc2 bs" using dk db unfolding disk_ok_def st by (simp add: bc2 f1)
  qed (use ch row in \<open>auto simp: bc2 f1 row_ok_def\<close>)
  define bc3 where "bc3 = rebuild_tx_index env (length bs - 1) (rebuild_utxo_set env (length bs - 1) bc2)"
  note i3 = rebuild_tx_index_ok [OF conjunct1 [OF c2], of env "length bs - 1", folded bc3_def]
  have two: "2 = Suc 1" by simp
  have "load_rounds env 2 s0 = (Inr Loaded, bc3)"
  proof -
    have s0: "bc_db s0 = Some db" "bc_network s0 = bc_network bc" by (simp_all add: s0_def with_database_def new_with_network_def)
    show ?thesis
      unfolding two load_rounds.simps s0 option.case row(1,2,3) gen tipb Let_def bc1_def [symmetric] bc2_def [symmetric] bc3_def [symmetric]
      using i3 hh by simp
  qed
  then have "load_from_database env s0 = (Inr Loaded, bc3 \<lparr> bc_generation := bc_generation bc3 + 1 \<rparr>)" by (simp add: load_from_database_def)
  moreover have "cs_total_difficulty (bc_stats bc3) = ?w" using i3 c2 by (simp add: bc2)
  ultimately show ?thesis using i3 unfolding s0_def by simp
qed

subsection \<open>Reachable nodes\<close>

text \<open>A node starts from an empty database, accepts blocks one after another, rolls back to a height at or above its
  finality floor, and restarts from its database. Two steps are left out, because the code does not keep the invariant
  there: a block that is refused two or more heights above the tip (\<open>clean_step\<close>: heights of its branch can stay behind),
  and a restart once the burn total exceeds the 64 bits it is persisted with.\<close>

inductive node_reachable :: "'p::ab_group_add node_env \<Rightarrow> blockchain \<Rightarrow> bool" for e :: "'p::ab_group_add node_env" where
  start: "same_node e env \<Longrightarrow> init_genesis env (with_database empty_db Map.empty network) = (Inr h, bc) \<Longrightarrow> node_reachable e bc"
| block: "node_reachable e bc \<Longrightarrow> same_node e env \<Longrightarrow> add_block env fin b bc = (r, bc') \<Longrightarrow> clean_step bc b r \<Longrightarrow> node_reachable e bc'"
| rollback: "node_reachable e bc \<Longrightarrow> same_node e env \<Longrightarrow> rollback_to_height env target bc = (Inr txs, bc') \<Longrightarrow>
    finality_floor (ct_height (bc_tip bc)) \<le> target \<Longrightarrow> node_reachable e bc'"
| restart: "node_reachable e bc \<Longrightarrow> same_node e env \<Longrightarrow> bc_db bc = Some db \<Longrightarrow> cs_total_burned (bc_stats bc) \<le> u64_max \<Longrightarrow>
    load_from_database env (with_database db oi (bc_network bc)) = (Inr Loaded, bc') \<Longrightarrow> node_reachable e bc'"

lemma node_inv:
  assumes "node_reachable e bc" shows "\<exists>bs. chain_inv e bc bs"
  using assms
proof induction
  case (start env network h bc)
  then show ?case using init_genesis_inv by blast
next
  case (block bc env fin b r bc')
  then obtain bs where "chain_inv e bc bs" by blast
  from add_block_ok [OF this block.hyps(2), of fin b] block.hyps(3,4) show ?case by auto
next
  case (rollback bc env target txs bc')
  then obtain bs where inv: "chain_inv e bc bs" by blast
  from inv obtain db where db: "bc_db bc = Some db" by (auto simp: chain_inv_def disk_ok_def)
  show ?case
  proof (cases "target < ct_height (bc_tip bc)")
    case False
    with rollback.hyps(3) have "bc' = bc \<lparr> bc_generation := bc_generation bc + 1 \<rparr>" by (auto simp: rollback_to_height_def Let_def)
    with inv show ?thesis by auto
  next
    case True
    with rollback.hyps(3) db have "last_checkpoint_of db \<le> target" by (auto simp: rollback_to_height_def Let_def split: if_splits)
    from rollback_to_height_ok [OF inv rollback.hyps(2) True rollback.hyps(4) db this] rollback.hyps(3) show ?thesis by auto
  qed
next
  case (restart bc env db oi bc')
  then obtain bs where inv: "chain_inv e bc bs" by blast
  then have "(\<Sum>b \<leftarrow> bs. block_fee_burn e b) \<le> u64_max" using restart.hyps(4) by (simp add: chain_inv_def work_ok_def money_ok_def)
  from load_ok [OF inv restart.hyps(2) this restart.hyps(3), of oi] restart.hyps(5) show ?case by auto
qed

lemma inv_main_hash:
  assumes "chain_inv e bc bs"
  shows "get_block_hash bc h = (if h < length bs then Some (block_hash_of e (blk bs h)) else None)"
  by (rule get_block_hash_main) (use assms in \<open>auto simp: chain_inv_def work_ok_def\<close>)

lemma inv_main_block:
  assumes inv: "chain_inv e bc bs" and h: "h < length bs"
  shows "get_block bc (block_hash_of e (blk bs h)) = Some (blk bs h)"
proof -
  have "get_block bc (block_hash_of e (blk bs h)) = stored bc (block_hash_of e (blk bs h))"
    by (rule get_block_stored) (use inv in \<open>simp add: chain_inv_def\<close>)
  with inv h show ?thesis by (simp add: chain_inv_def disk_ok_def)
qed

text \<open>The blocks of the main chain, from the genesis block to the tip.\<close>

definition main_blocks :: "blockchain \<Rightarrow> block list" where
  "main_blocks bc = List.map_filter (\<lambda>h. Option.bind (get_block_hash bc h) (get_block bc)) [0..<Suc (ct_height (bc_tip bc))]"

lemma map_filter_all: "\<forall>x \<in> set xs. f x = Some (g x) \<Longrightarrow> List.map_filter f xs = map g xs"
  by (induction xs) (simp_all add: map_filter_simps)

lemma inv_main_blocks:
  assumes inv: "chain_inv e bc bs"
  shows "main_blocks bc = rev bs"
proof -
  have ne: "bs \<noteq> []" using inv chain_list_nonempty by (auto simp: chain_inv_def work_ok_def)
  then have l: "Suc (ct_height (bc_tip bc)) = length bs" using inv by (simp add: chain_inv_def tip_ok_def)
  have "main_blocks bc = map (blk bs) [0..<length bs]"
    unfolding main_blocks_def l
    by (rule map_filter_all) (simp add: inv_main_hash [OF inv] inv_main_block [OF inv])
  also have "\<dots> = rev bs" by (rule nth_equalityI) (simp_all add: blk_def)
  finally show ?thesis .
qed

lemma distinct_concat_rev: "distinct (concat (rev xss)) = distinct (concat xss)"
  by (induction xss) auto

lemma chain_step_common:
  assumes "chain_step b bs bs' r" and "bs \<noteq> []"
  shows "\<exists>cs cs' base. bs = cs @ base \<and> bs' = cs' @ base \<and> finality_floor (length bs - 1) < length base"
proof -
  have same: "finality_floor (length bs - 1) < length bs"
    using finality_floor_bound(2) [of "length bs - 1"] assms(2) by (cases bs) auto
  show ?thesis
  proof (cases "\<exists>ts. r = Inr (AcceptedReorg ts)")
    case True
    then obtain cs base fs where "bs = cs @ base" "bs' = (b # fs) @ base" "finality_floor (length bs - 1) < length base"
      using assms(1) by (auto simp: chain_step_def)
    then show ?thesis by blast
  next
    case False
    then have "bs' = bs \<or> bs' = b # bs" using assms(1) by (auto simp: chain_step_def split: sum.splits block_status.splits)
    then show ?thesis using same by (metis append_Cons append_Nil)
  qed
qed

lemma extend_tip_result: "fst (extend_tip env fin h b bc) \<in> {Inr Accepted, Inl Halted}"
  by (simp add: extend_tip_def Let_def split: option.split)

text \<open>C1: in every state a node reaches from an empty database by initialising the genesis block, receiving blocks
  (extending the tip or reorganising), rolling back to a height at or above the finality floor and restarting from the
  database, the main chain (the blocks its height index names) is a chain of accepted blocks that starts at the hardcoded
  genesis block and ends at the tip; the recorded supply is the sum of the block rewards, the recorded burn the sum of the
  fee burns; and no key image occurs twice on the main chain, the spent set being exactly its key images. (Blocks refused
  two or more heights above the tip, and restarts with a burn total above 64 bits, are not steps of a run.)\<close>

theorem chain_invariant:
  assumes "node_reachable e bc"
  shows "chain_list e (bc_network bc) (rev (main_blocks bc))
    \<and> length (main_blocks bc) = Suc (ct_height (bc_tip bc))
    \<and> ct_hash (bc_tip bc) = block_hash_of e (last (main_blocks bc))
    \<and> cs_total_supply (bc_stats bc) = (\<Sum>b \<leftarrow> main_blocks bc. as_atomic (calculate_block_reward (block_height b)))
    \<and> cs_total_burned (bc_stats bc) = (\<Sum>b \<leftarrow> main_blocks bc. block_fee_burn e b)
    \<and> distinct (concat (map block_spends (main_blocks bc)))
    \<and> spent_key_images (bc_utxos bc) = set (concat (map block_spends (main_blocks bc)))"
proof -
  from node_inv [OF assms] obtain bs where inv: "chain_inv e bc bs" by blast
  note mb = inv_main_blocks [OF inv]
  have ne: "bs \<noteq> []" using inv chain_list_nonempty by (auto simp: chain_inv_def work_ok_def)
  have "money_ok e bs (bc_stats bc)" "spends_ok bs (bc_utxos bc)" "chain_list e (bc_network bc) bs" "tip_ok e bc bs"
    using inv by (auto simp: chain_inv_def work_ok_def)
  moreover have "distinct (concat (map block_spends (rev bs))) = distinct (concat (map block_spends bs))"
    by (simp add: rev_map [symmetric] distinct_concat_rev)
  ultimately show ?thesis
    using ne unfolding mb money_ok_def spends_ok_def tip_ok_def by (simp add: rev_map [symmetric] sum_list_rev last_rev)
qed

text \<open>C6: accepting a block never touches the main chain at or below the finality floor of the tip (the last
  multiple of 144 heights), and the floor itself never moves back. (Runs are as for the chain invariant, and the block is
  not one that is refused two or more heights above the tip.)\<close>

theorem finality_floor_stable:
  assumes "node_reachable e bc" and "same_node e env" and "add_block env fin b bc = (r, bc')" and "clean_step bc b r"
    and "h \<le> finality_floor (ct_height (bc_tip bc))"
  shows "get_block_hash bc' h = get_block_hash bc h \<and> get_block_hash bc h \<noteq> None
    \<and> finality_floor (ct_height (bc_tip bc)) \<le> finality_floor (ct_height (bc_tip bc'))"
proof -
  from node_inv [OF assms(1)] obtain bs where inv: "chain_inv e bc bs" by blast
  from add_block_ok [OF inv assms(2), of fin b] assms(3,4) obtain bs'
    where inv': "chain_inv e bc' bs'" and st: "chain_step b bs bs' r" by auto
  note t = inv_tip_height [OF inv] and t' = inv_tip_height [OF inv']
  have tip: "length bs - 1 = ct_height (bc_tip bc)" using t by (cases bs) auto
  from chain_step_common [OF st t(2), unfolded tip] obtain cs cs' base where
    base: "bs = cs @ base" "bs' = cs' @ base" "finality_floor (ct_height (bc_tip bc)) < length base" by blast
  have "finality_floor (ct_height (bc_tip bc)) \<le> finality_floor (ct_height (bc_tip bc'))"
    by (rule finality_floor_above) (use base t' in auto)
  moreover have "h < length base" using base(3) assms(5) by simp
  ultimately show ?thesis
    unfolding inv_main_hash [OF inv] inv_main_hash [OF inv'] base by (simp add: blk_append)
qed

lemma add_block_result:
  assumes "node_reachable e bc" and "same_node e env"
  shows "fst (add_block env fin b bc) \<noteq> Inl Halted"
proof -
  from node_inv [OF assms(1)] obtain bs where "chain_inv e bc bs" by blast
  from add_block_ok [OF this assms(2), of fin b] show ?thesis by auto
qed

lemma tip_extended:
  assumes "node_reachable e bc" and "same_node e env"
    and pass: "fst (check_new_block env b bc) = None" "bh_prev_hash (header b) = ct_hash (bc_tip bc)"
  shows "\<exists>bc'. add_block env fin b bc = (Inr Accepted, bc') \<and> ct_hash (bc_tip bc') = block_hash_of e b
    \<and> main_blocks bc' = main_blocks bc @ [b]"
proof -
  from node_inv [OF assms(1)] obtain bs where inv: "chain_inv e bc bs" by blast
  from add_block_ok [OF inv assms(2), of fin b] obtain r bc' where r: "add_block env fin b bc = (r, bc')" "r \<noteq> Inl Halted"
    and ok: "clean_step bc b r \<longrightarrow> (\<exists>bs'. chain_inv e bc' bs' \<and> chain_step b bs bs' r)" by blast
  from pass(1) obtain bc1 where c: "check_new_block env b bc = (None, bc1)" by (cases "check_new_block env b bc") auto
  have "is_main_chain bc b" using pass(2) by (simp add: is_main_chain_def)
  with r(1) c have "r = fst (extend_tip env fin (block_hash_of env b) b (store_block (block_hash_of env b) b bc1))"
    by (simp add: add_block_def Let_def apsnd_def map_prod_def split: prod.splits)
  with r(2) extend_tip_result [of env fin "block_hash_of env b" b "store_block (block_hash_of env b) b bc1"]
  have acc: "r = Inr Accepted" by auto
  with ok obtain bs' where "chain_inv e bc' bs'" "bs' = b # bs" by (auto simp: clean_step_def chain_step_def)
  then show ?thesis
    using r(1) acc inv_main_blocks [OF inv] inv_main_blocks [of e bc' bs'] by (auto simp: chain_inv_def tip_ok_def)
qed

text \<open>C7: in every state of a run, a node does not halt on an arithmetic overflow while it processes a block, whatever the
  block, and a block that passes the checks and names the tip as its parent is accepted and becomes the tip. (A run is
  as for the chain invariant. In particular it has no block that was refused two or more heights above the tip: the
  height entries such a block can leave behind may make a later reorganisation subtract a block that was never added,
  where the code does panic.)\<close>

theorem tip_extension_live:
  assumes "node_reachable e bc" and "same_node e env"
  shows "fst (add_block env fin b bc) \<noteq> Inl Halted
    \<and> (fst (check_new_block env b bc) = None \<and> bh_prev_hash (header b) = ct_hash (bc_tip bc) \<longrightarrow>
         (\<exists>bc'. add_block env fin b bc = (Inr Accepted, bc') \<and> ct_hash (bc_tip bc') = block_hash_of e b
            \<and> main_blocks bc' = main_blocks bc @ [b]))"
  using add_block_result [OF assms] tip_extended [OF assms] by blast

text \<open>C8: restarting a node from its database gives back the chain it had, as long as the burn total still fits the 64 bits
  it is persisted with: the same main chain, tip, supply, burn and spent key images, and the total difficulty is the
  canonical sum of the block works on top of the genesis base 1. (Runs are as for the chain invariant.)\<close>

theorem restart_restores:
  assumes "node_reachable e bc" and "same_node e env" and "bc_db bc = Some db" and "cs_total_burned (bc_stats bc) \<le> u64_max"
  shows "\<exists>bc'. load_from_database env (with_database db oi (bc_network bc)) = (Inr Loaded, bc')
    \<and> main_blocks bc' = main_blocks bc \<and> ct_hash (bc_tip bc') = ct_hash (bc_tip bc)
    \<and> cs_total_supply (bc_stats bc') = cs_total_supply (bc_stats bc) \<and> cs_total_burned (bc_stats bc') = cs_total_burned (bc_stats bc)
    \<and> spent_key_images (bc_utxos bc') = spent_key_images (bc_utxos bc)
    \<and> cs_total_difficulty (bc_stats bc') = min u128_max (1 + (\<Sum>b \<leftarrow> tl (main_blocks bc). block_work b))"
proof -
  from node_inv [OF assms(1)] obtain bs where inv: "chain_inv e bc bs" by blast
  then have "(\<Sum>b \<leftarrow> bs. block_fee_burn e b) \<le> u64_max" using assms(4) by (simp add: chain_inv_def work_ok_def money_ok_def)
  from load_ok [OF inv assms(2) this assms(3), of oi] obtain bc' where l: "load_from_database env (with_database db oi (bc_network bc)) = (Inr Loaded, bc')"
    "chain_inv e bc' bs" "cs_total_difficulty (bc_stats bc') = min u128_max (1 + (\<Sum>h \<leftarrow> [1..<length bs]. block_work (blk bs h)))" by blast
  have "map (blk bs) [1..<length bs] = tl (rev bs)" by (rule nth_equalityI) (auto simp: blk_def nth_tl)
  then have "(\<Sum>h \<leftarrow> [1..<length bs]. block_work (blk bs h)) = (\<Sum>b \<leftarrow> tl (rev bs). block_work b)"
    by (metis (mono_tags, lifting) map_map comp_def map_eq_conv)
  then show ?thesis
    using l inv inv_main_blocks [OF inv] inv_main_blocks [OF l(2)]
    by (simp add: chain_inv_def work_ok_def money_ok_def spends_ok_def tip_ok_def)
qed

text \<open>C16: rolling back to a height at or above the finality floor and the last checkpoint cuts the main chain there and
  hands the cut transactions back; the supply, the burn and the spent key images become exactly those of the remaining
  blocks. The recorded total difficulty is not reduced. (Runs are as for the chain invariant.)\<close>

theorem rollback_truncates:
  assumes "node_reachable e bc" and "same_node e env" and "target < ct_height (bc_tip bc)"
    and "finality_floor (ct_height (bc_tip bc)) \<le> target" and "bc_db bc = Some db" and "last_checkpoint_of db \<le> target"
  shows "\<exists>bc'. rollback_to_height env target bc
      = (Inr (filter (\<lambda>tx. \<not> is_coinbase tx) (concat (map transactions (rev (drop (Suc target) (main_blocks bc)))))), bc')
    \<and> main_blocks bc' = take (Suc target) (main_blocks bc) \<and> ct_height (bc_tip bc') = target
    \<and> cs_total_supply (bc_stats bc') = (\<Sum>b \<leftarrow> main_blocks bc'. as_atomic (calculate_block_reward (block_height b)))
    \<and> cs_total_burned (bc_stats bc') = (\<Sum>b \<leftarrow> main_blocks bc'. block_fee_burn e b)
    \<and> spent_key_images (bc_utxos bc') = set (concat (map block_spends (main_blocks bc')))
    \<and> cs_total_difficulty (bc_stats bc') = cs_total_difficulty (bc_stats bc)"
proof -
  from node_inv [OF assms(1)] obtain bs where inv: "chain_inv e bc bs" by blast
  let ?base = "drop (length bs - Suc target) bs"
  from rollback_to_height_ok [OF inv assms(2-6)] obtain bc' where r: "rollback_to_height env target bc
      = (Inr (filter (\<lambda>tx. \<not> is_coinbase tx) (concat (map transactions (take (length bs - Suc target) bs)))), bc')"
    "chain_inv e bc' ?base" "cs_total_difficulty (bc_stats bc') = cs_total_difficulty (bc_stats bc)" by blast
  note mb = inv_main_blocks [OF inv] and mb' = inv_main_blocks [OF r(2)] and t' = inv_tip_height [OF r(2)] and t = inv_tip_height [OF inv]
  have "rev (drop (Suc target) (rev bs)) = take (length bs - Suc target) bs" by (simp add: drop_rev)
  moreover have "take (Suc target) (rev bs) = rev ?base" by (simp add: take_rev)
  moreover have "ct_height (bc_tip bc') = target" using t t' assms(3) by simp
  ultimately show ?thesis
    using r by (intro exI [of _ bc']) (simp add: mb mb' chain_inv_def work_ok_def money_ok_def spends_ok_def rev_map [symmetric] sum_list_rev)
qed

subsection \<open>Branches\<close>

lemma disconnect_loop_blocks: "disconnect_loop env hs (bc, dc) = Some (bc', dc') \<Longrightarrow> bc_blocks bc' = bc_blocks bc"
proof (induction hs arbitrary: bc dc)
  case (Cons h hs)
  then obtain bc1 dc1 where a: "disconnect_at env h (bc, dc) = Some (bc1, dc1)" "disconnect_loop env hs (bc1, dc1) = Some (bc', dc')"
    by (auto simp: bind_eq_Some_conv)
  have "bc_blocks bc1 = bc_blocks bc"
    using a(1) by (auto simp: disconnect_at_def Let_def split: option.splits)
  with Cons.IH [OF a(2)] show ?case by simp
qed simp

lemma connect_fork_blocks: "connect_fork env fp before fs bc = Some (bc', err) \<Longrightarrow> bc_blocks bc' = bc_blocks bc"
proof (induction fs arbitrary: bc before)
  case (Cons f fs)
  obtain v bc1 where v: "validate_against env f bc = (v, bc1)" by (meson surj_pair)
  from validate_against_frame [OF v] have "bc_blocks bc1 = bc_blocks bc" by auto
  with Cons.prems v show ?case by (auto dest!: Cons.IH split: if_splits option.splits)
qed simp

lemma reorg_needs_cached_parent:
  assumes "fst (perform_reorg env h b fp w bc) = Inr (AcceptedReorg ts)" and "0 < block_height b"
  shows "map_of (bc_blocks bc) (bh_prev_hash (header b)) \<noteq> None"
proof -
  from assms(1) obtain bc1 dc where d: "disconnect_loop env (rev [fp + 1..<ct_height (bc_tip bc) + 1]) (bc, nothing_disconnected) = Some (bc1, dc)"
    by (fastforce simp: perform_reorg_def Let_def simp del: upt_Suc rev.simps split: option.splits)
  from assms(1) obtain bc2 err where c: "connect_fork env fp [] (collect_fork_blocks bc1 b fp) bc1 = Some (bc2, err)"
    unfolding perform_reorg_def Let_def d option.case prod.case by (cases "connect_fork env fp [] (collect_fork_blocks bc1 b fp) bc1") auto
  obtain v bcv where v: "validate_against env b bc2 = (v, bcv)" by (meson surj_pair)
  have "err = None \<and> bv_valid v"
    using assms(1) unfolding perform_reorg_def Let_def d c option.case prod.case
    by (auto simp: check_reorg_tip_def v split: if_splits option.splits)
  then have "bv_valid (fst (validate_block_with_checkpoint_for_network env b (map_of (bc_blocks bc2) (bh_prev_hash (header b)))
      (bc_utxos bc2) None (bc_network bc2) (bc_caches bc2)))"
    using v by (auto simp: validate_against_def split: prod.splits)
  from accepted_has_parent [OF this assms(2)] show ?thesis
    using disconnect_loop_blocks [OF d] connect_fork_blocks [OF c] by auto
qed

text \<open>C38: a node that knows the parent of a block only from its database, as every branch block after a restart, never
  reorganises to that block: the reorganisation looks parents up in the block cache alone.\<close>

theorem uncached_branch_never_adopted:
  assumes "node_reachable e bc" and "same_node e env" and "map_of (bc_blocks bc) (bh_prev_hash (header b)) = None"
  shows "fst (add_block env fin b bc) \<noteq> Inr (AcceptedReorg ts)"
proof
  assume acc: "fst (add_block env fin b bc) = Inr (AcceptedReorg ts)"
  from node_inv [OF assms(1)] obtain bs where inv: "chain_inv e bc bs" by blast
  obtain o1 bc1 where c: "check_new_block env b bc = (o1, bc1)" by (meson surj_pair)
  have o1: "o1 = None"
    using acc c check_new_block_not_halted [of env b bc _ bc1] by (cases o1) (auto simp: add_block_def Let_def)
  note c = c [unfolded o1]
  from pass_parent [OF inv c assms(2)] obtain p where p: "stored bc (bh_prev_hash (header b)) = Some p" "0 < block_height b"
    "stored bc (block_hash_of e b) = None" by blast
  let ?h = "block_hash_of env b" and ?bc2 = "store_block (block_hash_of env b) b bc1"
  have "\<not> is_main_chain bc b"
    using acc c extend_tip_result [of env fin ?h b ?bc2] by (auto simp: add_block_def Let_def)
  with acc c have "fst (evaluate_fork env ?h b ?bc2) = Inr (AcceptedReorg ts)" by (simp add: add_block_def Let_def)
  then obtain fp w where "fst (perform_reorg env ?h b fp w ?bc2) = Inr (AcceptedReorg ts)"
    by (auto simp: evaluate_fork_def Let_def split: fork_decision.splits)
  from reorg_needs_cached_parent [OF this p(2)] have "map_of (hm_insert ?h b (bc_blocks bc1)) (bh_prev_hash (header b)) \<noteq> None"
    by (simp add: store_block_def)
  moreover have "bh_prev_hash (header b) \<noteq> ?h" using p same_node_eqs(1) [OF assms(2)] by auto
  moreover have "bc_blocks bc1 = bc_blocks bc" using check_new_block_state [OF c] by (auto elim!: volatile_obtain)
  ultimately show False using assms(3) by simp
qed

text \<open>C37: a block that spends a key image which the current main chain has already spent is never accepted, not even as
  a block of a side branch that forks off before the spend: arriving blocks are validated against the UTXO set of the tip.\<close>

theorem sibling_block_rejected:
  assumes "ki \<in> set (block_spends b)" and "ki \<in> spent_key_images (bc_utxos bc)"
    and "0 < block_height b" and "\<not> ne_insecure_fast_sync env"
  shows "fst (add_block env fin b bc) \<noteq> Inr Accepted \<and> fst (add_block env fin b bc) \<noteq> Inr AcceptedFork
    \<and> (\<forall>ts. fst (add_block env fin b bc) \<noteq> Inr (AcceptedReorg ts)) \<and> bc_blocks (snd (add_block env fin b bc)) = bc_blocks bc"
proof -
  obtain o1 bc1 where c: "check_new_block env b bc = (o1, bc1)" by (meson surj_pair)
  obtain r where o1: "o1 = Some r"
  proof (cases o1)
    case None
    note v = check_new_block_pass(4) [OF c [unfolded None]]
    from accepted_has_parent [OF v assms(3)] obtain p where "get_block bc (bh_prev_hash (header b)) = Some p" by blast
    from accepted_spends [OF v [unfolded this] assms(3,4)] assms(1,2) have False by auto
    then show ?thesis ..
  qed
  have "bc_blocks bc1 = bc_blocks bc" using check_new_block_state [OF c] by (auto elim!: volatile_obtain)
  moreover have "r \<noteq> Inr AcceptedFork"
    using c o1 unfolding check_new_block_def Let_def by (auto split: if_splits prod.splits option.splits bool.splits)
  ultimately show ?thesis using c o1 check_new_block_not_halted [of env b bc r bc1] by (simp add: add_block_def Let_def)
qed

lemma undo_fork_heights: "undo_fork env g fs bc = Some bc' \<Longrightarrow> bc_heights bc' = bc_heights bc"
proof (induction fs arbitrary: bc)
  case (Cons f fs)
  then show ?case by (fastforce split: if_splits option.splits)
qed simp

lemma reapply_heights_above:
  "\<forall>(x, y) \<in> set xs. x \<le> n \<Longrightarrow> n < h \<Longrightarrow> map_of (bc_heights (fold (reapply_block env) xs bc)) h = map_of (bc_heights bc) h"
proof (induction xs arbitrary: bc)
  case (Cons p xs)
  obtain x y where p: "p = (x, y)" by (cases p)
  have "map_of (bc_heights (reapply_block env (x, y) bc)) h = map_of (bc_heights bc) h"
    using Cons.prems p by (simp add: reapply_block_def Let_def split: option.split)
  with Cons p show ?case by simp
qed simp

lemma disconnect_loop_heights:
  "disconnect_loop env hs (bc, dc) = Some (bc', dc') \<Longrightarrow> fst ` set (dc_heights dc') \<subseteq> fst ` set (dc_heights dc) \<union> set hs"
proof (induction hs arbitrary: bc dc)
  case (Cons h hs)
  then obtain bc1 dc1 where a: "disconnect_at env h (bc, dc) = Some (bc1, dc1)" "disconnect_loop env hs (bc1, dc1) = Some (bc', dc')"
    by (auto simp: bind_eq_Some_conv)
  have "fst ` set (dc_heights dc1) \<subseteq> insert h (fst ` set (dc_heights dc))"
    using a(1) by (auto simp: disconnect_at_def Let_def split: option.splits)
  with Cons.IH [OF a(2)] show ?case by auto
qed simp

lemma connect_fork_step:
  assumes "connect_fork env fp before (f # fs) bc = Some (bc', err)"
  obtains (stopped) "bc_heights bc' = bc_heights bc" "err \<noteq> None"
  | (connected) bc1 where "bc_heights bc1 = hm_insert (block_height f) (block_hash_of env f) (bc_heights bc)"
      "connect_fork env fp (before @ [f]) fs bc1 = Some (bc', err)"
proof -
  obtain v bcv where v: "validate_against env f bc = (v, bcv)" by (meson surj_pair)
  have h: "bc_heights bcv = bc_heights bc" using validate_against_frame [OF v] by auto
  show thesis using assms h v by (auto split: if_splits option.splits intro: stopped) (erule connected [rotated], simp)
qed

lemma connect_fork_other_heights:
  "connect_fork env fp before fs bc = Some (bc', err) \<Longrightarrow> k \<notin> block_height ` set fs
   \<Longrightarrow> map_of (bc_heights bc') k = map_of (bc_heights bc) k"
proof (induction fs arbitrary: bc before)
  case (Cons f fs)
  from Cons.prems(1) show ?case
    by (cases rule: connect_fork_step) (use Cons.IH Cons.prems(2) in auto)
qed simp

lemma connect_fork_heights:
  "connect_fork env fp before fs bc = Some (bc', None) \<Longrightarrow> distinct (map block_height fs) \<Longrightarrow> x \<in> set fs
   \<Longrightarrow> map_of (bc_heights bc') (block_height x) = Some (block_hash_of env x)"
proof (induction fs arbitrary: bc before)
  case (Cons f fs)
  from Cons.prems(1) show ?case
  proof (cases rule: connect_fork_step)
    case (connected bc1)
    with Cons.prems connect_fork_other_heights [OF connected(2), of "block_height f"] Cons.IH [OF connected(2)]
    show ?thesis by (auto simp: image_iff)
  qed simp
qed simp

lemma connect_fork_append:
  "connect_fork env fp before fs bc = Some (bc', None) \<Longrightarrow>
   connect_fork env fp before (fs @ gs) bc = connect_fork env fp (before @ fs) gs bc'"
  by (induction fs arbitrary: bc before) (auto split: prod.splits if_splits option.splits)

lemma rollback_keeps_above:
  assumes "rollback_reorg env True fork_point tip_height fork_blocks dc tip stats bc = Some bc'"
    and "\<forall>(x, y) \<in> set (dc_heights dc). x \<le> tip_height" and "tip_height < h"
  shows "map_of (bc_heights bc') h = map_of (bc_heights bc) h \<and> bc_tip bc' = tip"
proof -
  from assms(1) obtain bc1 where u: "undo_fork env True (rev fork_blocks) bc = Some bc1"
    and bc': "bc' = (fold (reapply_block env) (rev (dc_heights dc)) (remove_heights (rev [fork_point + 1..<tip_height + 1]) bc1))
      \<lparr> bc_tip := tip, bc_stats := stats \<rparr>" by (auto simp: rollback_reorg_def simp del: upt_Suc)
  have "map_of (bc_heights (remove_heights (rev [fork_point + 1..<tip_height + 1]) bc1)) h = map_of (bc_heights bc1) h"
    using assms(3) by (simp add: remove_heights_def lookup_remove_heights del: upt_Suc)
  with reapply_heights_above [of "rev (dc_heights dc)" tip_height h env] assms(2,3) undo_fork_heights [OF u] show ?thesis
    by (simp add: bc' del: upt_Suc)
qed

lemma commit_reorg_status: "commit_reorg env h b w fs dc n bc \<noteq> (Inr (Invalid er), bc')"
  by (simp add: commit_reorg_def Let_def split: option.split)

text \<open>C39: a failed reorganisation leaves traces of its branch in the height index. Suppose a reorganisation
  disconnects the main chain down to the fork point, connects the blocks \<open>fs\<close> of the branch (of
  pairwise different heights) and then refuses a later block or the new tip, for any reason but the
  target of the tip. Every connected branch block above the old tip is still what the node answers
  for its height afterwards, although the tip is the old one again.\<close>

theorem failed_reorg_leaves_heights:
  assumes "disconnect_loop env (rev [fp + 1..<ct_height (bc_tip bc) + 1]) (bc, nothing_disconnected) = Some (bc1, dc)"
    and "collect_fork_blocks bc1 b fp = fs @ gs" and "distinct (map block_height (fs @ gs))"
    and "connect_fork env fp [] fs bc1 = Some (bc2, None)"
    and "perform_reorg env h b fp w bc = (Inr (Invalid er), bc')" and "er \<noteq> [''Reorg tip difficulty mismatch'']"
    and "x \<in> set fs" and "ct_height (bc_tip bc) < block_height x"
  shows "get_block_hash bc' (block_height x) = Some (block_hash_of env x) \<and> bc_tip bc' = bc_tip bc"
proof -
  let ?tip = "ct_height (bc_tip bc)"
  have low: "\<forall>(k, y) \<in> set (dc_heights dc). k \<le> ?tip"
    using disconnect_loop_heights [OF assms(1)] by (fastforce simp: nothing_disconnected_def simp del: upt_Suc)
  have "connect_fork env fp [] (fs @ gs) bc1 = connect_fork env fp fs gs bc2"
    using connect_fork_append [OF assms(4), of gs] by simp
  with assms(5) obtain bc3 err where c: "connect_fork env fp [] (fs @ gs) bc1 = Some (bc3, err)" "connect_fork env fp fs gs bc2 = Some (bc3, err)"
    unfolding perform_reorg_def Let_def assms(1,2) option.case prod.case by (cases "connect_fork env fp fs gs bc2") auto
  have "block_height x \<notin> block_height ` set gs" using assms(3,7) by auto
  from connect_fork_other_heights [OF c(2) this] connect_fork_heights [OF assms(4) _ assms(7)] assms(3)
  have hx: "map_of (bc_heights bc3) (block_height x) = Some (block_hash_of env x)" by simp
  obtain bc4 err' where t: "(if err = None then check_reorg_tip env b bc3 else (bc3, err)) = (bc4, err')" by fastforce
  then have h4: "bc_heights bc4 = bc_heights bc3"
    by (auto simp: check_reorg_tip_def split: if_splits prod.splits dest: validate_against_frame)
  note p = assms(5) [unfolded perform_reorg_def Let_def assms(1,2) c(1) option.case prod.case t]
  show ?thesis
  proof (cases err')
    case None
    then have False
      using p assms(6) by (auto simp: commit_reorg_status split: if_splits option.splits)
    then show ?thesis ..
  next
    case (Some e)
    with p have "rollback_reorg env True fp ?tip (fs @ gs) dc (bc_tip bc) (bc_stats bc) bc4 = Some bc'"
      by (auto split: option.splits)
    from rollback_keeps_above [OF this low assms(8)] hx h4 show ?thesis by (simp add: get_block_hash_def)
  qed
qed

subsection \<open>Total difficulty after a fresh start\<close>

lemma stats_kept [simp]:
  "bc_stats (record_event env ty h x bc) = bc_stats bc" "bc_stats (feed_finality env fin b bc) = bc_stats bc"
  "bc_stats (persist_output_index txs n bc) = bc_stats bc" "bc_stats (store_block k b bc) = bc_stats bc"
  by (simp_all add: record_event_def feed_finality_def persist_output_index_def store_block_def Let_def split: option.split)

lemma persist_tip_stats [simp]: "bc_stats (persist_tip env h b bc) = bc_stats bc"
  by (auto simp: persist_tip_def record_event_def Let_def split: option.split)

lemma evict_entries_stats [simp]: "bc_stats (evict_entries n es bc) = bc_stats bc"
  by (induction n es bc rule: evict_entries.induct) auto

lemma evict_block_cache_stats [simp]: "bc_stats (evict_block_cache bc) = bc_stats bc"
  by (simp add: evict_block_cache_def)

lemma db_kept [simp]:
  "bc_db (record_event env ty h x bc) = bc_db bc" "bc_db (feed_finality env fin b bc) = bc_db bc"
  "bc_db (persist_output_index txs n bc) = bc_db bc" "bc_db (evict_entries n es bc) = bc_db bc" "bc_db (evict_block_cache bc) = bc_db bc"
proof -
  show *: "bc_db (evict_entries n es bc) = bc_db bc" for n es bc by (induction n es bc rule: evict_entries.induct) auto
  show "bc_db (evict_block_cache bc) = bc_db bc" by (simp add: evict_block_cache_def *)
qed (simp_all add: record_event_def feed_finality_def persist_output_index_def Let_def split: option.split)

lemma persist_tip_checkpoint:
  assumes "bc_db bc = Some db"
  shows "last_checkpoint_of (the (bc_db (persist_tip env h b bc)))
     = (if 0 < block_height b \<and> block_height b mod CHECKPOINT_INTERVAL = 0 then block_height b else last_checkpoint_of db)"
  using assms by (simp add: persist_tip_def Let_def last_checkpoint_of_def state_row_def)

lemma extend_tip_checkpoint:
  assumes "extend_tip env fin h b bc = (Inr Accepted, bc')" and "bc_db bc = Some db"
  shows "last_checkpoint_of (the (bc_db bc'))
     = (if 0 < block_height b \<and> block_height b mod CHECKPOINT_INTERVAL = 0 then block_height b else last_checkpoint_of db)"
  using assms by (auto simp: extend_tip_def Let_def persist_tip_checkpoint split: option.splits)

lemma extend_tip_work:
  assumes "extend_tip env fin h b bc = (Inr Accepted, bc')"
  shows "cs_total_difficulty (bc_stats bc') = wrapping_add u128_max (cs_total_difficulty (bc_stats bc)) (block_work b)"
  using assms by (auto simp: extend_tip_def Let_def add_emission_def bind_eq_Some_conv block_work_def split: option.splits)

lemma commit_never_extends: "fst (commit_reorg env h b w fs dc old bc) \<noteq> Inr Accepted"
  by (simp add: commit_reorg_def Let_def split: option.split)

lemma reorg_never_extends: "fst (perform_reorg env h b fp w bc) \<noteq> Inr Accepted"
  unfolding perform_reorg_def Let_def
  by (auto simp: commit_never_extends simp del: upt_Suc split: option.splits prod.splits if_splits)

lemma fork_never_extends: "fst (evaluate_fork env h b bc) \<noteq> Inr Accepted"
  by (auto simp: reorg_never_extends evaluate_fork_def Let_def split: fork_decision.split)

lemma add_block_accepted:
  assumes "add_block env fin b bc = (Inr Accepted, bc')"
  obtains bc1 bc2 where "check_new_block env b bc = (None, bc1)"
    and "extend_tip env fin (block_hash_of env b) b (store_block (block_hash_of env b) b bc1) = (Inr Accepted, bc2)"
    and "bc_stats bc' = bc_stats bc2" and "bc_db bc' = bc_db bc2"
proof -
  obtain o1 bc1 where c: "check_new_block env b bc = (o1, bc1)" by (meson surj_pair)
  have o1: "o1 = None"
    using assms c check_new_block_not_halted [of env b bc _ bc1] by (cases o1) (auto simp: add_block_def Let_def)
  have "is_main_chain bc b"
    using assms c o1 fork_never_extends [of env "block_hash_of env b" b "store_block (block_hash_of env b) b bc1"]
    by (auto simp: add_block_def Let_def apsnd_def map_prod_def split: if_splits prod.splits)
  with assms c o1 show ?thesis
    by (cases "extend_tip env fin (block_hash_of env b) b (store_block (block_hash_of env b) b bc1)")
      (auto simp: add_block_def Let_def intro!: that)
qed

text \<open>C40: a node that initialises a fresh chain counts the genesis block as no work, while the walk over a branch counts
  it as 1. After the first block, every sibling of equal work is therefore taken as heavier, whatever its hash, and the
  tie break on the smaller hash is never reached.\<close>

theorem fresh_node_prefers_sibling:
  assumes init: "init_genesis env (with_database empty_db Map.empty network) = (Inr g, bc)" and node: "same_node e env" "same_node e env'"
    and acc: "add_block env' fin b bc = (Inr Accepted, bc')"
    and sib: "block_height b' = 1" "bh_prev_hash (header b') = g" "bh_target (header b') = bh_target (header b)"
    and work: "block_work b < u128_max"
  shows "take_fork (calculate_fork_cumulative_work (cv_store (chain_view_of env' bc')) (fork_header_of b'))
     (cs_total_difficulty (bc_stats bc')) h (ct_hash (bc_tip bc'))"
proof -
  from init_genesis_inv [OF init node(1)] obtain g0 where inv: "chain_inv e bc [g0]" by blast
  have tip: "ct_hash (bc_tip bc) = g" "cs_total_difficulty (bc_stats bc) = 0"
    using init by (auto simp: init_genesis_def with_database_def new_with_network_def chain_stats_default_def
        persist_output_index_def Let_def split: if_splits)
  have hg: "block_hash_of e g0 = g" "block_height g0 = 0"
    using inv tip by (auto simp: chain_inv_def tip_ok_def work_ok_def)
  from add_block_ok [OF inv node(2), of fin b] acc have inv': "chain_inv e bc' [b, g0]"
    by (auto simp: clean_step_def chain_step_def)
  from inv_main_block [OF inv', of 0] hg have "get_block bc' g = Some g0" by (simp add: blk_def)
  then have look: "map_of (cv_store (chain_view_of env' bc')) g = Some (fork_header_of g0)"
    unfolding header_store_view header_store_def store_lookup by simp
  have cum: "calculate_fork_cumulative_work (cv_store (chain_view_of env' bc')) (fork_header_of b') = block_work b + 1"
  proof -
    have h: "fh_height (fork_header_of b') = 1" "fh_prev (fork_header_of b') = g" "fh_target (fork_header_of b') = bh_target (header b)"
      "fh_height (fork_header_of g0) = 0" using sib hg by (simp_all add: fork_header_of_def)
    show ?thesis
      unfolding calculate_fork_cumulative_work_def h
      using work by (subst fork_work_loop.simps) (simp add: look h saturating_add_def u64_max_def block_work_def)
  qed
  from acc obtain bc1 bc2 where c: "check_new_block env' b bc = (None, bc1)"
    "extend_tip env' fin (block_hash_of env' b) b (store_block (block_hash_of env' b) b bc1) = (Inr Accepted, bc2)"
    "bc_stats bc' = bc_stats bc2" "bc_db bc' = bc_db bc2" by (rule add_block_accepted)
  have "bc_stats bc1 = bc_stats bc" using check_new_block_state [OF c(1)] by (auto elim!: volatile_obtain)
  with extend_tip_work [OF c(2)] c(3) tip(2) work have "cs_total_difficulty (bc_stats bc') = block_work b"
    by (simp add: wrapping_add_def)
  with cum show ?thesis by (simp add: take_fork_def)
qed

subsection \<open>A concrete run\<close>

definition live_start :: blockchain where
  "live_start = snd (init_genesis live_env (with_database empty_db Map.empty Mainnet))"

lemma live_init: "init_genesis live_env (with_database empty_db Map.empty Mainnet) = (Inr (Hash MAINNET_GENESIS_HASH), live_start)"
  using live_genesis_hash
  by (simp add: live_start_def init_genesis_def with_database_def new_with_network_def live_genesis_def Let_def)

lemma live_same: "same_node live_env live_env"
  by (simp add: same_node_def)

lemma live_reachable: "node_reachable live_env live_start"
  by (rule node_reachable.start [OF live_same live_init])

lemma live_start_simps:
  "bc_network live_start = Mainnet" "bc_blocks live_start = [(Hash MAINNET_GENESIS_HASH, live_genesis)]"
  "bc_heights live_start = [(0, Hash MAINNET_GENESIS_HASH)]" "bc_caches live_start = (cache_new, seq_pad_new)"
  "ct_hash (bc_tip live_start) = Hash MAINNET_GENESIS_HASH" "ct_height (bc_tip live_start) = 0" "stored_checkpoint live_start = None"
  "is_known live_start h \<longleftrightarrow> h = Hash MAINNET_GENESIS_HASH"
  using live_genesis_hash
  by (auto simp: live_start_def init_genesis_def with_database_def new_with_network_def live_genesis_def Let_def hm_insert_def
      persist_output_index_def stored_checkpoint_def is_known_def empty_db_def)

lemma live_passes: "fst (check_new_block live_env live_block live_start) = None"
proof -
  have p: "bh_prev_hash (header live_block) = Hash MAINNET_GENESIS_HASH" by (simp add: live_block_def)
  have g: "get_block live_start (Hash MAINNET_GENESIS_HASH) = Some live_genesis" by (simp add: get_block_def live_start_simps)
  have m: "is_main_chain (live_start \<lparr> bc_caches := c \<rparr>) live_block" "mtp_ok (live_start \<lparr> bc_caches := c \<rparr>) live_block" for c
    by (simp_all add: is_main_chain_def p live_start_simps mtp_ok_def)
  have "length (get_difficulty_blocks (live_start \<lparr> bc_caches := c \<rparr>) 1) \<le> 1" for c
    unfolding get_difficulty_blocks_def by (simp add: map_filter_simps split: option.split)
  then have d: "difficulty_check (live_start \<lparr> bc_caches := c \<rparr>) live_block = Some True" for c
    by (simp add: difficulty_check_def difficulty_window_def m target_matches_def) (metis Suc_n_not_le_n le_trans numeral_2_eq_2)
  obtain v c where v: "validate_block_with_checkpoint_for_network live_env live_block (Some live_genesis) (bc_utxos live_start) None
      Mainnet (cache_new, seq_pad_new) = (v, c)" by (meson surj_pair)
  then have "bv_valid v" using live_validates [of "bc_utxos live_start"] by simp
  then show ?thesis
    by (simp add: check_new_block_def Let_def live_block_hash live_start_simps p g wrapping_add_def verify_checkpoint_def v m d u64_max_def)
qed

definition live_fin :: finality_env where
  "live_fin = \<lparr> fe_try_from_slice = (\<lambda>_. None), fe_verify = (\<lambda>_. False) \<rparr>"

definition live_next :: blockchain where
  "live_next = snd (add_block live_env live_fin live_block live_start)"

lemma live_links: "bh_prev_hash (header live_block) = ct_hash (bc_tip live_start)"
  by (simp add: live_block_def live_start_simps)

lemma live_add: "add_block live_env live_fin live_block live_start = (Inr Accepted, live_next)"
  and live_next_tip: "ct_hash (bc_tip live_next) = hash_zero" and live_next_main: "main_blocks live_next = main_blocks live_start @ [live_block]"
  using tip_extended [OF live_reachable live_same live_passes live_links, of live_fin] live_block_hash by (auto simp: live_next_def)

lemma live_clean: "clean_step live_start live_block (Inr Accepted)"
  by (simp add: clean_step_def)

lemma live_next_reachable: "node_reachable live_env live_next"
  by (rule node_reachable.block [OF live_reachable live_same live_add live_clean])

lemma live_start_main: "main_blocks live_start = [live_genesis]"
  by (simp add: main_blocks_def live_start_simps get_block_hash_def get_block_def map_filter_simps)

lemma live_next_height: "ct_height (bc_tip live_next) = 1"
proof -
  from node_inv [OF live_next_reachable] obtain bs where inv: "chain_inv live_env live_next bs" by blast
  have "length (main_blocks live_next) = 2" by (simp add: live_next_main live_start_main)
  then have "length bs = 2" unfolding inv_main_blocks [OF inv] by simp
  with inv_tip_height(1) [OF inv] show ?thesis by simp
qed

lemma live_next_db: "\<exists>db. bc_db live_next = Some db"
proof -
  from node_inv [OF live_next_reachable] obtain bs where "chain_inv live_env live_next bs" by blast
  then show ?thesis by (auto simp: chain_inv_def disk_ok_def)
qed

lemma live_spends: "block_spends live_genesis = []" "block_spends live_block = []"
  by (simp_all add: block_spends_def live_genesis_def mainnet_genesis_def genesis_block_def create_genesis_coinbase_def tx_spends_def
      is_coinbase_def live_block_def reward_tx_def Let_def)

lemma live_burns: "block_fee_burn live_env live_genesis = 0" "block_fee_burn live_env live_block = 0"
  by (simp_all add: block_fee_burn_def live_genesis_def mainnet_genesis_def genesis_block_def create_genesis_coinbase_def
      is_coinbase_def live_block_def reward_tx_def amount_sum_def amount_ZERO_def Let_def)

theorem chain_invariant_witness:
  "chain_list live_env (bc_network live_next) [live_block, live_genesis] \<and> length (main_blocks live_next) = 2
   \<and> cs_total_supply (bc_stats live_next) = as_atomic (calculate_block_reward 0) + as_atomic (calculate_block_reward 1)
   \<and> cs_total_burned (bc_stats live_next) = 0 \<and> spent_key_images (bc_utxos live_next) = {}"
  using chain_invariant [OF live_next_reachable]
  by (simp add: live_next_main live_start_main live_spends live_burns)

theorem finality_floor_stable_witness:
  "get_block_hash live_next 0 = get_block_hash live_start 0 \<and> get_block_hash live_start 0 \<noteq> None"
  using finality_floor_stable [OF live_reachable live_same live_add live_clean, of 0] by simp

theorem tip_extension_live_witness:
  "fst (check_new_block live_env live_block live_start) = None
   \<and> fst (add_block live_env live_fin live_block live_start) = Inr Accepted \<and> ct_hash (bc_tip live_next) = hash_zero"
proof -
  from tip_extension_live [OF live_reachable live_same, of live_fin live_block] live_passes live_links obtain bc' where
    "add_block live_env live_fin live_block live_start = (Inr Accepted, bc')" "ct_hash (bc_tip bc') = block_hash_of live_env live_block" by blast
  then show ?thesis using live_passes live_block_hash by (simp add: live_next_def)
qed

lemma live_next_burned: "cs_total_burned (bc_stats live_next) \<le> u64_max"
proof -
  from node_inv [OF live_next_reachable] obtain bs where inv: "chain_inv live_env live_next bs" by blast
  have "rev bs = [live_genesis, live_block]" using inv_main_blocks [OF inv] by (simp add: live_next_main live_start_main)
  then have "bs = [live_block, live_genesis]" by (simp add: rev_swap)
  with inv show ?thesis by (simp add: chain_inv_def work_ok_def money_ok_def live_burns)
qed

theorem restart_restores_witness:
  "\<exists>bc'. load_from_database live_env (with_database (the (bc_db live_next)) Map.empty (bc_network live_next)) = (Inr Loaded, bc')
     \<and> main_blocks bc' = [live_genesis, live_block]"
proof -
  from live_next_db obtain db where db: "bc_db live_next = Some db" by blast
  from restart_restores [OF live_next_reachable live_same db live_next_burned, of Map.empty] db show ?thesis
    by (auto simp: live_next_main live_start_main)
qed

lemma live_start_db: "\<exists>db. bc_db live_start = Some db \<and> last_checkpoint_of db = 0"
  using live_genesis_hash
  by (auto simp: live_start_def init_genesis_def with_database_def new_with_network_def live_genesis_def last_checkpoint_of_def Let_def)

lemma live_next_checkpoint: "last_checkpoint_of (the (bc_db live_next)) = 0"
proof -
  from live_add obtain bc1 bc2 where c: "check_new_block live_env live_block live_start = (None, bc1)"
    "extend_tip live_env live_fin (block_hash_of live_env live_block) live_block (store_block (block_hash_of live_env live_block) live_block bc1)
      = (Inr Accepted, bc2)" "bc_stats live_next = bc_stats bc2" "bc_db live_next = bc_db bc2" by (rule add_block_accepted)
  from live_start_db obtain db where "bc_db live_start = Some db" "last_checkpoint_of db = 0" by blast
  moreover have "bc_db bc1 = bc_db live_start" using check_new_block_state [OF c(1)] by (auto elim!: volatile_obtain)
  ultimately have "bc_db (store_block k b bc1) = Some (db \<lparr> cd_blocks := hm_insert k b (cd_blocks db) \<rparr>)" for k b by (simp add: store_block_def)
  from extend_tip_checkpoint [OF c(2) this] c(4) \<open>last_checkpoint_of db = 0\<close> show ?thesis
    by (simp add: CHECKPOINT_INTERVAL_def last_checkpoint_of_def)
qed

theorem rollback_truncates_witness:
  "\<exists>bc'. rollback_to_height live_env 0 live_next = (Inr [], bc') \<and> main_blocks bc' = [live_genesis]"
proof -
  from live_next_db obtain db where db: "bc_db live_next = Some db" by blast
  have cp: "last_checkpoint_of db \<le> 0" using live_next_checkpoint db by simp
  have fl: "0 < ct_height (bc_tip live_next)" "finality_floor (ct_height (bc_tip live_next)) \<le> 0"
    by (simp_all add: live_next_height finality_floor_def CHECKPOINT_INTERVAL_def)
  have "filter (\<lambda>tx. \<not> is_coinbase tx) (transactions live_block) = []" by (simp add: live_block_def reward_tx_def is_coinbase_def)
  with rollback_truncates [OF live_next_reachable live_same fl db cp] show ?thesis
    by (auto simp: live_next_main live_start_main)
qed

lemma genesis_not_zero: "Hash MAINNET_GENESIS_HASH \<noteq> hash_zero"
proof
  assume "Hash MAINNET_GENESIS_HASH = hash_zero"
  then have "hd MAINNET_GENESIS_HASH = hd (replicate 32 0)" by (simp add: hash_zero_def)
  then show False by (simp add: MAINNET_GENESIS_HASH_def)
qed

lemma rollback_stored:
  assumes "rollback_to_height env target bc = (Inr txs, bc')" and "bc_db bc = Some db"
  shows "\<exists>db'. bc_db bc' = Some db' \<and> cd_blocks db' = cd_blocks db"
proof -
  have d: "bc_db bc1 = Some db" if "disconnect_loop env hs (bc0, dc) = Some (bc1, dc1)" "bc_db bc0 = Some db" for hs bc0 dc bc1 dc1
    using that
  proof (induction hs arbitrary: bc0 dc)
    case (Cons h hs)
    then obtain bc2 dc2 where a: "disconnect_at env h (bc0, dc) = Some (bc2, dc2)" "disconnect_loop env hs (bc2, dc2) = Some (bc1, dc1)"
      by (auto simp: bind_eq_Some_conv)
    have "bc_db bc2 = bc_db bc0" using a(1) by (auto simp: disconnect_at_def Let_def split: option.splits)
    with Cons.IH [OF a(2)] Cons.prems(2) show ?case by simp
  qed simp
  have r: "bc_db (rollback_tip target bc1) = bc_db bc1" for bc1
    by (simp add: rollback_tip_def Let_def split: option.split)
  show ?thesis
    using assms d [OF _ assms(2)] by (auto simp: rollback_to_height_def Let_def r simp del: upt_Suc split: if_splits option.splits prod.splits)
qed

lemma heal_kept [simp]:
  "bc_blocks (heal_total_difficulty n bc) = bc_blocks bc" "bc_db (heal_total_difficulty n bc) = bc_db bc"
  "bc_tip (heal_total_difficulty n bc) = bc_tip bc"
  by (simp_all add: heal_total_difficulty_def split: option.split)

lemma rebuild_single:
  assumes "bc_db bc = Some db" and "bc_blocks bc = []" and "db_get_by_height db 0 = Some g"
  shows "bc_blocks (rebuild_utxo_set env 0 bc) = [(block_hash_of env g, g)]" "bc_db (rebuild_utxo_set env 0 bc) = Some db"
    "bc_tip (rebuild_utxo_set env 0 bc) = bc_tip bc"
  using assms by (simp_all add: rebuild_utxo_set_def Let_def replay_block_def hm_insert_def)

lemma loaded_cache:
  assumes "load_from_database env (with_database db oi network) = (Inr Loaded, bc')"
    and "cd_state db = Some row" and "csd_height row = 0" and "db_get_by_height db 0 = Some g"
  shows "bc_blocks bc' = [(block_hash_of env g, g)]" and "bc_db bc' = Some db"
proof -
  let ?s = "\<lambda>b. rebuild_tx_index env 0 (rebuild_utxo_set env 0 (heal_total_difficulty 0 (load_tip row b (with_database db oi network))))"
  have t: "bc_db (load_tip row b (with_database db oi network)) = Some db" "bc_blocks (load_tip row b (with_database db oi network)) = []"
    "ct_height (bc_tip (load_tip row b (with_database db oi network))) = 0" for b
    using assms(3) by (simp_all add: load_tip_def with_database_def new_with_network_def Let_def)
  note r = rebuild_single [of "heal_total_difficulty 0 (load_tip row b (with_database db oi network))" db g env for b, simplified, OF t(1,2) assms(4)]
  have s: "bc_blocks (?s b) = [(block_hash_of env g, g)]" "bc_db (?s b) = Some db" "ct_height (bc_tip (?s b)) = 0" for b
    using r t(3) by (simp_all add: rebuild_tx_index_def)
  then have v: "verify_tip_integrity (?s b)" for b by (simp add: verify_tip_integrity_def split: option.split)
  have two: "2 = Suc 1" by simp
  have db: "bc_db (with_database db oi network) = Some db" by (simp add: with_database_def)
  from assms(1) v obtain b where "bc' = (?s b) \<lparr> bc_generation := bc_generation (?s b) + 1 \<rparr>"
    unfolding load_from_database_def two load_rounds.simps db option.case assms(2,3) Let_def
    by (auto split: option.splits if_splits)
  with s show "bc_blocks bc' = [(block_hash_of env g, g)]" "bc_db bc' = Some db" by simp_all
qed

text \<open>A node that rolled its first block back and restarted: the block is in its database only.\<close>

lemma restarted_node:
  "\<exists>bc. node_reachable live_env bc \<and> map_of (bc_blocks bc) hash_zero = None \<and> get_block bc hash_zero = Some live_block"
proof -
  from node_inv [OF live_next_reachable] obtain bs where inv: "chain_inv live_env live_next bs" by blast
  have "rev bs = [live_genesis, live_block]" using inv_main_blocks [OF inv] by (simp add: live_next_main live_start_main)
  then have bs: "bs = [live_block, live_genesis]" by (simp add: rev_swap)
  from live_next_db obtain db where db: "bc_db live_next = Some db" by blast
  have cp: "last_checkpoint_of db \<le> 0" using live_next_checkpoint db by simp
  have fl: "0 < ct_height (bc_tip live_next)" "finality_floor (ct_height (bc_tip live_next)) \<le> 0"
    by (simp_all add: live_next_height finality_floor_def CHECKPOINT_INTERVAL_def)
  from rollback_to_height_ok [OF inv live_same fl db cp] bs obtain txs bc1 where
    r: "rollback_to_height live_env 0 live_next = (Inr txs, bc1)" and i1: "chain_inv live_env bc1 [live_genesis]" by auto
  from rollback_stored [OF r db] obtain db1 where db1: "bc_db bc1 = Some db1" "cd_blocks db1 = cd_blocks db" by blast
  have n1: "node_reachable live_env bc1" by (rule node_reachable.rollback [OF live_next_reachable live_same r fl(2)])
  have fits: "(\<Sum>b \<leftarrow> [live_genesis]. block_fee_burn live_env b) \<le> u64_max" by (simp add: live_burns)
  from load_ok [OF i1 live_same fits db1(1), of Map.empty] obtain bc2 where
    l: "load_from_database live_env (with_database db1 Map.empty (bc_network bc1)) = (Inr Loaded, bc2)" by blast
  have b1: "cs_total_burned (bc_stats bc1) \<le> u64_max" using i1 by (simp add: chain_inv_def work_ok_def money_ok_def live_burns)
  have n2: "node_reachable live_env bc2" by (rule node_reachable.restart [OF n1 live_same db1(1) b1 l])
  from i1 db1(1) obtain row where row: "cd_state db1 = Some row" "csd_height row = 0" by (auto simp: chain_inv_def row_ok_def)
  have "db_get_by_height db1 0 = Some live_genesis"
    using i1 db1(1) by (auto simp: chain_inv_def disk_ok_def db_get_by_height_def stored_def blk_def)
  note c = loaded_cache [OF l row this]
  have "block_hash_of live_env live_block = hash_zero" by (rule live_block_hash)
  then have "map_of (cd_blocks db) hash_zero = Some live_block" using tip_stored [OF inv] db bs by (simp add: stored_def)
  moreover have "block_hash_of live_env live_genesis \<noteq> hash_zero" using genesis_not_zero live_genesis_hash by simp
  ultimately have "map_of (bc_blocks bc2) hash_zero = None" "get_block bc2 hash_zero = Some live_block"
    using c db1(2) by (simp_all add: get_block_def)
  with n2 show ?thesis by blast
qed

definition late_block :: block where
  "late_block = live_block \<lparr> header := (header live_block) \<lparr> bh_height := 2, bh_prev_hash := hash_zero \<rparr> \<rparr>"

theorem uncached_branch_never_adopted_witness:
  "\<exists>bc. node_reachable live_env bc \<and> get_block bc (bh_prev_hash (header late_block)) = Some live_block
     \<and> fst (add_block live_env live_fin late_block bc) \<noteq> Inr (AcceptedReorg [])"
proof -
  from restarted_node obtain bc where bc: "node_reachable live_env bc" "map_of (bc_blocks bc) hash_zero = None"
    "get_block bc hash_zero = Some live_block" by blast
  have "bh_prev_hash (header late_block) = hash_zero" by (simp add: late_block_def)
  with uncached_branch_never_adopted [OF bc(1) live_same, of late_block live_fin "[]"] bc show ?thesis by metis
qed

definition spending_block :: block where
  "spending_block = live_block \<lparr> transactions := [sample_tx] \<rparr>"

theorem sibling_block_rejected_witness:
  "fst (add_block live_env live_fin spending_block
     (live_start \<lparr> bc_utxos := (bc_utxos live_start) \<lparr> spent_key_images := {replicate 32 1} \<rparr> \<rparr>)) \<noteq> Inr AcceptedFork"
proof -
  have "replicate 32 1 \<in> set (block_spends spending_block)"
    by (simp add: spending_block_def block_spends_def tx_spends_def sample_tx_def sample_input_def is_coinbase_def key_images_def)
  from sibling_block_rejected [OF this, of "live_start \<lparr> bc_utxos := (bc_utxos live_start) \<lparr> spent_key_images := {replicate 32 1} \<rparr> \<rparr>" live_env live_fin]
  show ?thesis by (simp add: spending_block_def block_height_def live_block_def sample_header_def)
qed

text \<open>The first block stored beside a chain that consists of the genesis block, and a successor of it
  without transactions: the branch connects, the new tip is refused.\<close>

definition stored_branch :: blockchain where
  "stored_branch = store_block hash_zero live_block live_start"

definition bad_tip :: block where
  "bad_tip = live_block \<lparr> header := (header live_block) \<lparr> bh_height := 2, bh_prev_hash := hash_zero \<rparr>, transactions := [] \<rparr>"

lemma stored_branch_simps:
  "bc_network stored_branch = Mainnet" "bc_caches stored_branch = (cache_new, seq_pad_new)"
  "bc_tip stored_branch = bc_tip live_start" "bc_utxos stored_branch = bc_utxos live_start" "bc_stats stored_branch = bc_stats live_start"
  "map_of (bc_blocks stored_branch) hash_zero = Some live_block"
  "map_of (bc_blocks stored_branch) (Hash MAINNET_GENESIS_HASH) = Some live_genesis"
  "bc_heights stored_branch = [(0, Hash MAINNET_GENESIS_HASH)]"
  using live_start_simps(1-4) genesis_not_zero by (simp_all add: stored_branch_def store_block_def)

lemma bad_tip_refused: "\<not> bv_valid (fst (validate_block_with_checkpoint_for_network env bad_tip p u cp network c))"
  using accepted_stages [of env bad_tip p u cp network "fst c" "snd c"] by (auto simp: bad_tip_def)

lemma branch_collected: "collect_fork_blocks stored_branch bad_tip 0 = [live_block]"
proof -
  have g: "get_block stored_branch hash_zero = Some live_block" "get_block stored_branch (Hash MAINNET_GENESIS_HASH) = Some live_genesis"
    by (simp_all add: get_block_def stored_branch_simps)
  have "bh_prev_hash (header bad_tip) = hash_zero" "block_height live_block = 1" "block_height live_genesis = 0"
    "bh_prev_hash (header live_block) = Hash MAINNET_GENESIS_HASH" "Hash MAINNET_GENESIS_HASH \<noteq> hash_zero"
    using genesis_not_zero
    by (simp_all add: bad_tip_def live_block_def live_genesis_def mainnet_genesis_def genesis_block_def block_height_def sample_header_def Let_def)
  with g show ?thesis unfolding collect_fork_blocks_def
    by (simp add: collect_blocks.simps [of _ _ _ hash_zero] collect_blocks.simps [of _ _ _ "Hash MAINNET_GENESIS_HASH"])
qed

lemma add_sub_emission: "add_emission env h b s = Some s' \<Longrightarrow> sub_emission env h b s' \<noteq> None"
  by (auto simp: add_emission_def sub_emission_def checked_add_def checked_sub_def bind_eq_Some_conv split: if_splits)

lemma live_emission: "\<exists>s. add_emission live_env 1 live_block (bc_stats live_start) = Some s"
proof -
  from node_inv [OF live_reachable] obtain bs where inv: "chain_inv live_env live_start bs" by blast
  then have "money_ok live_env bs (bc_stats live_start)" by (simp add: chain_inv_def work_ok_def)
  moreover have "length bs \<le> u64_max" using inv_tip_height [OF inv] by (simp add: live_start_simps u64_max_def)
  moreover have "1 = block_height live_block" by (simp add: live_block_def block_height_def sample_header_def)
  ultimately show ?thesis using money_ok_add by blast
qed

lemma branch_connects:
  "\<exists>bc2 s. connect_fork live_env 0 [] [live_block] stored_branch = Some (bc2, None)
     \<and> add_emission live_env 1 live_block (bc_stats live_start) = Some s \<and> bc_stats bc2 = s"
proof -
  obtain v c where v: "validate_block_with_checkpoint_for_network live_env live_block (Some live_genesis) (bc_utxos live_start) None
      Mainnet (cache_new, seq_pad_new) = (v, c)" by (meson surj_pair)
  then have "bv_valid v" using live_validates [of "bc_utxos live_start"] by simp
  moreover have "validate_against live_env live_block stored_branch = (v, stored_branch \<lparr> bc_caches := c \<rparr>)"
    using v by (simp add: validate_against_def stored_branch_simps live_block_def)
  moreover have "length (branch_window (stored_branch \<lparr> bc_caches := c \<rparr>) 0 [] live_block) \<le> 1"
    unfolding branch_window_def mixed_window_def by (simp add: map_filter_simps split: option.split)
  then have "branch_target_ok (stored_branch \<lparr> bc_caches := c \<rparr>) 0 [] live_block"
    by (simp add: branch_target_ok_def target_matches_def)
  moreover have "block_height live_block = 1" by (simp add: live_block_def block_height_def sample_header_def)
  ultimately show ?thesis using live_emission by (auto simp: stored_branch_simps)
qed

lemma branch_fails:
  "\<exists>e bc'. perform_reorg live_env h bad_tip 0 w stored_branch = (Inr (Invalid (''Invalid reorg tip block'' # e)), bc')"
proof -
  have t: "block_height live_block = 1" by (simp add: live_block_def block_height_def sample_header_def)
  from branch_connects obtain bc2 s where c: "connect_fork live_env 0 [] [live_block] stored_branch = Some (bc2, None)"
    "add_emission live_env 1 live_block (bc_stats live_start) = Some s" "bc_stats bc2 = s" by blast
  obtain v bc3 where v: "validate_against live_env bad_tip bc2 = (v, bc3)" by (meson surj_pair)
  then have "v = fst (validate_block_with_checkpoint_for_network live_env bad_tip
      (map_of (bc_blocks bc2) (bh_prev_hash (header bad_tip))) (bc_utxos bc2) None (bc_network bc2) (bc_caches bc2))"
    by (auto simp: validate_against_def split: prod.splits)
  then have "\<not> bv_valid v" using bad_tip_refused by simp
  then have k: "check_reorg_tip live_env bad_tip bc2 = (bc3, Some (''Invalid reorg tip block'' # bv_errors v))"
    by (simp add: check_reorg_tip_def v)
  have "bc_stats bc3 = s" using validate_against_frame [OF v] c(3) by auto
  then have "\<exists>s'. sub_emission live_env 1 live_block (bc_stats bc3) = Some s'" using add_sub_emission [OF c(2)] by auto
  then have "\<exists>bc'. rollback_reorg live_env True 0 0 [live_block] nothing_disconnected tip stats bc3 = Some bc'" for tip stats
    by (auto simp: rollback_reorg_def t)
  then obtain bc' where "rollback_reorg live_env True 0 0 [live_block] nothing_disconnected (bc_tip live_start) (bc_stats live_start) bc3 = Some bc'"
    by blast
  then show ?thesis
    by (simp add: perform_reorg_def Let_def stored_branch_simps live_start_simps branch_collected c(1) k del: connect_fork.simps)
qed

theorem failed_reorg_leaves_heights_witness:
  "\<exists>e bc'. perform_reorg live_env (block_hash_of live_env bad_tip) bad_tip 0 0 stored_branch = (Inr (Invalid e), bc')
     \<and> ct_height (bc_tip bc') = 0 \<and> get_block_hash bc' 1 = Some (block_hash_of live_env live_block)"
proof -
  have t: "block_height live_block = 1" by (simp add: live_block_def block_height_def sample_header_def)
  from branch_fails obtain e bc' where p: "perform_reorg live_env (block_hash_of live_env bad_tip) bad_tip 0 0 stored_branch
      = (Inr (Invalid (''Invalid reorg tip block'' # e)), bc')" by blast
  from branch_connects obtain bc2 where c: "connect_fork live_env 0 [] [live_block] stored_branch = Some (bc2, None)" by blast
  have d: "disconnect_loop live_env (rev [0 + 1..<ct_height (bc_tip stored_branch) + 1]) (stored_branch, nothing_disconnected)
      = Some (stored_branch, nothing_disconnected)" by (simp add: stored_branch_simps live_start_simps)
  from failed_reorg_leaves_heights [OF d _ _ c p, of "[]" live_block] p show ?thesis
    by (simp add: branch_collected stored_branch_simps live_start_simps t)
qed

definition sibling_block :: block where
  "sibling_block = live_block \<lparr> header := (header live_block) \<lparr> bh_nonce := 8 \<rparr> \<rparr>"

theorem fresh_node_prefers_sibling_witness:
  "take_fork (calculate_fork_cumulative_work (cv_store (chain_view_of live_env live_next)) (fork_header_of sibling_block))
     (cs_total_difficulty (bc_stats live_next)) (Hash [255]) hash_zero"
proof -
  have t: "block_height sibling_block = 1" "bh_prev_hash (header sibling_block) = Hash MAINNET_GENESIS_HASH"
    "bh_target (header sibling_block) = bh_target (header live_block)"
    by (simp_all add: sibling_block_def live_block_def sample_header_def block_height_def)
  have "block_work live_block < u128_max"
    using genesis_target_prefix
    by (simp add: block_work_def live_block_def genesis_target chain_work_from_target_def target_prefix_u128_def u128_max_def)
  from fresh_node_prefers_sibling [OF live_init live_same live_same live_add t this, of "Hash [255]"] show ?thesis
    by (simp add: live_next_tip)
qed

end
