(* ===== verification/Mempool.thy ===== *)
theory Mempool
  imports Tx_Validation "HOL-Library.Product_Lexorder" "HOL-Library.Sublist"
begin

section \<open>The mempool (mempool.rs)\<close>

text \<open>
  The pool of pending transactions: entries by hash, the fee index (a \<open>BTreeMap\<close> on fee rate and
  hash), the set of key images, the byte count and the bounded audit log, with every operation that
  changes them. The wall clock is the argument \<open>time\<close> of an operation and the instant of the
  verification cache the argument \<open>now\<close>. The lock of \<open>SharedMempool\<close> makes operations
  atomic, so a run of the pool is a sequence of steps; \<open>add_with_chain\<close> is modelled over the
  observations of the chain that its attempts make.
\<close>

subsection \<open>State\<close>

datatype evict_reason = Confirmed | DoubleSpend | ReplacedByFee | LowFee | Expired

datatype audit_event =
    TxAdded hash amount nat nat
  | TxRejected hash tx_error nat
  | TxRemoved hash evict_reason nat

record mempool_entry =
  me_tx :: transaction
  me_tx_hash :: hash
  me_fee :: amount
  me_fee_per_byte :: nat
  me_size :: nat
  me_added_time :: nat
  me_height_added :: nat

record mempool =
  mp_transactions :: "(hash, mempool_entry) hash_map"
  by_fee :: "(nat \<times> hash, hash) btree_map"
  mp_key_images :: "key_image set"
  max_size :: nat
  current_size :: nat
  chain_height :: nat
  audit_log :: "audit_event list"

definition AUDIT_LOG_CAPACITY :: nat where "AUDIT_LOG_CAPACITY = 4096"
definition TX_EXPIRY_BLOCKS :: nat where "TX_EXPIRY_BLOCKS = 288"
definition MAX_MEMPOOL_BYTES :: nat where "MAX_MEMPOOL_BYTES = 300 * 1024 * 1024"
definition RBF_FEE_BUMP_NUMERATOR :: nat where "RBF_FEE_BUMP_NUMERATOR = 125"
definition RBF_FEE_BUMP_DENOMINATOR :: nat where "RBF_FEE_BUMP_DENOMINATOR = 100"
definition MAX_EVICTION_ATTEMPTS :: nat where "MAX_EVICTION_ATTEMPTS = 100"
definition MAX_CHAIN_GENERATION_ATTEMPTS :: nat where "MAX_CHAIN_GENERATION_ATTEMPTS = 4"

definition scaled_fee_per_byte :: "nat \<Rightarrow> nat \<Rightarrow> nat" where
  "scaled_fee_per_byte fee_atomic sz = min (fee_atomic * 1000000 div max sz 1) u64_max"

definition mempool_tx_hash :: "'p crypto \<Rightarrow> transaction \<Rightarrow> hash" where
  "mempool_tx_hash cr tx = tx_hash (cr_blake3 cr) (cr_borsh_tx cr) tx"

definition mempool_entry_new :: "'p crypto \<Rightarrow> transaction \<Rightarrow> nat \<Rightarrow> nat \<Rightarrow> mempool_entry" where
  "mempool_entry_new cr tx height time =
     (let sz = max (tx_size (cr_borsh_tx cr) tx) 1
      in \<lparr> me_tx = tx, me_tx_hash = mempool_tx_hash cr tx, me_fee = tx_fee tx,
           me_fee_per_byte = scaled_fee_per_byte (as_atomic (tx_fee tx)) sz, me_size = sz,
           me_added_time = time, me_height_added = height \<rparr>)"

definition with_max_size :: "nat \<Rightarrow> mempool" where
  "with_max_size m =
     \<lparr> mp_transactions = [], by_fee = [], mp_key_images = {}, max_size = m, current_size = 0, chain_height = 0, audit_log = [] \<rparr>"

definition mempool_new :: mempool where
  "mempool_new = with_max_size MAX_MEMPOOL_BYTES"

subsection \<open>Audit log and removal\<close>

definition audit :: "audit_event \<Rightarrow> mempool \<Rightarrow> mempool" where
  "audit event m =
     m \<lparr> audit_log := (if AUDIT_LOG_CAPACITY \<le> length (audit_log m) then tl (audit_log m) else audit_log m) @ [event] \<rparr>"

definition reject :: "hash \<Rightarrow> nat \<Rightarrow> tx_error \<Rightarrow> mempool \<Rightarrow> (tx_error + hash) \<times> mempool" where
  "reject hash time err m = (Inl err, audit (TxRejected hash err time) m)"

definition mempool_remove :: "hash \<Rightarrow> mempool \<Rightarrow> transaction option \<times> mempool" where
  "mempool_remove h m =
     (case map_of (mp_transactions m) h of
        Some entry \<Rightarrow>
          (Some (me_tx entry),
           m \<lparr> mp_transactions := hm_remove h (mp_transactions m),
               mp_key_images := mp_key_images m - set (key_images (me_tx entry)),
               by_fee := bt_remove (me_fee_per_byte entry, h) (by_fee m),
               current_size := current_size m - me_size entry \<rparr>)
      | None \<Rightarrow> (None, m))"

definition remove_logged :: "evict_reason \<Rightarrow> nat \<Rightarrow> hash \<Rightarrow> mempool \<Rightarrow> mempool" where
  "remove_logged reason time h m = snd (mempool_remove h (audit (TxRemoved h reason time) m))"

definition expire_old_transactions :: "nat \<Rightarrow> nat \<Rightarrow> mempool \<Rightarrow> mempool" where
  "expire_old_transactions time current_height m =
     fold (remove_logged Expired time)
       (map fst (filter (\<lambda>(_, entry). TX_EXPIRY_BLOCKS < current_height - me_height_added entry) (mp_transactions m))) m"

definition set_height :: "nat \<Rightarrow> nat \<Rightarrow> mempool \<Rightarrow> mempool" where
  "set_height time height m = expire_old_transactions time height (m \<lparr> chain_height := height \<rparr>)"

definition expire_old :: "nat \<Rightarrow> nat \<Rightarrow> mempool \<Rightarrow> nat \<times> mempool" where
  "expire_old time max_age_secs m =
     (let expired = map fst (filter (\<lambda>(_, entry). max_age_secs < time - me_added_time entry) (mp_transactions m))
      in (length expired, fold (remove_logged Expired time) expired m))"

text \<open>The entry holding a key image: \<open>iter().find(..)\<close> over the hash map.\<close>

definition find_conflict :: "key_image \<Rightarrow> mempool \<Rightarrow> (hash \<times> mempool_entry) option" where
  "find_conflict ki m = find (\<lambda>(_, entry). ki \<in> set (key_images (me_tx entry))) (mp_transactions m)"

fun push_new :: "'a \<Rightarrow> 'a list \<Rightarrow> 'a list" where
  "push_new x xs = (if x \<in> set xs then xs else xs @ [x])"

definition conflicting_hashes :: "mempool \<Rightarrow> transaction list \<Rightarrow> hash list" where
  "conflicting_hashes m txs =
     fold (\<lambda>ki acc. case find_conflict ki m of Some (h, _) \<Rightarrow> push_new h acc | None \<Rightarrow> acc)
       (concat (map key_images txs)) []"

definition remove_confirmed :: "'p crypto \<Rightarrow> nat \<Rightarrow> transaction list \<Rightarrow> mempool \<Rightarrow> mempool" where
  "remove_confirmed cr time txs m =
     (let m = fold (\<lambda>tx. remove_logged Confirmed time (mempool_tx_hash cr tx)) txs m
      in fold (remove_logged DoubleSpend time) (conflicting_hashes m txs) m)"

definition remove_conflicts :: "key_image list \<Rightarrow> mempool \<Rightarrow> mempool" where
  "remove_conflicts kis m =
     fold (\<lambda>h m. snd (mempool_remove h m))
       (map fst (filter (\<lambda>(_, entry). \<exists>ki \<in> set (key_images (me_tx entry)). ki \<in> set kis) (mp_transactions m))) m"

definition shadow_evict_invalid :: "(transaction \<Rightarrow> tx_error check) \<Rightarrow> nat \<Rightarrow> mempool \<Rightarrow> mempool" where
  "shadow_evict_invalid chain_validate time m =
     fold (remove_logged DoubleSpend time)
       (map fst (filter (\<lambda>(_, entry). chain_validate (me_tx entry) \<noteq> ok) (mp_transactions m))) m"

definition mempool_clear :: "mempool \<Rightarrow> mempool" where
  "mempool_clear m = m \<lparr> mp_transactions := [], by_fee := [], mp_key_images := {}, current_size := 0 \<rparr>"

definition clear_audit_log :: "mempool \<Rightarrow> mempool" where
  "clear_audit_log m = m \<lparr> audit_log := [] \<rparr>"

definition evict_lowest_fee :: "nat \<Rightarrow> mempool \<Rightarrow> mempool" where
  "evict_lowest_fee time m =
     (case by_fee m of
        ((_, h), _) # _ \<Rightarrow> remove_logged LowFee time h m
      | [] \<Rightarrow> m)"

subsection \<open>Admission\<close>

definition preflight_check :: "'p::ab_group_add crypto \<Rightarrow> transaction \<Rightarrow> tx_error check" where
  "preflight_check cr tx =
     run_checks
       [ensure (\<not> is_coinbase tx) (InvalidMessage ''coinbase transactions cannot enter mempool''),
        validate_transaction_basic cr tx,
        (if is_coinbase tx then ok else check_tx_privacy cr tx)]"

fun verify_all_signatures ::
    "'p crypto \<Rightarrow> nat \<Rightarrow> transaction \<Rightarrow> tx_input list \<Rightarrow> verification_cache \<Rightarrow> tx_error check \<times> verification_cache" where
  "verify_all_signatures cr now tx [] c = (ok, c)"
| "verify_all_signatures cr now tx (inp # inps) c =
     (case verify_ring_signature cr now tx inp c of
        (True, c) \<Rightarrow> verify_all_signatures cr now tx inps c
      | (False, c) \<Rightarrow> (Inl (InvalidTransaction ''Ring signature verification failed - rejected at mempool''), c))"

definition verify_crypto_for_admission ::
    "'p::ab_group_add crypto \<Rightarrow> nat \<Rightarrow> transaction \<Rightarrow> nat \<Rightarrow> verification_cache \<Rightarrow> tx_error check \<times> verification_cache" where
  "verify_crypto_for_admission cr now tx height c =
     (if is_coinbase tx then (ok, c)
      else case verify_output_range_proofs cr now tx height c of
        (False, c) \<Rightarrow> (Inl (InvalidTransaction ''Range proof verification failed - rejected at mempool''), c)
      | (True, c) \<Rightarrow>
          if \<not> verify_balance_proof cr tx
          then (Inl (InvalidTransaction ''Balance proof verification failed - rejected at mempool''), c)
          else verify_all_signatures cr now tx (tx_inputs tx) c)"

definition fee_multiplier :: "nat \<Rightarrow> nat" where
  "fee_multiplier fullness_pct =
     (if fullness_pct \<le> 24 then 1 else if fullness_pct \<le> 49 then 2 else if fullness_pct \<le> 74 then 4 else 8)"

definition fullness_pct :: "mempool \<Rightarrow> nat" where
  "fullness_pct m = (if 0 < max_size m then wrapping_mul u64_max (current_size m) 100 div max_size m else 0)"

definition mempool_min_fee :: "mempool \<Rightarrow> nat \<Rightarrow> nat" where
  "mempool_min_fee m sz = wrapping_mul u64_max (wrapping_mul u64_max sz MIN_FEE_PER_BYTE) (fee_multiplier (fullness_pct m))"

definition fee_bump_ok :: "nat \<Rightarrow> nat \<Rightarrow> bool" where
  "fee_bump_ok new_rate old_rate =
     (saturating_mul u128_max old_rate RBF_FEE_BUMP_NUMERATOR \<le> saturating_mul u128_max new_rate RBF_FEE_BUMP_DENOMINATOR
      \<and> old_rate < new_rate)"

fun collect_replacements :: "mempool \<Rightarrow> nat \<Rightarrow> key_image list \<Rightarrow> hash list \<Rightarrow> hash list option" where
  "collect_replacements m new_rate [] to_replace = Some to_replace"
| "collect_replacements m new_rate (ki # kis) to_replace =
     (if ki \<in> mp_key_images m
      then
        case find_conflict ki m of
          Some (old_hash, entry) \<Rightarrow>
            if fee_bump_ok new_rate (me_fee_per_byte entry)
            then collect_replacements m new_rate kis (push_new old_hash to_replace)
            else None
        | None \<Rightarrow> None
      else collect_replacements m new_rate kis to_replace)"

fun simulate_evictions ::
    "(hash, mempool_entry) hash_map \<Rightarrow> hash list \<Rightarrow> nat \<Rightarrow> nat \<Rightarrow> ((nat \<times> hash) \<times> hash) list \<Rightarrow> nat \<Rightarrow> nat \<Rightarrow> nat" where
  "simulate_evictions txs to_replace mx sz [] simulated attempts = simulated"
| "simulate_evictions txs to_replace mx sz ((_, cand) # rest) simulated attempts =
     (if simulated + sz \<le> mx \<or> MAX_EVICTION_ATTEMPTS \<le> attempts then simulated
      else if cand \<in> set to_replace then simulate_evictions txs to_replace mx sz rest simulated attempts
      else case map_of txs cand of
        Some e \<Rightarrow> simulate_evictions txs to_replace mx sz rest (simulated - me_size e) (attempts + 1)
      | None \<Rightarrow> simulate_evictions txs to_replace mx sz rest simulated attempts)"

definition replaced_freed :: "mempool \<Rightarrow> hash list \<Rightarrow> nat" where
  "replaced_freed m to_replace =
     sum_list (map (\<lambda>h. case map_of (mp_transactions m) h of Some e \<Rightarrow> me_size e | None \<Rightarrow> 0) to_replace)"

definition admissible :: "mempool \<Rightarrow> hash list \<Rightarrow> nat \<Rightarrow> bool" where
  "admissible m to_replace sz =
     (let simulated = current_size m - replaced_freed m to_replace
      in simulated + sz \<le> max_size m
         \<or> simulate_evictions (mp_transactions m) to_replace (max_size m) sz (by_fee m) simulated 0 + sz \<le> max_size m)"

function evict_loop :: "nat \<Rightarrow> nat \<Rightarrow> nat \<Rightarrow> mempool \<Rightarrow> bool \<times> mempool" where
  "evict_loop time sz attempts m =
     (if max_size m < current_size m + sz \<and> mp_transactions m \<noteq> []
      then let m' = evict_lowest_fee time m
           in if current_size m \<le> current_size m' \<or> MAX_EVICTION_ATTEMPTS \<le> attempts + 1 then (False, m')
              else evict_loop time sz (attempts + 1) m'
      else (True, m))"
  by pat_completeness auto
termination by (relation "measure (\<lambda>(_, _, attempts, _). MAX_EVICTION_ATTEMPTS - attempts)") (auto simp: MAX_EVICTION_ATTEMPTS_def)

declare evict_loop.simps [simp del]

definition insert_entry :: "nat \<Rightarrow> hash \<Rightarrow> mempool_entry \<Rightarrow> mempool \<Rightarrow> mempool" where
  "insert_entry time h entry m =
     (let m = audit (TxAdded h (me_fee entry) (me_size entry) time) m
      in m \<lparr> mp_key_images := mp_key_images m \<union> set (key_images (me_tx entry)),
             by_fee := bt_insert (me_fee_per_byte entry, h) h (by_fee m),
             current_size := current_size m + me_size entry,
             mp_transactions := hm_insert h entry (mp_transactions m) \<rparr>)"

definition admit_after_checks ::
    "'p crypto \<Rightarrow> nat \<Rightarrow> transaction \<Rightarrow> hash \<Rightarrow> mempool \<Rightarrow> (tx_error + hash) \<times> mempool" where
  "admit_after_checks cr time tx h m =
     (let sz = tx_size (cr_borsh_tx cr) tx
      in if MAX_TX_SIZE < sz then reject h time (TransactionTooLarge sz MAX_TX_SIZE) m
         else if as_atomic (tx_fee tx) < mempool_min_fee m sz
           then reject h time (FeeTooLow (as_atomic (tx_fee tx)) (mempool_min_fee m sz)) m
         else case collect_replacements m (scaled_fee_per_byte (as_atomic (tx_fee tx)) sz) (key_images tx) [] of
           None \<Rightarrow> reject h time DuplicateKeyImage m
         | Some to_replace \<Rightarrow>
             if \<not> admissible m to_replace sz then reject h time MempoolFull m
             else
               case evict_loop time sz 0 (fold (remove_logged ReplacedByFee time) to_replace m) of
                 (False, m) \<Rightarrow> reject h time MempoolFull m
               | (True, m) \<Rightarrow> (Inr h, insert_entry time h (mempool_entry_new cr tx (chain_height m) time) m))"

definition mempool_add ::
    "'p::ab_group_add crypto \<Rightarrow> nat \<Rightarrow> nat \<Rightarrow> transaction \<Rightarrow> mempool \<times> verification_cache
     \<Rightarrow> (tx_error + hash) \<times> mempool \<times> verification_cache" where
  "mempool_add cr now time tx st =
     (case st of (m, c) \<Rightarrow>
        let h = mempool_tx_hash cr tx
        in case preflight_check cr tx of
             Inl e \<Rightarrow> (case reject h time e m of (res, m) \<Rightarrow> (res, m, c))
           | Inr _ \<Rightarrow>
               if map_of (mp_transactions m) h \<noteq> None then (Inr h, m, c)
               else case verify_crypto_for_admission cr now tx (chain_height m) c of
                      (Inl e, c) \<Rightarrow> (case reject h time e m of (res, m) \<Rightarrow> (res, m, c))
                    | (Inr _, c) \<Rightarrow> (case admit_after_checks cr time tx h m of (res, m) \<Rightarrow> (res, m, c)))"

text \<open>One attempt of \<open>add_with_chain\<close> observes the chain's stable generation, validates against the
  chain, and reads the generation again under the pool's lock.\<close>

record chain_observation =
  obs_generation :: "nat option"
  obs_validation :: "tx_error check"
  obs_generation_locked :: "nat option"

fun retry_stable_admission ::
    "'p::ab_group_add crypto \<Rightarrow> nat \<Rightarrow> nat \<Rightarrow> transaction \<Rightarrow> chain_observation list \<Rightarrow> mempool \<times> verification_cache
     \<Rightarrow> (tx_error + hash) \<times> mempool \<times> verification_cache" where
  "retry_stable_admission cr now time tx [] st =
     (Inl (InvalidState ''chain state changed during mempool admission; retry submission''), st)"
| "retry_stable_admission cr now time tx (ob # obs) st =
     (case obs_generation ob of
        None \<Rightarrow> retry_stable_admission cr now time tx obs st
      | Some generation \<Rightarrow>
          if obs_generation_locked ob \<noteq> Some generation then retry_stable_admission cr now time tx obs st
          else case obs_validation ob of
                 Inl e \<Rightarrow> (Inl e, st)
               | Inr _ \<Rightarrow> mempool_add cr now time tx st)"

definition add_with_chain ::
    "'p::ab_group_add crypto \<Rightarrow> nat \<Rightarrow> nat \<Rightarrow> transaction \<Rightarrow> chain_observation list \<Rightarrow> mempool \<times> verification_cache
     \<Rightarrow> (tx_error + hash) \<times> mempool \<times> verification_cache" where
  "add_with_chain cr now time tx obs st =
     (case preflight_check cr tx of
        Inl e \<Rightarrow> (Inl e, st)
      | Inr _ \<Rightarrow> retry_stable_admission cr now time tx (take MAX_CHAIN_GENERATION_ATTEMPTS obs) st)"

fun restore_orphaned ::
    "'p::ab_group_add crypto \<Rightarrow> nat \<Rightarrow> nat \<Rightarrow> (transaction \<times> chain_observation list) list \<Rightarrow> mempool \<times> verification_cache
     \<Rightarrow> nat \<times> mempool \<times> verification_cache" where
  "restore_orphaned cr now time [] st = (0, st)"
| "restore_orphaned cr now time ((tx, obs) # txs) st =
     (case add_with_chain cr now time tx obs st of
        (res, st) \<Rightarrow>
          case restore_orphaned cr now time txs st of
            (n, st) \<Rightarrow> (case res of Inr _ \<Rightarrow> Suc n | Inl _ \<Rightarrow> n, st))"

subsection \<open>Queries\<close>

fun select_loop ::
    "(hash, mempool_entry) hash_map \<Rightarrow> nat \<Rightarrow> nat \<Rightarrow> ((nat \<times> hash) \<times> hash) list \<Rightarrow> nat \<Rightarrow> key_image set
     \<Rightarrow> transaction list \<Rightarrow> transaction list" where
  "select_loop txs mx_size mx_count [] total_sz selected result = result"
| "select_loop txs mx_size mx_count ((_, h) # rest) total_sz selected result =
     (if mx_count \<le> length result then result
      else case map_of txs h of
        None \<Rightarrow> select_loop txs mx_size mx_count rest total_sz selected result
      | Some entry \<Rightarrow>
          if total_sz + me_size entry \<le> mx_size
          then if \<exists>ki \<in> set (key_images (me_tx entry)). ki \<in> selected
               then select_loop txs mx_size mx_count rest total_sz selected result
               else select_loop txs mx_size mx_count rest (total_sz + me_size entry)
                      (selected \<union> set (key_images (me_tx entry))) (result @ [me_tx entry])
          else select_loop txs mx_size mx_count rest total_sz selected result)"

definition get_block_transactions :: "mempool \<Rightarrow> nat \<Rightarrow> nat \<Rightarrow> transaction list" where
  "get_block_transactions m mx_size mx_count = select_loop (mp_transactions m) mx_size mx_count (rev (by_fee m)) 0 {} []"

record fee_percentiles =
  fp_p25 :: nat
  fp_p50 :: nat
  fp_p75 :: nat
  fp_p90 :: nat
  fp_count :: nat

definition percentile_of :: "nat list \<Rightarrow> nat \<Rightarrow> nat" where
  "percentile_of fees pct = max (fees ! min (length fees * pct div 100) (length fees - 1)) MIN_FEE_PER_BYTE"

definition fee_percentiles_of :: "mempool \<Rightarrow> fee_percentiles" where
  "fee_percentiles_of m =
     (if mp_transactions m = []
      then \<lparr> fp_p25 = MIN_FEE_PER_BYTE, fp_p50 = MIN_FEE_PER_BYTE, fp_p75 = MIN_FEE_PER_BYTE,
             fp_p90 = MIN_FEE_PER_BYTE, fp_count = 0 \<rparr>
      else let fees = map (fst \<circ> fst) (by_fee m)
           in \<lparr> fp_p25 = percentile_of fees 25, fp_p50 = percentile_of fees 50, fp_p75 = percentile_of fees 75,
                fp_p90 = percentile_of fees 90, fp_count = length fees \<rparr>)"

definition verify_size_invariant :: "mempool \<Rightarrow> bool" where
  "verify_size_invariant m = (sum_list (map (me_size \<circ> snd) (mp_transactions m)) = current_size m)"

record mempool_stats =
  ms_tx_count :: nat
  ms_size_bytes :: nat
  ms_total_fee :: amount
  ms_max_size :: nat

definition mempool_stats_of :: "mempool \<Rightarrow> mempool_stats" where
  "mempool_stats_of m =
     \<lparr> ms_tx_count = length (mp_transactions m), ms_size_bytes = current_size m,
       ms_total_fee = amount_sum (map (me_fee \<circ> snd) (mp_transactions m)), ms_max_size = max_size m \<rparr>"

subsection \<open>The invariant\<close>

definition entry_ok :: "'p crypto \<Rightarrow> hash \<Rightarrow> mempool_entry \<Rightarrow> bool" where
  "entry_ok cr h e \<longleftrightarrow>
     me_tx_hash e = h \<and> h = mempool_tx_hash cr (me_tx e) \<and> me_fee e = tx_fee (me_tx e)
     \<and> me_size e = max (tx_size (cr_borsh_tx cr) (me_tx e)) 1
     \<and> me_fee_per_byte e = scaled_fee_per_byte (as_atomic (me_fee e)) (me_size e) \<and> \<not> is_coinbase (me_tx e)
     \<and> distinct (key_images (me_tx e))"

definition fee_index :: "hash \<times> mempool_entry \<Rightarrow> (nat \<times> hash) \<times> hash" where
  "fee_index p = ((me_fee_per_byte (snd p), fst p), fst p)"

definition entry_images :: "hash \<times> mempool_entry \<Rightarrow> key_image set" where
  "entry_images p = set (key_images (me_tx (snd p)))"

definition mempool_inv :: "'p crypto \<Rightarrow> mempool \<Rightarrow> bool" where
  "mempool_inv cr m \<longleftrightarrow>
     hm_invar (mp_transactions m) \<and> bt_invar (by_fee m)
     \<and> set (by_fee m) = fee_index ` set (mp_transactions m)
     \<and> mp_key_images m = (\<Union>p \<in> set (mp_transactions m). entry_images p)
     \<and> (\<forall>p \<in> set (mp_transactions m). \<forall>q \<in> set (mp_transactions m). p \<noteq> q \<longrightarrow> entry_images p \<inter> entry_images q = {})
     \<and> (\<forall>p \<in> set (mp_transactions m). entry_ok cr (fst p) (snd p))
     \<and> current_size m = (\<Sum>p \<in> set (mp_transactions m). me_size (snd p))
     \<and> current_size m \<le> max_size m
     \<and> length (audit_log m) \<le> AUDIT_LOG_CAPACITY"

lemma audit_simps [simp]:
  "mp_transactions (audit ev m) = mp_transactions m" "by_fee (audit ev m) = by_fee m"
  "mp_key_images (audit ev m) = mp_key_images m" "max_size (audit ev m) = max_size m"
  "current_size (audit ev m) = current_size m" "chain_height (audit ev m) = chain_height m"
  by (simp_all add: audit_def)

lemma audit_bounded: "length (audit_log m) \<le> AUDIT_LOG_CAPACITY \<Longrightarrow> length (audit_log (audit ev m)) \<le> AUDIT_LOG_CAPACITY"
  by (auto simp: audit_def AUDIT_LOG_CAPACITY_def)

lemma audit_inv [simp]: "mempool_inv cr m \<Longrightarrow> mempool_inv cr (audit ev m)"
  using audit_bounded by (simp add: mempool_inv_def)

lemma remove_inv:
  assumes "mempool_inv cr m"
  shows "mempool_inv cr (snd (mempool_remove h m))"
proof (cases "map_of (mp_transactions m) h")
  case None
  then show ?thesis using assms by (simp add: mempool_remove_def)
next
  case (Some e)
  let ?t = "mp_transactions m"
  have inv: "hm_invar ?t" "bt_invar (by_fee m)" using assms by (auto simp: mempool_inv_def)
  have mem: "(h, e) \<in> set ?t" using Some by (rule map_of_SomeD)
  have t': "set (hm_remove h ?t) = {p \<in> set ?t. fst p \<noteq> h}" by (rule hmap.entries_remove [OF inv(1)])
  have other: "p \<in> set ?t \<Longrightarrow> fst p = h \<Longrightarrow> p = (h, e)" for p
    using hmap.entries_unique [OF inv(1) mem] by (cases p) auto
  have "set (bt_remove (me_fee_per_byte e, h) (by_fee m)) = fee_index ` set (hm_remove h ?t)"
  proof -
    have "fst (fee_index p) = (me_fee_per_byte e, h) \<longleftrightarrow> fst p = h" if "p \<in> set ?t" for p
      using other [OF that] by (cases p) (auto simp: fee_index_def)
    moreover have "set (by_fee m) = fee_index ` set ?t" using assms by (simp add: mempool_inv_def)
    ultimately show ?thesis unfolding t' by (auto simp: bt_remove_def)
  qed
  moreover have "mp_key_images m - entry_images (h, e) = (\<Union>p \<in> set (hm_remove h ?t). entry_images p)"
  proof -
    have "entry_images p \<inter> entry_images (h, e) = {}" if "p \<in> set ?t" "fst p \<noteq> h" for p
      using assms mem that by (force simp: mempool_inv_def)
    moreover have "mp_key_images m = (\<Union>p \<in> set ?t. entry_images p)" using assms by (simp add: mempool_inv_def)
    ultimately show ?thesis unfolding t' using other by blast
  qed
  moreover have "(\<Sum>p \<in> set ?t. me_size (snd p)) = me_size e + (\<Sum>p \<in> set (hm_remove h ?t). me_size (snd p))"
    by (rule hmap.total_remove [OF inv(1) Some])
  moreover have "hm_invar (hm_remove h ?t)" by (rule hmap.invar_remove [OF inv(1)])
  moreover have "bt_invar (bt_remove (me_fee_per_byte e, h) (by_fee m))" by (rule bmap.invar_remove [OF inv(2)])
  ultimately show ?thesis using assms t' Some
    by (auto simp: mempool_inv_def mempool_remove_def entry_images_def)
qed

lemma remove_logged_inv: "mempool_inv cr m \<Longrightarrow> mempool_inv cr (remove_logged reason time h m)"
  by (simp add: remove_logged_def remove_inv)

lemma fold_preserves: "P m \<Longrightarrow> (\<And>x m. P m \<Longrightarrow> P (f x m)) \<Longrightarrow> P (fold f xs m)"
  by (induction xs arbitrary: m) auto

lemma remove_entries:
  assumes "hm_invar (mp_transactions m)"
  shows "hm_invar (mp_transactions (snd (mempool_remove h m)))"
    and "set (mp_transactions (snd (mempool_remove h m))) = {p \<in> set (mp_transactions m). fst p \<noteq> h}"
    and "max_size (snd (mempool_remove h m)) = max_size m"
    and "chain_height (snd (mempool_remove h m)) = chain_height m"
proof -
  have "{p \<in> set (mp_transactions m). fst p \<noteq> h} = set (mp_transactions m)" if "map_of (mp_transactions m) h = None"
    using that by (force simp: map_of_eq_None_iff)
  then show "hm_invar (mp_transactions (snd (mempool_remove h m)))"
    "set (mp_transactions (snd (mempool_remove h m))) = {p \<in> set (mp_transactions m). fst p \<noteq> h}"
    "max_size (snd (mempool_remove h m)) = max_size m"
    "chain_height (snd (mempool_remove h m)) = chain_height m"
    using hmap.entries_remove [OF assms] hmap.invar_remove [OF assms] assms
    by (auto simp: mempool_remove_def split: option.splits)
qed

lemma remove_all_entries:
  assumes "hm_invar (mp_transactions m)"
  shows "set (mp_transactions (fold (remove_logged reason time) hs m)) = {p \<in> set (mp_transactions m). fst p \<notin> set hs}
    \<and> max_size (fold (remove_logged reason time) hs m) = max_size m"
  using assms
proof (induction hs arbitrary: m)
  case (Cons h hs)
  let ?m = "remove_logged reason time h m"
  have "hm_invar (mp_transactions ?m)" "set (mp_transactions ?m) = {p \<in> set (mp_transactions m). fst p \<noteq> h}"
    "max_size ?m = max_size m"
    using remove_entries [of "audit (TxRemoved h reason time) m" h] Cons.prems by (simp_all add: remove_logged_def)
  with Cons.IH [of ?m] show ?case by auto
qed simp

lemma evict_inv: "mempool_inv cr m \<Longrightarrow> mempool_inv cr (evict_lowest_fee time m)"
  by (auto simp: evict_lowest_fee_def remove_logged_inv split: list.splits)

lemma evict_subset:
  assumes "hm_invar (mp_transactions m)"
  shows "set (mp_transactions (evict_lowest_fee time m)) \<subseteq> set (mp_transactions m)
    \<and> max_size (evict_lowest_fee time m) = max_size m"
  using remove_all_entries [OF assms, of LowFee time "[h]" for h]
  by (auto simp: evict_lowest_fee_def split: list.splits)

lemma evict_loop_inv:
  assumes "mempool_inv cr m"
  shows "mempool_inv cr (snd (evict_loop time sz attempts m))
    \<and> set (mp_transactions (snd (evict_loop time sz attempts m))) \<subseteq> set (mp_transactions m)
    \<and> max_size (snd (evict_loop time sz attempts m)) = max_size m
    \<and> (fst (evict_loop time sz attempts m) \<longrightarrow> sz \<le> max_size m \<longrightarrow> current_size (snd (evict_loop time sz attempts m)) + sz \<le> max_size m)"
  using assms
proof (induction time sz attempts m rule: evict_loop.induct)
  case (1 time sz attempts m)
  let ?m = "evict_lowest_fee time m"
  have inv: "mempool_inv cr ?m" by (rule evict_inv [OF 1(2)])
  have hm: "hm_invar (mp_transactions m)" using 1(2) by (simp add: mempool_inv_def)
  note sub = evict_subset [OF hm, of time]
  show ?case
  proof (cases "max_size m < current_size m + sz \<and> mp_transactions m \<noteq> []")
    case False
    then show ?thesis using 1(2) by (subst (1 2 3 4 5) evict_loop.simps) (auto simp: mempool_inv_def)
  next
    case True
    show ?thesis
    proof (cases "current_size m \<le> current_size ?m \<or> MAX_EVICTION_ATTEMPTS \<le> attempts + 1")
      case stop: True
      then have "evict_loop time sz attempts m = (False, ?m)" using True by (subst evict_loop.simps) (simp add: Let_def)
      then show ?thesis using inv sub by simp
    next
      case go: False
      then have "evict_loop time sz attempts m = evict_loop time sz (attempts + 1) ?m"
        using True by (subst evict_loop.simps) (simp add: Let_def)
      with 1(1) [OF True refl go inv] sub show ?thesis by auto
    qed
  qed
qed

subsection \<open>Replacement and insertion\<close>

lemma find_conflict_some:
  "find_conflict ki m = Some (h, e) \<Longrightarrow> (h, e) \<in> set (mp_transactions m) \<and> ki \<in> entry_images (h, e)"
  by (auto simp: find_conflict_def find_Some_iff entry_images_def) (metis nth_mem)

lemma collect_replacements_some:
  assumes "collect_replacements m rate kis acc = Some rs"
  shows "set acc \<subseteq> set rs
    \<and> (\<forall>ki \<in> set kis. ki \<in> mp_key_images m \<longrightarrow> (\<exists>p \<in> set (mp_transactions m). fst p \<in> set rs \<and> ki \<in> entry_images p))
    \<and> (\<forall>h \<in> set rs - set acc. \<exists>e. (h, e) \<in> set (mp_transactions m) \<and> fee_bump_ok rate (me_fee_per_byte e)
          \<and> (\<exists>ki \<in> set kis. ki \<in> entry_images (h, e)))"
  using assms
proof (induction kis arbitrary: acc)
  case (Cons ki kis)
  show ?case
  proof (cases "ki \<in> mp_key_images m")
    case False
    with Cons.prems have "collect_replacements m rate kis acc = Some rs" by simp
    from Cons.IH [OF this] False show ?thesis by simp blast
  next
    case True
    with Cons.prems obtain h e where f: "find_conflict ki m = Some (h, e)" and b: "fee_bump_ok rate (me_fee_per_byte e)"
      and c: "collect_replacements m rate kis (push_new h acc) = Some rs"
      by (auto split: option.splits if_splits)
    note fe = find_conflict_some [OF f]
    from Cons.IH [OF c] have sub: "set (push_new h acc) \<subseteq> set rs" and
      k: "\<forall>ki \<in> set kis. ki \<in> mp_key_images m \<longrightarrow> (\<exists>p \<in> set (mp_transactions m). fst p \<in> set rs \<and> ki \<in> entry_images p)"
      and r: "\<forall>h \<in> set rs - set (push_new h acc). \<exists>e. (h, e) \<in> set (mp_transactions m) \<and> fee_bump_ok rate (me_fee_per_byte e)
          \<and> (\<exists>ki \<in> set kis. ki \<in> entry_images (h, e))" by blast+
    have hin: "h \<in> set rs" "set acc \<subseteq> set rs" using sub by (auto split: if_splits)
    have r': "\<exists>e. (h', e) \<in> set (mp_transactions m) \<and> fee_bump_ok rate (me_fee_per_byte e)
        \<and> (\<exists>k \<in> set (ki # kis). k \<in> entry_images (h', e))" if "h' \<in> set rs - set acc" for h'
    proof (cases "h' = h")
      case True then show ?thesis using fe b by auto
    next
      case False
      then have "h' \<in> set rs - set (push_new h acc)" using that by (auto split: if_splits)
      with r show ?thesis by fastforce
    qed
    have "\<exists>p \<in> set (mp_transactions m). fst p \<in> set rs \<and> ki \<in> entry_images p"
      using fe hin(1) by (intro bexI [of _ "(h, e)"]) auto
    with k hin(2) r' show ?thesis by (metis set_ConsD)
  qed
qed simp

lemma insert_entry_inv:
  assumes inv: "mempool_inv cr m" and new: "map_of (mp_transactions m) h = None" and ok: "entry_ok cr h e"
    and room: "current_size m + me_size e \<le> max_size m" and dis: "entry_images (h, e) \<inter> mp_key_images m = {}"
  shows "mempool_inv cr (insert_entry time h e m)"
proof -
  let ?t = "mp_transactions m"
  have hm: "hm_invar ?t" "bt_invar (by_fee m)" using inv by (auto simp: mempool_inv_def)
  have notin: "p \<in> set ?t \<Longrightarrow> fst p \<noteq> h" for p using new by (auto simp: map_of_eq_None_iff)
  then have t': "set (hm_insert h e ?t) = insert (h, e) (set ?t)" using hmap.entries_insert [OF hm(1)] by auto
  have "(me_fee_per_byte e, h) \<notin> fst ` set (by_fee m)"
    using inv notin by (fastforce simp: mempool_inv_def fee_index_def)
  then have b': "set (bt_insert (me_fee_per_byte e, h) h (by_fee m)) = insert (fee_index (h, e)) (set (by_fee m))"
    by (force simp: set_bt_insert fee_index_def)
  have sum: "(\<Sum>p \<in> set (hm_insert h e ?t). me_size (snd p)) = me_size e + (\<Sum>p \<in> set ?t. me_size (snd p))"
    by (rule hmap.total_insert [OF hm(1) new])
  have kis: "mp_key_images m = (\<Union>p \<in> set ?t. entry_images p)" using inv by (simp add: mempool_inv_def)
  then have dis': "entry_images (h, e) \<inter> entry_images p = {}" if "p \<in> set ?t" for p using dis that by blast
  let ?m = "insert_entry time h e m"
  have "length (audit_log ?m) \<le> AUDIT_LOG_CAPACITY"
    using audit_bounded [of m "TxAdded h (me_fee e) (me_size e) time"] inv by (simp add: insert_entry_def mempool_inv_def)
  moreover have "\<forall>p \<in> set (mp_transactions ?m). \<forall>q \<in> set (mp_transactions ?m). p \<noteq> q \<longrightarrow> entry_images p \<inter> entry_images q = {}"
    using inv dis' by (auto simp: insert_entry_def t' mempool_inv_def Let_def)
  moreover have "mp_key_images ?m = (\<Union>p \<in> set (mp_transactions ?m). entry_images p)"
    using kis by (auto simp: insert_entry_def t' entry_images_def Let_def)
  moreover have "set (by_fee ?m) = fee_index ` set (mp_transactions ?m)"
    using inv by (simp add: insert_entry_def t' b' mempool_inv_def Let_def)
  moreover have "current_size ?m = (\<Sum>p \<in> set (mp_transactions ?m). me_size (snd p))" "current_size ?m \<le> max_size ?m"
    using inv room by (simp_all add: insert_entry_def sum mempool_inv_def Let_def)
  moreover have "\<forall>p \<in> set (mp_transactions ?m). entry_ok cr (fst p) (snd p)"
    using inv ok by (auto simp: insert_entry_def t' mempool_inv_def Let_def)
  moreover have "hm_invar (mp_transactions ?m)" "bt_invar (by_fee ?m)"
    using hmap.invar_insert [OF hm(1)] bmap.invar_insert [OF hm(2)] by (simp_all add: insert_entry_def Let_def)
  ultimately show ?thesis by (simp add: mempool_inv_def)
qed

lemma entry_new_ok:
  assumes "\<not> is_coinbase tx" and "distinct (key_images tx)"
  shows "entry_ok cr (mempool_tx_hash cr tx) (mempool_entry_new cr tx h time)"
  using assms by (simp add: entry_ok_def mempool_entry_new_def Let_def)

lemma admissible_fits: "admissible m rs sz \<Longrightarrow> sz \<le> max_size m"
  by (auto simp: admissible_def Let_def)

lemma admit_cases:
  assumes "admit_after_checks cr time tx h m = (res, m')"
  obtains (early) e where "res = Inl e" "m' = audit (TxRejected h e time) m"
  | (full) rs m1 where "collect_replacements m (scaled_fee_per_byte (as_atomic (tx_fee tx)) (tx_size (cr_borsh_tx cr) tx)) (key_images tx) [] = Some rs"
      "admissible m rs (tx_size (cr_borsh_tx cr) tx)"
      "evict_loop time (tx_size (cr_borsh_tx cr) tx) 0 (fold (remove_logged ReplacedByFee time) rs m) = (False, m1)"
      "res = Inl MempoolFull" "m' = audit (TxRejected h MempoolFull time) m1"
  | (admitted) rs m1 where "mempool_min_fee m (tx_size (cr_borsh_tx cr) tx) \<le> as_atomic (tx_fee tx)"
      "collect_replacements m (scaled_fee_per_byte (as_atomic (tx_fee tx)) (tx_size (cr_borsh_tx cr) tx)) (key_images tx) [] = Some rs"
      "admissible m rs (tx_size (cr_borsh_tx cr) tx)"
      "evict_loop time (tx_size (cr_borsh_tx cr) tx) 0 (fold (remove_logged ReplacedByFee time) rs m) = (True, m1)"
      "res = Inr h" "m' = insert_entry time h (mempool_entry_new cr tx (chain_height m1) time) m1"
  using assms
  by (auto simp: admit_after_checks_def reject_def Let_def split: if_splits option.splits prod.splits bool.splits)

lemma replaced_inv:
  assumes inv: "mempool_inv cr m" and rs: "collect_replacements m rate kis [] = Some rs"
    and ev: "evict_loop time sz 0 (fold (remove_logged ReplacedByFee time) rs m) = (b, m1)"
  shows "mempool_inv cr m1" and "set (mp_transactions m1) \<subseteq> {p \<in> set (mp_transactions m). fst p \<notin> set rs}"
    and "max_size m1 = max_size m" and "set kis \<inter> mp_key_images m1 = {}"
    and "b \<Longrightarrow> sz \<le> max_size m \<Longrightarrow> current_size m1 + sz \<le> max_size m"
proof -
  let ?m = "fold (remove_logged ReplacedByFee time) rs m"
  have "mempool_inv cr ?m" using inv remove_logged_inv by (rule fold_preserves [of "mempool_inv cr"])
  moreover have "hm_invar (mp_transactions m)" using inv by (simp add: mempool_inv_def)
  note rm = remove_all_entries [OF this, of ReplacedByFee time rs]
  ultimately show inv1: "mempool_inv cr m1" and sub: "set (mp_transactions m1) \<subseteq> {p \<in> set (mp_transactions m). fst p \<notin> set rs}"
    and "max_size m1 = max_size m" and "b \<Longrightarrow> sz \<le> max_size m \<Longrightarrow> current_size m1 + sz \<le> max_size m"
    using evict_loop_inv [of cr ?m time sz 0] ev by auto
  have "False" if ki: "ki \<in> set kis" "ki \<in> mp_key_images m1" for ki
  proof -
    from ki(2) inv1 obtain q where q: "q \<in> set (mp_transactions m1)" "ki \<in> entry_images q" by (auto simp: mempool_inv_def)
    with sub have q': "q \<in> set (mp_transactions m)" "fst q \<notin> set rs" by auto
    with q(2) inv have "ki \<in> mp_key_images m" by (auto simp: mempool_inv_def)
    with collect_replacements_some [OF rs] ki(1) obtain p where p: "p \<in> set (mp_transactions m)" "fst p \<in> set rs" "ki \<in> entry_images p"
      by blast
    with q' have "p \<noteq> q" by auto
    with inv p(1) q'(1) have "entry_images p \<inter> entry_images q = {}" unfolding mempool_inv_def by blast
    with p(3) q(2) show False by blast
  qed
  then show "set kis \<inter> mp_key_images m1 = {}" by blast
qed

lemma admit_inv:
  assumes inv: "mempool_inv cr m" and new: "map_of (mp_transactions m) (mempool_tx_hash cr tx) = None"
    and nc: "\<not> is_coinbase tx" "distinct (key_images tx)" and sz: "1 \<le> tx_size (cr_borsh_tx cr) tx"
    and adm: "admit_after_checks cr time tx (mempool_tx_hash cr tx) m = (res, m')"
  shows "mempool_inv cr m'"
  using adm
proof (cases rule: admit_cases)
  case (early e)
  then show ?thesis using inv by simp
next
  case (full rs m1)
  then show ?thesis using replaced_inv(1) [OF inv full(1,3)] by simp
next
  case (admitted rs m1)
  let ?e = "mempool_entry_new cr tx (chain_height m1) time"
  note r = replaced_inv [OF inv admitted(2,4)]
  have "map_of (mp_transactions m1) (mempool_tx_hash cr tx) = None"
    using new r(2) by (force simp: map_of_eq_None_iff)
  moreover have "me_size ?e = tx_size (cr_borsh_tx cr) tx" using sz by (simp add: mempool_entry_new_def Let_def)
  moreover have "entry_images (mempool_tx_hash cr tx, ?e) = set (key_images tx)"
    by (simp add: entry_images_def mempool_entry_new_def Let_def)
  ultimately show ?thesis
    unfolding admitted(6) using r admissible_fits [OF admitted(3)] entry_new_ok [OF nc]
    by (intro insert_entry_inv) auto
qed

lemma preflight_ok:
  "preflight_check cr tx = ok \<longleftrightarrow> \<not> is_coinbase tx \<and> validate_transaction_basic cr tx = ok \<and> check_tx_privacy cr tx = ok"
  by (auto simp: preflight_check_def)

lemma basic_size:
  assumes "validate_transaction_basic cr tx = ok"
  shows "1 \<le> tx_size (cr_borsh_tx cr) tx" and "distinct (key_images tx)"
  using assms by (auto simp: validate_transaction_basic_def Let_def run_checks_append_ok MIN_TX_SIZE_def split: if_splits)

lemma add_cases:
  assumes "mempool_add cr now time tx (m, c) = (res, m', c')"
  obtains (rejected) e where "res = Inl e" "m' = audit (TxRejected (mempool_tx_hash cr tx) e time) m"
  | (present) "res = Inr (mempool_tx_hash cr tx)" "m' = m" "c' = c" "map_of (mp_transactions m) (mempool_tx_hash cr tx) \<noteq> None"
  | (checked) "preflight_check cr tx = ok" "map_of (mp_transactions m) (mempool_tx_hash cr tx) = None"
      "verify_crypto_for_admission cr now tx (chain_height m) c = (ok, c')"
      "admit_after_checks cr time tx (mempool_tx_hash cr tx) m = (res, m')"
proof -
  let ?h = "mempool_tx_hash cr tx"
  obtain v c1 where v: "verify_crypto_for_admission cr now tx (chain_height m) c = (v, c1)" by fastforce
  obtain a m1 where a: "admit_after_checks cr time tx ?h m = (a, m1)" by fastforce
  show thesis
  proof (cases "preflight_check cr tx")
    case (Inl e)
    with assms show thesis by (intro rejected [of e]) (simp_all add: mempool_add_def reject_def Let_def)
  next
    case pre: (Inr u)
    show thesis
    proof (cases "map_of (mp_transactions m) ?h")
      case (Some e)
      with assms pre show thesis by (intro present) (simp_all add: mempool_add_def Let_def)
    next
      case None
      show thesis
      proof (cases v)
        case (Inl e)
        with assms pre None v show thesis by (intro rejected [of e]) (simp_all add: mempool_add_def reject_def Let_def)
      next
        case (Inr w)
        with assms pre None v a show thesis by (intro checked) (simp_all add: mempool_add_def Let_def)
      qed
    qed
  qed
qed

lemma add_inv:
  assumes "mempool_inv cr m" and "mempool_add cr now time tx (m, c) = (res, m', c')"
  shows "mempool_inv cr m'"
  using assms(2)
proof (cases rule: add_cases)
  case checked
  then have "\<not> is_coinbase tx" and b: "validate_transaction_basic cr tx = ok" by (simp_all add: preflight_ok)
  from admit_inv [OF assms(1) checked(2) this(1) basic_size(2) [OF b] basic_size(1) [OF b] checked(4)] show ?thesis .
qed (use assms(1) in simp_all)

lemma retry_inv:
  assumes "mempool_inv cr (fst st)" and "retry_stable_admission cr now time tx obs st = (res, st')"
  shows "mempool_inv cr (fst st')"
  using assms
proof (induction obs)
  case (Cons ob obs)
  then show ?case using add_inv [of cr "fst st" now time tx "snd st"]
    by (cases st'; cases st) (auto split: option.splits if_splits sum.splits)
qed simp

lemma add_with_chain_inv:
  "mempool_inv cr (fst st) \<Longrightarrow> add_with_chain cr now time tx obs st = (res, st') \<Longrightarrow> mempool_inv cr (fst st')"
  using retry_inv [of cr st now time tx "take MAX_CHAIN_GENERATION_ATTEMPTS obs" res st']
  by (auto simp: add_with_chain_def split: sum.splits)

subsection \<open>Runs of the pool\<close>

text \<open>Every state the pool can reach from \<open>with_max_size\<close> through its public operations, under
  any clock readings, chain observations and validation verdicts.\<close>

inductive mempool_reachable :: "'p::ab_group_add crypto \<Rightarrow> nat \<Rightarrow> mempool \<Rightarrow> bool" for cr mx where
  start: "mempool_reachable cr mx (with_max_size mx)"
| add: "mempool_reachable cr mx m \<Longrightarrow> mempool_add cr now time tx (m, c) = (res, m', c') \<Longrightarrow> mempool_reachable cr mx m'"
| chain_add: "mempool_reachable cr mx m \<Longrightarrow> add_with_chain cr now time tx obs (m, c) = (res, m', c') \<Longrightarrow> mempool_reachable cr mx m'"
| remove: "mempool_reachable cr mx m \<Longrightarrow> mempool_reachable cr mx (snd (mempool_remove h m))"
| confirmed: "mempool_reachable cr mx m \<Longrightarrow> mempool_reachable cr mx (remove_confirmed cr time txs m)"
| conflicts: "mempool_reachable cr mx m \<Longrightarrow> mempool_reachable cr mx (remove_conflicts kis m)"
| shadow: "mempool_reachable cr mx m \<Longrightarrow> mempool_reachable cr mx (shadow_evict_invalid v time m)"
| height: "mempool_reachable cr mx m \<Longrightarrow> mempool_reachable cr mx (set_height time h m)"
| expire: "mempool_reachable cr mx m \<Longrightarrow> mempool_reachable cr mx (snd (expire_old time age m))"
| clear: "mempool_reachable cr mx m \<Longrightarrow> mempool_reachable cr mx (mempool_clear m)"
| clear_log: "mempool_reachable cr mx m \<Longrightarrow> mempool_reachable cr mx (clear_audit_log m)"

lemma height_inv: "mempool_inv cr m \<Longrightarrow> mempool_inv cr (m \<lparr> chain_height := h \<rparr>)"
  by (simp add: mempool_inv_def)

lemma reachable_inv: "mempool_reachable cr mx m \<Longrightarrow> mempool_inv cr m"
proof (induction rule: mempool_reachable.induct)
  case start
  show ?case by (simp add: mempool_inv_def with_max_size_def hm_invar_def bt_invar_def)
next
  case (add m now time tx c res m' c')
  then show ?case using add_inv by blast
next
  case (chain_add m now time tx obs c res m' c')
  then show ?case using add_with_chain_inv [of cr "(m, c)"] by fastforce
next
  case (remove m h)
  then show ?case by (simp add: remove_inv)
next
  case (confirmed m time txs)
  let ?m = "fold (\<lambda>tx. remove_logged Confirmed time (mempool_tx_hash cr tx)) txs m"
  have "mempool_inv cr ?m"
    using confirmed.IH remove_logged_inv by (rule fold_preserves [of "mempool_inv cr"])
  then show ?case unfolding remove_confirmed_def Let_def
    using remove_logged_inv by (rule fold_preserves [of "mempool_inv cr"])
next
  case (conflicts m kis)
  show ?case unfolding remove_conflicts_def
    using conflicts.IH remove_inv by (rule fold_preserves [of "mempool_inv cr"])
next
  case (shadow m v time)
  show ?case unfolding shadow_evict_invalid_def
    using shadow.IH remove_logged_inv by (rule fold_preserves [of "mempool_inv cr"])
next
  case (height m time h)
  show ?case unfolding set_height_def expire_old_transactions_def
    using height_inv [OF height.IH] remove_logged_inv by (rule fold_preserves [of "mempool_inv cr"])
next
  case (expire m time age)
  have "mempool_inv cr (fold (remove_logged Expired time) hs m)" for hs
    using expire.IH remove_logged_inv by (rule fold_preserves [of "mempool_inv cr"])
  then show ?case by (simp add: expire_old_def Let_def)
next
  case (clear m)
  then show ?case by (simp add: mempool_inv_def mempool_clear_def hm_invar_def bt_invar_def)
next
  case (clear_log m)
  then show ?case by (simp add: mempool_inv_def clear_audit_log_def)
qed

lemma sum_list_distinct_fst:
  "distinct (map fst xs) \<Longrightarrow> sum_list (map f xs) = (\<Sum>p \<in> set xs. f p)" for f :: "'a \<times> 'b \<Rightarrow> nat"
  by (simp add: sum_list_distinct_conv_sum_set distinct_map)

text \<open>C13: the mempool keeps its books. In every reachable state the byte count is the sum of the entry
  sizes (\<open>verify_size_invariant\<close>) and within the limit, no two entries share a key image, the key-image
  set holds exactly the images of the entries, the fee index lists exactly the entries in ascending
  fee order, every entry is stored under its own hash, and no coinbase is pooled.\<close>

theorem mempool_books_balance:
  assumes "mempool_reachable cr mx m"
  shows "verify_size_invariant m \<and> current_size m \<le> max_size m
    \<and> (\<forall>(h, e) \<in> set (mp_transactions m). h = mempool_tx_hash cr (me_tx e) \<and> \<not> is_coinbase (me_tx e)
         \<and> map_of (by_fee m) (me_fee_per_byte e, h) = Some h)
    \<and> length (by_fee m) = length (mp_transactions m) \<and> sorted (map fst (by_fee m))
    \<and> (\<forall>ki. ki \<in> mp_key_images m \<longleftrightarrow> (\<exists>!h. \<exists>e. (h, e) \<in> set (mp_transactions m) \<and> ki \<in> set (key_images (me_tx e))))
    \<and> length (audit_log m) \<le> AUDIT_LOG_CAPACITY"
proof -
  have inv: "mempool_inv cr m" by (rule reachable_inv [OF assms])
  then have hm: "distinct (map fst (mp_transactions m))" and bt: "bt_invar (by_fee m)"
    by (auto simp: mempool_inv_def hm_invar_def)
  have "verify_size_invariant m" "current_size m \<le> max_size m"
    using inv sum_list_distinct_fst [OF hm, of "\<lambda>p. me_size (snd p)"]
    by (simp_all add: verify_size_invariant_def mempool_inv_def comp_def)
  moreover have "h = mempool_tx_hash cr (me_tx e) \<and> \<not> is_coinbase (me_tx e) \<and> map_of (by_fee m) (me_fee_per_byte e, h) = Some h"
    if "(h, e) \<in> set (mp_transactions m)" for h e
  proof -
    have "fee_index (h, e) \<in> set (by_fee m)" "entry_ok cr h e" using inv that by (force simp: mempool_inv_def)+
    then show ?thesis using bmap.lookup_iff [OF bt] by (auto simp: fee_index_def entry_ok_def)
  qed
  moreover have "length (by_fee m) = length (mp_transactions m)"
  proof -
    have "distinct (by_fee m)" using bmap.keys_distinct [OF bt] by (simp add: distinct_map)
    moreover have "inj_on fee_index (set (mp_transactions m))"
      using hm by (force simp: inj_on_def fee_index_def distinct_map)
    moreover have "distinct (mp_transactions m)" using hm by (simp add: distinct_map)
    ultimately show ?thesis using inv by (metis card_image distinct_card mempool_inv_def)
  qed
  moreover have "sorted (map fst (by_fee m))" by (rule bmap.ascending_le [OF bt])
  moreover have "ki \<in> mp_key_images m \<longleftrightarrow> (\<exists>!h. \<exists>e. (h, e) \<in> set (mp_transactions m) \<and> ki \<in> set (key_images (me_tx e)))" for ki
  proof
    assume "ki \<in> mp_key_images m"
    then obtain h e where he: "(h, e) \<in> set (mp_transactions m)" "ki \<in> entry_images (h, e)" using inv by (auto simp: mempool_inv_def)
    have "h' = h" if "(h', e') \<in> set (mp_transactions m)" "ki \<in> entry_images (h', e')" for h' e'
    proof (rule ccontr)
      assume "h' \<noteq> h"
      with inv he(1) that(1) have "entry_images (h', e') \<inter> entry_images (h, e) = {}" unfolding mempool_inv_def by blast
      with he(2) that(2) show False by blast
    qed
    with he show "\<exists>!h. \<exists>e. (h, e) \<in> set (mp_transactions m) \<and> ki \<in> set (key_images (me_tx e))"
      by (auto simp: entry_images_def)
  next
    assume "\<exists>!h. \<exists>e. (h, e) \<in> set (mp_transactions m) \<and> ki \<in> set (key_images (me_tx e))"
    then show "ki \<in> mp_key_images m" using inv by (force simp: mempool_inv_def entry_images_def)
  qed
  moreover have "length (audit_log m) \<le> AUDIT_LOG_CAPACITY" using inv by (simp add: mempool_inv_def)
  ultimately show ?thesis by blast
qed

subsection \<open>Admission\<close>

lemma saturating_rates:
  assumes "a \<le> u64_max"
  shows "saturating_mul u128_max a 125 = a * 125" and "saturating_mul u128_max a 100 = a * 100"
  using assms by (simp_all add: saturating_mul_def u64_max_def u128_max_def)

lemma rate_u64: "scaled_fee_per_byte f s \<le> u64_max"
  by (simp add: scaled_fee_per_byte_def)

lemma admission_crypto:
  assumes "verify_crypto_for_admission cr now tx h c = (ok, c')" and "\<not> is_coinbase tx"
  shows "fst (verify_output_range_proofs cr now tx h c)"
    and "fst (verify_all_signatures cr now tx (tx_inputs tx) (snd (verify_output_range_proofs cr now tx h c))) = ok"
    and "verify_balance_proof cr tx"
  using assms
  by (cases "verify_output_range_proofs cr now tx h c";
      auto simp: verify_crypto_for_admission_def split: bool.splits if_splits)+

text \<open>C14: what an admitted transaction went through. A transaction that \<open>add\<close> newly admits passed the
  structural and privacy checks, its range proof and the ring signature of every input passed the
  verifier (which may answer from its cache), its commitments balance and it pays the pool's
  minimum fee; it is stored under its hash; no remaining entry shares a key image with it; its fee
  rate is at least 1.25 times that of every entry it displaced through a shared key image; and all
  other entries were there before.\<close>

theorem mempool_admission_sound:
  assumes "mempool_reachable cr mx m" and "mempool_add cr now time tx (m, c) = (Inr h, m', c')"
    and "map_of (mp_transactions m) h = None"
  shows "h = mempool_tx_hash cr tx \<and> preflight_check cr tx = ok
    \<and> fst (verify_output_range_proofs cr now tx (chain_height m) c)
    \<and> fst (verify_all_signatures cr now tx (tx_inputs tx) (snd (verify_output_range_proofs cr now tx (chain_height m) c))) = ok
    \<and> verify_balance_proof cr tx
    \<and> mempool_min_fee m (tx_size (cr_borsh_tx cr) tx) \<le> as_atomic (tx_fee tx)
    \<and> (\<exists>e. map_of (mp_transactions m') h = Some e \<and> me_tx e = tx)
    \<and> (\<forall>h0 e0. h0 \<noteq> h \<longrightarrow> map_of (mp_transactions m') h0 = Some e0 \<longrightarrow>
          map_of (mp_transactions m) h0 = Some e0 \<and> set (key_images (me_tx e0)) \<inter> set (key_images tx) = {})
    \<and> (\<forall>h0 e0. map_of (mp_transactions m) h0 = Some e0 \<longrightarrow> set (key_images (me_tx e0)) \<inter> set (key_images tx) \<noteq> {} \<longrightarrow>
          125 * me_fee_per_byte e0 \<le> 100 * scaled_fee_per_byte (as_atomic (tx_fee tx)) (tx_size (cr_borsh_tx cr) tx))"
  using assms(2)
proof (cases rule: add_cases)
  case (rejected e)
  then show ?thesis by simp
next
  case present
  then show ?thesis using assms(3) by auto
next
  case checked
  have inv: "mempool_inv cr m" by (rule reachable_inv [OF assms(1)])
  then have hm: "hm_invar (mp_transactions m)" by (simp add: mempool_inv_def)
  let ?rate = "scaled_fee_per_byte (as_atomic (tx_fee tx)) (tx_size (cr_borsh_tx cr) tx)"
  from checked(1) have "\<not> is_coinbase tx" by (simp add: preflight_ok)
  note crypto = admission_crypto [OF checked(3) this]
  from checked(4) show ?thesis
  proof (cases rule: admit_cases)
    case (admitted rs m1)
    note r = replaced_inv [OF inv admitted(2,4)]
    have m': "map_of (mp_transactions m') k = (if k = h then Some (mempool_entry_new cr tx (chain_height m1) time)
        else map_of (mp_transactions m1) k)" for k
      using admitted(5,6) by (simp add: insert_entry_def Let_def)
    have old: "map_of (mp_transactions m) h0 = Some e0 \<and> set (key_images (me_tx e0)) \<inter> set (key_images tx) = {}"
      if "map_of (mp_transactions m1) h0 = Some e0" for h0 e0
    proof -
      have "(h0, e0) \<in> set (mp_transactions m1)" using that by (rule map_of_SomeD)
      then have "(h0, e0) \<in> set (mp_transactions m)" "entry_images (h0, e0) \<subseteq> mp_key_images m1"
        using r(1,2) by (auto simp: mempool_inv_def)
      then show ?thesis using r(4) hmap.lookup_iff [OF hm] by (auto simp: entry_images_def)
    qed
    have bump: "125 * me_fee_per_byte e0 \<le> 100 * ?rate"
      if e0: "map_of (mp_transactions m) h0 = Some e0" and sh: "set (key_images (me_tx e0)) \<inter> set (key_images tx) \<noteq> {}" for h0 e0
    proof -
      from sh obtain ki where ki: "ki \<in> set (key_images tx)" "ki \<in> entry_images (h0, e0)" by (auto simp: entry_images_def)
      have mem: "(h0, e0) \<in> set (mp_transactions m)" using e0 by (rule map_of_SomeD)
      then have "ki \<in> mp_key_images m" using inv ki(2) by (auto simp: mempool_inv_def)
      with collect_replacements_some [OF admitted(2)] ki(1)
      obtain p where p: "p \<in> set (mp_transactions m)" "fst p \<in> set rs" "ki \<in> entry_images p" by blast
      have "p = (h0, e0)"
      proof (rule ccontr)
        assume "p \<noteq> (h0, e0)"
        with inv p(1) mem have "entry_images p \<inter> entry_images (h0, e0) = {}" unfolding mempool_inv_def by blast
        with ki(2) p(3) show False by blast
      qed
      with p(2) collect_replacements_some [OF admitted(2)] obtain e where
        e: "(h0, e) \<in> set (mp_transactions m)" "fee_bump_ok ?rate (me_fee_per_byte e)" by auto
      with mem hmap.entries_unique [OF hm] have "e = e0" by blast
      moreover have "entry_ok cr h0 e0" using inv mem by (fastforce simp: mempool_inv_def)
      then have "me_fee_per_byte e0 \<le> u64_max" by (simp add: entry_ok_def rate_u64)
      ultimately show ?thesis
        using e(2) rate_u64 by (simp add: fee_bump_ok_def RBF_FEE_BUMP_NUMERATOR_def RBF_FEE_BUMP_DENOMINATOR_def
            saturating_rates mult.commute)
    qed
    have "me_tx (mempool_entry_new cr tx (chain_height m1) time) = tx" by (simp add: mempool_entry_new_def Let_def)
    with admitted(1,5) checked(1) crypto m' old bump show ?thesis by auto
  qed simp_all
qed

text \<open>A rejected transaction leaves the pool as it was, for every error but \<open>MempoolFull\<close>: only the
  audit log changes.\<close>

theorem rejection_keeps_pool:
  assumes "mempool_add cr now time tx (m, c) = (Inl e, m', c')" and "e \<noteq> MempoolFull"
  shows "m' \<lparr> audit_log := [] \<rparr> = m \<lparr> audit_log := [] \<rparr>"
  using assms(1)
proof (cases rule: add_cases)
  case (rejected e')
  then show ?thesis by (simp add: audit_def)
next
  case checked
  from checked(4) show ?thesis by (cases rule: admit_cases) (use assms(2) in \<open>simp_all add: audit_def\<close>)
qed simp

subsection \<open>Stale chain views\<close>




subsection \<open>Block templates\<close>

lemma select_loop_spec:
  "\<exists>es. select_loop txs ms mc l t sel res = res @ map (me_tx \<circ> snd) es
      \<and> (length res \<le> mc \<longrightarrow> length res + length es \<le> mc)
      \<and> (t \<le> ms \<longrightarrow> t + (\<Sum>p \<leftarrow> es. me_size (snd p)) \<le> ms)
      \<and> subseq (map fst es) l \<and> (\<forall>p \<in> set es. map_of txs (snd (fst p)) = Some (snd p))
      \<and> sorted_wrt (\<lambda>p q. set (key_images (me_tx (snd p))) \<inter> set (key_images (me_tx (snd q))) = {}) es
      \<and> (\<forall>p \<in> set es. set (key_images (me_tx (snd p))) \<inter> sel = {})"
proof (induction l arbitrary: t sel res)
  case Nil
  show ?case by (rule exI [of _ "[]"]) simp
next
  case (Cons x l)
  obtain k h where x: "x = (k, h)" by fastforce
  let ?skip = "select_loop txs ms mc (x # l) t sel res = select_loop txs ms mc l t sel res"
  have skip: ?case if ?skip
    using Cons.IH [of t sel res] that by (auto intro: list_emb_Cons)
  show ?case
  proof (cases "mc \<le> length res")
    case True
    then show ?thesis by (intro exI [of _ "[]"]) (simp add: x)
  next
    case more: False
    show ?thesis
    proof (cases "map_of txs h")
      case None
      then show ?thesis using more by (intro skip) (simp add: x)
    next
      case (Some e)
      show ?thesis
      proof (cases "t + me_size e \<le> ms \<and> \<not> (\<exists>ki \<in> set (key_images (me_tx e)). ki \<in> sel)")
        case False
        then show ?thesis using more Some by (intro skip) (auto simp: x)
      next
        case True
        then have eq: "select_loop txs ms mc (x # l) t sel res =
            select_loop txs ms mc l (t + me_size e) (sel \<union> set (key_images (me_tx e))) (res @ [me_tx e])"
          using more Some by (simp add: x)
        from Cons.IH [of "t + me_size e" "sel \<union> set (key_images (me_tx e))" "res @ [me_tx e]"] obtain es
          where es: "select_loop txs ms mc l (t + me_size e) (sel \<union> set (key_images (me_tx e))) (res @ [me_tx e])
              = (res @ [me_tx e]) @ map (me_tx \<circ> snd) es"
            "length (res @ [me_tx e]) \<le> mc \<longrightarrow> length (res @ [me_tx e]) + length es \<le> mc"
            "t + me_size e \<le> ms \<longrightarrow> t + me_size e + (\<Sum>p \<leftarrow> es. me_size (snd p)) \<le> ms"
            "subseq (map fst es) l" "\<forall>p \<in> set es. map_of txs (snd (fst p)) = Some (snd p)"
            "sorted_wrt (\<lambda>p q. set (key_images (me_tx (snd p))) \<inter> set (key_images (me_tx (snd q))) = {}) es"
            "\<forall>p \<in> set es. set (key_images (me_tx (snd p))) \<inter> (sel \<union> set (key_images (me_tx e))) = {}"
          by blast
        show ?thesis
        proof (intro exI [of _ "(x, e) # es"] conjI)
          show "select_loop txs ms mc (x # l) t sel res = res @ map (me_tx \<circ> snd) ((x, e) # es)" using eq es(1) by simp
          show "length res \<le> mc \<longrightarrow> length res + length ((x, e) # es) \<le> mc" using es(2) more by simp
          show "t \<le> ms \<longrightarrow> t + (\<Sum>p \<leftarrow> (x, e) # es. me_size (snd p)) \<le> ms" using es(3) True by simp
          show "subseq (map fst ((x, e) # es)) (x # l)" using es(4) by simp
          show "\<forall>p \<in> set ((x, e) # es). map_of txs (snd (fst p)) = Some (snd p)" using es(5) Some x by simp
          show "sorted_wrt (\<lambda>p q. set (key_images (me_tx (snd p))) \<inter> set (key_images (me_tx (snd q))) = {}) ((x, e) # es)"
            using es(6,7) by auto
          show "\<forall>p \<in> set ((x, e) # es). set (key_images (me_tx (snd p))) \<inter> sel = {}" using es(7) True by auto
        qed
      qed
    qed
  qed
qed

definition template_rate :: "'p crypto \<Rightarrow> transaction \<Rightarrow> nat" where
  "template_rate cr tx = scaled_fee_per_byte (as_atomic (tx_fee tx)) (max (tx_size (cr_borsh_tx cr) tx) 1)"

lemma set_subseq: "subseq xs ys \<Longrightarrow> set xs \<subseteq> set ys"
  by (induction rule: list_emb.induct) auto

lemma subseq_sorted_wrt: "subseq xs ys \<Longrightarrow> sorted_wrt R ys \<Longrightarrow> sorted_wrt R xs"
proof (induction rule: list_emb.induct)
  case (list_emb_Cons2 x y xs ys)
  then have "set xs \<subseteq> set ys" by (intro set_subseq)
  with list_emb_Cons2 show ?case by auto
qed simp_all

lemma template_facts:
  assumes "mempool_reachable cr mx m"
  shows "length (get_block_transactions m ms mc) \<le> mc
    \<and> sum_list (map (tx_size (cr_borsh_tx cr)) (get_block_transactions m ms mc)) \<le> ms
    \<and> set (get_block_transactions m ms mc) \<subseteq> (\<lambda>p. me_tx (snd p)) ` set (mp_transactions m)
    \<and> sorted_wrt (\<lambda>a b. set (key_images a) \<inter> set (key_images b) = {}) (get_block_transactions m ms mc)
    \<and> sorted_wrt (\<ge>) (map (template_rate cr) (get_block_transactions m ms mc))"
proof -
  have inv: "mempool_inv cr m" by (rule reachable_inv [OF assms])
  obtain es where es: "get_block_transactions m ms mc = map (me_tx \<circ> snd) es" "length es \<le> mc"
      "(\<Sum>p \<leftarrow> es. me_size (snd p)) \<le> ms" "subseq (map fst es) (rev (by_fee m))"
      "\<forall>p \<in> set es. map_of (mp_transactions m) (snd (fst p)) = Some (snd p)"
      "sorted_wrt (\<lambda>p q. set (key_images (me_tx (snd p))) \<inter> set (key_images (me_tx (snd q))) = {}) es"
    using select_loop_spec [of "mp_transactions m" ms mc "rev (by_fee m)" 0 "{}" "[]"]
    unfolding get_block_transactions_def list.size add_0 append_Nil by blast
  have mem: "(snd (fst p), snd p) \<in> set (mp_transactions m)" if "p \<in> set es" for p
    by (rule map_of_SomeD) (use es(5) that in blast)
  have all: "\<forall>q \<in> set (mp_transactions m). entry_ok cr (fst q) (snd q)" using inv by (simp add: mempool_inv_def)
  have ok: "entry_ok cr (snd (fst p)) (snd p)" if "p \<in> set es" for p
    using bspec [OF all mem [OF that]] by simp
  have rate: "template_rate cr (me_tx (snd p)) = fst (fst (fst p))" if p: "p \<in> set es" for p
  proof -
    have "set (map fst es) \<subseteq> set (rev (by_fee m))" using es(4) by (rule set_subseq)
    then have "fst p \<in> set (by_fee m)" using p by auto
    then obtain q where q: "q \<in> set (mp_transactions m)" "fst p = fee_index q" using inv by (auto simp: mempool_inv_def)
    have "snd q = snd p"
      using q mem [OF p] hmap.entries_unique [of "mp_transactions m" "fst q" "snd q" "snd p"] inv
      by (simp add: fee_index_def mempool_inv_def)
    then show ?thesis using ok [OF p] q(2) by (simp add: template_rate_def fee_index_def entry_ok_def)
  qed
  have "sorted (map fst (by_fee m))" using inv by (simp add: mempool_inv_def bmap.ascending_le)
  then have "sorted_wrt (\<lambda>a b. fst (fst b) \<le> fst (fst a)) (rev (by_fee m))"
    unfolding sorted_wrt_rev sorted_map by (rule sorted_wrt_mono_rel [rotated]) (force simp: less_eq_prod_def)
  then have "sorted_wrt (\<lambda>a b. fst (fst b) \<le> fst (fst a)) (map fst es)" by (rule subseq_sorted_wrt [OF es(4)])
  then have "sorted_wrt (\<ge>) (map (template_rate cr) (get_block_transactions m ms mc))"
    unfolding es(1) sorted_wrt_map by (rule sorted_wrt_mono_rel [rotated]) (simp add: rate)
  moreover have "sum_list (map (tx_size (cr_borsh_tx cr)) (get_block_transactions m ms mc)) \<le> (\<Sum>p \<leftarrow> es. me_size (snd p))"
    unfolding es(1) map_map using ok by (intro sum_list_mono) (simp add: entry_ok_def)
  moreover have "sorted_wrt (\<lambda>a b. set (key_images a) \<inter> set (key_images b) = {}) (get_block_transactions m ms mc)"
    unfolding es(1) sorted_wrt_map using es(6) by simp
  moreover have "set (get_block_transactions m ms mc) \<subseteq> (\<lambda>p. me_tx (snd p)) ` set (mp_transactions m)"
    unfolding es(1) using mem by force
  ultimately show ?thesis using es(1-3) by simp
qed

text \<open>A block template drawn from a reachable pool is well formed: it stays within the size and count
  asked for, holds only pooled transactions, no two of which share a key image, and lists them by
  descending fee rate.\<close>

theorem block_template_sound:
  assumes "mempool_reachable cr mx m"
  shows "length (get_block_transactions m ms mc) \<le> mc
    \<and> sum_list (map (tx_size (cr_borsh_tx cr)) (get_block_transactions m ms mc)) \<le> ms
    \<and> set (get_block_transactions m ms mc) \<subseteq> (\<lambda>p. me_tx (snd p)) ` set (mp_transactions m)
    \<and> sorted_wrt (\<lambda>a b. set (key_images a) \<inter> set (key_images b) = {}) (get_block_transactions m ms mc)
    \<and> sorted_wrt (\<ge>) (map (template_rate cr) (get_block_transactions m ms mc))"
  by (rule template_facts [OF assms])

subsection \<open>The eviction budget\<close>

definition resident_size :: "mempool \<Rightarrow> (nat \<times> hash) \<times> hash \<Rightarrow> nat" where
  "resident_size m k = me_size (the (map_of (mp_transactions m) (snd k)))"

lemma fee_entry:
  assumes "mempool_inv cr m" and "k \<in> set (by_fee m)"
  shows "\<exists>e. map_of (mp_transactions m) (snd k) = Some e \<and> k = fee_index (snd k, e) \<and> 1 \<le> me_size e"
proof -
  from assms obtain p where p: "p \<in> set (mp_transactions m)" "k = fee_index p" by (auto simp: mempool_inv_def)
  moreover have "entry_ok cr (fst p) (snd p)" using assms(1) p(1) unfolding mempool_inv_def by blast
  moreover have "map_of (mp_transactions m) (fst p) = Some (snd p)"
    using assms(1) p(1) by (simp add: mempool_inv_def hmap.lookup_iff)
  ultimately show ?thesis by (auto simp: fee_index_def entry_ok_def)
qed

lemma evict_head:
  assumes inv: "mempool_inv cr m" and bf: "by_fee m = k # rest"
  shows "by_fee (evict_lowest_fee time m) = rest"
    and "current_size m = resident_size m k + current_size (evict_lowest_fee time m)"
    and "1 \<le> resident_size m k" and "mp_transactions m \<noteq> []"
    and "map (resident_size (evict_lowest_fee time m)) rest = map (resident_size m) rest"
    and "max_size (evict_lowest_fee time m) = max_size m"
proof -
  from fee_entry [OF inv, of k] bf obtain e where e: "map_of (mp_transactions m) (snd k) = Some e"
    "k = fee_index (snd k, e)" "1 \<le> me_size e" by auto
  then have k: "k = ((me_fee_per_byte e, snd k), snd k)" by (simp add: fee_index_def)
  have ev: "evict_lowest_fee time m = remove_logged LowFee time (snd k) m"
    by (subst k) (simp add: evict_lowest_fee_def bf, subst k, simp)
  have bt: "bt_invar (k # rest)" using inv bf by (simp add: mempool_inv_def)
  have "bt_remove (me_fee_per_byte e, snd k) (k # rest) = rest"
  proof -
    have kk: "fst k = (me_fee_per_byte e, snd k)" by (metis k fst_conv)
    have "fst k \<notin> fst ` set rest" using bmap.keys_distinct [OF bt] by simp
    then have "filter (\<lambda>p. fst p \<noteq> fst k) rest = rest" by (simp add: filter_id_conv image_iff) metis
    then show ?thesis unfolding kk [symmetric] by (simp add: bt_remove_def)
  qed
  with e(1) bf show "by_fee (evict_lowest_fee time m) = rest" by (simp add: ev remove_logged_def mempool_remove_def)
  have hm: "hm_invar (mp_transactions m)" using inv by (simp add: mempool_inv_def)
  have "me_size e \<le> current_size m"
    using hmap.total_remove [OF hm e(1), of me_size] inv by (simp add: mempool_inv_def)
  then show "current_size m = resident_size m k + current_size (evict_lowest_fee time m)"
    using e(1) by (simp add: ev remove_logged_def mempool_remove_def resident_size_def)
  show "1 \<le> resident_size m k" using e(1,3) by (simp add: resident_size_def)
  show "mp_transactions m \<noteq> []" using e(1) by auto
  have "snd q \<noteq> snd k" if q: "q \<in> set rest" for q
  proof
    assume same: "snd q = snd k"
    from fee_entry [OF inv, of q] q bf obtain e' where "map_of (mp_transactions m) (snd q) = Some e'" "q = fee_index (snd q, e')" by auto
    with e same have "q = k" by simp
    with q bmap.keys_distinct [OF bt] show False by auto
  qed
  then show "map (resident_size (evict_lowest_fee time m)) rest = map (resident_size m) rest"
    using e(1) by (simp add: ev remove_logged_def mempool_remove_def resident_size_def)
  show "max_size (evict_lowest_fee time m) = max_size m" by (rule conjunct2 [OF evict_subset [OF hm]])
qed

lemma evict_loop_budget:
  assumes "mempool_inv cr m" and "n \<le> length (by_fee m)" and "0 < n" and "attempts + n = MAX_EVICTION_ATTEMPTS"
    and "max_size m + sum_list (map (resident_size m) (take (n - 1) (by_fee m))) < current_size m + sz"
  shows "fst (evict_loop time sz attempts m) = False \<and> by_fee (snd (evict_loop time sz attempts m)) = drop n (by_fee m)"
  using assms
proof (induction n arbitrary: m attempts)
  case (Suc n)
  then obtain k rest where bf: "by_fee m = k # rest" by (cases "by_fee m") auto
  note ev = evict_head(1,2) [OF Suc.prems(1) bf, of time] evict_head(3,4) [OF Suc.prems(1) bf]
    evict_head(5,6) [OF Suc.prems(1) bf, of time]
  let ?m = "evict_lowest_fee time m"
  have over: "max_size m < current_size m + sz" using Suc.prems(5) by linarith
  have shrink: "\<not> current_size m \<le> current_size ?m" using ev(2,3) by linarith
  show ?case
  proof (cases "n = 0")
    case True
    then have "evict_loop time sz attempts m = (False, ?m)"
      using over ev(4) Suc.prems(4) by (subst evict_loop.simps) (simp add: Let_def)
    then show ?thesis using ev(1) bf True by simp
  next
    case False
    then have step: "evict_loop time sz attempts m = evict_loop time sz (attempts + 1) ?m"
      using over ev(4) shrink Suc.prems(4) by (subst evict_loop.simps) (simp add: Let_def)
    have same: "map (resident_size m) (take j rest) = map (resident_size ?m) (take j rest)" for j
      using arg_cong [OF ev(5), of "take j"] by (simp only: take_map)
    have "sum_list (map (resident_size m) (take (Suc n - 1) (by_fee m)))
        = resident_size m k + sum_list (map (resident_size ?m) (take (n - 1) (by_fee ?m)))"
      using False ev(1) bf arg_cong [OF same, of sum_list "n - 1"] by (cases n) simp_all
    then have "max_size ?m + sum_list (map (resident_size ?m) (take (n - 1) (by_fee ?m))) < current_size ?m + sz"
      using Suc.prems(5) ev(2,6) by linarith
    from Suc.IH [OF evict_inv [OF Suc.prems(1)] _ _ _ this] show ?thesis
      using step Suc.prems(2,4) False ev(1) bf by simp
  qed
qed simp

lemma simulate_fits:
  assumes "\<forall>k \<in> set bf. map_of txs (snd k) \<noteq> None" and "attempts \<le> MAX_EVICTION_ATTEMPTS" and "sz \<le> mx"
    and "sim + sz \<le> mx + sum_list (map (\<lambda>k. me_size (the (map_of txs (snd k)))) (take (MAX_EVICTION_ATTEMPTS - attempts) bf))"
  shows "simulate_evictions txs [] mx sz bf sim attempts + sz \<le> mx"
  using assms
proof (induction bf arbitrary: sim attempts)
  case (Cons k bf)
  obtain x h where k: "k = (x, h)" by fastforce
  with Cons.prems(1) obtain e where e: "map_of txs h = Some e" by auto
  show ?case
  proof (cases "sim + sz \<le> mx \<or> MAX_EVICTION_ATTEMPTS \<le> attempts")
    case True
    then show ?thesis using Cons.prems(4) k by auto
  next
    case False
    then have d: "MAX_EVICTION_ATTEMPTS - attempts = Suc (MAX_EVICTION_ATTEMPTS - (attempts + 1))" by arith
    have "sim - me_size e + sz \<le> mx + sum_list (map (\<lambda>k. me_size (the (map_of txs (snd k)))) (take (MAX_EVICTION_ATTEMPTS - (attempts + 1)) bf))"
      using Cons.prems(3,4) False k e unfolding d by simp
    moreover have "\<forall>k \<in> set bf. map_of txs (snd k) \<noteq> None" "attempts + 1 \<le> MAX_EVICTION_ATTEMPTS"
      using Cons.prems(1) False by auto
    ultimately have "simulate_evictions txs [] mx sz bf (sim - me_size e) (attempts + 1) + sz \<le> mx"
      using Cons.prems(3) by (intro Cons.IH)
    then show ?thesis using False k e by simp
  qed
qed simp

text \<open>An admission that needs exactly the eviction budget is simulated as possible and then refused after
  the damage is done. When the hundred cheapest residents, and no fewer, must go to make room, the
  up-front simulation accepts the plan, the loop evicts all hundred, finds its attempt counter at the
  limit and returns \<open>MempoolFull\<close>: the caller is told nothing was admitted, and a hundred
  fee-paying transactions are gone.\<close>

theorem full_budget_eviction_lost:
  fixes cr :: "'p crypto" and tx m
  defines "sz \<equiv> tx_size (cr_borsh_tx cr) tx"
  assumes "mempool_inv cr m" and "sz \<le> MAX_TX_SIZE" and "sz \<le> max_size m" and "mempool_min_fee m sz \<le> as_atomic (tx_fee tx)"
    and "set (key_images tx) \<inter> mp_key_images m = {}" and "100 \<le> length (by_fee m)"
    and "max_size m + sum_list (map (resident_size m) (take 99 (by_fee m))) < current_size m + sz"
    and "current_size m + sz \<le> max_size m + sum_list (map (resident_size m) (take 100 (by_fee m)))"
  shows "admissible m [] sz
    \<and> fst (admit_after_checks cr time tx h m) = Inl MempoolFull
    \<and> by_fee (snd (admit_after_checks cr time tx h m)) = drop 100 (by_fee m)"
proof -
  have none: "collect_replacements m r kis [] = Some []" if "set kis \<inter> mp_key_images m = {}" for r kis
    using that by (induction kis) auto
  have "\<forall>k \<in> set (by_fee m). map_of (mp_transactions m) (snd k) \<noteq> None" using fee_entry [OF assms(2)] by fastforce
  then have "simulate_evictions (mp_transactions m) [] (max_size m) sz (by_fee m) (current_size m) 0 + sz \<le> max_size m"
    using assms(4,9) by (intro simulate_fits) (simp_all add: MAX_EVICTION_ATTEMPTS_def resident_size_def [abs_def])
  then have adm: "admissible m [] sz" by (simp add: admissible_def replaced_freed_def)
  have "fst (evict_loop time sz 0 m) = False \<and> by_fee (snd (evict_loop time sz 0 m)) = drop 100 (by_fee m)"
    by (rule evict_loop_budget [OF assms(2)]) (use assms(7,8) in \<open>simp_all add: MAX_EVICTION_ATTEMPTS_def\<close>)
  then obtain m1 where ev: "evict_loop time sz 0 m = (False, m1)" "by_fee m1 = drop 100 (by_fee m)"
    by (cases "evict_loop time sz 0 m") auto
  have "admit_after_checks cr time tx h m = reject h time MempoolFull m1"
    using assms(3,5) none [OF assms(6)] adm ev(1)
    unfolding admit_after_checks_def sz_def [symmetric] by simp
  then show ?thesis using adm ev(2) by (simp add: reject_def)
qed

subsection \<open>Concrete pools\<close>

definition pool_input :: "u8 \<Rightarrow> tx_input" where
  "pool_input k = \<lparr> key_image = [k], ring_members = replicate 11 \<lparr> rm_public_key = [1], rm_commitment = [1] \<rparr>,
     signature = sample_signature, pseudo_output_commitment = [5] \<rparr>"

definition pool_tx :: transaction where
  "pool_tx = \<lparr> tx_version = 1, tx_ty = Transfer, tx_inputs = [pool_input 11, pool_input 12],
     tx_outputs = [spend_output_to 7 4, spend_output_to 8 4], tx_fee = Amount 102402, range_proof = [1], tx_extra = [] \<rparr>"

definition small_pool :: mempool where
  "small_pool = with_max_size 1000"

lemma pool_tx_size: "tx_size (cr_borsh_tx sample_crypto) pool_tx = 100"
  by (simp add: tx_size_def sample_crypto_def MIN_TX_SIZE_def)

lemma single_not_zero: "[x] \<noteq> replicate 32 y"
  by (metis length_Cons length_replicate list.size(3) numeral_eq_one_iff One_nat_def semiring_norm(83))

lemma pool_preflight: "preflight_check sample_crypto pool_tx = ok"
proof -
  have "validate_transaction_basic sample_crypto pool_tx = ok"
    unfolding validate_transaction_basic_def pool_tx_size Let_def
    by (simp add: run_checks_append_ok version_ok pool_tx_def pool_input_def spend_output_to_def basic_output_checks_def
        basic_key_image_checks_def point_valid_def sample_crypto_def is_coinbase_def key_images_def tx_params MIN_TX_SIZE_def
        MIN_FEE_PER_BYTE_def wrapping_mul_def u64_max_def single_not_zero)
  moreover have "check_tx_privacy sample_crypto pool_tx = ok"
    by (simp add: check_tx_privacy_def point_non_identity_def pool_tx_def spend_output_to_def sample_crypto_def)
  ultimately show ?thesis by (simp add: preflight_ok pool_tx_def is_coinbase_def)
qed

lemma collect_replicate: "collect_options (replicate n (Some x)) = Some (replicate n x)"
  by (induction n) simp_all

lemma pool_signature: "ring_signature_valid sample_crypto tx (pool_input k)"
  by (simp add: ring_signature_valid_def ring_points_def pool_input_def sample_crypto_def collect_replicate)

lemma pool_crypto: "\<exists>c. verify_crypto_for_admission sample_crypto 0 pool_tx 0 cache_new = (ok, c)"
proof -
  have "fst (verify_output_range_proofs sample_crypto 0 pool_tx 0 cache_new)"
    by (auto simp: verify_output_range_proofs_def pool_tx_def spend_output_to_def sample_crypto_def is_coinbase_def Let_def
        check_bulletproof_def verify_range_proofs_dispatch_def RANGE_PROOF_VERSION_BP_PLUS_def
        BULLETPROOFS_PLUS_HEIGHT_def RANGE_PROOF_VERSION_def split: option.splits)
  then obtain c0 where r: "verify_output_range_proofs sample_crypto 0 pool_tx 0 cache_new = (True, c0)"
    by (metis (full_types) prod.collapse)
  have b: "verify_balance_proof sample_crypto pool_tx"
    by (simp add: verify_balance_proof_def is_coinbase_def pool_tx_def pool_input_def spend_output_to_def sample_crypto_def)
  have s: "\<exists>c'. verify_ring_signature sample_crypto 0 pool_tx (pool_input k) c = (True, c')" for k c
    using valid_signature_accepted [of sample_crypto pool_tx "pool_input k" 0 c] pool_signature
    by (metis prod.collapse option.distinct(1) spend_borsh(1))
  obtain c1 where c1: "verify_ring_signature sample_crypto 0 pool_tx (pool_input 11) c0 = (True, c1)" using s by blast
  obtain c2 where c2: "verify_ring_signature sample_crypto 0 pool_tx (pool_input 12) c1 = (True, c2)" using s by blast
  have i: "tx_inputs pool_tx = [pool_input 11, pool_input 12]" "\<not> is_coinbase pool_tx"
    by (simp_all add: pool_tx_def is_coinbase_def)
  show ?thesis using r b c1 c2 i by (simp add: verify_crypto_for_admission_def)
qed

lemma pool_admit:
  "fst (admit_after_checks sample_crypto 0 pool_tx h small_pool) = Inr h"
proof -
  have f: "mempool_min_fee small_pool 100 = 100000"
    by (simp add: mempool_min_fee_def fullness_pct_def fee_multiplier_def small_pool_def with_max_size_def
        MIN_FEE_PER_BYTE_def wrapping_mul_def u64_max_def)
  have c: "collect_replacements small_pool r kis [] = Some []" for r kis
    by (induction kis) (simp_all add: small_pool_def with_max_size_def)
  have a: "admissible small_pool [] 100" by (simp add: admissible_def small_pool_def with_max_size_def)
  have e: "evict_loop 0 100 0 small_pool = (True, small_pool)"
    by (subst evict_loop.simps) (simp add: small_pool_def with_max_size_def)
  show ?thesis unfolding admit_after_checks_def pool_tx_size
    using f c a e by (simp add: MAX_TX_SIZE_def pool_tx_def)
qed

definition pool_result :: "(tx_error + hash) \<times> mempool \<times> verification_cache" where
  "pool_result = mempool_add sample_crypto 0 0 pool_tx (small_pool, cache_new)"

lemma pool_added: "pool_result = (Inr (mempool_tx_hash sample_crypto pool_tx), fst (snd pool_result), snd (snd pool_result))"
proof -
  let ?h = "mempool_tx_hash sample_crypto pool_tx"
  obtain c where c: "verify_crypto_for_admission sample_crypto 0 pool_tx 0 cache_new = (ok, c)" using pool_crypto by blast
  obtain m where m: "admit_after_checks sample_crypto 0 pool_tx ?h small_pool = (Inr ?h, m)"
    using pool_admit by (metis prod.collapse)
  have "mp_transactions small_pool = []" "chain_height small_pool = 0" by (simp_all add: small_pool_def with_max_size_def)
  then have "pool_result = (Inr ?h, m, c)"
    unfolding pool_result_def mempool_add_def using pool_preflight c m by (simp add: Let_def)
  then show ?thesis by (metis fst_conv snd_conv)
qed

lemma small_reachable: "mempool_reachable sample_crypto 1000 small_pool"
  unfolding small_pool_def by (rule mempool_reachable.start)

lemma pool_reachable: "mempool_reachable sample_crypto 1000 (fst (snd pool_result))"
  by (rule mempool_reachable.add [OF small_reachable]) (use pool_added in \<open>unfold pool_result_def\<close>)

theorem mempool_books_balance_witness:
  "verify_size_invariant (fst (snd pool_result)) \<and> current_size (fst (snd pool_result)) \<le> max_size (fst (snd pool_result))"
  using mempool_books_balance [OF pool_reachable] by blast

theorem mempool_admission_sound_witness:
  "verify_balance_proof sample_crypto pool_tx
   \<and> fst (verify_output_range_proofs sample_crypto 0 pool_tx (chain_height small_pool) cache_new)
   \<and> fst (verify_all_signatures sample_crypto 0 pool_tx (tx_inputs pool_tx)
        (snd (verify_output_range_proofs sample_crypto 0 pool_tx (chain_height small_pool) cache_new))) = ok
   \<and> (\<exists>e. map_of (mp_transactions (fst (snd pool_result))) (mempool_tx_hash sample_crypto pool_tx) = Some e \<and> me_tx e = pool_tx)"
proof -
  have "map_of (mp_transactions small_pool) h = None" for h by (simp add: small_pool_def with_max_size_def)
  from mempool_admission_sound [OF small_reachable pool_added [unfolded pool_result_def] this] show ?thesis
    unfolding pool_result_def by blast
qed

theorem block_template_sound_witness:
  "length (get_block_transactions (fst (snd pool_result)) 500 3) \<le> 3
   \<and> sum_list (map (tx_size (cr_borsh_tx sample_crypto)) (get_block_transactions (fst (snd pool_result)) 500 3)) \<le> 500"
  using block_template_sound [OF pool_reachable] by blast

theorem rejection_keeps_pool_witness:
  "fst (mempool_add sample_crypto 0 0 (sample_coinbase [1]) (small_pool, cache_new))
     = Inl (InvalidMessage ''coinbase transactions cannot enter mempool'')
   \<and> (fst (snd (mempool_add sample_crypto 0 0 (sample_coinbase [1]) (small_pool, cache_new)))) \<lparr> audit_log := [] \<rparr>
     = small_pool \<lparr> audit_log := [] \<rparr>"
proof
  let ?r = "mempool_add sample_crypto 0 0 (sample_coinbase [1]) (small_pool, cache_new)"
  let ?e = "InvalidMessage ''coinbase transactions cannot enter mempool''"
  have "preflight_check sample_crypto (sample_coinbase [1]) = Inl ?e"
    by (simp add: preflight_check_def sample_coinbase_def is_coinbase_def ensure_def)
  then show fst: "fst ?r = Inl ?e" by (simp add: mempool_add_def reject_def Let_def)
  then have "?r = (Inl ?e, fst (snd ?r), snd (snd ?r))" by (metis prod.collapse)
  from rejection_keeps_pool [OF this] show "(fst (snd ?r)) \<lparr> audit_log := [] \<rparr> = small_pool \<lparr> audit_log := [] \<rparr>" by simp
qed


text \<open>A pool filled by a hundred transactions of 101 bytes, and an incoming one of 10100 bytes.\<close>

definition plain_crypto :: "int crypto" where
  "plain_crypto = sample_crypto \<lparr> cr_blake3 := Hash, cr_borsh_tx := \<lambda>tx. Some (tx_extra tx) \<rparr>"

definition bulk_tx :: "bytes \<Rightarrow> nat \<Rightarrow> transaction" where
  "bulk_tx body fee = \<lparr> tx_version = 1, tx_ty = Transfer, tx_inputs = [], tx_outputs = [], tx_fee = Amount fee,
     range_proof = [], tx_extra = body \<rparr>"

definition resident_tx :: "nat \<Rightarrow> transaction" where
  "resident_tx i = bulk_tx (word_of_nat i # replicate 100 0) (101 * 1000 * (i + 1))"

definition resident :: "nat \<Rightarrow> hash \<times> mempool_entry" where
  "resident i = (mempool_tx_hash plain_crypto (resident_tx i), mempool_entry_new plain_crypto (resident_tx i) 0 0)"

definition full_pool :: mempool where
  "full_pool = (with_max_size 10100) \<lparr> mp_transactions := map resident [0..<100], by_fee := map (fee_index \<circ> resident) [0..<100],
     current_size := 10100 \<rparr>"

definition incoming_tx :: transaction where
  "incoming_tx = bulk_tx (replicate 10100 0) 1000000000"

lemma plain_size: "tx_size (cr_borsh_tx plain_crypto) (bulk_tx body fee) = length body"
  by (simp add: tx_size_def plain_crypto_def bulk_tx_def)

lemma resident_entry:
  "me_size (snd (resident i)) = 101" "key_images (me_tx (snd (resident i))) = []"
  "i < 100 \<Longrightarrow> me_fee_per_byte (snd (resident i)) = (i + 1) * 1000000000"
  "fst (resident i) = Hash (word_of_nat i # replicate 100 0)"
  "entry_ok plain_crypto (fst (resident i)) (snd (resident i))"
  using plain_size [of "word_of_nat i # replicate 100 0"]
  by (simp_all add: resident_def mempool_entry_new_def resident_tx_def entry_ok_def Let_def scaled_fee_per_byte_def u64_max_def
      is_coinbase_def mempool_tx_hash_def tx_hash_def hash_concat_def plain_crypto_def bulk_tx_def key_images_def)

lemma resident_inj:
  assumes "i < 100" and "j < 100" and "fst (resident i) = fst (resident j)"
  shows "i = j"
proof -
  have "(word_of_nat i :: u8) = word_of_nat j" using assms(3) by (simp add: resident_entry)
  then have "unat (word_of_nat i :: u8) = unat (word_of_nat j :: u8)" by simp
  then show ?thesis using assms(1,2) by (simp add: unat_of_nat)
qed

lemma full_pool_inv: "mempool_inv plain_crypto full_pool"
proof -
  have d: "distinct (map fst (map resident [0..<100]))"
    using resident_inj by (auto simp: distinct_map inj_on_def)
  have "sorted_wrt (<) (map fst (map (fee_index \<circ> resident) [0..<100]))"
    by (auto simp: sorted_wrt_map sorted_wrt_iff_nth_less fee_index_def resident_entry less_prod_def)
  moreover have "(\<Sum>p \<in> set (map resident [0..<100]). me_size (snd p)) = 10100"
    using sum_list_distinct_fst [OF d, of "\<lambda>p. me_size (snd p)"]
    by (simp add: comp_def resident_entry sum_list_triv)
  ultimately show ?thesis using d
    by (auto simp: mempool_inv_def full_pool_def with_max_size_def hm_invar_def bt_invar_def entry_images_def resident_entry(1,2,5))
qed

lemma full_pool_sizes: "n \<le> 100 \<Longrightarrow> sum_list (map (resident_size full_pool) (take n (by_fee full_pool))) = 101 * n"
proof -
  assume n: "n \<le> 100"
  have hm: "hm_invar (mp_transactions full_pool)" using full_pool_inv by (simp add: mempool_inv_def)
  have "resident_size full_pool (fee_index (resident i)) = 101" if "i < 100" for i
  proof -
    have "(fst (resident i), snd (resident i)) \<in> set (mp_transactions full_pool)" using that by (simp add: full_pool_def)
    then have "map_of (mp_transactions full_pool) (fst (resident i)) = Some (snd (resident i))" using hmap.lookup_iff [OF hm] by blast
    then show ?thesis by (simp add: resident_size_def fee_index_def resident_entry)
  qed
  then have "map (resident_size full_pool) (take n (by_fee full_pool)) = map (\<lambda>_. 101) [0..<n]"
    using n by (simp add: full_pool_def take_map)
  then show ?thesis by (simp add: sum_list_triv)
qed

theorem full_budget_eviction_lost_witness:
  "length (by_fee full_pool) = 100
   \<and> fst (admit_after_checks plain_crypto 0 incoming_tx (Hash []) full_pool) = Inl MempoolFull
   \<and> by_fee (snd (admit_after_checks plain_crypto 0 incoming_tx (Hash []) full_pool)) = []"
proof -
  have len: "length (by_fee full_pool) = 100" by (simp add: full_pool_def)
  have sz: "tx_size (cr_borsh_tx plain_crypto) incoming_tx = 10100" by (simp add: incoming_tx_def plain_size)
  have fee: "mempool_min_fee full_pool 10100 \<le> as_atomic (tx_fee incoming_tx)"
    by (simp add: mempool_min_fee_def fullness_pct_def fee_multiplier_def full_pool_def with_max_size_def
        MIN_FEE_PER_BYTE_def wrapping_mul_def u64_max_def incoming_tx_def bulk_tx_def)
  have pool: "max_size full_pool = 10100" "current_size full_pool = 10100" "mp_key_images full_pool = {}"
    by (simp_all add: full_pool_def with_max_size_def)
  from full_budget_eviction_lost [OF full_pool_inv, of incoming_tx 0 "Hash []"] show ?thesis
    using len fee pool full_pool_sizes [of 99] full_pool_sizes [of 100] by (simp add: sz MAX_TX_SIZE_def)
qed

end
