(* ===== verification/Fork_Signal.thy ===== *)
theory Fork_Signal
  imports Std_Maps
begin

section \<open>Fork signalling (consensus/fork_signal.rs)\<close>

text \<open>
  The BIP-9 style deployment machine: signal bits and their encoding in the coinbase \<open>extra\<close> field,
  the registered deployments, the state query and the query that records a lock-in. The count of
  signalling blocks is the closure \<open>signal_count_fn\<close> of the source, a parameter here. The relation
  \<open>signal_run\<close> drives one deployment over consecutive heights, as block processing does.
\<close>

unbundle bit_operations_syntax

type_synonym u32 = "32 word"

subsection \<open>Signal bits\<close>

definition VIEW_TAGS :: u32 where "VIEW_TAGS = push_bit 0 1"
definition HALO2_SHIELDED :: u32 where "HALO2_SHIELDED = push_bit 3 1"
definition LELANTUS_SPARK :: u32 where "LELANTUS_SPARK = push_bit 4 1"
definition MW_CUTTHROUGH :: u32 where "MW_CUTTHROUGH = push_bit 5 1"
definition V1_0_12_BUNDLE :: u32 where "V1_0_12_BUNDLE = push_bit 6 1"
definition MUST_SET :: u32 where "MUST_SET = push_bit 31 1"

datatype signal_bits = SignalBits (raw: u32)

definition signal_bits_new :: "u32 \<Rightarrow> signal_bits" where
  "signal_bits_new r = SignalBits (r OR MUST_SET)"

definition signals :: "signal_bits \<Rightarrow> u32 \<Rightarrow> bool" where
  "signals s b = (raw s AND b \<noteq> 0)"

subsection \<open>The coinbase extra field\<close>

definition encode_coinbase_extra :: "nat \<Rightarrow> signal_bits \<Rightarrow> bytes" where
  "encode_coinbase_extra height s =
     le_bytes 8 height @ (if raw s \<noteq> 0 then le_bytes 4 (unat (raw s)) else [])"

definition decode_signal_bits :: "bytes \<Rightarrow> signal_bits" where
  "decode_signal_bits extra =
     (if length extra < 12 then SignalBits 0
      else SignalBits (word_of_nat (from_le_bytes (take 4 (drop 8 extra)))))"

subsection \<open>Deployments\<close>

definition SIGNAL_WINDOW :: nat where "SIGNAL_WINDOW = 2016"
definition SIGNAL_THRESHOLD :: nat where "SIGNAL_THRESHOLD = 1814"

record deployment =
  dep_name :: string
  dep_bit :: u32
  start_height :: nat
  timeout_height :: nat
  min_activation_height :: nat

definition DEPLOYMENTS :: "deployment list" where
  "DEPLOYMENTS =
     [\<lparr> dep_name = ''view-tags'', dep_bit = VIEW_TAGS, start_height = 0,
        timeout_height = 1000000, min_activation_height = 2016 \<rparr>,
      \<lparr> dep_name = ''halo2-shielded'', dep_bit = HALO2_SHIELDED, start_height = u64_max,
        timeout_height = u64_max, min_activation_height = u64_max \<rparr>,
      \<lparr> dep_name = ''lelantus-spark'', dep_bit = LELANTUS_SPARK, start_height = u64_max,
        timeout_height = u64_max, min_activation_height = u64_max \<rparr>,
      \<lparr> dep_name = ''mw-cutthrough'', dep_bit = MW_CUTTHROUGH, start_height = u64_max,
        timeout_height = u64_max, min_activation_height = u64_max \<rparr>,
      \<lparr> dep_name = ''v1.0.12-bundle'', dep_bit = V1_0_12_BUNDLE, start_height = u64_max,
        timeout_height = u64_max, min_activation_height = u64_max \<rparr>]"

datatype deployment_state =
    Defined
  | Started (signaling_pct: nat)
  | LockedIn (at_height: nat)
  | Active
  | Failed

record fork_signaler =
  locked_in :: "(u32 \<times> nat) list"

definition fork_signaler_new :: fork_signaler where
  "fork_signaler_new = \<lparr> locked_in = [] \<rparr>"

definition window_start :: "nat \<Rightarrow> nat" where
  "window_start height = (height div SIGNAL_WINDOW) * SIGNAL_WINDOW"

definition next_window_start :: "nat \<Rightarrow> nat" where
  "next_window_start height = wrapping_add u64_max (window_start height) SIGNAL_WINDOW"

definition signaler_state ::
    "fork_signaler \<Rightarrow> deployment \<Rightarrow> nat \<Rightarrow> (nat \<Rightarrow> nat \<Rightarrow> u32 \<Rightarrow> nat) \<Rightarrow> deployment_state" where
  "signaler_state fs d current_height signal_count_fn =
     (if current_height < start_height d then Defined
      else if timeout_height d \<le> current_height \<and> map_of (locked_in fs) (dep_bit d) = None then Failed
      else
        case map_of (locked_in fs) (dep_bit d) of
          Some locked_at \<Rightarrow>
            let activation = next_window_start locked_at
            in if max activation (min_activation_height d) \<le> current_height then Active
               else LockedIn activation
        | None \<Rightarrow>
            let ws = window_start current_height;
                count = signal_count_fn ws current_height (dep_bit d);
                total_blocks = max (current_height - ws) 1;
                pct = min ((wrapping_mul u64_max count 100 div total_blocks) mod 2 ^ 32) 100
            in if SIGNAL_THRESHOLD \<le> count then LockedIn (next_window_start current_height)
               else Started pct)"

definition record_lock_in :: "fork_signaler \<Rightarrow> u32 \<Rightarrow> nat \<Rightarrow> fork_signaler" where
  "record_lock_in fs b height = fs \<lparr> locked_in := hm_insert b height (locked_in fs) \<rparr>"

definition state_and_record ::
    "fork_signaler \<Rightarrow> deployment \<Rightarrow> nat \<Rightarrow> (nat \<Rightarrow> nat \<Rightarrow> u32 \<Rightarrow> nat)
       \<Rightarrow> deployment_state \<times> fork_signaler" where
  "state_and_record fs d current_height signal_count_fn =
     (let st = signaler_state fs d current_height signal_count_fn
      in (st, if (case st of LockedIn _ \<Rightarrow> True | _ \<Rightarrow> False) \<and> map_of (locked_in fs) (dep_bit d) = None
              then record_lock_in fs (dep_bit d) current_height
              else fs))"

subsection \<open>Encoding round trip\<close>

text \<open>Signal bits survive the coinbase: whatever the height and the bits, decoding the encoded \<open>extra\<close>
  gives the bits back, the first eight bytes are the height, and a coinbase without signals keeps
  the historical eight-byte form.\<close>

theorem coinbase_extra_roundtrip:
  "decode_signal_bits (encode_coinbase_extra height s) = s
   \<and> from_le_bytes (take 8 (encode_coinbase_extra height s)) = height mod 2 ^ 64
   \<and> (raw s = 0 \<longleftrightarrow> length (encode_coinbase_extra height s) = 8)"
proof -
  have "unat (raw s) < 256 ^ 4" using unsigned_less [of "raw s"] by simp
  then have "from_le_bytes (le_bytes 4 (unat (raw s))) = unat (raw s)"
    by (simp add: from_le_bytes_le_bytes)
  then show ?thesis
    by (cases s) (auto simp: encode_coinbase_extra_def decode_signal_bits_def from_le_bytes_le_bytes
        simp flip: length_0_conv)
qed

subsection \<open>The deployment machine\<close>

text \<open>One deployment driven over consecutive heights; \<open>count h\<close> is the closure used at height \<open>h\<close>.\<close>

inductive signal_run ::
    "deployment \<Rightarrow> (nat \<Rightarrow> nat \<Rightarrow> nat \<Rightarrow> u32 \<Rightarrow> nat) \<Rightarrow> nat \<Rightarrow> fork_signaler \<Rightarrow> bool"
  for d :: deployment and count :: "nat \<Rightarrow> nat \<Rightarrow> nat \<Rightarrow> u32 \<Rightarrow> nat" where
  run_start: "signal_run d count h fork_signaler_new"
| run_block: "signal_run d count h fs \<Longrightarrow>
    signal_run d count (Suc h) (snd (state_and_record fs d h (count h)))"

text \<open>The transitions of BIP-9.\<close>

fun bip9_edge :: "deployment_state \<Rightarrow> deployment_state \<Rightarrow> bool" where
  "bip9_edge Defined s = (case s of Defined \<Rightarrow> True | Started _ \<Rightarrow> True | Failed \<Rightarrow> True | _ \<Rightarrow> False)"
| "bip9_edge (Started _) s = (s \<noteq> Defined \<and> s \<noteq> Active)"
| "bip9_edge (LockedIn a) s = (s = LockedIn a \<or> s = Active)"
| "bip9_edge Active s = (s = Active)"
| "bip9_edge Failed s = (s = Failed)"

lemma lookup_record [simp]:
  "map_of (locked_in (record_lock_in fs b h)) b = Some h"
  by (simp add: record_lock_in_def)

lemma signaler_state_locked:
  assumes "map_of (locked_in fs) (dep_bit d) = Some l" and "start_height d \<le> h"
  shows "signaler_state fs d h f =
    (if max (next_window_start l) (min_activation_height d) \<le> h then Active
     else LockedIn (next_window_start l))"
  using assms by (simp add: signaler_state_def Let_def)

lemma signaler_state_unlocked:
  assumes "map_of (locked_in fs) (dep_bit d) = None"
  shows "signaler_state fs d h f \<noteq> Active"
    and "signaler_state fs d h f = LockedIn a \<Longrightarrow> start_height d \<le> h \<and> a = next_window_start h"
    and "signaler_state fs d h f = Started p \<Longrightarrow> start_height d \<le> h \<and> h < timeout_height d"
    and "signaler_state fs d h f = Defined \<longleftrightarrow> h < start_height d"
    and "signaler_state fs d h f = Failed \<longleftrightarrow> start_height d \<le> h \<and> timeout_height d \<le> h"
  using assms by (auto simp: signaler_state_def Let_def split: if_splits)

lemma snd_state_and_record:
  "snd (state_and_record fs d h f) =
     (if (\<exists>a. signaler_state fs d h f = LockedIn a) \<and> map_of (locked_in fs) (dep_bit d) = None
      then record_lock_in fs (dep_bit d) h else fs)"
  by (auto simp: state_and_record_def Let_def split: deployment_state.splits)

lemma fst_state_and_record [simp]: "fst (state_and_record fs d h f) = signaler_state fs d h f"
  by (simp add: state_and_record_def Let_def)

text \<open>A recorded lock-in lies in the signalling period and in the past.\<close>

lemma run_locked_at:
  "signal_run d count h fs \<Longrightarrow> map_of (locked_in fs) (dep_bit d) = Some l \<Longrightarrow>
     start_height d \<le> l \<and> l < h"
proof (induction h fs arbitrary: l rule: signal_run.induct)
  case (run_start h)
  then show ?case by (simp add: fork_signaler_new_def)
next
  case (run_block h fs)
  show ?case
  proof (cases "map_of (locked_in fs) (dep_bit d)")
    case None
    with run_block.prems have "l = h" "\<exists>a. signaler_state fs d h (count h) = LockedIn a"
      by (auto simp: snd_state_and_record split: if_splits)
    then show ?thesis using signaler_state_unlocked(2) [OF None] by auto
  next
    case (Some l')
    with run_block show ?thesis by (auto simp: snd_state_and_record)
  qed
qed

lemma first_query_not_locked:
  assumes "map_of (locked_in fs) (dep_bit d) = None" and "\<And>a b bt. f a b bt \<le> b - a"
    and "start_height d mod SIGNAL_WINDOW < SIGNAL_THRESHOLD"
  shows "signaler_state fs d (start_height d) f \<noteq> LockedIn a"
proof -
  let ?h = "start_height d"
  have "?h - window_start ?h = ?h mod SIGNAL_WINDOW"
    by (simp only: window_start_def minus_div_mult_eq_mod)
  then have "\<not> SIGNAL_THRESHOLD \<le> f (window_start ?h) ?h (dep_bit d)"
    using assms(2) [of "window_start ?h" ?h "dep_bit d"] assms(3) by simp
  then show ?thesis using assms(1) by (simp add: signaler_state_def Let_def)
qed

lemma edge_step:
  assumes "signal_run d count h fs" and "\<And>h a b bt. count h a b bt \<le> b - a"
    and "start_height d mod SIGNAL_WINDOW < SIGNAL_THRESHOLD"
  shows "bip9_edge (signaler_state fs d h (count h))
           (signaler_state (snd (state_and_record fs d h (count h))) d (Suc h) (count (Suc h)))"
proof (cases "map_of (locked_in fs) (dep_bit d)")
  case None
  let ?s = "signaler_state fs d h (count h)"
  show ?thesis
  proof (cases ?s)
    case (LockedIn a)
    then have "start_height d \<le> h" "a = next_window_start h"
      using signaler_state_unlocked(2) [OF None] by auto
    with LockedIn None show ?thesis
      by (simp add: snd_state_and_record signaler_state_locked [of _ d h])
  next
    case Defined
    then have h: "h < start_height d" using signaler_state_unlocked(4) [OF None] by simp
    have "signaler_state fs d (Suc h) (count (Suc h)) \<noteq> LockedIn a" for a
    proof
      assume l: "signaler_state fs d (Suc h) (count (Suc h)) = LockedIn a"
      from signaler_state_unlocked(2) [OF None this] h have e: "Suc h = start_height d" by simp
      have "signaler_state fs d (start_height d) (count (Suc h)) \<noteq> LockedIn a"
        by (rule first_query_not_locked [OF None assms(2,3)])
      with l show False by (simp only: e simp_thms)
    qed
    with Defined signaler_state_unlocked(1) [OF None] show ?thesis
      by (auto simp: snd_state_and_record split: deployment_state.splits)
  qed (use None signaler_state_unlocked [OF None, of h "count h"]
        signaler_state_unlocked [OF None, of "Suc h" "count (Suc h)"] in
      \<open>auto simp: snd_state_and_record\<close>)
next
  case (Some l)
  then have "start_height d \<le> h" using run_locked_at [OF assms(1)] by fastforce
  with Some show ?thesis
    by (auto simp: snd_state_and_record signaler_state_locked [OF Some])
qed

text \<open>C33: driven block by block with \<open>state_and_record\<close>, a deployment only takes BIP-9 transitions: it
  leaves \<open>Defined\<close> for \<open>Started\<close> or, past its timeout, for \<open>Failed\<close>, never returns to an earlier state,
  locks in at one fixed activation height, and \<open>Active\<close> and \<open>Failed\<close> are final. It is assumed that the
  closure counts blocks of the range it is given, as its contract says, and that the start height
  lies less than the threshold (1814) above a window boundary, as for the aligned start heights the
  source prescribes and for every deployment it ships.\<close>

theorem deployment_transitions:
  assumes "signal_run d count h fs" and "\<And>h a b bt. count h a b bt \<le> b - a"
    and "start_height d mod SIGNAL_WINDOW < SIGNAL_THRESHOLD"
  shows "bip9_edge (fst (state_and_record fs d h (count h)))
           (fst (state_and_record (snd (state_and_record fs d h (count h))) d (Suc h) (count (Suc h))))"
  using edge_step [OF assms] by simp

theorem deployment_transitions_witness:
  "fst (state_and_record fork_signaler_new (hd DEPLOYMENTS) 1813 (\<lambda>a b _. b - a)) = Started 100
   \<and> fst (state_and_record fork_signaler_new (hd DEPLOYMENTS) 1814 (\<lambda>a b _. b - a)) = LockedIn 2016
   \<and> bip9_edge (Started 100) (LockedIn 2016)"
proof -
  have s: "fst (state_and_record fork_signaler_new (hd DEPLOYMENTS) 1813 (\<lambda>a b _. b - a)) = Started 100"
    "fst (state_and_record fork_signaler_new (hd DEPLOYMENTS) 1814 (\<lambda>a b _. b - a)) = LockedIn 2016"
    "snd (state_and_record fork_signaler_new (hd DEPLOYMENTS) 1813 (\<lambda>a b _. b - a)) = fork_signaler_new"
    by (simp_all add: state_and_record_def signaler_state_def DEPLOYMENTS_def fork_signaler_new_def
        window_start_def next_window_start_def SIGNAL_WINDOW_def SIGNAL_THRESHOLD_def
        wrapping_add_def wrapping_mul_def u64_max_def Let_def)
  have "signal_run (hd DEPLOYMENTS) (\<lambda>h a b bt. b - a) 1813 fork_signaler_new" by (rule run_start)
  from deployment_transitions [OF this] s show ?thesis
    by (simp add: DEPLOYMENTS_def SIGNAL_THRESHOLD_def)
qed

text \<open>The shipped deployments satisfy the condition on the start height. Without it the state
  \<open>Started\<close> can be skipped: a deployment that starts late in a window counts the signals sent while
  it was only defined.\<close>

lemma shipped_deployments_aligned: "\<forall>d \<in> set DEPLOYMENTS. start_height d mod SIGNAL_WINDOW < SIGNAL_THRESHOLD"
  by (simp add: DEPLOYMENTS_def SIGNAL_WINDOW_def SIGNAL_THRESHOLD_def u64_max_def)

lemma late_start_skips_started:
  assumes "start_height d = Suc h" and "SIGNAL_THRESHOLD \<le> Suc h mod SIGNAL_WINDOW" and "Suc h < timeout_height d"
  shows "fst (state_and_record fork_signaler_new d h (\<lambda>a b _. b - a)) = Defined
    \<and> (\<exists>a. fst (state_and_record (snd (state_and_record fork_signaler_new d h (\<lambda>a b _. b - a))) d (Suc h) (\<lambda>a b _. b - a)) = LockedIn a)"
proof -
  have "Suc h - window_start (Suc h) = Suc h mod SIGNAL_WINDOW" by (simp only: window_start_def minus_div_mult_eq_mod)
  with assms show ?thesis
    by (simp add: snd_state_and_record signaler_state_def fork_signaler_new_def Let_def)
qed

text \<open>A lock-in is never lost. If the recording query reports \<open>LockedIn\<close>, then at every later height
  and whatever miners signal from then on, the deployment is locked in with the same activation
  height until that height and the minimum activation height are reached, and active from then
  on, past the timeout too.\<close>

theorem lock_in_persists:
  assumes "state_and_record fs d h f = (LockedIn a, fs')" and "h \<le> h'"
    and "map_of (locked_in fs) (dep_bit d) = None"
  shows "signaler_state fs' d h' f' =
    (if max a (min_activation_height d) \<le> h' then Active else LockedIn a)"
proof -
  have st: "signaler_state fs d h f = LockedIn a" "fs' = snd (state_and_record fs d h f)"
    using assms(1) by (metis fst_conv fst_state_and_record, simp)
  with assms(3) have fs': "fs' = record_lock_in fs (dep_bit d) h" by (simp add: snd_state_and_record)
  from signaler_state_unlocked(2) [OF assms(3) st(1)] assms(2)
  show ?thesis by (simp add: fs' signaler_state_locked [of _ d h])
qed

theorem lock_in_persists_witness:
  "signaler_state (record_lock_in fork_signaler_new VIEW_TAGS 2000) (hd DEPLOYMENTS) 5000000 (\<lambda>_ _ _. 0) = Active"
proof -
  have "state_and_record fork_signaler_new (hd DEPLOYMENTS) 2000 (\<lambda>_ _ _. 1900)
      = (LockedIn 2016, record_lock_in fork_signaler_new VIEW_TAGS 2000)"
    by (simp add: state_and_record_def signaler_state_def DEPLOYMENTS_def fork_signaler_new_def
        window_start_def next_window_start_def SIGNAL_WINDOW_def SIGNAL_THRESHOLD_def
        wrapping_add_def u64_max_def Let_def)
  from lock_in_persists [OF this, of 5000000 "\<lambda>_ _ _. 0"] show ?thesis
    by (simp add: fork_signaler_new_def DEPLOYMENTS_def)
qed

text \<open>Counting signalling blocks the way the closure's contract says: heights in \<open>[start, end)\<close>.\<close>

definition count_signals :: "(nat \<Rightarrow> u32 \<Rightarrow> bool) \<Rightarrow> nat \<Rightarrow> nat \<Rightarrow> u32 \<Rightarrow> nat" where
  "count_signals sig a b bt = length (filter (\<lambda>h. sig h bt) [a..<b])"

text \<open>The last block of a signalling window is never counted. The range ends before the current
  height, and one block later the window starts afresh, so the state does not depend on what the
  blocks at heights \<open>2015 (mod 2016)\<close> signal: a window with exactly 1814 signals, its last block
  among them, does not lock in.\<close>

theorem last_window_block_ignored:
  assumes "\<And>x. x mod SIGNAL_WINDOW \<noteq> SIGNAL_WINDOW - 1 \<Longrightarrow> sig x (dep_bit d) = sig' x (dep_bit d)"
  shows "signaler_state fs d h (count_signals sig) = signaler_state fs d h (count_signals sig')"
proof -
  have "filter (\<lambda>x. sig x (dep_bit d)) [window_start h..<h] = filter (\<lambda>x. sig' x (dep_bit d)) [window_start h..<h]"
  proof (intro filter_cong refl assms)
    fix x assume "x \<in> set [window_start h..<h]"
    then have x: "h div 2016 * 2016 \<le> x" "x < h" by (auto simp: window_start_def SIGNAL_WINDOW_def)
    have "h div 2016 \<le> x div 2016" using div_le_mono [OF x(1), of 2016] by simp
    moreover have "x div 2016 \<le> h div 2016" using x(2) by (intro div_le_mono) simp
    ultimately have "x mod 2016 < h mod 2016"
      using x div_mult_mod_eq [of x 2016] div_mult_mod_eq [of h 2016] by linarith
    then show "x mod SIGNAL_WINDOW \<noteq> SIGNAL_WINDOW - 1"
      using mod_less_divisor [of 2016 h] by (simp add: SIGNAL_WINDOW_def)
  qed
  then have "count_signals sig (window_start h) h (dep_bit d) = count_signals sig' (window_start h) h (dep_bit d)"
    by (simp add: count_signals_def)
  then show ?thesis unfolding signaler_state_def Let_def by (simp only:)
qed

theorem last_window_block_ignored_witness:
  "signaler_state fork_signaler_new (hd DEPLOYMENTS) 2016 (count_signals (\<lambda>x _. 202 \<le> x \<and> x < 2016))
   = signaler_state fork_signaler_new (hd DEPLOYMENTS) 2016 (count_signals (\<lambda>x _. 202 \<le> x \<and> x < 2015))"
proof (rule last_window_block_ignored)
  fix x :: nat
  assume "x mod SIGNAL_WINDOW \<noteq> SIGNAL_WINDOW - 1"
  then have "x \<noteq> 2015" by (auto simp: SIGNAL_WINDOW_def)
  then show "(202 \<le> x \<and> x < 2016) = (202 \<le> x \<and> x < 2015)" by auto
qed

end
