(* ===== verification/Swap_Protocol.thy ===== *)
theory Swap_Protocol
  imports Rust_Prelude
begin

text \<open>
  Atomic swaps between CYNC and BTC (\<open>crates/coincync-swap\<close>): the state machine of one party
  (\<open>protocol.rs\<close>), the state file with its HMAC sidecar (\<open>state.rs\<close>), and the commands of the command line tool
  that change them (\<open>bin/cyncswap.rs\<close>). The last part composes the two parties: each runs its own commands on its own
  state file, and an observation is made only after the counterparty has broadcast the transaction. The wallet variants
  of the two initial commands write the same state; the raw broadcast commands of the tool do not touch the state file
  and are not part of a run.

  JSON (serde), HMAC-SHA256, hex decoding, the nodes' RPC and the construction of Bitcoin transactions are fields of
  the records \<open>swap_codec\<close> and \<open>cli_env\<close>.
\<close>

section \<open>The state machine (protocol.rs)\<close>

datatype swap_role = Alice | Bob

fun opposite :: "swap_role \<Rightarrow> swap_role" where
  "opposite Alice = Bob"
| "opposite Bob = Alice"

datatype swap_state = Negotiated | AliceLocked | BobLocked | SecretRevealed | Completed | Refunded | Aborted

definition is_terminal :: "swap_state \<Rightarrow> bool" where
  "is_terminal s = (s = Completed \<or> s = Refunded \<or> s = Aborted)"

datatype swap_transition = AliceLocksCync | BobLocksBtc | AliceClaimsBtc | BobClaimsCync | AliceRefunds | BobRefunds
  | ObserveBobLocked | ObserveAliceLocked | ObserveSecretRevealed | ObserveCompleted | Abort

record swap_parameters =
  sp_cync_amount :: nat
  sp_btc_amount_sats :: nat
  sp_cync_timeout_blocks :: nat
  sp_btc_timeout_blocks :: nat
  sp_alice_cync_address :: string
  sp_bob_btc_address :: string
  sp_cync_network :: string
  sp_btc_network :: string

text \<open>The timeouts are \<open>u32\<close> values.\<close>

definition params_wf :: "swap_parameters \<Rightarrow> bool" where
  "params_wf p = (sp_cync_timeout_blocks p < 2 ^ 32 \<and> sp_btc_timeout_blocks p < 2 ^ 32)"

definition CYNC_BLOCK_TIME_SECS :: nat where "CYNC_BLOCK_TIME_SECS = 120"
definition BTC_BLOCK_TIME_SECS :: nat where "BTC_BLOCK_TIME_SECS = 600"
definition SAFETY_MARGIN_NUMERATOR :: nat where "SAFETY_MARGIN_NUMERATOR = 6"
definition SAFETY_MARGIN_DENOMINATOR :: nat where "SAFETY_MARGIN_DENOMINATOR = 5"

definition cync_timeout_secs :: "swap_parameters \<Rightarrow> nat" where
  "cync_timeout_secs p = saturating_mul u64_max (sp_cync_timeout_blocks p) CYNC_BLOCK_TIME_SECS"

definition btc_timeout_secs :: "swap_parameters \<Rightarrow> nat" where
  "btc_timeout_secs p = saturating_mul u64_max (sp_btc_timeout_blocks p) BTC_BLOCK_TIME_SECS"

definition is_timeout_safe :: "swap_parameters \<Rightarrow> bool" where
  "is_timeout_safe p =
     (let btc_secs = btc_timeout_secs p;
          margin_secs = saturating_mul u64_max btc_secs SAFETY_MARGIN_NUMERATOR div SAFETY_MARGIN_DENOMINATOR
      in margin_secs < cync_timeout_secs p)"

record swap =
  sw_id :: string
  sw_role :: swap_role
  sw_state :: swap_state
  sw_parameters :: swap_parameters

definition negotiate :: "string \<Rightarrow> swap_role \<Rightarrow> swap_parameters \<Rightarrow> string + swap" where
  "negotiate i role params =
     (if \<not> is_timeout_safe params
      then Inl ''swap parameters violate timeout-safety: BTC timeout * margin >= CYNC timeout''
      else Inr \<lparr> sw_id = i, sw_role = role, sw_state = Negotiated, sw_parameters = params \<rparr>)"

text \<open>The destination of a transition: the match on transition, role and state.\<close>

definition next_state :: "swap_transition \<Rightarrow> swap_role \<Rightarrow> swap_state \<Rightarrow> swap_state option" where
  "next_state t r s =
     (case t of
        Abort \<Rightarrow> Some Aborted
      | AliceLocksCync \<Rightarrow> if r = Alice \<and> s = Negotiated then Some AliceLocked else None
      | AliceClaimsBtc \<Rightarrow> if r = Alice \<and> s = BobLocked then Some SecretRevealed else None
      | AliceRefunds \<Rightarrow> if r = Alice \<and> (s = AliceLocked \<or> s = BobLocked) then Some Refunded else None
      | ObserveBobLocked \<Rightarrow> if r = Alice \<and> s = AliceLocked then Some BobLocked else None
      | BobLocksBtc \<Rightarrow> if r = Bob \<and> s = AliceLocked then Some BobLocked else None
      | BobClaimsCync \<Rightarrow> if r = Bob \<and> s = SecretRevealed then Some Completed else None
      | BobRefunds \<Rightarrow> if r = Bob \<and> s = BobLocked then Some Refunded else None
      | ObserveAliceLocked \<Rightarrow> if r = Bob \<and> s = Negotiated then Some AliceLocked else None
      | ObserveSecretRevealed \<Rightarrow> if r = Bob \<and> s = BobLocked then Some SecretRevealed else None
      | ObserveCompleted \<Rightarrow> if r = Bob \<and> s = SecretRevealed then Some Completed else None)"

definition illegal_message :: "swap_role \<Rightarrow> swap_transition \<Rightarrow> string" where
  "illegal_message r t =
     (if r = Alice \<and> t = BobLocksBtc then ''BobLocksBtc is Bob's transition; Alice cannot apply it''
      else if r = Bob \<and> t = AliceLocksCync then ''AliceLocksCync is Alice's transition; Bob cannot apply it''
      else if r = Bob \<and> t = AliceClaimsBtc then ''AliceClaimsBtc is Alice's transition; Bob cannot apply it''
      else if r = Alice \<and> t = BobClaimsCync then ''BobClaimsCync is Bob's transition; Alice cannot apply it''
      else if r = Alice \<and> t = BobRefunds then ''BobRefunds is Bob's transition; Alice cannot apply it''
      else if r = Bob \<and> t = AliceRefunds then ''AliceRefunds is Alice's transition; Bob cannot apply it''
      else ''transition not legal for this (role, state) pair'')"

definition terminal_message :: "swap_state \<Rightarrow> string" where
  "terminal_message s = (case s of Completed \<Rightarrow> ''swap is Completed; no further transitions''
     | Refunded \<Rightarrow> ''swap is Refunded; no further transitions''
     | _ \<Rightarrow> ''swap is Aborted; no further transitions'')"

definition swap_apply :: "swap_transition \<Rightarrow> swap \<Rightarrow> (string + unit) \<times> swap" where
  "swap_apply t sw =
     (if is_terminal (sw_state sw) then (Inl (terminal_message (sw_state sw)), sw)
      else case next_state t (sw_role sw) (sw_state sw) of
             None \<Rightarrow> (Inl (illegal_message (sw_role sw) t), sw)
           | Some s \<Rightarrow> (Inr (), sw \<lparr> sw_state := s \<rparr>))"

definition legal_transitions :: "swap \<Rightarrow> swap_transition list" where
  "legal_transitions sw =
     (if is_terminal (sw_state sw) then []
      else Abort # (case (sw_role sw, sw_state sw) of
          (Alice, Negotiated) \<Rightarrow> [AliceLocksCync]
        | (Alice, AliceLocked) \<Rightarrow> [ObserveBobLocked, AliceRefunds]
        | (Alice, BobLocked) \<Rightarrow> [AliceClaimsBtc, AliceRefunds]
        | (Bob, Negotiated) \<Rightarrow> [ObserveAliceLocked]
        | (Bob, AliceLocked) \<Rightarrow> [BobLocksBtc]
        | (Bob, BobLocked) \<Rightarrow> [ObserveSecretRevealed, BobRefunds]
        | (Bob, SecretRevealed) \<Rightarrow> [BobClaimsCync]
        | _ \<Rightarrow> []))"

definition is_completed :: "swap \<Rightarrow> bool" where
  "is_completed sw = (sw_state sw = Completed)"

section \<open>The state file (state.rs)\<close>

definition STATE_VERSION :: nat where "STATE_VERSION = 2"
definition HMAC_KEY_LEN :: nat where "HMAC_KEY_LEN = 32"

record state_file_body =
  sb_version :: nat
  sb_saved_at :: nat
  sb_swap :: swap

record state_file_envelope =
  se_body :: state_file_body
  se_hmac :: string

datatype state_error = Io | Json | UnsupportedVersion nat nat | HmacKeyMissing string | IntegrityFailure

text \<open>Serde: encoding of bodies and envelopes, the parser that reads only the version, the parser of envelopes; and
  \<open>compute_hmac_hex\<close>.\<close>

record swap_codec =
  body_to_vec :: "state_file_body \<Rightarrow> bytes"
  env_to_vec :: "state_file_envelope \<Rightarrow> bytes"
  version_of_slice :: "bytes \<Rightarrow> nat option"
  env_of_slice :: "bytes \<Rightarrow> state_file_envelope option"
  hmac_hex :: "bytes \<Rightarrow> bytes \<Rightarrow> string"

text \<open>What the code relies on: serde parses what it printed. (The numbers of the model are unbounded; for those the
  program can hold, this is what serde does.)\<close>

definition codec_ok :: "swap_codec \<Rightarrow> bool" where
  "codec_ok cd = (\<forall>e. version_of_slice cd (env_to_vec cd e) = Some (sb_version (se_body e))
      \<and> env_of_slice cd (env_to_vec cd e) = Some e)"

subsection \<open>Paths\<close>

text \<open>A path is its last component, in one directory. \<open>file_parts\<close> is the standard library's split of a file name into stem and
  extension at the last dot; a name whose only dot is the first character has no extension.\<close>

definition file_parts :: "string \<Rightarrow> string \<times> string option" where
  "file_parts name =
     (let r = rev name; ext = rev (takeWhile (\<lambda>c. c \<noteq> CHR ''.'') r); rest = dropWhile (\<lambda>c. c \<noteq> CHR ''.'') r
      in if rest = [] \<or> tl rest = [] then (name, None) else (rev (tl rest), Some ext))"

definition set_extension :: "string \<Rightarrow> string \<Rightarrow> string" where
  "set_extension name ext = fst (file_parts name) @ ''.'' @ ext"

definition hmac_key_path :: "string \<Rightarrow> string" where
  "hmac_key_path path = set_extension path
     (case snd (file_parts path) of Some ext \<Rightarrow> ext @ ''.hmac-key'' | None \<Rightarrow> ''hmac-key'')"

definition tmp_path_for :: "string \<Rightarrow> string" where
  "tmp_path_for path = set_extension path
     (case snd (file_parts path) of Some ext \<Rightarrow> ext @ ''.tmp'' | None \<Rightarrow> ''tmp'')"

subsection \<open>Saving and loading\<close>

type_synonym files = "string \<Rightarrow> bytes option"

text \<open>\<open>read_exact\<close> fails on a file that is too short and ignores what follows the key.\<close>

definition read_hmac_key :: "string \<Rightarrow> files \<Rightarrow> state_error + bytes" where
  "read_hmac_key key_path fs =
     (case fs key_path of
        None \<Rightarrow> Inl Io
      | Some b \<Rightarrow> if length b < HMAC_KEY_LEN then Inl Io else Inr (take HMAC_KEY_LEN b))"

text \<open>Creating a file and writing its contents passes through every prefix of the contents.\<close>

definition write_states :: "string \<Rightarrow> bytes \<Rightarrow> files \<Rightarrow> files list" where
  "write_states f content fs = map (\<lambda>k. fs(f \<mapsto> take k content)) [0..<length content + 1]"

text \<open>The states of the directory that a call passes through, the first being the one it starts in. They are the states
  other processes, and the same program after a crash of the process, see; \<open>sync_all\<close>, which orders them for a loss of
  power, and the creation of the parent directory are not modelled.\<close>

definition read_or_create_hmac_key :: "bytes \<Rightarrow> string \<Rightarrow> files \<Rightarrow> (state_error + bytes) \<times> files list" where
  "read_or_create_hmac_key random key_path fs =
     (if fs key_path \<noteq> None then (read_hmac_key key_path fs, [fs])
      else (Inr random, fs # write_states key_path random fs))"

definition rename_file :: "string \<Rightarrow> string \<Rightarrow> files \<Rightarrow> files" where
  "rename_file src dst fs = (if src = dst then fs else (fs(dst := fs src))(src := None))"

definition save_states :: "swap_codec \<Rightarrow> bytes \<Rightarrow> nat \<Rightarrow> string \<Rightarrow> swap \<Rightarrow> files \<Rightarrow> (state_error + unit) \<times> files list" where
  "save_states cd random now path sw fs =
     (let body = \<lparr> sb_version = STATE_VERSION, sb_saved_at = now, sb_swap = sw \<rparr>;
          body_bytes = body_to_vec cd body
      in case read_or_create_hmac_key random (hmac_key_path path) fs of
           (Inl e, ss) \<Rightarrow> (Inl e, ss)
         | (Inr key, ss) \<Rightarrow>
             let envelope = \<lparr> se_body = body, se_hmac = hmac_hex cd key body_bytes \<rparr>;
                 ws = write_states (tmp_path_for path) (env_to_vec cd envelope) (last ss)
             in (Inr (), ss @ ws @ [rename_file (tmp_path_for path) path (last ws)]))"

text \<open>\<open>save\<close> runs through these states. An I/O error after \<open>k\<close> of them ends it there.\<close>

definition swap_save :: "swap_codec \<Rightarrow> nat option \<Rightarrow> bytes \<Rightarrow> nat \<Rightarrow> string \<Rightarrow> swap \<Rightarrow> files \<Rightarrow> (state_error + unit) \<times> files" where
  "swap_save cd fail random now path sw fs =
     (case save_states cd random now path sw fs of
        (r, ss) \<Rightarrow> (case fail of
            None \<Rightarrow> (r, last ss)
          | Some k \<Rightarrow> if k < length ss then (Inl Io, ss ! k) else (r, last ss)))"

definition swap_load :: "swap_codec \<Rightarrow> string \<Rightarrow> files \<Rightarrow> state_error + swap option" where
  "swap_load cd path fs =
     (case fs path of
        None \<Rightarrow> Inr None
      | Some buf \<Rightarrow>
          (case version_of_slice cd buf of
             None \<Rightarrow> Inl Json
           | Some v \<Rightarrow>
               if v \<noteq> STATE_VERSION then Inl (UnsupportedVersion v STATE_VERSION)
               else case env_of_slice cd buf of
                 None \<Rightarrow> Inl Json
               | Some envelope \<Rightarrow>
                   if fs (hmac_key_path path) = None then Inl (HmacKeyMissing (hmac_key_path path))
                   else case read_hmac_key (hmac_key_path path) fs of
                     Inl e \<Rightarrow> Inl e
                   | Inr key \<Rightarrow>
                       if hmac_hex cd key (body_to_vec cd (se_body envelope)) \<noteq> se_hmac envelope
                       then Inl IntegrityFailure
                       else Inr (Some (sb_swap (se_body envelope)))))"

definition swap_delete :: "string \<Rightarrow> files \<Rightarrow> files" where
  "swap_delete path fs = fs(path := None)"

definition store_exists :: "string \<Rightarrow> files \<Rightarrow> bool" where
  "store_exists path fs = (fs path \<noteq> None)"

section \<open>The command line tool (bin/cyncswap.rs)\<close>

record refund_branch =
  rb_bob_pubkey :: bytes
  rb_csv_blocks :: nat

record claim_tx_base =
  cb_lock_txid :: bytes
  cb_lock_vout :: nat
  cb_lock_value_sats :: nat
  cb_lock_internal_key :: bytes
  cb_refund_branch :: "refund_branch option"
  cb_dest_address :: string
  cb_fee_sats :: nat

text \<open>What a command sees of its surroundings: the codec, hex decoding of an argument after trimming, the node it
  broadcasts to (whether the node takes the transaction, and what the client is told: a timeout or an answer it cannot
  decode is an error although the transaction may be on its way), the check of a claim transaction against the swap (\<open>btc.rs\<close>), the clock, fresh random bytes,
  and the point at which writing the state file fails, if it does.\<close>

record cli_env =
  ce_codec :: swap_codec
  ce_unhex :: "string \<Rightarrow> bytes option"
  ce_broadcast :: "bytes \<Rightarrow> bool \<times> (string + string)"
  ce_validate_claim :: "claim_tx_base \<Rightarrow> bytes \<Rightarrow> string + unit"
  ce_rpc_user :: "string option"
  ce_rpc_pass :: "string option"
  ce_now :: nat
  ce_random :: bytes
  ce_disk_fails_at :: "nat option"

text \<open>One party: the directory with its state file, and the transactions of its commands that a node has taken, newest
  first.\<close>

record party =
  pa_files :: files
  pa_sent :: "(swap_transition \<times> bytes) list"

definition DEFAULT_CYNC_TIMEOUT_BLOCKS :: nat where "DEFAULT_CYNC_TIMEOUT_BLOCKS = 720"
definition DEFAULT_BTC_TIMEOUT_BLOCKS :: nat where "DEFAULT_BTC_TIMEOUT_BLOCKS = 100"

definition default_params :: "nat \<Rightarrow> nat \<Rightarrow> string \<Rightarrow> string \<Rightarrow> swap_parameters" where
  "default_params cync btc alice_addr bob_addr =
     \<lparr> sp_cync_amount = cync, sp_btc_amount_sats = btc,
       sp_cync_timeout_blocks = DEFAULT_CYNC_TIMEOUT_BLOCKS, sp_btc_timeout_blocks = DEFAULT_BTC_TIMEOUT_BLOCKS,
       sp_alice_cync_address = alice_addr, sp_bob_btc_address = bob_addr,
       sp_cync_network = ''unknown'', sp_btc_network = ''unknown'' \<rparr>"

text \<open>\<open>store.save(..).map_err(..)?\<close>\<close>

definition save_party :: "cli_env \<Rightarrow> string \<Rightarrow> swap \<Rightarrow> party \<Rightarrow> (string + unit) \<times> party" where
  "save_party env path sw w =
     (case swap_save (ce_codec env) (ce_disk_fails_at env) (ce_random env) (ce_now env) path sw (pa_files w) of
        (Inl e, fs) \<Rightarrow> (Inl ''save failed'', w \<lparr> pa_files := fs \<rparr>)
      | (Inr _, fs) \<Rightarrow> (Inr (), w \<lparr> pa_files := fs \<rparr>))"

definition init_cmd ::
    "swap_role \<Rightarrow> cli_env \<Rightarrow> string \<Rightarrow> nat \<Rightarrow> nat \<Rightarrow> string \<Rightarrow> string \<Rightarrow> string \<Rightarrow> party \<Rightarrow> (string + unit) \<times> party" where
  "init_cmd role env swap_id cync btc alice_addr bob_addr path w =
     (if cync = 0 then (Inl ''--cync-amount must be > 0 (zero-amount swap is meaningless)'', w)
      else if btc = 0 then (Inl ''--btc-amount-sats must be > 0 (zero-amount swap is meaningless)'', w)
      else if store_exists path (pa_files w) then (Inl ''state file already exists; refusing to overwrite'', w)
      else case negotiate swap_id role (default_params cync btc alice_addr bob_addr) of
        Inl e \<Rightarrow> (Inl (''swap construction failed: '' @ e), w)
      | Inr sw \<Rightarrow> save_party env path sw w)"

definition alice_cmd :: "cli_env \<Rightarrow> string \<Rightarrow> nat \<Rightarrow> nat \<Rightarrow> string \<Rightarrow> string \<Rightarrow> string \<Rightarrow> party \<Rightarrow> (string + unit) \<times> party" where
  "alice_cmd = init_cmd Alice"

definition bob_cmd :: "cli_env \<Rightarrow> string \<Rightarrow> nat \<Rightarrow> nat \<Rightarrow> string \<Rightarrow> string \<Rightarrow> string \<Rightarrow> party \<Rightarrow> (string + unit) \<times> party" where
  "bob_cmd = init_cmd Bob"

text \<open>The first lines of every other command: load the swap or fail.\<close>

definition load_party :: "cli_env \<Rightarrow> string \<Rightarrow> party \<Rightarrow> string + swap" where
  "load_party env path w =
     (case swap_load (ce_codec env) path (pa_files w) of
        Inl e \<Rightarrow> Inl ''load failed''
      | Inr None \<Rightarrow> Inl ''no swap state''
      | Inr (Some sw) \<Rightarrow> Inr sw)"

definition cancel_cmd :: "cli_env \<Rightarrow> string \<Rightarrow> party \<Rightarrow> (string + unit) \<times> party" where
  "cancel_cmd env path w =
     (case load_party env path w of
        Inl e \<Rightarrow> (Inl e, w)
      | Inr sw \<Rightarrow>
          if is_terminal (sw_state sw) then (Inl ''swap is already in terminal state; cannot cancel.'', w)
          else case swap_apply Abort sw of
            (Inl e, _) \<Rightarrow> (Inl (''abort transition rejected: '' @ e), w)
          | (Inr _, sw) \<Rightarrow> save_party env path sw w)"

datatype transition_kind = KObserveBobLocked | KObserveAliceLocked | KObserveSecretRevealed | KObserveCompleted

fun to_protocol :: "transition_kind \<Rightarrow> swap_transition" where
  "to_protocol KObserveBobLocked = ObserveBobLocked"
| "to_protocol KObserveAliceLocked = ObserveAliceLocked"
| "to_protocol KObserveSecretRevealed = ObserveSecretRevealed"
| "to_protocol KObserveCompleted = ObserveCompleted"

definition transition_cmd :: "cli_env \<Rightarrow> string \<Rightarrow> transition_kind \<Rightarrow> party \<Rightarrow> (string + unit) \<times> party" where
  "transition_cmd env path kind w =
     (case load_party env path w of
        Inl e \<Rightarrow> (Inl e, w)
      | Inr sw \<Rightarrow>
          (case swap_apply (to_protocol kind) sw of
             (Inl e, _) \<Rightarrow> (Inl (''apply: '' @ e), w)
           | (Inr _, sw) \<Rightarrow> save_party env path sw w))"

definition build_btc_rpc_config :: "cli_env \<Rightarrow> string + unit" where
  "build_btc_rpc_config env =
     (case (ce_rpc_user env, ce_rpc_pass env) of
        (Some _, Some _) \<Rightarrow> Inr ()
      | (None, None) \<Rightarrow> Inr ()
      | (Some _, None) \<Rightarrow> Inl ''--rpc-user supplied without --rpc-pass''
      | (None, Some _) \<Rightarrow> Inl ''--rpc-pass supplied without --rpc-user'')"

definition parse_tx_hex :: "cli_env \<Rightarrow> string \<Rightarrow> string + bytes" where
  "parse_tx_hex env signed_tx_hex =
     (case ce_unhex env signed_tx_hex of
        None \<Rightarrow> Inl ''signed-tx-hex: not valid hex''
      | Some tx \<Rightarrow> if tx = [] then Inl ''signed-tx-hex: empty transaction bytes'' else Inr tx)"

text \<open>The common end of the six commands that act on a chain: broadcast, then transition, then save. A command that is
  killed after the broadcast leaves the same files as one whose save fails before its first write
  (\<open>ce_disk_fails_at = Some 0\<close>).\<close>

definition broadcast_apply_save :: "cli_env \<Rightarrow> string \<Rightarrow> swap_transition \<Rightarrow> bytes \<Rightarrow> swap \<Rightarrow> party \<Rightarrow> (string + unit) \<times> party" where
  "broadcast_apply_save env path t tx sw w =
     (case ce_broadcast env tx of
        (taken, answer) \<Rightarrow>
          let w = (if taken then w \<lparr> pa_sent := (t, tx) # pa_sent w \<rparr> else w)
          in case answer of
               Inl e \<Rightarrow> (Inl (''broadcast: '' @ e), w)
             | Inr txid \<Rightarrow>
                 (case swap_apply t sw of
                    (Inl e, _) \<Rightarrow> (Inl (''apply: '' @ e), w)
                  | (Inr _, sw) \<Rightarrow> save_party env path sw w))"

definition lock_btc_orchestration_cmd :: "cli_env \<Rightarrow> string \<Rightarrow> string \<Rightarrow> party \<Rightarrow> (string + unit) \<times> party" where
  "lock_btc_orchestration_cmd env path signed_tx_hex w =
     (case load_party env path w of
        Inl e \<Rightarrow> (Inl e, w)
      | Inr sw \<Rightarrow>
          if sw_role sw \<noteq> Bob then (Inl ''lock-btc is Bob's transition'', w)
          else if sw_state sw \<noteq> AliceLocked then (Inl ''lock-btc requires state AliceLocked'', w)
          else case parse_tx_hex env signed_tx_hex of
            Inl e \<Rightarrow> (Inl e, w)
          | Inr tx \<Rightarrow>
              (case build_btc_rpc_config env of
                 Inl e \<Rightarrow> (Inl e, w)
               | Inr _ \<Rightarrow> broadcast_apply_save env path BobLocksBtc tx sw w))"

text \<open>The arguments of \<open>claim-btc\<close> that describe the output to claim.\<close>

record claim_args =
  ca_lock_txid_hex :: string
  ca_lock_vout :: nat
  ca_lock_internal_key_hex :: string
  ca_dest_address :: string
  ca_fee_sats :: nat
  ca_refund_bob_pubkey_hex :: "string option"
  ca_refund_csv_blocks :: "nat option"

definition parse_hex_32 :: "cli_env \<Rightarrow> string \<Rightarrow> string \<Rightarrow> string + bytes" where
  "parse_hex_32 env label hex_in =
     (case ce_unhex env hex_in of
        None \<Rightarrow> Inl (label @ '': not valid hex'')
      | Some b \<Rightarrow> if length b \<noteq> 32 then Inl (label @ '': expected 32 bytes'') else Inr b)"

definition parse_refund_branch_flags :: "cli_env \<Rightarrow> string option \<Rightarrow> nat option \<Rightarrow> string + refund_branch option" where
  "parse_refund_branch_flags env bob_pubkey_hex csv_blocks =
     (case (bob_pubkey_hex, csv_blocks) of
        (Some pk_hex, Some csv) \<Rightarrow>
          map_sum id (\<lambda>pk. Some \<lparr> rb_bob_pubkey = pk, rb_csv_blocks = csv \<rparr>) (parse_hex_32 env ''refund-bob-pubkey'' pk_hex)
      | (Some _, None) \<Rightarrow> Inl ''--refund-bob-pubkey supplied without --refund-csv-blocks''
      | (None, Some _) \<Rightarrow> Inl ''--refund-csv-blocks supplied without --refund-bob-pubkey''
      | (None, None) \<Rightarrow> Inr None)"

definition parse_claim_tx_base :: "cli_env \<Rightarrow> claim_args \<Rightarrow> nat \<Rightarrow> string + claim_tx_base" where
  "parse_claim_tx_base env a value_sats =
     (case parse_hex_32 env ''lock-txid'' (ca_lock_txid_hex a) of
        Inl e \<Rightarrow> Inl e
      | Inr txid \<Rightarrow>
          (case parse_hex_32 env ''lock-internal-key'' (ca_lock_internal_key_hex a) of
             Inl e \<Rightarrow> Inl e
           | Inr key \<Rightarrow>
               map_sum id (\<lambda>branch. \<lparr> cb_lock_txid = txid, cb_lock_vout = ca_lock_vout a, cb_lock_value_sats = value_sats,
                   cb_lock_internal_key = key, cb_refund_branch = branch, cb_dest_address = ca_dest_address a,
                   cb_fee_sats = ca_fee_sats a \<rparr>)
                 (parse_refund_branch_flags env (ca_refund_bob_pubkey_hex a) (ca_refund_csv_blocks a))))"

definition claim_btc_orchestration_cmd ::
    "cli_env \<Rightarrow> string \<Rightarrow> claim_args \<Rightarrow> string \<Rightarrow> party \<Rightarrow> (string + unit) \<times> party" where
  "claim_btc_orchestration_cmd env path args signed_tx_hex w =
     (case load_party env path w of
        Inl e \<Rightarrow> (Inl e, w)
      | Inr sw \<Rightarrow>
          if sw_role sw \<noteq> Alice then (Inl ''claim-btc is Alice's transition'', w)
          else if sw_state sw \<noteq> BobLocked then (Inl ''claim-btc requires state BobLocked'', w)
          else case parse_tx_hex env signed_tx_hex of
            Inl e \<Rightarrow> (Inl e, w)
          | Inr tx \<Rightarrow>
              (case parse_claim_tx_base env args (sp_btc_amount_sats (sw_parameters sw)) of
                 Inl e \<Rightarrow> (Inl e, w)
               | Inr base \<Rightarrow>
                   (case build_btc_rpc_config env of
                      Inl e \<Rightarrow> (Inl e, w)
                    | Inr _ \<Rightarrow>
                        (case ce_validate_claim env base tx of
                           Inl e \<Rightarrow> (Inl (''signed claim does not match this swap: '' @ e), w)
                         | Inr _ \<Rightarrow> broadcast_apply_save env path AliceClaimsBtc tx sw w))))"

definition lock_cync_orchestration_cmd :: "cli_env \<Rightarrow> string \<Rightarrow> string \<Rightarrow> party \<Rightarrow> (string + unit) \<times> party" where
  "lock_cync_orchestration_cmd env path signed_tx_hex w =
     (case load_party env path w of
        Inl e \<Rightarrow> (Inl e, w)
      | Inr sw \<Rightarrow>
          if sw_role sw \<noteq> Alice then (Inl ''lock-cync is Alice's transition'', w)
          else if sw_state sw \<noteq> Negotiated then (Inl ''lock-cync requires state Negotiated'', w)
          else case parse_tx_hex env signed_tx_hex of
            Inl e \<Rightarrow> (Inl e, w)
          | Inr tx \<Rightarrow> broadcast_apply_save env path AliceLocksCync tx sw w)"

definition claim_cync_orchestration_cmd :: "cli_env \<Rightarrow> string \<Rightarrow> string \<Rightarrow> party \<Rightarrow> (string + unit) \<times> party" where
  "claim_cync_orchestration_cmd env path signed_tx_hex w =
     (case load_party env path w of
        Inl e \<Rightarrow> (Inl e, w)
      | Inr sw \<Rightarrow>
          if sw_role sw \<noteq> Bob then (Inl ''claim-cync is Bob's transition'', w)
          else if sw_state sw \<noteq> SecretRevealed then (Inl ''claim-cync requires state SecretRevealed'', w)
          else case parse_tx_hex env signed_tx_hex of
            Inl e \<Rightarrow> (Inl e, w)
          | Inr tx \<Rightarrow> broadcast_apply_save env path BobClaimsCync tx sw w)"

definition refund_btc_orchestration_cmd :: "cli_env \<Rightarrow> string \<Rightarrow> string \<Rightarrow> party \<Rightarrow> (string + unit) \<times> party" where
  "refund_btc_orchestration_cmd env path signed_tx_hex w =
     (case load_party env path w of
        Inl e \<Rightarrow> (Inl e, w)
      | Inr sw \<Rightarrow>
          if sw_role sw \<noteq> Bob then (Inl ''refund-btc is Bob's transition'', w)
          else if sw_state sw \<noteq> BobLocked then (Inl ''refund-btc requires state BobLocked'', w)
          else case parse_tx_hex env signed_tx_hex of
            Inl e \<Rightarrow> (Inl e, w)
          | Inr tx \<Rightarrow>
              (case build_btc_rpc_config env of
                 Inl e \<Rightarrow> (Inl e, w)
               | Inr _ \<Rightarrow> broadcast_apply_save env path BobRefunds tx sw w))"

definition refund_cync_orchestration_cmd :: "cli_env \<Rightarrow> string \<Rightarrow> string \<Rightarrow> party \<Rightarrow> (string + unit) \<times> party" where
  "refund_cync_orchestration_cmd env path signed_tx_hex w =
     (case load_party env path w of
        Inl e \<Rightarrow> (Inl e, w)
      | Inr sw \<Rightarrow>
          if sw_role sw \<noteq> Alice then (Inl ''refund-cync is Alice's transition'', w)
          else if sw_state sw \<noteq> AliceLocked \<and> sw_state sw \<noteq> BobLocked
          then (Inl ''refund-cync requires state AliceLocked or BobLocked'', w)
          else case parse_tx_hex env signed_tx_hex of
            Inl e \<Rightarrow> (Inl e, w)
          | Inr tx \<Rightarrow> broadcast_apply_save env path AliceRefunds tx sw w)"

datatype cli_command = CmdAlice string nat nat string string | CmdBob string nat nat string string | CmdCancel
  | CmdTransition transition_kind | CmdLockCync string | CmdLockBtc string | CmdClaimBtc claim_args string
  | CmdClaimCync string | CmdRefundBtc string | CmdRefundCync string

fun run_command :: "cli_env \<Rightarrow> string \<Rightarrow> cli_command \<Rightarrow> party \<Rightarrow> (string + unit) \<times> party" where
  "run_command env path (CmdAlice i c b a1 a2) w = alice_cmd env i c b a1 a2 path w"
| "run_command env path (CmdBob i c b a1 a2) w = bob_cmd env i c b a1 a2 path w"
| "run_command env path CmdCancel w = cancel_cmd env path w"
| "run_command env path (CmdTransition k) w = transition_cmd env path k w"
| "run_command env path (CmdLockCync h) w = lock_cync_orchestration_cmd env path h w"
| "run_command env path (CmdLockBtc h) w = lock_btc_orchestration_cmd env path h w"
| "run_command env path (CmdClaimBtc a h) w = claim_btc_orchestration_cmd env path a h w"
| "run_command env path (CmdClaimCync h) w = claim_cync_orchestration_cmd env path h w"
| "run_command env path (CmdRefundBtc h) w = refund_btc_orchestration_cmd env path h w"
| "run_command env path (CmdRefundCync h) w = refund_cync_orchestration_cmd env path h w"

section \<open>Properties of the state machine\<close>

lemma is_terminal_simps [simp]:
  "is_terminal Completed" "is_terminal Refunded" "is_terminal Aborted"
  "\<not> is_terminal Negotiated" "\<not> is_terminal AliceLocked" "\<not> is_terminal BobLocked" "\<not> is_terminal SecretRevealed"
  by (simp_all add: is_terminal_def)

lemma next_state_cases:
  assumes "next_state t r s = Some s'"
  obtains "t = Abort" "s' = Aborted"
  | "r = Alice" "s = Negotiated" "t = AliceLocksCync" "s' = AliceLocked"
  | "r = Alice" "s = BobLocked" "t = AliceClaimsBtc" "s' = SecretRevealed"
  | "r = Alice" "s = AliceLocked \<or> s = BobLocked" "t = AliceRefunds" "s' = Refunded"
  | "r = Alice" "s = AliceLocked" "t = ObserveBobLocked" "s' = BobLocked"
  | "r = Bob" "s = AliceLocked" "t = BobLocksBtc" "s' = BobLocked"
  | "r = Bob" "s = SecretRevealed" "t = BobClaimsCync \<or> t = ObserveCompleted" "s' = Completed"
  | "r = Bob" "s = BobLocked" "t = BobRefunds" "s' = Refunded"
  | "r = Bob" "s = Negotiated" "t = ObserveAliceLocked" "s' = AliceLocked"
  | "r = Bob" "s = BobLocked" "t = ObserveSecretRevealed" "s' = SecretRevealed"
  using assms by (cases t) (auto simp: next_state_def split: if_splits)

lemma swap_apply_ok:
  "swap_apply t sw = (Inr u, sw') \<longleftrightarrow> \<not> is_terminal (sw_state sw)
     \<and> (\<exists>s. next_state t (sw_role sw) (sw_state sw) = Some s \<and> sw' = sw \<lparr> sw_state := s \<rparr>)"
  by (auto simp: swap_apply_def split: option.splits)

lemma swap_apply_err: "swap_apply t sw = (Inl e, sw') \<Longrightarrow> sw' = sw"
  by (auto simp: swap_apply_def split: option.splits if_splits)

text \<open>The timeouts of a swap are safe exactly if the CYNC timeout is more than six times the BTC timeout, in blocks:
  no product saturates.\<close>

lemma is_timeout_safe_iff:
  assumes "params_wf p"
  shows "is_timeout_safe p \<longleftrightarrow> 6 * sp_btc_timeout_blocks p < sp_cync_timeout_blocks p"
proof -
  have "sp_btc_timeout_blocks p * 600 \<le> u64_max" "sp_cync_timeout_blocks p * 120 \<le> u64_max"
      "sp_btc_timeout_blocks p * 600 * 6 \<le> u64_max"
    using assms by (simp_all add: params_wf_def u64_max_def)
  then show ?thesis
    by (simp add: is_timeout_safe_def btc_timeout_secs_def cync_timeout_secs_def BTC_BLOCK_TIME_SECS_def
        CYNC_BLOCK_TIME_SECS_def SAFETY_MARGIN_NUMERATOR_def SAFETY_MARGIN_DENOMINATOR_def saturating_mul_def)
qed

text \<open>Applying a list of transitions, as a party does over the life of a swap; refused ones change nothing.\<close>

primrec apply_all :: "swap_transition list \<Rightarrow> swap \<Rightarrow> swap" where
  "apply_all [] sw = sw"
| "apply_all (t # ts) sw = apply_all ts (snd (swap_apply t sw))"

lemma apply_all_terminal: "is_terminal (sw_state sw) \<Longrightarrow> apply_all ts sw = sw"
  by (induction ts) (simp_all add: swap_apply_def)

lemma swap_apply_role: "sw_role (snd (swap_apply t sw)) = sw_role sw"
  by (simp add: swap_apply_def split: option.split)

lemma alice_never_completed:
  "sw_role sw = Alice \<Longrightarrow> sw_state sw \<noteq> Completed \<Longrightarrow> sw_state (apply_all ts sw) \<noteq> Completed"
proof (induction ts arbitrary: sw)
  case (Cons t ts)
  have "sw_state (snd (swap_apply t sw)) \<noteq> Completed"
    using Cons.prems by (auto simp: swap_apply_def split: option.splits elim: next_state_cases)
  with Cons show ?case by (simp add: swap_apply_role)
qed simp

lemma legal_transitions_iff:
  "t \<in> set (legal_transitions sw) \<or> t = ObserveCompleted \<and> sw_role sw = Bob \<and> sw_state sw = SecretRevealed
     \<longleftrightarrow> (\<exists>sw'. swap_apply t sw = (Inr (), sw'))"
  unfolding swap_apply_ok
  by (cases t; cases "sw_role sw"; cases "sw_state sw") (simp_all add: legal_transitions_def next_state_def)

section \<open>Properties of the state file\<close>

lemma file_parts_name:
  "file_parts name = (name, None) \<or> (\<exists>stem ext. file_parts name = (stem, Some ext) \<and> name = stem @ ''.'' @ ext)"
proof -
  let ?tw = "takeWhile (\<lambda>c. c \<noteq> CHR ''.'') (rev name)" and ?dw = "dropWhile (\<lambda>c. c \<noteq> CHR ''.'') (rev name)"
  have split: "rev name = ?tw @ ?dw" by simp
  show ?thesis
  proof (cases "?dw = [] \<or> tl ?dw = []")
    case False
    then have "hd ?dw = CHR ''.''" using hd_dropWhile by blast
    then have "?dw = CHR ''.'' # tl ?dw" using False by (metis list.collapse)
    with split have "rev name = ?tw @ CHR ''.'' # tl ?dw" by metis
    then have "name = rev (tl ?dw) @ ''.'' @ rev ?tw" by (metis (no_types, lifting) rev_rev_ident rev_append rev.simps(2) append_assoc)
    then show ?thesis using False by (simp add: file_parts_def Let_def)
  qed (auto simp: file_parts_def Let_def)
qed

lemma sidecar_names [simp]:
  "hmac_key_path path = path @ ''.hmac-key''" "tmp_path_for path = path @ ''.tmp''"
  using file_parts_name [of path] by (auto simp: hmac_key_path_def tmp_path_for_def set_extension_def)

lemma read_hmac_key_ok: "read_hmac_key k fs = Inr key \<longleftrightarrow> (\<exists>b. fs k = Some b \<and> HMAC_KEY_LEN \<le> length b \<and> key = take HMAC_KEY_LEN b)"
  by (auto simp: read_hmac_key_def split: option.splits)

lemma swap_load_cong:
  "fs path = fs' path \<Longrightarrow> fs (hmac_key_path path) = fs' (hmac_key_path path) \<Longrightarrow> swap_load cd path fs = swap_load cd path fs'"
  unfolding swap_load_def read_hmac_key_def by (simp only:)

lemma last_write_states [simp]: "last (write_states f c fs) = fs(f \<mapsto> c)" "write_states f c fs \<noteq> []"
  by (simp_all add: write_states_def)

lemma write_states_other: "fs' \<in> set (write_states f c fs) \<Longrightarrow> g \<noteq> f \<Longrightarrow> fs' g = fs g"
  by (auto simp: write_states_def)

text \<open>The key in use is in the sidecar whenever \<open>read_or_create_hmac_key\<close> hands one out.\<close>

lemma read_or_create_states:
  assumes "read_or_create_hmac_key random k fs = (r, ss)"
  shows "ss \<noteq> [] \<and> (\<forall>fs' \<in> set ss. \<forall>g. g \<noteq> k \<longrightarrow> fs' g = fs g) \<and> (fs k \<noteq> None \<longrightarrow> ss = [fs])
    \<and> (\<forall>key. r = Inr key \<longrightarrow> length random = HMAC_KEY_LEN \<longrightarrow> read_hmac_key k (last ss) = Inr key)"
  using assms
  by (auto simp: read_or_create_hmac_key_def read_hmac_key_def write_states_other split: if_splits)

lemma load_saved:
  assumes cd: "codec_ok cd" and len: "length random = HMAC_KEY_LEN"
    and s: "save_states cd random now path sw fs = (Inr (), ss)"
  shows "swap_load cd path (last ss) = Inr (Some sw)"
proof -
  let ?k = "path @ ''.hmac-key''" and ?t = "path @ ''.tmp''"
  from s obtain key ss0 where k: "read_or_create_hmac_key random ?k fs = (Inr key, ss0)"
    and ss: "last ss = rename_file ?t path ((last ss0)(?t \<mapsto> env_to_vec cd
        \<lparr> se_body = \<lparr> sb_version = STATE_VERSION, sb_saved_at = now, sb_swap = sw \<rparr>,
          se_hmac = hmac_hex cd key (body_to_vec cd \<lparr> sb_version = STATE_VERSION, sb_saved_at = now, sb_swap = sw \<rparr>) \<rparr>))"
    by (auto simp: save_states_def Let_def split: prod.splits sum.splits)
  from read_or_create_states [OF k] len have key: "read_hmac_key ?k (last ss0) = Inr key" by blast
  then have "read_hmac_key ?k (last ss) = Inr key" "last ss ?k \<noteq> None"
    unfolding ss by (auto simp: rename_file_def read_hmac_key_def split: option.splits)
  moreover have "last ss path = Some (env_to_vec cd
        \<lparr> se_body = \<lparr> sb_version = STATE_VERSION, sb_saved_at = now, sb_swap = sw \<rparr>,
          se_hmac = hmac_hex cd key (body_to_vec cd \<lparr> sb_version = STATE_VERSION, sb_saved_at = now, sb_swap = sw \<rparr>) \<rparr>)"
    unfolding ss by (simp add: rename_file_def)
  ultimately show ?thesis using cd by (simp add: swap_load_def codec_ok_def)
qed

lemma save_states_nonempty: "save_states cd random now path sw fs = (r, ss) \<Longrightarrow> ss \<noteq> []"
  using read_or_create_states [of random "path @ ''.hmac-key''" fs]
  by (auto simp: save_states_def Let_def split: prod.splits sum.splits)

text \<open>Before the rename, the state file and a key that was there are untouched.\<close>

lemma save_states_before:
  assumes "save_states cd random now path sw fs = (r, ss)" and "fs' \<in> set (butlast ss)"
  shows "fs' path = fs path \<and> (fs (path @ ''.hmac-key'') \<noteq> None \<longrightarrow> fs' (path @ ''.hmac-key'') = fs (path @ ''.hmac-key''))"
proof -
  let ?k = "path @ ''.hmac-key''"
  obtain r0 ss0 where k: "read_or_create_hmac_key random ?k fs = (r0, ss0)" by fastforce
  have same: "f path = fs path \<and> (fs ?k \<noteq> None \<longrightarrow> f ?k = fs ?k)" if "f \<in> set ss0" for f
  proof -
    have "f path = fs path" using read_or_create_states [OF k] that by force
    moreover have "f = fs" if "fs ?k \<noteq> None" using read_or_create_states [OF k] that \<open>f \<in> set ss0\<close> by auto
    ultimately show ?thesis by blast
  qed
  have ne: "ss0 \<noteq> []" using read_or_create_states [OF k] by blast
  have "fs' \<in> set ss0 \<or> (\<exists>c. fs' \<in> set (write_states (path @ ''.tmp'') c (last ss0)))"
  proof (cases r0)
    case (Inl e)
    then have "ss = ss0" using assms(1) k by (simp add: save_states_def Let_def)
    then show ?thesis using assms(2) by (blast dest: in_set_butlastD)
  next
    case (Inr key)
    have "save_states cd random now path sw fs = (r, ss)" by (rule assms(1))
    then have "\<exists>c x. ss0 @ write_states (path @ ''.tmp'') c (last ss0) @ [x] = ss"
      unfolding save_states_def Let_def sidecar_names k Inr prod.case sum.case prod.inject by (elim conjE) (intro exI)
    then obtain c x where "ss0 @ write_states (path @ ''.tmp'') c (last ss0) @ [x] = ss" by blast
    from arg_cong [OF this, of butlast] have "butlast ss = ss0 @ write_states (path @ ''.tmp'') c (last ss0)" by (simp add: butlast_append)
    then show ?thesis using assms(2) by auto
  qed
  then show ?thesis
  proof
    assume "fs' \<in> set ss0"
    then show ?thesis by (rule same)
  next
    assume "\<exists>c. fs' \<in> set (write_states (path @ ''.tmp'') c (last ss0))"
    then have "fs' path = last ss0 path" "fs' ?k = last ss0 ?k" by (auto simp: write_states_other)
    then show ?thesis using same [of "last ss0"] ne by simp
  qed
qed

lemma load_some_key: "swap_load cd path fs = Inr (Some sw) \<Longrightarrow> fs (path @ ''.hmac-key'') \<noteq> None"
  by (auto simp: swap_load_def split: option.splits if_splits sum.splits)

lemma save_states_load:
  assumes cd: "codec_ok cd" and len: "length random = HMAC_KEY_LEN" and old: "swap_load cd path fs = Inr old"
    and s: "save_states cd random now path sw fs = (r, ss)" and fs': "fs' \<in> set ss"
  shows "swap_load cd path fs' = Inr old \<or> fs' = last ss \<and> r = Inr () \<and> swap_load cd path fs' = Inr (Some sw)"
proof (cases "fs' \<in> set (butlast ss) \<or> r \<noteq> Inr ()")
  case True
  have "fs' path = fs path \<and> (fs (path @ ''.hmac-key'') \<noteq> None \<longrightarrow> fs' (path @ ''.hmac-key'') = fs (path @ ''.hmac-key''))"
  proof (cases "fs' \<in> set (butlast ss)")
    case True
    with save_states_before [OF s] show ?thesis by blast
  next
    case False
    with True have "\<exists>e. r = Inl e" by (cases r) auto
    then have "ss = [fs]" using s
      by (auto simp: save_states_def Let_def read_or_create_hmac_key_def split: sum.splits if_splits)
    with fs' show ?thesis by simp
  qed
  moreover have "old = None \<Longrightarrow> fs path = None" using old
    by (auto simp: swap_load_def split: option.splits if_splits sum.splits)
  moreover have "old \<noteq> None \<Longrightarrow> fs (path @ ''.hmac-key'') \<noteq> None" using old load_some_key by auto
  ultimately have "swap_load cd path fs' = Inr old"
    using old swap_load_cong [of fs' path fs cd] by (cases old) (auto simp: swap_load_def)
  then show ?thesis ..
next
  case False
  have "ss = butlast ss @ [last ss]" using save_states_nonempty [OF s] by simp
  with fs' False have "fs' = last ss" by (metis (no_types) Un_iff set_append set_ConsD empty_iff empty_set)
  then show ?thesis using False load_saved [OF cd len, of now path sw fs ss] s by auto
qed

section \<open>Properties of the commands\<close>

definition env_ok :: "swap_codec \<Rightarrow> bool \<Rightarrow> cli_env \<Rightarrow> bool" where
  "env_ok cd flaky env = (codec_ok cd \<and> ce_codec env = cd \<and> length (ce_random env) = HMAC_KEY_LEN
     \<and> (\<forall>tx txid. snd (ce_broadcast env tx) = Inr txid \<longrightarrow> fst (ce_broadcast env tx))
     \<and> (flaky \<or> ce_disk_fails_at env = None \<and> (\<forall>tx e. snd (ce_broadcast env tx) = Inl e \<longrightarrow> \<not> fst (ce_broadcast env tx))))"

definition party_swap :: "swap_codec \<Rightarrow> string \<Rightarrow> party \<Rightarrow> state_error + swap option" where
  "party_swap cd path w = swap_load cd path (pa_files w)"

definition sent_kinds :: "party \<Rightarrow> swap_transition list" where
  "sent_kinds w = rev (map fst (pa_sent w))"

lemma party_swap_sent [simp]: "party_swap cd path (w \<lparr> pa_sent := x \<rparr>) = party_swap cd path w"
  by (simp add: party_swap_def)

lemma load_party_ok: "load_party env path w = Inr sw \<longleftrightarrow> party_swap (ce_codec env) path w = Inr (Some sw)"
  by (auto simp: load_party_def party_swap_def split: sum.splits option.splits)

text \<open>After a save the file holds the new swap or, if the disk failed, the old one; a file that could not be trusted
  before cannot appear.\<close>

lemma swap_save_load:
  assumes "codec_ok cd" "length random = HMAC_KEY_LEN" "swap_load cd path fs = Inr old"
    and "swap_save cd fail random now path sw fs = (r, fs')"
  shows "swap_load cd path fs' = Inr (Some sw) \<or> swap_load cd path fs' = Inr old \<and> (fail = None \<longrightarrow> (\<exists>e. r = Inl e))"
proof -
  obtain r0 ss where s: "save_states cd random now path sw fs = (r0, ss)" by fastforce
  have ne: "ss \<noteq> []" by (rule save_states_nonempty [OF s])
  show ?thesis
  proof (cases "fail = None \<or> (\<exists>k. fail = Some k \<and> length ss \<le> k)")
    case True
    then have "r = r0" "fs' = last ss" using assms(4) s by (auto simp: swap_save_def)
    then show ?thesis using save_states_load [OF assms(1-3) s, of "last ss"] load_saved [OF assms(1,2), of now path sw fs ss] ne s
      by (cases r0) auto
  next
    case False
    then obtain k where "fail = Some k" "k < length ss" by (cases fail) (auto simp: not_le)
    then have "fs' = ss ! k" "ss ! k \<in> set ss" using assms(4) s by (auto simp: swap_save_def)
    then show ?thesis using save_states_load [OF assms(1-3) s, of fs'] \<open>fail = Some k\<close> by auto
  qed
qed

text \<open>A sidecar that a healthy disk wrote is complete, so a save on a healthy disk succeeds.\<close>

lemma swap_save_ok:
  assumes "swap_load cd path fs = Inr (Some old)"
  shows "fst (swap_save cd None random now path sw fs) = Inr ()"
proof -
  from assms obtain key where "read_hmac_key (path @ ''.hmac-key'') fs = Inr key" "fs (path @ ''.hmac-key'') \<noteq> None"
    by (auto simp: swap_load_def split: option.splits if_splits sum.splits)
  then show ?thesis by (simp add: swap_save_def save_states_def read_or_create_hmac_key_def Let_def)
qed

lemma save_party_effect:
  assumes "env_ok cd flaky env" "party_swap cd path w = Inr (Some old)" "save_party env path sw w = (r, w')"
  shows "pa_sent w' = pa_sent w
    \<and> (party_swap cd path w' = Inr (Some sw) \<or> flaky \<and> party_swap cd path w' = Inr (Some old))"
proof -
  obtain r0 fs' where s: "swap_save cd (ce_disk_fails_at env) (ce_random env) (ce_now env) path sw (pa_files w) = (r0, fs')"
    by fastforce
  then have w': "w' = w \<lparr> pa_files := fs' \<rparr>" using assms(1,3) by (auto simp: save_party_def env_ok_def split: sum.splits)
  have load: "swap_load cd path (pa_files w) = Inr (Some old)" using assms(2) by (simp add: party_swap_def)
  have "r0 = Inr ()" if "ce_disk_fails_at env = None" using swap_save_ok [OF load] s that by (metis fst_conv)
  then have "swap_load cd path fs' = Inr (Some sw) \<or> swap_load cd path fs' = Inr (Some old) \<and> ce_disk_fails_at env \<noteq> None"
    using swap_save_load [OF _ _ load s] assms(1) by (auto simp: env_ok_def)
  then show ?thesis using assms(1) w' by (auto simp: party_swap_def env_ok_def)
qed

lemma init_cmd_effect:
  assumes "env_ok cd flaky env" "party_swap cd path w = Inr old" "init_cmd role env i c b a1 a2 path w = (r, w')"
  shows "pa_sent w' = pa_sent w
    \<and> (party_swap cd path w' = Inr old
       \<or> old = None \<and> (\<exists>sw. party_swap cd path w' = Inr (Some sw) \<and> sw_role sw = role \<and> sw_state sw = Negotiated))"
proof (cases "w' = w")
  case False
  then obtain sw where sw: "save_party env path sw w = (r, w')" "pa_files w path = None" "sw_role sw = role" "sw_state sw = Negotiated"
    using assms(3) by (auto simp: init_cmd_def store_exists_def negotiate_def split: if_splits)
  obtain r0 fs' where s: "swap_save cd (ce_disk_fails_at env) (ce_random env) (ce_now env) path sw (pa_files w) = (r0, fs')"
    by fastforce
  then have w': "w' = w \<lparr> pa_files := fs' \<rparr>" using assms(1) sw(1) by (auto simp: save_party_def env_ok_def split: sum.splits)
  have "old = None" using sw(2) assms(2) by (simp add: party_swap_def swap_load_def)
  then show ?thesis using swap_save_load [OF _ _ _ s, of old] assms(1,2) sw(3,4) w' by (auto simp: env_ok_def party_swap_def)
qed (use assms in auto)

text \<open>The transition a command stands for, and what a command can do to its party: nothing that shows, or the creation of
  a fresh swap, or exactly one legal transition, broadcast before it is recorded.\<close>

fun command_transition :: "cli_command \<Rightarrow> swap_transition option" where
  "command_transition CmdCancel = Some Abort"
| "command_transition (CmdTransition k) = Some (to_protocol k)"
| "command_transition (CmdLockCync h) = Some AliceLocksCync"
| "command_transition (CmdLockBtc h) = Some BobLocksBtc"
| "command_transition (CmdClaimBtc a h) = Some AliceClaimsBtc"
| "command_transition (CmdClaimCync h) = Some BobClaimsCync"
| "command_transition (CmdRefundBtc h) = Some BobRefunds"
| "command_transition (CmdRefundCync h) = Some AliceRefunds"
| "command_transition _ = None"

definition is_action :: "swap_transition \<Rightarrow> bool" where
  "is_action t = (t \<in> {AliceLocksCync, BobLocksBtc, AliceClaimsBtc, BobClaimsCync, AliceRefunds, BobRefunds})"

definition took :: "swap_codec \<Rightarrow> bool \<Rightarrow> string \<Rightarrow> swap_transition \<Rightarrow> swap option \<Rightarrow> party \<Rightarrow> party \<Rightarrow> bool" where
  "took cd flaky path t old w w' = (\<exists>sw sw'. old = Some sw \<and> swap_apply t sw = (Inr (), sw')
     \<and> sent_kinds w' = sent_kinds w @ (if is_action t then [t] else [])
     \<and> (party_swap cd path w' = Inr (Some sw') \<or> flaky \<and> party_swap cd path w' = Inr old))"

lemma broadcast_effect:
  assumes "env_ok cd flaky env" "party_swap cd path w = Inr (Some sw)" "broadcast_apply_save env path t tx sw w = (r, w')"
    and "next_state t (sw_role sw) (sw_state sw) \<noteq> None" "\<not> is_terminal (sw_state sw)" "is_action t"
  shows "w' = w \<or> took cd flaky path t (Some sw) w w'"
proof -
  let ?w = "w \<lparr> pa_sent := (t, tx) # pa_sent w \<rparr>"
  obtain taken answer where b: "ce_broadcast env tx = (taken, answer)" by fastforce
  obtain sw' where ap: "swap_apply t sw = (Inr (), sw')" using assms(4,5) by (auto simp: swap_apply_def)
  show ?thesis
  proof (cases answer)
    case (Inl e)
    then have "w' = (if taken then ?w else w)" using assms(3) b by (simp add: broadcast_apply_save_def)
    moreover have "flaky" if taken using assms(1) b Inl that unfolding env_ok_def by (metis fst_conv snd_conv)
    moreover have "party_swap cd path ?w = Inr (Some sw)" using assms(2) by (simp add: party_swap_def)
    ultimately show ?thesis using ap assms(6) by (auto simp: took_def sent_kinds_def)
  next
    case (Inr txid)
    then have taken using assms(1) b unfolding env_ok_def by (metis fst_conv snd_conv)
    then have "save_party env path sw' ?w = (r, w')" using Inr b ap assms(3) by (simp add: broadcast_apply_save_def)
    from save_party_effect [OF assms(1) _ this, of sw] assms(2) ap assms(6) show ?thesis
      by (auto simp: took_def sent_kinds_def party_swap_def)
  qed
qed

lemmas command_defs = alice_cmd_def bob_cmd_def cancel_cmd_def transition_cmd_def lock_cync_orchestration_cmd_def
  lock_btc_orchestration_cmd_def claim_btc_orchestration_cmd_def claim_cync_orchestration_cmd_def
  refund_btc_orchestration_cmd_def refund_cync_orchestration_cmd_def

lemma cancel_effect:
  assumes ok: "env_ok cd flaky env" and "party_swap cd path w = Inr old" "cancel_cmd env path w = (r, w')"
  shows "w' = w \<or> took cd flaky path Abort old w w'"
proof (cases "w' = w")
  case False
  have cd: "ce_codec env = cd" using ok by (simp add: env_ok_def)
  from False assms(3) obtain sw sw' where sw: "load_party env path w = Inr sw" "\<not> is_terminal (sw_state sw)"
      "swap_apply Abort sw = (Inr (), sw')" "save_party env path sw' w = (r, w')"
    by (auto simp: cancel_cmd_def split: sum.splits if_splits prod.splits)
  then have old: "old = Some sw" using assms(2) by (simp add: load_party_ok cd)
  from save_party_effect [OF ok _ sw(4), of sw] assms(2) old sw(3) show ?thesis
    by (auto simp: took_def is_action_def sent_kinds_def)
qed simp

lemma transition_effect:
  assumes ok: "env_ok cd flaky env" and "party_swap cd path w = Inr old" "transition_cmd env path k w = (r, w')"
  shows "w' = w \<or> took cd flaky path (to_protocol k) old w w'"
proof (cases "w' = w")
  case False
  have cd: "ce_codec env = cd" using ok by (simp add: env_ok_def)
  from False assms(3) obtain sw sw' where sw: "load_party env path w = Inr sw"
      "swap_apply (to_protocol k) sw = (Inr (), sw')" "save_party env path sw' w = (r, w')"
    by (auto simp: transition_cmd_def split: sum.splits prod.splits)
  then have old: "old = Some sw" using assms(2) by (simp add: load_party_ok cd)
  have "\<not> is_action (to_protocol k)" by (cases k) (simp_all add: is_action_def)
  with save_party_effect [OF ok _ sw(3), of sw] assms(2) old sw(2) show ?thesis
    by (auto simp: took_def sent_kinds_def)
qed simp

text \<open>The six commands that broadcast reach \<open>broadcast_apply_save\<close> only with a swap of the right role and state.\<close>

lemma action_effect:
  assumes ok: "env_ok cd flaky env" and "party_swap cd path w = Inr old" "run_command env path c w = (r, w')"
    and t: "command_transition c = Some t" "is_action t"
  shows "w' = w \<or> took cd flaky path t old w w'"
proof (cases "w' = w")
  case False
  have cd: "ce_codec env = cd" using ok by (simp add: env_ok_def)
  have "\<exists>sw tx. load_party env path w = Inr sw \<and> next_state t (sw_role sw) (sw_state sw) \<noteq> None
      \<and> \<not> is_terminal (sw_state sw) \<and> broadcast_apply_save env path t tx sw w = (r, w')"
  proof (cases c)
    case (CmdTransition k)
    then show ?thesis using t by (cases k) (auto simp: is_action_def)
  qed (use False assms(3) t in \<open>auto simp: command_defs is_action_def next_state_def split: sum.splits if_splits\<close>)
  then obtain sw tx where sw: "load_party env path w = Inr sw" "next_state t (sw_role sw) (sw_state sw) \<noteq> None"
      "\<not> is_terminal (sw_state sw)" "broadcast_apply_save env path t tx sw w = (r, w')" by blast
  then have "old = Some sw" using assms(2) by (simp add: load_party_ok cd)
  with broadcast_effect [OF ok _ sw(4,2,3) t(2)] assms(2) show ?thesis by simp
qed simp

definition created :: "swap_codec \<Rightarrow> string \<Rightarrow> swap_role \<Rightarrow> swap option \<Rightarrow> party \<Rightarrow> party \<Rightarrow> bool" where
  "created cd path role old w w' = (old = None \<and> sent_kinds w' = sent_kinds w
     \<and> (\<exists>sw. party_swap cd path w' = Inr (Some sw) \<and> sw_role sw = role \<and> sw_state sw = Negotiated))"

lemma command_effect:
  assumes ok: "env_ok cd flaky env" and old: "party_swap cd path w = Inr old" and run: "run_command env path c w = (r, w')"
  obtains "party_swap cd path w' = Inr old" "sent_kinds w' = sent_kinds w"
  | i n m a1 a2 where "c = CmdAlice i n m a1 a2" "created cd path Alice old w w'"
  | i n m a1 a2 where "c = CmdBob i n m a1 a2" "created cd path Bob old w w'"
  | t where "command_transition c = Some t" "took cd flaky path t old w w'"
proof -
  have "party_swap cd path w' = Inr old \<and> sent_kinds w' = sent_kinds w
    \<or> (\<exists>i n m a1 a2. c = CmdAlice i n m a1 a2) \<and> created cd path Alice old w w'
    \<or> (\<exists>i n m a1 a2. c = CmdBob i n m a1 a2) \<and> created cd path Bob old w w'
    \<or> (\<exists>t. command_transition c = Some t \<and> took cd flaky path t old w w')"
  proof (cases "command_transition c")
    case None
    then show ?thesis
      using init_cmd_effect [OF ok old] run by (cases c) (auto simp: command_defs created_def sent_kinds_def)
  next
    case (Some t)
    then have "w' = w \<or> took cd flaky path t old w w'"
    proof (cases "is_action t")
      case True
      with action_effect [OF ok old run Some] show ?thesis by blast
    next
      case False
      then have "c = CmdCancel \<and> t = Abort \<or> (\<exists>k. c = CmdTransition k \<and> t = to_protocol k)"
        using Some by (cases c) (auto simp: is_action_def)
      then show ?thesis
      proof (elim disjE exE conjE)
        assume "c = CmdCancel" "t = Abort"
        then show ?thesis using cancel_effect [OF ok old, of r w'] run by simp
      next
        fix k assume "c = CmdTransition k" "t = to_protocol k"
        then show ?thesis using transition_effect [OF ok old, of k r w'] run by simp
      qed
    qed
    then show ?thesis using Some old by auto
  qed
  then show thesis using that by blast
qed

section \<open>Two parties\<close>

text \<open>Alice and Bob run commands on their own state files, in any order and any number. The first command of each creates
  a swap of its role, and an observation of the counterparty's transaction is entered only after the counterparty has
  broadcast it. A node that answers with a transaction id has taken the transaction. With \<open>flaky\<close>, anything else may go
  wrong: writing the state file may fail at any point, a command may be killed between its broadcast and its save, and
  a broadcast may be reported as failed although the node has taken the transaction. Without it, none of this happens.\<close>

definition has_sent :: "swap_transition \<Rightarrow> party \<Rightarrow> bool" where
  "has_sent t w = (t \<in> set (sent_kinds w))"

fun permitted :: "swap_role \<Rightarrow> cli_command \<Rightarrow> party \<Rightarrow> bool" where
  "permitted role (CmdAlice i n m a1 a2) other = (role = Alice)"
| "permitted role (CmdBob i n m a1 a2) other = (role = Bob)"
| "permitted role (CmdTransition KObserveBobLocked) other = has_sent BobLocksBtc other"
| "permitted role (CmdTransition KObserveAliceLocked) other = has_sent AliceLocksCync other"
| "permitted role (CmdTransition KObserveSecretRevealed) other = has_sent AliceClaimsBtc other"
| "permitted role _ other = True"

inductive swap_run :: "swap_codec \<Rightarrow> bool \<Rightarrow> string \<Rightarrow> string \<Rightarrow> party \<Rightarrow> party \<Rightarrow> bool" for cd flaky pa pb where
  start: "swap_run cd flaky pa pb \<lparr> pa_files = Map.empty, pa_sent = [] \<rparr> \<lparr> pa_files = Map.empty, pa_sent = [] \<rparr>"
| alice: "swap_run cd flaky pa pb a b \<Longrightarrow> env_ok cd flaky env \<Longrightarrow> permitted Alice c b \<Longrightarrow>
    run_command env pa c a = (r, a') \<Longrightarrow> swap_run cd flaky pa pb a' b"
| bob: "swap_run cd flaky pa pb a b \<Longrightarrow> env_ok cd flaky env \<Longrightarrow> permitted Bob c a \<Longrightarrow>
    run_command env pb c b = (r, b') \<Longrightarrow> swap_run cd flaky pa pb a b'"

text \<open>What each party's state says about the broadcasts.\<close>

definition alice_knows :: "swap option \<Rightarrow> party \<Rightarrow> bool" where
  "alice_knows s b = (case s of None \<Rightarrow> True
     | Some sw \<Rightarrow> sw_role sw = Alice \<and> (sw_state sw \<in> {BobLocked, SecretRevealed} \<longrightarrow> has_sent BobLocksBtc b))"

definition bob_knows :: "swap option \<Rightarrow> party \<Rightarrow> bool" where
  "bob_knows s a = (case s of None \<Rightarrow> True
     | Some sw \<Rightarrow> sw_role sw = Bob \<and> (sw_state sw \<in> {AliceLocked, BobLocked, SecretRevealed, Completed} \<longrightarrow> has_sent AliceLocksCync a)
         \<and> (sw_state sw \<in> {SecretRevealed, Completed} \<longrightarrow> has_sent AliceClaimsBtc a))"

definition order_inv :: "party \<Rightarrow> party \<Rightarrow> bool" where
  "order_inv a b = ((has_sent BobLocksBtc b \<longrightarrow> has_sent AliceLocksCync a)
     \<and> (has_sent AliceClaimsBtc a \<longrightarrow> has_sent BobLocksBtc b) \<and> (has_sent BobClaimsCync b \<longrightarrow> has_sent AliceClaimsBtc a))"

definition swap_inv :: "swap_codec \<Rightarrow> string \<Rightarrow> string \<Rightarrow> party \<Rightarrow> party \<Rightarrow> bool" where
  "swap_inv cd pa pb a b = (\<exists>sa sb. party_swap cd pa a = Inr sa \<and> party_swap cd pb b = Inr sb
     \<and> alice_knows sa b \<and> bob_knows sb a \<and> order_inv a b)"

lemma took_has_sent: "took cd flaky path t old w w' \<Longrightarrow> has_sent u w' \<longleftrightarrow> has_sent u w \<or> is_action t \<and> u = t"
  by (auto simp: took_def has_sent_def)

lemma took_knows:
  assumes "took cd flaky path t old w w'"
  obtains sw s s' where "old = Some sw" "next_state t (sw_role sw) (sw_state sw) = Some s'"
    "party_swap cd path w' = Inr (Some (sw \<lparr> sw_state := s \<rparr>))" "s = s' \<or> s = sw_state sw"
proof -
  from assms obtain sw sw' where sw: "old = Some sw" "swap_apply t sw = (Inr (), sw')"
      "party_swap cd path w' = Inr (Some sw') \<or> party_swap cd path w' = Inr old"
    by (auto simp: took_def)
  from sw(2) obtain s' where s': "next_state t (sw_role sw) (sw_state sw) = Some s'" "sw' = sw \<lparr> sw_state := s' \<rparr>"
    by (auto simp: swap_apply_ok)
  have "sw = sw \<lparr> sw_state := sw_state sw \<rparr>" by simp
  then show thesis using that [OF sw(1) s'(1)] sw s'(2) by metis
qed

lemma alice_step_inv:
  assumes inv: "swap_inv cd pa pb a b" and ok: "env_ok cd flaky env" and per: "permitted Alice c b"
    and run: "run_command env pa c a = (r, a')"
  shows "swap_inv cd pa pb a' b"
proof -
  from inv obtain sa sb where s: "party_swap cd pa a = Inr sa" "party_swap cd pb b = Inr sb" "alice_knows sa b"
      "bob_knows sb a" "order_inv a b" by (auto simp: swap_inv_def)
  from ok s(1) run show ?thesis
  proof (cases rule: command_effect)
    case 1
    with s show ?thesis by (auto simp: swap_inv_def order_inv_def bob_knows_def has_sent_def split: option.splits)
  next
    case 2
    with s show ?thesis by (auto simp: swap_inv_def order_inv_def bob_knows_def alice_knows_def created_def has_sent_def split: option.splits)
  next
    case 3
    with per show ?thesis by simp
  next
    case (4 t)
    note sent = took_has_sent [OF 4(2)]
    from 4(2) obtain sw st st' where sw: "sa = Some sw" "next_state t (sw_role sw) (sw_state sw) = Some st'"
        "party_swap cd pa a' = Inr (Some (sw \<lparr> sw_state := st \<rparr>))" "st = st' \<or> st = sw_state sw" by (rule took_knows)
    have role: "sw_role sw = Alice" using s(3) sw(1) by (simp add: alice_knows_def)
    have obs: "t = ObserveBobLocked \<Longrightarrow> has_sent BobLocksBtc b"
    proof -
      assume "t = ObserveBobLocked"
      then have "c = CmdTransition KObserveBobLocked" using 4(1) by (cases c rule: command_transition.cases) (auto elim: to_protocol.elims)
      then show ?thesis using per by simp
    qed
    have "alice_knows (Some (sw \<lparr> sw_state := st \<rparr>)) b" using s(3) sw(1,2,4) role obs
      by (auto simp: alice_knows_def elim!: next_state_cases)
    moreover have "bob_knows sb a'" using s(4) by (auto simp: bob_knows_def sent split: option.splits)
    moreover have "order_inv a' b" using s(3,5) sw(1,2) role
      by (auto simp: order_inv_def sent alice_knows_def is_action_def elim!: next_state_cases)
    ultimately show ?thesis using sw(3) s(2) by (auto simp: swap_inv_def)
  qed
qed

lemma bob_step_inv:
  assumes inv: "swap_inv cd pa pb a b" and ok: "env_ok cd flaky env" and per: "permitted Bob c a"
    and run: "run_command env pb c b = (r, b')"
  shows "swap_inv cd pa pb a b'"
proof -
  from inv obtain sa sb where s: "party_swap cd pa a = Inr sa" "party_swap cd pb b = Inr sb" "alice_knows sa b"
      "bob_knows sb a" "order_inv a b" by (auto simp: swap_inv_def)
  from ok s(2) run show ?thesis
  proof (cases rule: command_effect)
    case 1
    with s show ?thesis by (auto simp: swap_inv_def order_inv_def alice_knows_def has_sent_def split: option.splits)
  next
    case 2
    with per show ?thesis by simp
  next
    case 3
    with s show ?thesis by (auto simp: swap_inv_def order_inv_def bob_knows_def alice_knows_def created_def has_sent_def split: option.splits)
  next
    case (4 t)
    note sent = took_has_sent [OF 4(2)]
    from 4(2) obtain sw st st' where sw: "sb = Some sw" "next_state t (sw_role sw) (sw_state sw) = Some st'"
        "party_swap cd pb b' = Inr (Some (sw \<lparr> sw_state := st \<rparr>))" "st = st' \<or> st = sw_state sw" by (rule took_knows)
    have role: "sw_role sw = Bob" using s(4) sw(1) by (simp add: bob_knows_def)
    have obs: "(t = ObserveAliceLocked \<longrightarrow> has_sent AliceLocksCync a) \<and> (t = ObserveSecretRevealed \<longrightarrow> has_sent AliceClaimsBtc a)"
      using per 4(1) by (cases c rule: command_transition.cases) (auto elim: to_protocol.elims)
    have "bob_knows (Some (sw \<lparr> sw_state := st \<rparr>)) a" using s(4) sw(1,2,4) role obs
      by (auto simp: bob_knows_def elim!: next_state_cases)
    moreover have "alice_knows sa b'" using s(3) by (auto simp: alice_knows_def sent split: option.splits)
    moreover have "order_inv a b'" using s(4,5) sw(1,2) role
      by (auto simp: order_inv_def sent bob_knows_def is_action_def elim!: next_state_cases)
    ultimately show ?thesis using sw(3) s(1) by (auto simp: swap_inv_def)
  qed
qed

lemma swap_run_inv: "swap_run cd flaky pa pb a b \<Longrightarrow> swap_inv cd pa pb a b"
proof (induction rule: swap_run.induct)
  case start
  show ?case by (simp add: swap_inv_def party_swap_def swap_load_def alice_knows_def bob_knows_def order_inv_def
      has_sent_def sent_kinds_def)
qed (blast intro: alice_step_inv bob_step_inv)+

text \<open>On a healthy disk the broadcasts of a party are exactly those its state stands for.\<close>

fun history :: "swap_role \<Rightarrow> swap_state \<Rightarrow> swap_transition list set" where
  "history Alice Negotiated = {[]}"
| "history Alice AliceLocked = {[AliceLocksCync]}"
| "history Alice BobLocked = {[AliceLocksCync]}"
| "history Alice SecretRevealed = {[AliceLocksCync, AliceClaimsBtc]}"
| "history Alice Completed = {}"
| "history Alice Refunded = {[AliceLocksCync, AliceRefunds]}"
| "history Alice Aborted = {[], [AliceLocksCync], [AliceLocksCync, AliceClaimsBtc]}"
| "history Bob Negotiated = {[]}"
| "history Bob AliceLocked = {[]}"
| "history Bob BobLocked = {[BobLocksBtc]}"
| "history Bob SecretRevealed = {[BobLocksBtc]}"
| "history Bob Completed = {[BobLocksBtc], [BobLocksBtc, BobClaimsCync]}"
| "history Bob Refunded = {[BobLocksBtc, BobRefunds]}"
| "history Bob Aborted = {[], [BobLocksBtc]}"

definition history_inv :: "swap_codec \<Rightarrow> swap_role \<Rightarrow> string \<Rightarrow> party \<Rightarrow> bool" where
  "history_inv cd role path w = (\<exists>s. party_swap cd path w = Inr s
     \<and> (case s of None \<Rightarrow> sent_kinds w = [] | Some sw \<Rightarrow> sw_role sw = role \<and> sent_kinds w \<in> history role (sw_state sw)))"

lemma history_step:
  assumes "next_state t r s = Some s'" "\<not> is_terminal s" "xs \<in> history r s"
  shows "xs @ (if is_action t then [t] else []) \<in> history r s'"
  using assms by (cases s; cases r) (auto simp: is_action_def elim!: next_state_cases)

lemma history_command:
  assumes inv: "history_inv cd role path w" and ok: "env_ok cd False env" and per: "permitted role c other"
    and run: "run_command env path c w = (r, w')"
  shows "history_inv cd role path w'"
proof -
  from inv obtain s where s: "party_swap cd path w = Inr s"
      "case s of None \<Rightarrow> sent_kinds w = [] | Some sw \<Rightarrow> sw_role sw = role \<and> sent_kinds w \<in> history role (sw_state sw)"
    by (auto simp: history_inv_def)
  from ok s(1) run show ?thesis
  proof (cases rule: command_effect)
    case 1
    with s show ?thesis by (auto simp: history_inv_def split: option.splits)
  next
    case 2
    with s per show ?thesis by (auto simp: history_inv_def created_def)
  next
    case 3
    with s per show ?thesis by (auto simp: history_inv_def created_def)
  next
    case (4 t)
    then obtain sw sw' where "s = Some sw" "swap_apply t sw = (Inr (), sw')" "party_swap cd path w' = Inr (Some sw')"
        "sent_kinds w' = sent_kinds w @ (if is_action t then [t] else [])" by (auto simp: took_def)
    moreover from this(2) obtain s' where "\<not> is_terminal (sw_state sw)" "next_state t (sw_role sw) (sw_state sw) = Some s'"
        "sw' = sw \<lparr> sw_state := s' \<rparr>" by (auto simp: swap_apply_ok)
    ultimately show ?thesis using s(2) history_step [of t role "sw_state sw" s' "sent_kinds w"]
      by (simp add: history_inv_def)
  qed
qed

lemma swap_run_history:
  "swap_run cd flaky pa pb a b \<Longrightarrow> \<not> flaky \<Longrightarrow> history_inv cd Alice pa a \<and> history_inv cd Bob pb b"
proof (induction rule: swap_run.induct)
  case start
  show ?case by (simp add: history_inv_def party_swap_def swap_load_def sent_kinds_def)
qed (auto intro: history_command)

lemma history_lists:
  "xs \<in> history Alice s \<Longrightarrow> xs \<in> {[], [AliceLocksCync], [AliceLocksCync, AliceClaimsBtc], [AliceLocksCync, AliceRefunds]}"
  "xs \<in> history Bob s \<Longrightarrow> xs \<in> {[], [BobLocksBtc], [BobLocksBtc, BobClaimsCync], [BobLocksBtc, BobRefunds]}"
  by (cases s; auto)+

section \<open>A swap that goes well\<close>

text \<open>Surroundings in which nothing fails, for a given transaction argument and a given description of the output to claim.\<close>

definition good_env :: "swap_codec \<Rightarrow> string \<Rightarrow> claim_args \<Rightarrow> cli_env \<Rightarrow> bool" where
  "good_env cd h args env = (env_ok cd False env \<and> (\<exists>tx. ce_unhex env h = Some tx \<and> tx \<noteq> [])
     \<and> (\<forall>tx. \<exists>txid. ce_broadcast env tx = (True, Inr txid)) \<and> (\<forall>base tx. ce_validate_claim env base tx = Inr ())
     \<and> (\<forall>v. \<exists>base. parse_claim_tx_base env args v = Inr base) \<and> ce_rpc_user env = None \<and> ce_rpc_pass env = None)"

definition acts :: "string \<Rightarrow> claim_args \<Rightarrow> cli_command \<Rightarrow> bool" where
  "acts h args c = (c \<in> {CmdLockCync h, CmdLockBtc h, CmdClaimBtc args h, CmdClaimCync h, CmdRefundBtc h, CmdRefundCync h})"

lemma save_party_good:
  assumes "env_ok cd False env" "party_swap cd path w = Inr (Some old)"
  shows "party_swap cd path (snd (save_party env path sw w)) = Inr (Some sw)"
    "sent_kinds (snd (save_party env path sw w)) = sent_kinds w"
  using save_party_effect [OF assms, of sw "fst (save_party env path sw w)" "snd (save_party env path sw w)"]
  by (auto simp: sent_kinds_def)

lemma init_good:
  assumes "env_ok cd False env" "0 < n" "0 < m"
  defines "w \<equiv> \<lparr> pa_files = Map.empty, pa_sent = [] \<rparr>"
  shows "\<exists>sw. party_swap cd path (snd (init_cmd role env i n m a1 a2 path w)) = Inr (Some sw) \<and> sw_role sw = role
    \<and> sw_state sw = Negotiated \<and> sent_kinds (snd (init_cmd role env i n m a1 a2 path w)) = []"
proof -
  let ?p = "default_params n m a1 a2"
  let ?sw = "\<lparr> sw_id = i, sw_role = role, sw_state = Negotiated, sw_parameters = ?p \<rparr>"
  have "is_timeout_safe ?p"
    by (subst is_timeout_safe_iff) (simp_all add: params_wf_def default_params_def DEFAULT_CYNC_TIMEOUT_BLOCKS_def DEFAULT_BTC_TIMEOUT_BLOCKS_def)
  then have cmd: "init_cmd role env i n m a1 a2 path w = save_party env path ?sw w"
    using assms(2,3) by (simp add: init_cmd_def w_def store_exists_def negotiate_def)
  obtain ss where ss: "save_states cd (ce_random env) (ce_now env) path ?sw Map.empty = (Inr (), ss)"
    by (simp add: save_states_def read_or_create_hmac_key_def Let_def)
  then have "save_party env path ?sw w = (Inr (), w \<lparr> pa_files := last ss \<rparr>)"
    using assms(1) by (simp add: save_party_def swap_save_def env_ok_def w_def)
  then show ?thesis using load_saved [OF _ _ ss] assms(1) unfolding cmd
    by (simp add: party_swap_def env_ok_def sent_kinds_def w_def)
qed

lemma action_good:
  assumes g: "good_env cd h args env" and w: "party_swap cd path w = Inr (Some sw)" and c: "acts h args c"
    and t: "command_transition c = Some t" and n: "next_state t (sw_role sw) (sw_state sw) = Some s"
  shows "party_swap cd path (snd (run_command env path c w)) = Inr (Some (sw \<lparr> sw_state := s \<rparr>))"
    "sent_kinds (snd (run_command env path c w)) = sent_kinds w @ [t]"
proof -
  have ok: "env_ok cd False env" and cd: "ce_codec env = cd" using g by (simp_all add: good_env_def env_ok_def)
  have load: "load_party env path w = Inr sw" using w by (simp add: load_party_ok cd)
  have act: "is_action t" using c t by (auto simp: acts_def is_action_def)
  have nt: "\<not> is_terminal (sw_state sw)" using n act by (auto simp: is_action_def elim: next_state_cases)
  obtain tx where tx: "parse_tx_hex env h = Inr tx" using g by (auto simp: good_env_def parse_tx_hex_def)
  have rpc: "build_btc_rpc_config env = Inr ()" using g by (simp add: good_env_def build_btc_rpc_config_def)
  obtain base where base: "parse_claim_tx_base env args (sp_btc_amount_sats (sw_parameters sw)) = Inr base"
    "ce_validate_claim env base tx = Inr ()" using g unfolding good_env_def by meson
  obtain txid where txid: "ce_broadcast env tx = (True, Inr txid)" using g unfolding good_env_def by meson
  have "run_command env path c w = broadcast_apply_save env path t tx sw w"
    using c unfolding acts_def
  proof (elim insertE emptyE)
  qed (use t n load tx rpc base in \<open>simp_all add: command_defs next_state_def split: if_splits\<close>, blast)
  also have "\<dots> = save_party env path (sw \<lparr> sw_state := s \<rparr>) (w \<lparr> pa_sent := (t, tx) # pa_sent w \<rparr>)"
    using txid n nt by (simp add: broadcast_apply_save_def swap_apply_def)
  finally show "party_swap cd path (snd (run_command env path c w)) = Inr (Some (sw \<lparr> sw_state := s \<rparr>))"
    "sent_kinds (snd (run_command env path c w)) = sent_kinds w @ [t]"
    using save_party_good [OF ok, of path "w \<lparr> pa_sent := (t, tx) # pa_sent w \<rparr>" sw "sw \<lparr> sw_state := s \<rparr>"] w
    by (simp_all add: sent_kinds_def)
qed

lemma observe_good:
  assumes ok: "env_ok cd False env" and w: "party_swap cd path w = Inr (Some sw)"
    and n: "next_state (to_protocol k) (sw_role sw) (sw_state sw) = Some s"
  shows "party_swap cd path (snd (run_command env path (CmdTransition k) w)) = Inr (Some (sw \<lparr> sw_state := s \<rparr>))"
    "sent_kinds (snd (run_command env path (CmdTransition k) w)) = sent_kinds w"
proof -
  have load: "load_party env path w = Inr sw" using w ok by (simp add: load_party_ok env_ok_def)
  have nt: "\<not> is_terminal (sw_state sw)" using n by (cases k) (auto elim: next_state_cases)
  have "run_command env path (CmdTransition k) w = save_party env path (sw \<lparr> sw_state := s \<rparr>) w"
    using load n nt by (simp add: transition_cmd_def swap_apply_def)
  then show "party_swap cd path (snd (run_command env path (CmdTransition k) w)) = Inr (Some (sw \<lparr> sw_state := s \<rparr>))"
    "sent_kinds (snd (run_command env path (CmdTransition k) w)) = sent_kinds w"
    using save_party_good [OF ok w] by simp_all
qed

text \<open>A party that owns a swap in a given state after given broadcasts.\<close>

definition owns :: "swap_codec \<Rightarrow> string \<Rightarrow> party \<Rightarrow> swap_role \<Rightarrow> swap_state \<Rightarrow> swap_transition list \<Rightarrow> bool" where
  "owns cd path w role s xs = (\<exists>sw. party_swap cd path w = Inr (Some sw) \<and> sw_role sw = role \<and> sw_state sw = s \<and> sent_kinds w = xs)"

lemma owns_action:
  assumes "good_env cd h args env" "owns cd path w role s xs" "acts h args c" "command_transition c = Some t"
    "next_state t role s = Some s'"
  shows "owns cd path (snd (run_command env path c w)) role s' (xs @ [t])"
proof -
  from assms(2) obtain sw where sw: "party_swap cd path w = Inr (Some sw)" "sw_role sw = role" "sw_state sw = s" "sent_kinds w = xs"
    by (auto simp: owns_def)
  with assms(5) have "next_state t (sw_role sw) (sw_state sw) = Some s'" by simp
  from action_good [OF assms(1) sw(1) assms(3,4) this] sw show ?thesis by (simp add: owns_def)
qed

lemma owns_observe:
  assumes "good_env cd h args env" "owns cd path w role s xs" "next_state (to_protocol k) role s = Some s'"
  shows "owns cd path (snd (run_command env path (CmdTransition k) w)) role s' xs"
proof -
  from assms(2) obtain sw where sw: "party_swap cd path w = Inr (Some sw)" "sw_role sw = role" "sw_state sw = s" "sent_kinds w = xs"
    by (auto simp: owns_def)
  with assms(3) have "next_state (to_protocol k) (sw_role sw) (sw_state sw) = Some s'" by simp
  moreover have "env_ok cd False env" using assms(1) by (simp add: good_env_def)
  ultimately show ?thesis using observe_good [of cd env path w sw k s'] sw by (simp add: owns_def)
qed

lemma owns_has_sent: "owns cd path w role s xs \<Longrightarrow> t \<in> set xs \<Longrightarrow> has_sent t w"
  by (auto simp: owns_def has_sent_def)

lemma swap_run_alice: "swap_run cd flaky pa pb a b \<Longrightarrow> env_ok cd flaky env \<Longrightarrow> permitted Alice c b \<Longrightarrow>
    swap_run cd flaky pa pb (snd (run_command env pa c a)) b"
  by (rule swap_run.alice [of cd flaky pa pb a b env c "fst (run_command env pa c a)"]) simp_all

lemma swap_run_bob: "swap_run cd flaky pa pb a b \<Longrightarrow> env_ok cd flaky env \<Longrightarrow> permitted Bob c a \<Longrightarrow>
    swap_run cd flaky pa pb a (snd (run_command env pb c b))"
  by (rule swap_run.bob [of cd flaky pa pb a b env c "fst (run_command env pb c b)"]) simp_all

lemma good_run_locked:
  assumes g: "good_env cd h args env"
  shows "\<exists>a b. swap_run cd False pa pb a b \<and> owns cd pa a Alice BobLocked [AliceLocksCync]
    \<and> owns cd pb b Bob BobLocked [BobLocksBtc]"
proof -
  have ok: "env_ok cd False env" using g by (simp add: good_env_def)
  let ?w = "\<lparr> pa_files = Map.empty, pa_sent = [] \<rparr>"
  note alice = swap_run_alice [OF _ ok] and bob = swap_run_bob [OF _ ok] and act = owns_action [OF g] and obs = owns_observe [OF g]
  define a1 where "a1 = snd (run_command env pa (CmdAlice [] 1 1 [] []) ?w)"
  define b1 where "b1 = snd (run_command env pb (CmdBob [] 1 1 [] []) ?w)"
  have 1: "owns cd pa a1 Alice Negotiated []" "owns cd pb b1 Bob Negotiated []"
    using init_good [OF ok, of 1 1] unfolding a1_def b1_def owns_def by (simp_all add: alice_cmd_def bob_cmd_def)
  have r1: "swap_run cd False pa pb a1 b1" unfolding a1_def b1_def by (intro alice bob swap_run.start) simp_all
  define a2 where "a2 = snd (run_command env pa (CmdLockCync h) a1)"
  have a2: "owns cd pa a2 Alice AliceLocked [AliceLocksCync]" unfolding a2_def
    using act [OF 1(1)] by (fastforce simp: acts_def next_state_def)
  define b2 where "b2 = snd (run_command env pb (CmdTransition KObserveAliceLocked) b1)"
  have b2: "owns cd pb b2 Bob AliceLocked []" unfolding b2_def by (rule obs [OF 1(2)]) (simp add: next_state_def)
  have r2: "swap_run cd False pa pb a2 b2" unfolding a2_def b2_def
    by (intro alice bob r1) (use owns_has_sent [OF a2] in \<open>simp_all add: a2_def\<close>)
  define b3 where "b3 = snd (run_command env pb (CmdLockBtc h) b2)"
  have b3: "owns cd pb b3 Bob BobLocked [BobLocksBtc]" unfolding b3_def
    using act [OF b2] by (fastforce simp: acts_def next_state_def)
  define a3 where "a3 = snd (run_command env pa (CmdTransition KObserveBobLocked) a2)"
  have a3: "owns cd pa a3 Alice BobLocked [AliceLocksCync]" unfolding a3_def by (rule obs [OF a2]) (simp add: next_state_def)
  have "swap_run cd False pa pb a3 b3" unfolding a3_def b3_def
    by (intro alice bob r2) (use owns_has_sent [OF b3] in \<open>simp_all add: b3_def\<close>)
  with a3 b3 show ?thesis by blast
qed

lemma good_run:
  assumes g: "good_env cd h args env"
  shows "\<exists>a b. swap_run cd False pa pb a b \<and> owns cd pa a Alice SecretRevealed [AliceLocksCync, AliceClaimsBtc]
    \<and> owns cd pb b Bob Completed [BobLocksBtc, BobClaimsCync]"
proof -
  have ok: "env_ok cd False env" using g by (simp add: good_env_def)
  note alice = swap_run_alice [OF _ ok] and bob = swap_run_bob [OF _ ok] and act = owns_action [OF g] and obs = owns_observe [OF g]
  from good_run_locked [OF g] obtain a3 b3 where r3: "swap_run cd False pa pb a3 b3"
    and a3: "owns cd pa a3 Alice BobLocked [AliceLocksCync]" and b3: "owns cd pb b3 Bob BobLocked [BobLocksBtc]" by blast
  define a4 where "a4 = snd (run_command env pa (CmdClaimBtc args h) a3)"
  have a4: "owns cd pa a4 Alice SecretRevealed [AliceLocksCync, AliceClaimsBtc]" unfolding a4_def
    using act [OF a3] by (fastforce simp: acts_def next_state_def)
  define b4 where "b4 = snd (run_command env pb (CmdTransition KObserveSecretRevealed) b3)"
  have b4: "owns cd pb b4 Bob SecretRevealed [BobLocksBtc]" unfolding b4_def by (rule obs [OF b3]) (simp add: next_state_def)
  have r4: "swap_run cd False pa pb a4 b4" unfolding a4_def b4_def
    by (intro alice bob r3) (use owns_has_sent [OF a4] in \<open>simp_all add: a4_def\<close>)
  define b5 where "b5 = snd (run_command env pb (CmdClaimCync h) b4)"
  have "owns cd pb b5 Bob Completed [BobLocksBtc, BobClaimsCync]" unfolding b5_def
    using act [OF b4] by (fastforce simp: acts_def next_state_def)
  moreover have "swap_run cd False pa pb a4 b5" unfolding b5_def by (intro bob r4) simp
  ultimately show ?thesis using a4 by blast
qed

lemma swap_run_flaky: "swap_run cd flaky pa pb a b \<Longrightarrow> swap_run cd True pa pb a b"
proof (induction rule: swap_run.induct)
  case start
  show ?case by (rule swap_run.start)
next
  case (alice a b env c r a')
  have "env_ok cd True env" using alice.hyps(2) by (simp add: env_ok_def)
  from swap_run.alice [OF alice.IH this alice.hyps(3,4)] show ?case .
next
  case (bob a b env c r b')
  have "env_ok cd True env" using bob.hyps(2) by (simp add: env_ok_def)
  from swap_run.bob [OF bob.IH this bob.hyps(3,4)] show ?case .
qed

lemma parse_claim_broadcast: "parse_claim_tx_base (env \<lparr> ce_broadcast := f \<rparr>) = parse_claim_tx_base env"
proof -
  have h: "parse_hex_32 (env \<lparr> ce_broadcast := f \<rparr>) = parse_hex_32 env" by (simp add: fun_eq_iff parse_hex_32_def)
  have r: "parse_refund_branch_flags (env \<lparr> ce_broadcast := f \<rparr>) = parse_refund_branch_flags env"
    unfolding parse_refund_branch_flags_def [abs_def] h ..
  show ?thesis unfolding parse_claim_tx_base_def [abs_def] h r ..
qed

lemma lost_claim:
  assumes g: "good_env cd h args env" and w: "owns cd path w Alice BobLocked xs"
  shows "owns cd path (snd (run_command (env \<lparr> ce_broadcast := \<lambda>tx. (True, Inl e) \<rparr>) path (CmdClaimBtc args h) w))
     Alice BobLocked (xs @ [AliceClaimsBtc])"
proof -
  let ?env = "env \<lparr> ce_broadcast := \<lambda>tx. (True, Inl e) \<rparr>"
  from w obtain sw where sw: "party_swap cd path w = Inr (Some sw)" "sw_role sw = Alice" "sw_state sw = BobLocked" "sent_kinds w = xs"
    by (auto simp: owns_def)
  have "load_party ?env path w = Inr sw" using sw(1) g by (simp add: load_party_ok good_env_def env_ok_def)
  moreover obtain tx where "parse_tx_hex ?env h = Inr tx" using g by (auto simp: good_env_def parse_tx_hex_def)
  moreover have "build_btc_rpc_config ?env = Inr ()" using g by (simp add: good_env_def build_btc_rpc_config_def)
  moreover obtain base where "parse_claim_tx_base ?env args (sp_btc_amount_sats (sw_parameters sw)) = Inr base"
    using g unfolding good_env_def parse_claim_broadcast by meson
  moreover have "ce_validate_claim ?env base tx = Inr ()" using g by (simp add: good_env_def)
  ultimately have "snd (run_command ?env path (CmdClaimBtc args h) w) = w \<lparr> pa_sent := (AliceClaimsBtc, tx) # pa_sent w \<rparr>"
    using sw(2,3) by (simp add: command_defs broadcast_apply_save_def)
  with sw show ?thesis by (simp add: owns_def party_swap_def sent_kinds_def)
qed

section \<open>What the parties can rely on\<close>

text \<open>C18: the broadcasts of a swap are ordered, also across failing disks, lost answers and repeated commands. Bob's BTC lock goes out only
  after Alice's CYNC lock, Alice's claim, which reveals the secret, only after Bob's lock, and Bob's claim only after
  Alice's. This holds at every moment of every run in which observations are made after the fact.\<close>

theorem swap_broadcast_order:
  assumes "swap_run cd flaky pa pb a b"
  shows "(has_sent BobLocksBtc b \<longrightarrow> has_sent AliceLocksCync a) \<and> (has_sent AliceClaimsBtc a \<longrightarrow> has_sent BobLocksBtc b)
    \<and> (has_sent BobClaimsCync b \<longrightarrow> has_sent AliceClaimsBtc a)"
  using swap_run_inv [OF assms] by (auto simp: swap_inv_def order_inv_def)

lemma history_inv_lists:
  "history_inv cd Alice path w \<Longrightarrow>
     sent_kinds w \<in> {[], [AliceLocksCync], [AliceLocksCync, AliceClaimsBtc], [AliceLocksCync, AliceRefunds]}"
  "history_inv cd Bob path w \<Longrightarrow>
     sent_kinds w \<in> {[], [BobLocksBtc], [BobLocksBtc, BobClaimsCync], [BobLocksBtc, BobRefunds]}"
  unfolding history_inv_def by (auto split: option.splits dest!: history_lists)

text \<open>C19: when nothing is lost, no party acts twice or both ways. Alice's transactions on the chains are at most her lock and
  then either her claim or her refund, Bob's at most his lock and then either his claim or his refund. This is for runs
  on healthy disks, in which no command is killed between its broadcast and its save and every broadcast that is
  reported as failed did fail; the two-party section says what can go wrong in other runs, and the theorem that follows
  shows that the exclusion is needed.\<close>

theorem swap_exclusive:
  assumes "swap_run cd False pa pb a b"
  shows "sent_kinds a \<in> {[], [AliceLocksCync], [AliceLocksCync, AliceClaimsBtc], [AliceLocksCync, AliceRefunds]}
    \<and> sent_kinds b \<in> {[], [BobLocksBtc], [BobLocksBtc, BobClaimsCync], [BobLocksBtc, BobRefunds]}"
  using swap_run_history [OF assms] history_inv_lists by blast

text \<open>What this leaves out does happen. If the answer to Alice's claim is lost after the node has taken the transaction,
  her swap stays in \<open>BobLocked\<close>, and \<open>refund-cync\<close> still goes through: she has revealed the secret, and has both
  claimed and refunded.\<close>

theorem lost_answer_claim_and_refund:
  assumes "good_env cd h args env"
  shows "\<exists>a b. swap_run cd True pa pb a b \<and> sent_kinds a = [AliceLocksCync, AliceClaimsBtc, AliceRefunds]"
proof -
  let ?lost = "env \<lparr> ce_broadcast := \<lambda>tx. (True, Inl ''timeout'') \<rparr>"
  have ok: "env_ok cd True env" "env_ok cd True ?lost" using assms by (auto simp: good_env_def env_ok_def)
  from good_run_locked [OF assms] obtain a b where r: "swap_run cd True pa pb a b" "owns cd pa a Alice BobLocked [AliceLocksCync]"
    using swap_run_flaky by blast
  define a1 where "a1 = snd (run_command ?lost pa (CmdClaimBtc args h) a)"
  define a2 where "a2 = snd (run_command env pa (CmdRefundCync h) a1)"
  have a1: "owns cd pa a1 Alice BobLocked [AliceLocksCync, AliceClaimsBtc]"
    using lost_claim [OF assms r(2)] by (simp add: a1_def)
  have "owns cd pa a2 Alice Refunded [AliceLocksCync, AliceClaimsBtc, AliceRefunds]"
    unfolding a2_def using owns_action [OF assms a1] by (fastforce simp: acts_def next_state_def)
  moreover have "swap_run cd True pa pb a2 b" unfolding a2_def a1_def
    by (intro swap_run_alice [OF _ ok(1)] swap_run_alice [OF r(1) ok(2)]) simp_all
  ultimately show ?thesis by (auto simp: owns_def)
qed

text \<open>When nothing fails, the eight commands of a swap carry it through: there is a run in which both locks and both claims
  have been broadcast, and Bob's swap is completed. Alice's swap is not: no sequence of transitions ever marks
  it as completed.\<close>

theorem swap_completes:
  assumes "good_env cd h args env"
  shows "(\<exists>a b. swap_run cd False pa pb a b \<and> sent_kinds a = [AliceLocksCync, AliceClaimsBtc]
        \<and> sent_kinds b = [BobLocksBtc, BobClaimsCync] \<and> (\<exists>sw. party_swap cd pb b = Inr (Some sw) \<and> is_completed sw))
    \<and> (negotiate i Alice p = Inr sw \<longrightarrow> \<not> is_completed (apply_all ts sw))"
proof -
  have "sw_role sw = Alice \<and> sw_state sw = Negotiated" if "negotiate i Alice p = Inr sw"
    using that by (auto simp: negotiate_def split: if_splits)
  then have "negotiate i Alice p = Inr sw \<longrightarrow> \<not> is_completed (apply_all ts sw)"
    using alice_never_completed [of sw ts] by (auto simp: is_completed_def)
  moreover obtain a b where "swap_run cd False pa pb a b" "owns cd pa a Alice SecretRevealed [AliceLocksCync, AliceClaimsBtc]"
      "owns cd pb b Bob Completed [BobLocksBtc, BobClaimsCync]" using good_run [OF assms] by blast
  ultimately show ?thesis unfolding owns_def is_completed_def by blast
qed

text \<open>C20: saving a swap is atomic. Wherever a crash or an I/O error stops it, in the middle of a write included, loading gives
  the old swap or the new one, and the new one if the save reported success.\<close>

theorem swap_save_atomic:
  assumes "codec_ok cd" and "length random = HMAC_KEY_LEN" and "swap_load cd path fs = Inr old"
    and "swap_save cd fail random now path sw fs = (r, fs')"
  shows "swap_load cd path fs' \<in> {Inr old, Inr (Some sw)} \<and> (r = Inr () \<longrightarrow> swap_load cd path fs' = Inr (Some sw))"
proof -
  obtain r0 ss where s: "save_states cd random now path sw fs = (r0, ss)" by fastforce
  have "swap_load cd path fs' = Inr (Some sw)" if "r = Inr ()"
  proof -
    from that assms(4) s have "r0 = Inr ()" "fs' = last ss" by (auto simp: swap_save_def split: option.splits if_splits)
    then show ?thesis using load_saved [OF assms(1,2)] s by auto
  qed
  then show ?thesis using swap_save_load [OF assms] by auto
qed

text \<open>C23: cancelling a locked swap takes the refund away. After \<open>cancel\<close> has succeeded, every command that would move the swap,
  the two refund commands that \<open>cancel\<close> tells the operator to use included, is refused, whatever its arguments and
  surroundings, and changes nothing.\<close>

theorem cancel_blocks_refund:
  assumes "env_ok cd False env" and "cancel_cmd env path w = (Inr (), w')" and "ce_codec env' = cd"
    and "command_transition c = Some t"
  shows "\<exists>e. run_command env' path c w' = (Inl e, w')"
proof -
  have cd: "ce_codec env = cd" using assms(1) by (simp add: env_ok_def)
  from assms(2) obtain sw sw' where sw: "load_party env path w = Inr sw"
      "swap_apply Abort sw = (Inr (), sw')" "save_party env path sw' w = (Inr (), w')"
    by (auto simp: cancel_cmd_def split: sum.splits if_splits prod.splits)
  have "sw_state sw' = Aborted" using sw(2) by (auto simp: swap_apply_ok next_state_def)
  moreover have "party_swap cd path w' = Inr (Some sw')"
    using save_party_good [OF assms(1), of path w sw sw'] sw(1,3) by (simp add: load_party_ok cd)
  ultimately have "load_party env' path w' = Inr sw'" "sw_state sw' = Aborted" by (simp_all add: load_party_ok assms(3))
  then show ?thesis using assms(4) by (cases c) (simp_all add: command_defs swap_apply_def)
qed

text \<open>A crash while the key sidecar is written for the first time blocks the store for good: the truncated sidecar is taken for
  a key, reading it fails, and every later save fails without writing anything.\<close>

theorem torn_sidecar_blocks_saves:
  assumes "fs (hmac_key_path path) = None" and "length random = HMAC_KEY_LEN" and "k < HMAC_KEY_LEN"
    and "swap_save cd (Some (Suc k)) random now path sw fs = (r, fs')"
  shows "r = Inl Io \<and> swap_save cd fail random' now' path sw' fs' = (Inl Io, fs')"
proof -
  let ?kp = "path @ ''.hmac-key''"
  obtain ss where s: "save_states cd random now path sw fs = (Inr (), fs # write_states ?kp random fs @ ss)"
    using assms(1) by (simp add: save_states_def read_or_create_hmac_key_def Let_def)
  have "(fs # write_states ?kp random fs @ ss) ! Suc k = fs(?kp \<mapsto> take k random)"
    using assms(2,3) by (simp add: write_states_def nth_append del: upt_Suc)
  then have fs': "fs' = fs(?kp \<mapsto> take k random)" and r: "r = Inl Io"
    using assms(2,3,4) s by (auto simp: swap_save_def write_states_def)
  have "read_or_create_hmac_key random' ?kp fs' = (Inl Io, [fs'])"
    using assms(2,3) by (simp add: read_or_create_hmac_key_def read_hmac_key_def fs')
  then have "save_states cd random' now' path sw' fs' = (Inl Io, [fs'])" by (simp add: save_states_def Let_def)
  then show ?thesis using r by (simp add: swap_save_def split: option.split)
qed

section \<open>Concrete inputs\<close>

text \<open>A codec that prints an envelope as a list of numbers in unary.\<close>

primrec unary :: "nat list \<Rightarrow> bytes" where
  "unary [] = []"
| "unary (n # ns) = replicate n 1 @ 0 # unary ns"

fun of_unary :: "nat \<Rightarrow> bytes \<Rightarrow> nat list" where
  "of_unary n [] = []"
| "of_unary n (b # bs) = (if b = 0 then n # of_unary 0 bs else of_unary (Suc n) bs)"

lemma of_unary_replicate: "of_unary m (replicate n 1 @ bs) = of_unary (m + n) bs"
  by (induction n arbitrary: m) auto

lemma of_unary_unary: "of_unary 0 (unary ns) = ns"
  by (induction ns) (simp_all add: of_unary_replicate)

definition str_nats :: "string \<Rightarrow> nat list" where
  "str_nats s = length s # map of_char s"

definition read_str :: "nat list \<Rightarrow> string \<times> nat list" where
  "read_str ns = (map char_of (take (hd ns) (tl ns)), drop (hd ns) (tl ns))"

lemma read_str_nats: "read_str (str_nats s @ ns) = (s, ns)"
  by (simp add: read_str_def str_nats_def comp_def)

definition all_states :: "swap_state list" where
  "all_states = [Negotiated, AliceLocked, BobLocked, SecretRevealed, Completed, Refunded, Aborted]"

definition state_nat :: "swap_state \<Rightarrow> nat" where
  "state_nat s = length (takeWhile (\<lambda>x. x \<noteq> s) all_states)"

lemma all_states_nth: "all_states ! state_nat s = s"
  by (cases s) (simp_all add: state_nat_def all_states_def)

definition env_nats :: "state_file_envelope \<Rightarrow> nat list" where
  "env_nats e = (let b = se_body e; sw = sb_swap b; p = sw_parameters sw
     in [sb_version b, sb_saved_at b, if sw_role sw = Alice then 0 else 1, state_nat (sw_state sw),
         sp_cync_amount p, sp_btc_amount_sats p, sp_cync_timeout_blocks p, sp_btc_timeout_blocks p]
       @ str_nats (se_hmac e) @ str_nats (sw_id sw) @ str_nats (sp_alice_cync_address p) @ str_nats (sp_bob_btc_address p)
       @ str_nats (sp_cync_network p) @ str_nats (sp_btc_network p))"

definition env_of_nats :: "nat list \<Rightarrow> state_file_envelope" where
  "env_of_nats ns =
     (let (hmac, r) = read_str (drop 8 ns); (i, r) = read_str r; (a, r) = read_str r; (b, r) = read_str r;
          (cn, r) = read_str r; (bn, r) = read_str r
      in \<lparr> se_body = \<lparr> sb_version = ns ! 0, sb_saved_at = ns ! 1,
             sb_swap = \<lparr> sw_id = i, sw_role = (if ns ! 2 = 0 then Alice else Bob), sw_state = all_states ! (ns ! 3),
               sw_parameters = \<lparr> sp_cync_amount = ns ! 4, sp_btc_amount_sats = ns ! 5, sp_cync_timeout_blocks = ns ! 6,
                 sp_btc_timeout_blocks = ns ! 7, sp_alice_cync_address = a, sp_bob_btc_address = b,
                 sp_cync_network = cn, sp_btc_network = bn \<rparr> \<rparr> \<rparr>,
           se_hmac = hmac \<rparr>)"

lemma env_of_env_nats: "env_of_nats (env_nats e) = e"
proof -
  have "str_nats s = str_nats s @ []" for s by simp
  then show ?thesis
    by (cases "sw_role (sb_swap (se_body e))")
      (simp_all add: env_of_nats_def env_nats_def Let_def read_str_nats all_states_nth read_str_nats [of _ "[]", simplified])
qed

definition sample_swap_codec :: swap_codec where
  "sample_swap_codec = \<lparr> body_to_vec = \<lambda>b. [], env_to_vec = \<lambda>e. unary (env_nats e),
     version_of_slice = \<lambda>bs. Some (hd (of_unary 0 bs)), env_of_slice = \<lambda>bs. Some (env_of_nats (of_unary 0 bs)),
     hmac_hex = \<lambda>k b. ''00'' \<rparr>"

lemma sample_codec_ok: "codec_ok sample_swap_codec"
  unfolding codec_ok_def sample_swap_codec_def
  by (simp add: of_unary_unary env_of_env_nats) (simp add: env_nats_def Let_def)

definition sample_cli_env :: cli_env where
  "sample_cli_env = \<lparr> ce_codec = sample_swap_codec, ce_unhex = \<lambda>h. Some (replicate 32 1), ce_broadcast = \<lambda>tx. (True, Inr ''txid''),
     ce_validate_claim = \<lambda>base tx. Inr (), ce_rpc_user = None, ce_rpc_pass = None, ce_now = 0,
     ce_random = replicate 32 7, ce_disk_fails_at = None \<rparr>"

definition sample_claim :: claim_args where
  "sample_claim = \<lparr> ca_lock_txid_hex = ''01'', ca_lock_vout = 0, ca_lock_internal_key_hex = ''02'', ca_dest_address = ''bc1'',
     ca_fee_sats = 300, ca_refund_bob_pubkey_hex = None, ca_refund_csv_blocks = None \<rparr>"

lemma sample_good: "good_env sample_swap_codec ''01'' sample_claim sample_cli_env"
  by (simp add: good_env_def env_ok_def sample_codec_ok sample_cli_env_def sample_claim_def HMAC_KEY_LEN_def
      parse_claim_tx_base_def parse_hex_32_def parse_refund_branch_flags_def)

lemma sample_env_ok: "env_ok sample_swap_codec False sample_cli_env"
  using sample_good by (simp add: good_env_def)

theorem swap_broadcast_order_witness:
  "\<exists>a b. swap_run sample_swap_codec False ''a.json'' ''b.json'' a b
     \<and> has_sent BobClaimsCync b \<and> has_sent AliceClaimsBtc a \<and> has_sent BobLocksBtc b \<and> has_sent AliceLocksCync a"
proof -
  obtain a b where "swap_run sample_swap_codec False ''a.json'' ''b.json'' a b"
      "owns sample_swap_codec ''b.json'' b Bob Completed [BobLocksBtc, BobClaimsCync]" using good_run [OF sample_good] by blast
  with swap_broadcast_order [OF this(1)] owns_has_sent [OF this(2)] show ?thesis by (intro exI [of _ a] exI [of _ b]) auto
qed

theorem swap_exclusive_witness:
  "\<exists>a b. swap_run sample_swap_codec False ''a.json'' ''b.json'' a b
     \<and> has_sent AliceClaimsBtc a \<and> \<not> has_sent AliceRefunds a \<and> has_sent BobClaimsCync b \<and> \<not> has_sent BobRefunds b"
proof -
  obtain a b where r: "swap_run sample_swap_codec False ''a.json'' ''b.json'' a b"
      "owns sample_swap_codec ''a.json'' a Alice SecretRevealed [AliceLocksCync, AliceClaimsBtc]"
      "owns sample_swap_codec ''b.json'' b Bob Completed [BobLocksBtc, BobClaimsCync]" using good_run [OF sample_good] by blast
  have "has_sent AliceClaimsBtc a" "has_sent BobClaimsCync b" using owns_has_sent [OF r(2)] owns_has_sent [OF r(3)] by simp_all
  with r(1) swap_exclusive [OF r(1)] show ?thesis by (intro exI [of _ a] exI [of _ b]) (auto simp: has_sent_def)
qed

theorem lost_answer_claim_and_refund_witness:
  "\<exists>a b. swap_run sample_swap_codec True ''a.json'' ''b.json'' a b \<and> sent_kinds a = [AliceLocksCync, AliceClaimsBtc, AliceRefunds]"
  by (rule lost_answer_claim_and_refund [OF sample_good])

definition sample_swap :: swap where
  "sample_swap = \<lparr> sw_id = ''s'', sw_role = Alice, sw_state = AliceLocked, sw_parameters = default_params 5 7 ''a'' ''b'' \<rparr>"

theorem swap_completes_witness:
  "(\<exists>a b. swap_run sample_swap_codec False ''a.json'' ''b.json'' a b \<and> sent_kinds a = [AliceLocksCync, AliceClaimsBtc]
      \<and> sent_kinds b = [BobLocksBtc, BobClaimsCync])
   \<and> negotiate ''s'' Alice (default_params 5 7 ''a'' ''b'') = Inr (sample_swap \<lparr> sw_state := Negotiated \<rparr>)
   \<and> \<not> is_completed (apply_all [AliceLocksCync, ObserveBobLocked, AliceClaimsBtc, ObserveCompleted] (sample_swap \<lparr> sw_state := Negotiated \<rparr>))"
proof -
  have n: "negotiate ''s'' Alice (default_params 5 7 ''a'' ''b'') = Inr (sample_swap \<lparr> sw_state := Negotiated \<rparr>)"
    by (simp add: negotiate_def is_timeout_safe_iff params_wf_def default_params_def DEFAULT_CYNC_TIMEOUT_BLOCKS_def
        DEFAULT_BTC_TIMEOUT_BLOCKS_def sample_swap_def)
  from swap_completes [OF sample_good, of "''a.json''" "''b.json''"] n show ?thesis by blast
qed

theorem swap_save_atomic_witness:
  "swap_load sample_swap_codec ''s.json'' (snd (swap_save sample_swap_codec (Some 40) (replicate 32 7) 0 ''s.json'' sample_swap Map.empty))
     \<in> {Inr None, Inr (Some sample_swap)}"
proof -
  have "swap_load sample_swap_codec ''s.json'' Map.empty = Inr None" by (simp add: swap_load_def)
  from swap_save_atomic [OF sample_codec_ok _ this, of "replicate 32 7" "Some 40" 0 sample_swap] show ?thesis
    by (metis HMAC_KEY_LEN_def length_replicate prod.collapse)
qed

text \<open>A party whose swap is locked, after a first save.\<close>

definition locked_party :: party where
  "locked_party = snd (save_party sample_cli_env ''s.json'' sample_swap \<lparr> pa_files = Map.empty, pa_sent = [] \<rparr>)"

lemma locked_party_swap: "party_swap sample_swap_codec ''s.json'' locked_party = Inr (Some sample_swap)"
proof -
  obtain ss where ss: "save_states sample_swap_codec (replicate 32 7) 0 ''s.json'' sample_swap Map.empty = (Inr (), ss)"
    by (simp add: save_states_def read_or_create_hmac_key_def Let_def)
  then have eq: "pa_files locked_party = last ss"
    by (simp add: locked_party_def save_party_def swap_save_def sample_cli_env_def)
  show ?thesis unfolding party_swap_def eq using load_saved [OF sample_codec_ok _ ss] by (simp add: HMAC_KEY_LEN_def)
qed

theorem cancel_blocks_refund_witness:
  "\<exists>e. run_command sample_cli_env ''s.json'' (CmdRefundCync ''01'') (snd (cancel_cmd sample_cli_env ''s.json'' locked_party))
     = (Inl e, snd (cancel_cmd sample_cli_env ''s.json'' locked_party))"
proof -
  let ?sw = "sample_swap \<lparr> sw_state := Aborted \<rparr>"
  have "load_party sample_cli_env ''s.json'' locked_party = Inr sample_swap"
    using locked_party_swap by (simp add: load_party_ok sample_cli_env_def)
  then have "cancel_cmd sample_cli_env ''s.json'' locked_party = save_party sample_cli_env ''s.json'' ?sw locked_party"
    by (simp add: cancel_cmd_def swap_apply_def next_state_def sample_swap_def)
  moreover have "fst (save_party sample_cli_env ''s.json'' ?sw locked_party) = Inr ()"
    using swap_save_ok [of sample_swap_codec "''s.json''" "pa_files locked_party" sample_swap] locked_party_swap
    by (auto simp: party_swap_def save_party_def sample_cli_env_def split: sum.splits prod.splits) (metis fst_conv sum.distinct(1))
  ultimately have "cancel_cmd sample_cli_env ''s.json'' locked_party = (Inr (), snd (cancel_cmd sample_cli_env ''s.json'' locked_party))"
    by (metis prod.collapse)
  from cancel_blocks_refund [OF sample_env_ok this, of sample_cli_env "CmdRefundCync ''01''" AliceRefunds] show ?thesis
    by (simp add: sample_cli_env_def)
qed

theorem torn_sidecar_blocks_saves_witness:
  "swap_save sample_swap_codec None (replicate 32 9) 1 ''s.json'' sample_swap
       (snd (swap_save sample_swap_codec (Some 11) (replicate 32 7) 0 ''s.json'' sample_swap Map.empty))
     = (Inl Io, snd (swap_save sample_swap_codec (Some 11) (replicate 32 7) 0 ''s.json'' sample_swap Map.empty))"
  using torn_sidecar_blocks_saves [of Map.empty "''s.json''" "replicate 32 7" 10 sample_swap_codec 0 sample_swap
      "fst (swap_save sample_swap_codec (Some 11) (replicate 32 7) 0 ''s.json'' sample_swap Map.empty)"
      "snd (swap_save sample_swap_codec (Some 11) (replicate 32 7) 0 ''s.json'' sample_swap Map.empty)"
      None "replicate 32 9" 1 sample_swap]
  by (simp add: HMAC_KEY_LEN_def)

end
