(* ===== verification/Swap_Handshake.thy ===== *)
theory Swap_Handshake
  imports Swap_Protocol
begin

text \<open>
  The negotiation of a swap (\<open>crates/coincync-swap/src/coordinator.rs\<close>): the messages, the session state machine of
  each role, the framing of messages on a byte stream, and the drivers \<open>run_alice\<close> and \<open>run_bob\<close> that take a session
  from its first message to \<open>Negotiated\<close>. JSON and the check of the counterparty's adaptor material are parameters;
  a connection is the byte string that arrives and the byte string that has been sent.
\<close>

section \<open>Messages and sessions\<close>

record adaptor_bundle =
  ab_btc_adaptor :: bytes
  ab_cync_adaptor :: bytes
  ab_dl_proof :: bytes
  ab_refund_tx :: bytes

datatype swap_message = Hello string bytes bytes | HelloAck bytes bytes swap_parameters | Accept
  | AdaptorMaterial adaptor_bundle | Ready | MsgAbort string

datatype phase = PhInitial | PhAwaitingAck | PhExchangingAdaptors | PhAwaitingReady | PhNegotiated | PhAborted

definition phase_is_terminal :: "phase \<Rightarrow> bool" where
  "phase_is_terminal p = (p = PhNegotiated \<or> p = PhAborted)"

record handshake_session =
  hs_role :: swap_role
  hs_phase :: phase
  hs_swap_id :: string
  hs_counterparty_btc_pubkey :: "bytes option"
  hs_counterparty_cync_pubkey :: "bytes option"
  hs_parameters :: "swap_parameters option"
  hs_sent_adaptors :: bool
  hs_received_adaptors :: bool

datatype handshake_action = WaitForCaller string | Done | VerifyAdaptorMaterial adaptor_bundle | ActAborted string

datatype handshake_error = OutOfOrder string phase | SwapIdMismatch string string | Terminal phase | Duplicate string

definition new_session :: "swap_role \<Rightarrow> string \<Rightarrow> handshake_session" where
  "new_session role i = \<lparr> hs_role = role, hs_phase = PhInitial, hs_swap_id = i, hs_counterparty_btc_pubkey = None,
     hs_counterparty_cync_pubkey = None, hs_parameters = None, hs_sent_adaptors = False, hs_received_adaptors = False \<rparr>"

definition new_alice :: "string \<Rightarrow> handshake_session" where
  "new_alice = new_session Alice"

definition new_bob :: "string \<Rightarrow> handshake_session" where
  "new_bob = new_session Bob"

type_synonym 'a session_op = "handshake_session \<Rightarrow> (handshake_error + 'a) \<times> handshake_session"

definition start_bob :: "bytes \<Rightarrow> bytes \<Rightarrow> swap_message session_op" where
  "start_bob btc cync s =
     (if hs_role s \<noteq> Bob then (Inl (OutOfOrder ''start_bob'' (hs_phase s)), s)
      else if hs_phase s \<noteq> PhInitial then (Inl (OutOfOrder ''start_bob'' (hs_phase s)), s)
      else (Inr (Hello (hs_swap_id s) btc cync), s \<lparr> hs_phase := PhAwaitingAck \<rparr>))"

definition maybe_advance_to_awaiting_ready :: "handshake_session \<Rightarrow> handshake_session" where
  "maybe_advance_to_awaiting_ready s =
     (if hs_sent_adaptors s \<and> hs_received_adaptors s then s \<lparr> hs_phase := PhAwaitingReady \<rparr> else s)"

definition send_adaptors :: "adaptor_bundle \<Rightarrow> swap_message session_op" where
  "send_adaptors ab s =
     (if hs_phase s \<noteq> PhExchangingAdaptors then (Inl (OutOfOrder ''send_adaptors'' (hs_phase s)), s)
      else if hs_sent_adaptors s then (Inl (Duplicate ''outbound AdaptorMaterial''), s)
      else (Inr (AdaptorMaterial ab), maybe_advance_to_awaiting_ready (s \<lparr> hs_sent_adaptors := True \<rparr>)))"

definition send_ready :: "swap_message session_op" where
  "send_ready s =
     (if hs_phase s \<noteq> PhAwaitingReady then (Inl (OutOfOrder ''send_ready'' (hs_phase s)), s) else (Inr Ready, s))"

definition send_abort :: "string \<Rightarrow> handshake_session \<Rightarrow> swap_message \<times> handshake_session" where
  "send_abort reason s = (MsgAbort reason, s \<lparr> hs_phase := PhAborted \<rparr>)"

definition message_kind :: "swap_message \<Rightarrow> string" where
  "message_kind m = (case m of Hello _ _ _ \<Rightarrow> ''Hello'' | HelloAck _ _ _ \<Rightarrow> ''HelloAck'' | Accept \<Rightarrow> ''Accept''
     | AdaptorMaterial _ \<Rightarrow> ''AdaptorMaterial'' | Ready \<Rightarrow> ''Ready'' | MsgAbort _ \<Rightarrow> ''Abort'')"

definition handle_inbound :: "swap_message \<Rightarrow> handshake_action session_op" where
  "handle_inbound m s =
     (let out_of_order = (Inl (OutOfOrder (message_kind m) (hs_phase s)), s)
      in if phase_is_terminal (hs_phase s) then (Inl (Terminal (hs_phase s)), s)
         else case m of
           MsgAbort reason \<Rightarrow> (Inr (ActAborted reason), s \<lparr> hs_phase := PhAborted \<rparr>)
         | Hello swap_id btc cync \<Rightarrow>
             if hs_role s = Alice \<and> hs_phase s = PhInitial then
               if swap_id \<noteq> hs_swap_id s then (Inl (SwapIdMismatch (hs_swap_id s) swap_id), s)
               else (Inr (WaitForCaller ''respond_with_hello_ack''),
                     s \<lparr> hs_counterparty_btc_pubkey := Some btc, hs_counterparty_cync_pubkey := Some cync,
                         hs_phase := PhAwaitingAck \<rparr>)
             else out_of_order
         | HelloAck btc cync params \<Rightarrow>
             if hs_role s = Bob \<and> hs_phase s = PhAwaitingAck
             then (Inr (WaitForCaller ''accept_or_send_abort''),
                   s \<lparr> hs_counterparty_btc_pubkey := Some btc, hs_counterparty_cync_pubkey := Some cync,
                       hs_parameters := Some params, hs_phase := PhAwaitingAck \<rparr>)
             else out_of_order
         | Accept \<Rightarrow>
             if hs_role s = Alice \<and> hs_phase s = PhAwaitingAck
             then (Inr (WaitForCaller ''send_adaptors''), s \<lparr> hs_phase := PhExchangingAdaptors \<rparr>)
             else out_of_order
         | AdaptorMaterial ab \<Rightarrow>
             if hs_phase s = PhExchangingAdaptors then
               if hs_received_adaptors s then (Inl (Duplicate ''AdaptorMaterial''), s)
               else (Inr (VerifyAdaptorMaterial ab), maybe_advance_to_awaiting_ready (s \<lparr> hs_received_adaptors := True \<rparr>))
             else out_of_order
         | Ready \<Rightarrow>
             if hs_phase s = PhAwaitingReady then (Inr Done, s \<lparr> hs_phase := PhNegotiated \<rparr>) else out_of_order)"

definition respond_with_hello_ack :: "bytes \<Rightarrow> bytes \<Rightarrow> swap_parameters \<Rightarrow> swap_message session_op" where
  "respond_with_hello_ack btc cync params s =
     (if hs_role s \<noteq> Alice then (Inl (OutOfOrder ''respond_with_hello_ack'' (hs_phase s)), s)
      else if hs_phase s \<noteq> PhAwaitingAck then (Inl (OutOfOrder ''respond_with_hello_ack'' (hs_phase s)), s)
      else if \<not> is_timeout_safe params
      then (Inl (OutOfOrder ''respond_with_hello_ack (unsafe timeouts)'' (hs_phase s)), s)
      else (Inr (HelloAck btc cync params), s \<lparr> hs_parameters := Some params \<rparr>))"

definition bob_accept :: "swap_message session_op" where
  "bob_accept s =
     (if hs_role s \<noteq> Bob then (Inl (OutOfOrder ''accept'' (hs_phase s)), s)
      else if hs_phase s \<noteq> PhAwaitingAck then (Inl (OutOfOrder ''accept'' (hs_phase s)), s)
      else if hs_parameters s = None then (Inl (OutOfOrder ''accept (no parameters)'' (hs_phase s)), s)
      else (Inr Accept, s \<lparr> hs_phase := PhExchangingAdaptors \<rparr>))"

section \<open>Transport\<close>

definition MAX_FRAME_BYTES :: nat where "MAX_FRAME_BYTES = 16 * 1024 * 1024"

text \<open>\<open>serde_json\<close> on messages.\<close>

record message_codec =
  msg_to_vec :: "swap_message \<Rightarrow> bytes"
  msg_of_slice :: "bytes \<Rightarrow> swap_message option"

definition message_codec_ok :: "message_codec \<Rightarrow> bool" where
  "message_codec_ok mc = (\<forall>m. msg_of_slice mc (msg_to_vec mc m) = Some m)"

definition frame_message :: "message_codec \<Rightarrow> swap_message \<Rightarrow> string + bytes" where
  "frame_message mc m =
     (let b = msg_to_vec mc m
      in if MAX_FRAME_BYTES < length b then Inl ''outbound frame exceeds MAX_FRAME_BYTES''
         else Inr (be_bytes 4 (length b) @ b))"

definition recv_framed_bytes :: "bytes \<Rightarrow> string + bytes \<times> bytes" where
  "recv_framed_bytes stream =
     (if length stream < 4 then Inl ''TCP read length''
      else let len = from_be_bytes (take 4 stream); rest = drop 4 stream
           in if MAX_FRAME_BYTES < len then Inl ''inbound frame exceeds MAX_FRAME_BYTES''
              else if length rest < len then Inl ''TCP read body''
              else Inr (take len rest, drop len rest))"

definition recv_message :: "message_codec \<Rightarrow> bytes \<Rightarrow> string + swap_message \<times> bytes" where
  "recv_message mc stream =
     (case recv_framed_bytes stream of
        Inl e \<Rightarrow> Inl e
      | Inr (body, rest) \<Rightarrow>
          (case msg_of_slice mc body of None \<Rightarrow> Inl ''JSON deserialize Message'' | Some m \<Rightarrow> Inr (m, rest)))"

section \<open>Drivers\<close>

text \<open>A coordinator: its session, the bytes that will arrive, the bytes it has sent.\<close>

record coordinator =
  co_session :: handshake_session
  co_in :: bytes
  co_out :: bytes

type_synonym 'a coord_op = "coordinator \<Rightarrow> (string + 'a) \<times> coordinator"

text \<open>\<open>?\<close>: go on with the value, or return the error.\<close>

definition co_bind :: "'a coord_op \<Rightarrow> ('a \<Rightarrow> 'b coord_op) \<Rightarrow> 'b coord_op" where
  "co_bind f g c = (case f c of (Inl e, c) \<Rightarrow> (Inl e, c) | (Inr x, c) \<Rightarrow> g x c)"

definition co_session_op :: "string \<Rightarrow> 'a session_op \<Rightarrow> 'a coord_op" where
  "co_session_op context f c =
     (case f (co_session c) of
        (Inl e, s) \<Rightarrow> (Inl context, c \<lparr> co_session := s \<rparr>)
      | (Inr x, s) \<Rightarrow> (Inr x, c \<lparr> co_session := s \<rparr>))"

definition co_send :: "message_codec \<Rightarrow> swap_message \<Rightarrow> unit coord_op" where
  "co_send mc m c = (case frame_message mc m of Inl e \<Rightarrow> (Inl e, c) | Inr b \<Rightarrow> (Inr (), c \<lparr> co_out := co_out c @ b \<rparr>))"

definition co_recv :: "message_codec \<Rightarrow> swap_message coord_op" where
  "co_recv mc c = (case recv_message mc (co_in c) of Inl e \<Rightarrow> (Inl e, c) | Inr (m, rest) \<Rightarrow> (Inr m, c \<lparr> co_in := rest \<rparr>))"

definition expect_wait_for :: "string \<Rightarrow> handshake_action \<Rightarrow> unit coord_op" where
  "expect_wait_for expected a c =
     ((case a of WaitForCaller next \<Rightarrow> if next = expected then Inr () else Inl ''expected WaitForCaller''
        | ActAborted reason \<Rightarrow> Inl (''counterparty aborted handshake: '' @ reason)
        | _ \<Rightarrow> Inl ''expected WaitForCaller''), c)"

definition expect_done :: "handshake_action \<Rightarrow> unit coord_op" where
  "expect_done a c =
     ((case a of Done \<Rightarrow> Inr () | ActAborted reason \<Rightarrow> Inl (''counterparty aborted at final step: '' @ reason)
        | _ \<Rightarrow> Inl ''expected HandshakeAction::Done''), c)"

definition run_verifier :: "(adaptor_bundle \<Rightarrow> string + unit) \<Rightarrow> handshake_action \<Rightarrow> unit coord_op" where
  "run_verifier verifier a c =
     ((case a of VerifyAdaptorMaterial ab \<Rightarrow> verifier ab | ActAborted reason \<Rightarrow> Inl (''counterparty aborted: '' @ reason)
        | _ \<Rightarrow> Inl ''expected VerifyAdaptorMaterial''), c)"

text \<open>The tail both drivers share: send the adaptor material, receive and verify the counterparty's, exchange \<open>Ready\<close>.\<close>

definition exchange_adaptors :: "message_codec \<Rightarrow> adaptor_bundle \<Rightarrow> (adaptor_bundle \<Rightarrow> string + unit) \<Rightarrow> unit coord_op" where
  "exchange_adaptors mc adaptors verifier =
     co_bind (co_session_op ''send_adaptors'' (send_adaptors adaptors)) (\<lambda>adapt.
     co_bind (co_send mc adapt) (\<lambda>_.
     co_bind (co_recv mc) (\<lambda>their_adapt.
     co_bind (co_session_op ''recv AdaptorMaterial'' (handle_inbound their_adapt)) (\<lambda>action.
     co_bind (run_verifier verifier action) (\<lambda>_.
     co_bind (co_session_op ''send_ready'' send_ready) (\<lambda>ready.
     co_bind (co_send mc ready) (\<lambda>_.
     co_bind (co_recv mc) (\<lambda>their_ready.
     co_bind (co_session_op ''recv Ready'' (handle_inbound their_ready)) (\<lambda>action.
     expect_done action)))))))))"

definition run_alice_post_hello ::
    "message_codec \<Rightarrow> bytes \<Rightarrow> bytes \<Rightarrow> swap_parameters \<Rightarrow> adaptor_bundle \<Rightarrow> (adaptor_bundle \<Rightarrow> string + unit) \<Rightarrow> unit coord_op" where
  "run_alice_post_hello mc btc cync params adaptors verifier =
     co_bind (co_session_op ''respond_with_hello_ack'' (respond_with_hello_ack btc cync params)) (\<lambda>ack.
     co_bind (co_send mc ack) (\<lambda>_.
     co_bind (co_recv mc) (\<lambda>accept.
     co_bind (co_session_op ''recv Accept'' (handle_inbound accept)) (\<lambda>action.
     co_bind (expect_wait_for ''send_adaptors'' action) (\<lambda>_.
     exchange_adaptors mc adaptors verifier)))))"

definition run_alice ::
    "message_codec \<Rightarrow> bytes \<Rightarrow> bytes \<Rightarrow> swap_parameters \<Rightarrow> adaptor_bundle \<Rightarrow> (adaptor_bundle \<Rightarrow> string + unit) \<Rightarrow> unit coord_op" where
  "run_alice mc btc cync params adaptors verifier =
     co_bind (co_recv mc) (\<lambda>hello.
     co_bind (co_session_op ''recv Hello'' (handle_inbound hello)) (\<lambda>action.
     co_bind (expect_wait_for ''respond_with_hello_ack'' action) (\<lambda>_.
     run_alice_post_hello mc btc cync params adaptors verifier)))"

definition run_bob ::
    "message_codec \<Rightarrow> bytes \<Rightarrow> bytes \<Rightarrow> adaptor_bundle \<Rightarrow> (adaptor_bundle \<Rightarrow> string + unit) \<Rightarrow> unit coord_op" where
  "run_bob mc btc cync adaptors verifier =
     co_bind (co_session_op ''start_bob'' (start_bob btc cync)) (\<lambda>hello.
     co_bind (co_send mc hello) (\<lambda>_.
     co_bind (co_recv mc) (\<lambda>ack.
     co_bind (co_session_op ''recv HelloAck'' (handle_inbound ack)) (\<lambda>action.
     co_bind (expect_wait_for ''accept_or_send_abort'' action) (\<lambda>_.
     co_bind (co_session_op ''accept'' bob_accept) (\<lambda>accept.
     co_bind (co_send mc accept) (\<lambda>_.
     exchange_adaptors mc adaptors verifier)))))))"

text \<open>\<open>listen_filtered\<close> tries the peers in the order they connect; a peer is the byte string it sends. The first one
  with a valid \<open>Hello\<close> gets the session.\<close>

definition validate_hello :: "message_codec \<Rightarrow> string \<Rightarrow> bytes \<Rightarrow> string + coordinator" where
  "validate_hello mc swap_id stream =
     (case co_bind (co_recv mc) (\<lambda>hello. co_bind (co_session_op ''Hello validation'' (handle_inbound hello))
             (expect_wait_for ''respond_with_hello_ack''))
             \<lparr> co_session = new_alice swap_id, co_in = stream, co_out = [] \<rparr> of
        (Inl e, _) \<Rightarrow> Inl e
      | (Inr _, c) \<Rightarrow> Inr c)"

primrec accept_loop :: "message_codec \<Rightarrow> string \<Rightarrow> nat \<Rightarrow> bytes list \<Rightarrow> string + coordinator" where
  "accept_loop mc swap_id 0 peers = Inl ''exhausted attempts without a valid peer''"
| "accept_loop mc swap_id (Suc n) peers =
     (case peers of
        [] \<Rightarrow> Inl ''TCP accept''
      | p # ps \<Rightarrow> (case validate_hello mc swap_id p of Inr c \<Rightarrow> Inr c | Inl _ \<Rightarrow> accept_loop mc swap_id n ps))"

definition listen_filtered :: "message_codec \<Rightarrow> string \<Rightarrow> nat \<Rightarrow> bytes list \<Rightarrow> string + coordinator" where
  "listen_filtered mc swap_id max_attempts peers =
     (if max_attempts = 0 then Inl ''listen_filtered: max_attempts must be >= 1''
      else accept_loop mc swap_id max_attempts peers)"

section \<open>Framing\<close>

lemma recv_frame:
  assumes "message_codec_ok mc" "frame_message mc m = Inr b"
  shows "recv_message mc (b @ rest) = Inr (m, rest)"
proof -
  let ?v = "msg_to_vec mc m"
  from assms(2) have len: "length ?v \<le> MAX_FRAME_BYTES" and b: "b = be_bytes 4 (length ?v) @ ?v"
    by (auto simp: frame_message_def Let_def split: if_splits)
  have "length ?v < 256 ^ 4" using len by (simp add: MAX_FRAME_BYTES_def)
  then have "recv_framed_bytes (b @ rest) = Inr (?v, rest)"
    using len by (simp add: recv_framed_bytes_def b Let_def from_be_bytes_be_bytes)
  then show ?thesis using assms(1) by (simp add: recv_message_def message_codec_ok_def)
qed

lemma recv_append:
  assumes "recv_message mc s = Inr (m, rest)"
  shows "recv_message mc (s @ x) = Inr (m, rest @ x)"
proof -
  from assms obtain body where "recv_framed_bytes s = Inr (body, rest)" "msg_of_slice mc body = Some m"
    by (auto simp: recv_message_def split: sum.splits option.splits)
  moreover from this(1) have "recv_framed_bytes (s @ x) = Inr (body, rest @ x)"
    by (auto simp: recv_framed_bytes_def Let_def split: if_splits)
  ultimately show ?thesis by (simp add: recv_message_def)
qed

text \<open>What a party reads is what the other one wrote.\<close>

lemma recv_is_sent:
  assumes "message_codec_ok mc" "recv_message mc s = Inr (m, rest)" "frame_message mc m' = Inr b" "s @ x = b @ y"
  shows "m = m' \<and> rest @ x = y"
  using recv_append [OF assms(2), of x] recv_frame [OF assms(1,3), of y] assms(4) by simp

section \<open>Runs of the drivers\<close>

lemma co_bind_ok:
  "co_bind f g c = (Inr x, c') \<longleftrightarrow> (\<exists>y c1. f c = (Inr y, c1) \<and> g y c1 = (Inr x, c'))"
  by (auto simp: co_bind_def split: prod.splits sum.splits)

lemma co_send_ok: "co_send mc m c = (Inr u, c') \<longleftrightarrow> (\<exists>b. frame_message mc m = Inr b \<and> c' = c \<lparr> co_out := co_out c @ b \<rparr>)"
  by (auto simp: co_send_def split: sum.splits)

lemma co_recv_ok: "co_recv mc c = (Inr m, c') \<longleftrightarrow> (\<exists>rest. recv_message mc (co_in c) = Inr (m, rest) \<and> c' = c \<lparr> co_in := rest \<rparr>)"
  by (auto simp: co_recv_def split: sum.splits)

lemma co_session_op_ok:
  "co_session_op ctx f c = (Inr x, c') \<longleftrightarrow> (\<exists>s. f (co_session c) = (Inr x, s) \<and> c' = c \<lparr> co_session := s \<rparr>)"
  by (auto simp: co_session_op_def split: prod.splits sum.splits)

lemma expect_ok:
  "expect_wait_for e a c = (Inr u, c') \<longleftrightarrow> a = WaitForCaller e \<and> c' = c"
  "expect_done a c = (Inr u, c') \<longleftrightarrow> a = Done \<and> c' = c"
  "run_verifier v a c = (Inr u, c') \<longleftrightarrow> (\<exists>ab. a = VerifyAdaptorMaterial ab \<and> v ab = Inr ()) \<and> c' = c"
  by (auto simp: expect_wait_for_def expect_done_def run_verifier_def split: handshake_action.splits)

lemmas co_ok = co_bind_ok co_send_ok co_recv_ok co_session_op_ok expect_ok

text \<open>Which messages the session accepts in a driver.\<close>

lemma handle_inbound_wait:
  "handle_inbound m s = (Inr (WaitForCaller ''respond_with_hello_ack''), s') \<longleftrightarrow>
     hs_role s = Alice \<and> hs_phase s = PhInitial \<and> (\<exists>btc cync. m = Hello (hs_swap_id s) btc cync
       \<and> s' = s \<lparr> hs_counterparty_btc_pubkey := Some btc, hs_counterparty_cync_pubkey := Some cync, hs_phase := PhAwaitingAck \<rparr>)"
  "handle_inbound m s = (Inr (WaitForCaller ''accept_or_send_abort''), s') \<longleftrightarrow>
     hs_role s = Bob \<and> hs_phase s = PhAwaitingAck \<and> (\<exists>btc cync p. m = HelloAck btc cync p
       \<and> s' = s \<lparr> hs_counterparty_btc_pubkey := Some btc, hs_counterparty_cync_pubkey := Some cync,
                  hs_parameters := Some p, hs_phase := PhAwaitingAck \<rparr>)"
  "handle_inbound m s = (Inr (WaitForCaller ''send_adaptors''), s') \<longleftrightarrow>
     hs_role s = Alice \<and> hs_phase s = PhAwaitingAck \<and> m = Accept \<and> s' = s \<lparr> hs_phase := PhExchangingAdaptors \<rparr>"
  by (cases m; auto simp: handle_inbound_def Let_def phase_is_terminal_def)+

lemma handle_inbound_rest:
  "handle_inbound m s = (Inr (VerifyAdaptorMaterial ab), s') \<longleftrightarrow>
     hs_phase s = PhExchangingAdaptors \<and> \<not> hs_received_adaptors s \<and> m = AdaptorMaterial ab
     \<and> s' = maybe_advance_to_awaiting_ready (s \<lparr> hs_received_adaptors := True \<rparr>)"
  "handle_inbound m s = (Inr Done, s') \<longleftrightarrow> hs_phase s = PhAwaitingReady \<and> m = Ready \<and> s' = s \<lparr> hs_phase := PhNegotiated \<rparr>"
  by (cases m; auto simp: handle_inbound_def Let_def phase_is_terminal_def)+

lemma session_calls:
  "send_adaptors ab s = (Inr m, s') \<longleftrightarrow> hs_phase s = PhExchangingAdaptors \<and> \<not> hs_sent_adaptors s \<and> m = AdaptorMaterial ab
     \<and> s' = maybe_advance_to_awaiting_ready (s \<lparr> hs_sent_adaptors := True \<rparr>)"
  "send_ready s = (Inr m, s') \<longleftrightarrow> hs_phase s = PhAwaitingReady \<and> m = Ready \<and> s' = s"
  "start_bob btc cync s = (Inr m, s') \<longleftrightarrow> hs_role s = Bob \<and> hs_phase s = PhInitial \<and> m = Hello (hs_swap_id s) btc cync
     \<and> s' = s \<lparr> hs_phase := PhAwaitingAck \<rparr>"
  "respond_with_hello_ack btc cync p s = (Inr m, s') \<longleftrightarrow> hs_role s = Alice \<and> hs_phase s = PhAwaitingAck \<and> is_timeout_safe p
     \<and> m = HelloAck btc cync p \<and> s' = s \<lparr> hs_parameters := Some p \<rparr>"
  "bob_accept s = (Inr m, s') \<longleftrightarrow> hs_role s = Bob \<and> hs_phase s = PhAwaitingAck \<and> hs_parameters s \<noteq> None
     \<and> m = Accept \<and> s' = s \<lparr> hs_phase := PhExchangingAdaptors \<rparr>"
  by (auto simp: send_adaptors_def send_ready_def start_bob_def respond_with_hello_ack_def bob_accept_def)

text \<open>The session at the end, in terms of the session at the start of the exchange.\<close>

definition finished :: "handshake_session \<Rightarrow> handshake_session" where
  "finished s = s \<lparr> hs_sent_adaptors := True, hs_received_adaptors := True, hs_phase := PhNegotiated \<rparr>"

lemma exchange_adaptors_ok:
  assumes "exchange_adaptors mc ab v c = (Inr (), c')" and "\<not> hs_sent_adaptors (co_session c)" "\<not> hs_received_adaptors (co_session c)"
  shows "\<exists>theirs r1 f1 f2. v theirs = Inr () \<and> recv_message mc (co_in c) = Inr (AdaptorMaterial theirs, r1)
    \<and> recv_message mc r1 = Inr (Ready, co_in c') \<and> frame_message mc (AdaptorMaterial ab) = Inr f1 \<and> frame_message mc Ready = Inr f2
    \<and> co_out c' = co_out c @ f1 @ f2 \<and> co_session c' = finished (co_session c)
    \<and> hs_phase (co_session c) = PhExchangingAdaptors"
  using assms unfolding exchange_adaptors_def co_ok
  by (elim exE conjE)
     (simp add: session_calls handle_inbound_rest maybe_advance_to_awaiting_ready_def finished_def)

definition start_of :: "handshake_session \<Rightarrow> bytes \<Rightarrow> coordinator" where
  "start_of s stream = \<lparr> co_session = s, co_in = stream, co_out = [] \<rparr>"

lemma run_alice_ok:
  assumes "run_alice mc btc cync p ab v (start_of (new_alice i) stream) = (Inr (), c)"
  shows "\<exists>bbtc bcync theirs r1 r2 r3 f1 f2 f3.
      recv_message mc stream = Inr (Hello i bbtc bcync, r1) \<and> recv_message mc r1 = Inr (Accept, r2)
    \<and> recv_message mc r2 = Inr (AdaptorMaterial theirs, r3) \<and> recv_message mc r3 = Inr (Ready, co_in c)
    \<and> v theirs = Inr () \<and> is_timeout_safe p
    \<and> frame_message mc (HelloAck btc cync p) = Inr f1 \<and> frame_message mc (AdaptorMaterial ab) = Inr f2 \<and> frame_message mc Ready = Inr f3
    \<and> co_out c = f1 @ f2 @ f3
    \<and> co_session c = finished (new_alice i \<lparr> hs_counterparty_btc_pubkey := Some bbtc, hs_counterparty_cync_pubkey := Some bcync,
        hs_parameters := Some p \<rparr>)"
  using assms unfolding run_alice_def run_alice_post_hello_def co_ok start_of_def
  apply (elim exE conjE)
  apply (drule exchange_adaptors_ok)
  apply (auto simp: session_calls handle_inbound_wait new_alice_def new_session_def finished_def)
  done

lemma run_bob_ok:
  assumes "run_bob mc btc cync ab v (start_of (new_bob i) stream) = (Inr (), c)"
  shows "\<exists>abtc acync p theirs r1 r2 f1 f2 f3 f4.
      recv_message mc stream = Inr (HelloAck abtc acync p, r1)
    \<and> recv_message mc r1 = Inr (AdaptorMaterial theirs, r2) \<and> recv_message mc r2 = Inr (Ready, co_in c)
    \<and> v theirs = Inr ()
    \<and> frame_message mc (Hello i btc cync) = Inr f1 \<and> frame_message mc Accept = Inr f2 \<and> frame_message mc (AdaptorMaterial ab) = Inr f3
    \<and> frame_message mc Ready = Inr f4 \<and> co_out c = f1 @ f2 @ f3 @ f4
    \<and> co_session c = finished (new_bob i \<lparr> hs_counterparty_btc_pubkey := Some abtc, hs_counterparty_cync_pubkey := Some acync,
        hs_parameters := Some p \<rparr>)"
  using assms unfolding run_bob_def co_ok start_of_def
  apply (elim exE conjE)
  apply (drule exchange_adaptors_ok)
  apply (auto simp: session_calls handle_inbound_wait new_bob_def new_session_def finished_def)
  done

text \<open>Two drivers that both succeeded, each reading a prefix of what the other wrote.\<close>

definition joint_run ::
    "message_codec \<Rightarrow> string \<Rightarrow> string \<Rightarrow> bytes \<times> bytes \<Rightarrow> bytes \<times> bytes \<Rightarrow> swap_parameters \<Rightarrow> adaptor_bundle \<Rightarrow> adaptor_bundle
     \<Rightarrow> (adaptor_bundle \<Rightarrow> string + unit) \<Rightarrow> (adaptor_bundle \<Rightarrow> string + unit) \<Rightarrow> coordinator \<Rightarrow> coordinator \<Rightarrow> bool" where
  "joint_run mc ia ib akeys bkeys p aab bab va vb ca cb =
     (\<exists>sa sb xa xb. run_alice mc (fst akeys) (snd akeys) p aab va (start_of (new_alice ia) sa) = (Inr (), ca)
        \<and> run_bob mc (fst bkeys) (snd bkeys) bab vb (start_of (new_bob ib) sb) = (Inr (), cb)
        \<and> sa @ xa = co_out cb \<and> sb @ xb = co_out ca)"

text \<open>C17: the two ends of a negotiation agree. If both drivers report success over a connection that delivers each a prefix of
  what the other wrote, they were started for the same swap, hold the same parameters, which have safe timeouts, hold
  each other's public keys, and each has verified the adaptor material the other sent.\<close>

theorem handshake_agreement:
  assumes "message_codec_ok mc" and "joint_run mc ia ib akeys bkeys p aab bab va vb ca cb"
  shows "ia = ib \<and> is_timeout_safe p \<and> va bab = Inr () \<and> vb aab = Inr ()
    \<and> co_session ca = finished (new_alice ia \<lparr> hs_counterparty_btc_pubkey := Some (fst bkeys),
        hs_counterparty_cync_pubkey := Some (snd bkeys), hs_parameters := Some p \<rparr>)
    \<and> co_session cb = finished (new_bob ib \<lparr> hs_counterparty_btc_pubkey := Some (fst akeys),
        hs_counterparty_cync_pubkey := Some (snd akeys), hs_parameters := Some p \<rparr>)"
proof -
  from assms(2) obtain sa sb xa xb where
    alice: "run_alice mc (fst akeys) (snd akeys) p aab va (start_of (new_alice ia) sa) = (Inr (), ca)" and
    bob: "run_bob mc (fst bkeys) (snd bkeys) bab vb (start_of (new_bob ib) sb) = (Inr (), cb)" and
    chan: "sa @ xa = co_out cb" "sb @ xb = co_out ca" by (auto simp: joint_run_def)
  note sent = recv_is_sent [OF assms(1)]
  from run_alice_ok [OF alice] obtain bbtc bcync btheirs r1 r2 r3 f1 f2 f3 where a:
    "recv_message mc sa = Inr (Hello ia bbtc bcync, r1)" "recv_message mc r1 = Inr (Accept, r2)"
    "recv_message mc r2 = Inr (AdaptorMaterial btheirs, r3)" "recv_message mc r3 = Inr (Ready, co_in ca)"
    "va btheirs = Inr ()" "is_timeout_safe p" "frame_message mc (HelloAck (fst akeys) (snd akeys) p) = Inr f1"
    "frame_message mc (AdaptorMaterial aab) = Inr f2" "frame_message mc Ready = Inr f3" "co_out ca = f1 @ f2 @ f3"
    "co_session ca = finished (new_alice ia \<lparr> hs_counterparty_btc_pubkey := Some bbtc, hs_counterparty_cync_pubkey := Some bcync,
        hs_parameters := Some p \<rparr>)" by blast
  from run_bob_ok [OF bob] obtain abtc acync q atheirs q1 q2 g1 g2 g3 g4 where b:
    "recv_message mc sb = Inr (HelloAck abtc acync q, q1)" "recv_message mc q1 = Inr (AdaptorMaterial atheirs, q2)"
    "recv_message mc q2 = Inr (Ready, co_in cb)" "vb atheirs = Inr ()" "frame_message mc (Hello ib (fst bkeys) (snd bkeys)) = Inr g1"
    "frame_message mc Accept = Inr g2" "frame_message mc (AdaptorMaterial bab) = Inr g3" "frame_message mc Ready = Inr g4"
    "co_out cb = g1 @ g2 @ g3 @ g4"
    "co_session cb = finished (new_bob ib \<lparr> hs_counterparty_btc_pubkey := Some abtc, hs_counterparty_cync_pubkey := Some acync,
        hs_parameters := Some q \<rparr>)" by blast
  from sent [OF a(1) b(5), of xa "g2 @ g3 @ g4"] chan(1) b(9)
  have 1: "Hello ia bbtc bcync = Hello ib (fst bkeys) (snd bkeys)" "r1 @ xa = g2 @ g3 @ g4" by simp_all
  from sent [OF a(2) b(6) this(2)] have 2: "r2 @ xa = g3 @ g4" by simp
  from sent [OF a(3) b(7) this] have 3: "btheirs = bab" by simp
  from sent [OF b(1) a(7), of xb "f2 @ f3"] chan(2) a(10)
  have 4: "HelloAck abtc acync q = HelloAck (fst akeys) (snd akeys) p" "q1 @ xb = f2 @ f3" by simp_all
  from sent [OF b(2) a(8) this(2)] have 5: "atheirs = aab" by simp
  show ?thesis using 1(1) 3 4(1) 5 a(5,6,11) b(4,10) by simp
qed

text \<open>Two honest ends reach agreement: whenever the messages fit into frames, the parameters are safe and the verifiers
  accept, there is such a joint run.\<close>

definition fits :: "message_codec \<Rightarrow> swap_message \<Rightarrow> bool" where
  "fits mc m = (length (msg_to_vec mc m) \<le> MAX_FRAME_BYTES)"

lemma fits_frame: "fits mc m \<Longrightarrow> frame_message mc m = Inr (be_bytes 4 (length (msg_to_vec mc m)) @ msg_to_vec mc m)"
  by (simp add: fits_def frame_message_def Let_def)

lemmas co_defs = co_bind_def co_send_def co_recv_def co_session_op_def expect_wait_for_def expect_done_def run_verifier_def

lemmas session_defs = start_bob_def send_adaptors_def send_ready_def respond_with_hello_ack_def bob_accept_def
  handle_inbound_def Let_def phase_is_terminal_def maybe_advance_to_awaiting_ready_def finished_def

lemma exchange_adaptors_runs:
  assumes "message_codec_ok mc" and f: "frame_message mc (AdaptorMaterial ab) = Inr f1" "frame_message mc Ready = Inr f2"
    "frame_message mc (AdaptorMaterial theirs) = Inr g1"
    and "v theirs = Inr ()" "\<not> hs_sent_adaptors s" "\<not> hs_received_adaptors s" "hs_phase s = PhExchangingAdaptors"
  shows "exchange_adaptors mc ab v \<lparr> co_session = s, co_in = g1 @ f2 @ rest, co_out = out \<rparr>
    = (Inr (), \<lparr> co_session = finished s, co_in = rest, co_out = out @ f1 @ f2 \<rparr>)"
  using assms recv_frame [OF assms(1) f(3)] recv_frame [OF assms(1) f(2)]
  by (simp add: exchange_adaptors_def co_defs session_defs)

lemma run_alice_runs:
  assumes "message_codec_ok mc" and g: "frame_message mc (Hello i bbtc bcync) = Inr g1" "frame_message mc Accept = Inr g2"
    "frame_message mc (AdaptorMaterial theirs) = Inr g3"
    and f: "frame_message mc (HelloAck btc cync p) = Inr f1" "frame_message mc (AdaptorMaterial ab) = Inr f2" "frame_message mc Ready = Inr f3"
    and "is_timeout_safe p" "v theirs = Inr ()"
  shows "\<exists>c. run_alice mc btc cync p ab v (start_of (new_alice i) (g1 @ g2 @ g3 @ f3)) = (Inr (), c) \<and> co_out c = f1 @ f2 @ f3"
proof -
  note recv = recv_frame [OF assms(1) g(1)] recv_frame [OF assms(1) g(2)]
  let ?s = "new_alice i \<lparr> hs_counterparty_btc_pubkey := Some bbtc, hs_counterparty_cync_pubkey := Some bcync,
    hs_parameters := Some p, hs_phase := PhExchangingAdaptors \<rparr>"
  have "run_alice mc btc cync p ab v (start_of (new_alice i) (g1 @ g2 @ g3 @ f3))
      = exchange_adaptors mc ab v \<lparr> co_session = ?s, co_in = g3 @ f3, co_out = f1 \<rparr>"
    using recv f(1) assms(8)
    by (simp add: run_alice_def run_alice_post_hello_def start_of_def co_defs session_defs new_alice_def new_session_def)
  also have "\<dots> = (Inr (), \<lparr> co_session = finished ?s, co_in = [], co_out = f1 @ f2 @ f3 \<rparr>)"
    using exchange_adaptors_runs [where v = v and s = ?s and rest = "[]" and out = f1, OF assms(1) f(2,3) g(3) assms(9)]
    by (simp add: new_alice_def new_session_def)
  finally show ?thesis by simp
qed

lemma run_bob_runs:
  assumes "message_codec_ok mc" and g: "frame_message mc (HelloAck abtc acync p) = Inr g1" "frame_message mc (AdaptorMaterial theirs) = Inr g2"
    and f: "frame_message mc (Hello i btc cync) = Inr f1" "frame_message mc Accept = Inr f2" "frame_message mc (AdaptorMaterial ab) = Inr f3"
      "frame_message mc Ready = Inr f4"
    and "v theirs = Inr ()"
  shows "\<exists>c. run_bob mc btc cync ab v (start_of (new_bob i) (g1 @ g2 @ f4)) = (Inr (), c) \<and> co_out c = f1 @ f2 @ f3 @ f4"
proof -
  let ?s = "new_bob i \<lparr> hs_counterparty_btc_pubkey := Some abtc, hs_counterparty_cync_pubkey := Some acync,
    hs_parameters := Some p, hs_phase := PhExchangingAdaptors \<rparr>"
  have "run_bob mc btc cync ab v (start_of (new_bob i) (g1 @ g2 @ f4))
      = exchange_adaptors mc ab v \<lparr> co_session = ?s, co_in = g2 @ f4, co_out = f1 @ f2 \<rparr>"
    using recv_frame [OF assms(1) g(1)] f(1,2)
    by (simp add: run_bob_def start_of_def co_defs session_defs new_bob_def new_session_def)
  also have "\<dots> = (Inr (), \<lparr> co_session = finished ?s, co_in = [], co_out = (f1 @ f2) @ f3 @ f4 \<rparr>)"
    using exchange_adaptors_runs [where v = v and s = ?s and rest = "[]" and out = "f1 @ f2", OF assms(1) f(3,4) g(2) assms(8)]
    by (simp add: new_bob_def new_session_def)
  finally show ?thesis by simp
qed

text \<open>An honest negotiation succeeds. If the messages fit into frames, the parameters have safe timeouts and each side accepts
  the other's adaptor material, there is a joint run in which both drivers report success.\<close>

theorem handshake_completes:
  assumes "message_codec_ok mc" and "is_timeout_safe p" and "va bab = Inr ()" and "vb aab = Inr ()"
    and fit: "fits mc (Hello i (fst bkeys) (snd bkeys))" "fits mc (HelloAck (fst akeys) (snd akeys) p)" "fits mc Accept"
      "fits mc (AdaptorMaterial aab)" "fits mc (AdaptorMaterial bab)" "fits mc Ready"
  shows "\<exists>ca cb. joint_run mc i i akeys bkeys p aab bab va vb ca cb"
proof -
  note f = fit [THEN fits_frame]
  from run_alice_runs [where v = va, OF assms(1) f(1,3,5,2,4,6) assms(2,3)]
    run_bob_runs [where v = vb, OF assms(1) f(2,4,1,3,5,6) assms(4)]
  show ?thesis unfolding joint_run_def by (metis append_Nil2)
qed

text \<open>C24: Bob's driver accepts whatever Alice proposes. For every parameter set, unsafe timeouts and arbitrary amounts included, a
  counterparty that sends it with matching adaptor material makes \<open>run_bob\<close> report success with these parameters.\<close>

theorem bob_accepts_any_terms:
  assumes "message_codec_ok mc" and "v theirs = Inr ()"
    and fit: "fits mc (HelloAck abtc acync p)" "fits mc (AdaptorMaterial theirs)" "fits mc (Hello i btc cync)" "fits mc Accept"
      "fits mc (AdaptorMaterial ab)" "fits mc Ready"
  shows "\<exists>stream c. run_bob mc btc cync ab v (start_of (new_bob i) stream) = (Inr (), c)
    \<and> hs_phase (co_session c) = PhNegotiated \<and> hs_parameters (co_session c) = Some p"
proof -
  note f = fit [THEN fits_frame]
  let ?stream = "be_bytes 4 (length (msg_to_vec mc (HelloAck abtc acync p))) @ msg_to_vec mc (HelloAck abtc acync p)"
  from run_bob_runs [where v = v, OF assms(1) f assms(2)] obtain c stream where
    c: "run_bob mc btc cync ab v (start_of (new_bob i) stream) = (Inr (), c)" and s: "\<exists>x. stream = ?stream @ x" by auto
  from run_bob_ok [OF c] obtain abtc' acync' p' r1 where r: "recv_message mc stream = Inr (HelloAck abtc' acync' p', r1)"
    "hs_phase (co_session c) = PhNegotiated" "hs_parameters (co_session c) = Some p'" by (auto simp: finished_def)
  from s obtain x where "stream = ?stream @ x" by blast
  with recv_frame [OF assms(1) f(1), of x] r show ?thesis using c by auto
qed

section \<open>The session as a state machine\<close>

text \<open>Well-formed sessions: the phase determines what the session has exchanged.\<close>

definition session_wf :: "handshake_session \<Rightarrow> bool" where
  "session_wf s = ((hs_phase s = PhInitial \<longrightarrow> hs_counterparty_btc_pubkey s = None \<and> hs_parameters s = None)
     \<and> (hs_phase s \<in> {PhInitial, PhAwaitingAck} \<longrightarrow> \<not> hs_sent_adaptors s \<and> \<not> hs_received_adaptors s)
     \<and> (hs_phase s = PhExchangingAdaptors \<longrightarrow> \<not> (hs_sent_adaptors s \<and> hs_received_adaptors s))
     \<and> (hs_phase s \<in> {PhAwaitingReady, PhNegotiated} \<longrightarrow> hs_sent_adaptors s \<and> hs_received_adaptors s)
     \<and> (hs_role s = Bob \<and> hs_phase s \<in> {PhExchangingAdaptors, PhAwaitingReady, PhNegotiated} \<longrightarrow> hs_parameters s \<noteq> None)
     \<and> (hs_phase s \<in> {PhExchangingAdaptors, PhAwaitingReady, PhNegotiated}
          \<or> hs_role s = Alice \<and> hs_phase s = PhAwaitingAck \<or> hs_parameters s \<noteq> None
        \<longrightarrow> hs_counterparty_btc_pubkey s \<noteq> None \<and> hs_counterparty_cync_pubkey s \<noteq> None))"

datatype session_call = CallHandle swap_message | CallStartBob bytes bytes | CallAdaptors adaptor_bundle | CallReady
  | CallAbort string | CallHelloAck bytes bytes swap_parameters | CallAccept

fun call_session :: "session_call \<Rightarrow> handshake_session \<Rightarrow> handshake_session" where
  "call_session (CallHandle m) s = snd (handle_inbound m s)"
| "call_session (CallStartBob b c) s = snd (start_bob b c s)"
| "call_session (CallAdaptors ab) s = snd (send_adaptors ab s)"
| "call_session CallReady s = snd (send_ready s)"
| "call_session (CallAbort r) s = snd (send_abort r s)"
| "call_session (CallHelloAck b c p) s = snd (respond_with_hello_ack b c p s)"
| "call_session CallAccept s = snd (bob_accept s)"

lemma new_session_wf: "session_wf (new_session r i)"
  by (simp add: session_wf_def new_session_def)

lemma handle_inbound_wf: "session_wf s \<Longrightarrow> session_wf (snd (handle_inbound m s))"
  by (cases m; cases "hs_phase s")
     (auto simp: session_wf_def handle_inbound_def Let_def phase_is_terminal_def maybe_advance_to_awaiting_ready_def)

lemma call_session_wf: "session_wf s \<Longrightarrow> session_wf (call_session c s)"
  by (cases c; cases "hs_phase s")
     (auto simp: handle_inbound_wf, auto simp: session_wf_def session_defs send_abort_def)

text \<open>C28: over every sequence of messages and calls, in whatever order a peer or a caller issues them, a session stays well
  formed: material counts as exchanged in both directions from \<open>AwaitingReady\<close> on and not before, the
  counterparty's keys are known from the first exchange on, and Bob holds parameters once he has accepted.\<close>

theorem session_always_wf: "session_wf (fold call_session cs (new_session r i))"
proof -
  have "session_wf (fold call_session cs s)" if "session_wf s" for s
    using that by (induction cs arbitrary: s) (simp_all add: call_session_wf)
  then show ?thesis using new_session_wf by blast
qed

section \<open>Listening among strangers\<close>

text \<open>A peer that passes the filter is served exactly as if it had been the only one to connect.\<close>

lemma validate_hello_run:
  assumes "validate_hello mc i stream = Inr c"
  shows "run_alice mc btc cync p ab v (start_of (new_alice i) stream) = run_alice_post_hello mc btc cync p ab v c"
proof -
  have "co_bind (co_recv mc) (\<lambda>hello. co_bind (co_session_op ''Hello validation'' (handle_inbound hello))
      (expect_wait_for ''respond_with_hello_ack'')) \<lparr> co_session = new_alice i, co_in = stream, co_out = [] \<rparr> = (Inr (), c)"
    using assms by (auto simp: validate_hello_def split: prod.splits sum.splits)
  then show ?thesis unfolding co_ok start_of_def
    by (elim exE conjE) (simp add: run_alice_def co_defs)
qed

lemma accept_loop_ok:
  "accept_loop mc i n peers = Inr c \<Longrightarrow>
     \<exists>k < n. k < length peers \<and> validate_hello mc i (peers ! k) = Inr c \<and> (\<forall>j < k. \<exists>e. validate_hello mc i (peers ! j) = Inl e)"
proof (induction n arbitrary: peers)
  case (Suc n)
  then obtain p ps where peers: "peers = p # ps" by (cases peers) auto
  show ?case
  proof (cases "validate_hello mc i p")
    case (Inl e)
    with Suc.prems peers have "accept_loop mc i n ps = Inr c" by simp
    from Suc.IH [OF this] obtain k where "k < n" "k < length ps" "validate_hello mc i (ps ! k) = Inr c"
      "\<forall>j < k. \<exists>e. validate_hello mc i (ps ! j) = Inl e" by blast
    then show ?thesis using Inl peers by (intro exI [of _ "Suc k"]) (auto simp: less_Suc_eq_0_disj)
  next
    case (Inr c')
    with Suc.prems peers show ?thesis by (intro exI [of _ 0]) simp
  qed
qed simp

text \<open>A listener that filters its peers serves the first of its first \<open>max_attempts\<close> peers that presents a valid \<open>Hello\<close> for the
  swap; peers before it do not disturb the negotiation: the driver continues exactly as it would have with that
  peer alone.\<close>

theorem listen_filtered_transparent:
  assumes "listen_filtered mc i n peers = Inr c"
  shows "\<exists>k < n. k < length peers \<and> (\<forall>j < k. \<exists>e. validate_hello mc i (peers ! j) = Inl e)
    \<and> run_alice_post_hello mc btc cync p ab v c = run_alice mc btc cync p ab v (start_of (new_alice i) (peers ! k))"
proof -
  from assms have "accept_loop mc i n peers = Inr c" by (simp add: listen_filtered_def split: if_splits)
  from accept_loop_ok [OF this] show ?thesis using validate_hello_run by metis
qed

section \<open>Concrete inputs\<close>

text \<open>Messages as lists of numbers in unary.\<close>

definition bytes_nats :: "bytes \<Rightarrow> nat list" where
  "bytes_nats b = length b # map unat b"

definition read_bytes :: "nat list \<Rightarrow> bytes \<times> nat list" where
  "read_bytes ns = (map word_of_nat (take (hd ns) (tl ns)), drop (hd ns) (tl ns))"

lemma read_bytes_nats: "read_bytes (bytes_nats b @ ns) = (b, ns)"
  by (simp add: read_bytes_def bytes_nats_def comp_def)

definition params_nats :: "swap_parameters \<Rightarrow> nat list" where
  "params_nats p = [sp_cync_amount p, sp_btc_amount_sats p, sp_cync_timeout_blocks p, sp_btc_timeout_blocks p]
     @ str_nats (sp_alice_cync_address p) @ str_nats (sp_bob_btc_address p) @ str_nats (sp_cync_network p) @ str_nats (sp_btc_network p)"

definition read_params :: "nat list \<Rightarrow> swap_parameters" where
  "read_params ns = (let (a, r) = read_str (drop 4 ns); (b, r) = read_str r; (cn, r) = read_str r; (bn, r) = read_str r
     in \<lparr> sp_cync_amount = ns ! 0, sp_btc_amount_sats = ns ! 1, sp_cync_timeout_blocks = ns ! 2, sp_btc_timeout_blocks = ns ! 3,
          sp_alice_cync_address = a, sp_bob_btc_address = b, sp_cync_network = cn, sp_btc_network = bn \<rparr>)"

lemma read_params_nats: "read_params (params_nats p) = p"
  by (simp add: read_params_def params_nats_def Let_def read_str_nats read_str_nats [of _ "[]", simplified])

fun message_nats :: "swap_message \<Rightarrow> nat list" where
  "message_nats (Hello i b c) = 0 # str_nats i @ bytes_nats b @ bytes_nats c"
| "message_nats (HelloAck b c p) = 1 # bytes_nats b @ bytes_nats c @ params_nats p"
| "message_nats Accept = [2]"
| "message_nats (AdaptorMaterial ab) = 3 # bytes_nats (ab_btc_adaptor ab) @ bytes_nats (ab_cync_adaptor ab)
     @ bytes_nats (ab_dl_proof ab) @ bytes_nats (ab_refund_tx ab)"
| "message_nats Ready = [4]"
| "message_nats (MsgAbort r) = 5 # str_nats r"

definition read_message :: "nat list \<Rightarrow> swap_message" where
  "read_message ns = (let tag = hd ns; r = tl ns
     in if tag = 0 then let (i, r) = read_str r; (b, r) = read_bytes r; (c, r) = read_bytes r in Hello i b c
        else if tag = 1 then let (b, r) = read_bytes r; (c, r) = read_bytes r in HelloAck b c (read_params r)
        else if tag = 2 then Accept
        else if tag = 3 then let (a, r) = read_bytes r; (b, r) = read_bytes r; (d, r) = read_bytes r; (e, r) = read_bytes r
          in AdaptorMaterial \<lparr> ab_btc_adaptor = a, ab_cync_adaptor = b, ab_dl_proof = d, ab_refund_tx = e \<rparr>
        else if tag = 4 then Ready
        else MsgAbort (fst (read_str r)))"

lemma read_message_nats: "read_message (message_nats m) = m"
  by (cases m) (simp_all add: read_message_def Let_def read_str_nats read_bytes_nats read_params_nats
      read_str_nats [of _ "[]", simplified] read_bytes_nats [of _ "[]", simplified])

definition sample_message_codec :: message_codec where
  "sample_message_codec = \<lparr> msg_to_vec = \<lambda>m. unary (message_nats m), msg_of_slice = \<lambda>b. Some (read_message (of_unary 0 b)) \<rparr>"

lemma sample_message_codec_ok: "message_codec_ok sample_message_codec"
  by (simp add: message_codec_ok_def sample_message_codec_def of_unary_unary read_message_nats)

lemma length_unary: "length (unary ns) = sum_list ns + length ns"
  by (induction ns) simp_all

definition sample_bundle :: adaptor_bundle where
  "sample_bundle = \<lparr> ab_btc_adaptor = [1], ab_cync_adaptor = [2], ab_dl_proof = [3], ab_refund_tx = [4] \<rparr>"

definition safe_terms :: swap_parameters where
  "safe_terms = default_params 5 7 [] []"

definition unsafe_terms :: swap_parameters where
  "unsafe_terms = safe_terms \<lparr> sp_btc_timeout_blocks := 720 \<rparr>"

lemma sample_fits:
  "fits sample_message_codec (Hello ''s'' [1] [2])" "fits sample_message_codec (HelloAck [3] [4] safe_terms)"
  "fits sample_message_codec (HelloAck [3] [4] unsafe_terms)"
  "fits sample_message_codec Accept" "fits sample_message_codec (AdaptorMaterial sample_bundle)" "fits sample_message_codec Ready"
  by (simp_all add: fits_def sample_message_codec_def length_unary str_nats_def bytes_nats_def params_nats_def safe_terms_def
      unsafe_terms_def default_params_def sample_bundle_def MAX_FRAME_BYTES_def DEFAULT_CYNC_TIMEOUT_BLOCKS_def
      DEFAULT_BTC_TIMEOUT_BLOCKS_def)

lemma terms_safety: "is_timeout_safe safe_terms" "\<not> is_timeout_safe unsafe_terms"
  by (simp_all add: is_timeout_safe_iff params_wf_def safe_terms_def unsafe_terms_def default_params_def
      DEFAULT_CYNC_TIMEOUT_BLOCKS_def DEFAULT_BTC_TIMEOUT_BLOCKS_def)

theorem handshake_completes_witness:
  "\<exists>ca cb. joint_run sample_message_codec ''s'' ''s'' ([3], [4]) ([1], [2]) safe_terms sample_bundle sample_bundle
     (\<lambda>_. Inr ()) (\<lambda>_. Inr ()) ca cb"
  using handshake_completes [OF sample_message_codec_ok terms_safety(1), of "\<lambda>_. Inr ()" sample_bundle "\<lambda>_. Inr ()" sample_bundle
      "''s''" "([1], [2])" "([3], [4])"] sample_fits by simp

lemma honest_joint_run:
  "\<exists>ca cb. joint_run sample_message_codec ''s'' ''s'' ([3], [4]) ([1], [2]) safe_terms sample_bundle sample_bundle
     (\<lambda>_. Inr ()) (\<lambda>_. Inr ()) ca cb"
proof -
  note f = sample_fits [THEN fits_frame]
  from run_alice_runs [where v = "\<lambda>_. Inr ()", OF sample_message_codec_ok f(1,4,5,2,5,6) terms_safety(1)]
    run_bob_runs [where v = "\<lambda>_. Inr ()", OF sample_message_codec_ok f(2,5,1,4,5,6)]
  show ?thesis unfolding joint_run_def by (metis append_Nil2 fst_conv snd_conv)
qed

theorem handshake_agreement_witness:
  "\<exists>(ca :: coordinator) (cb :: coordinator). joint_run sample_message_codec ''s'' ''s'' ([3], [4]) ([1], [2]) safe_terms
       sample_bundle sample_bundle (\<lambda>_. Inr ()) (\<lambda>_. Inr ()) ca cb
     \<and> hs_phase (co_session ca) = PhNegotiated \<and> hs_parameters (co_session ca) = Some safe_terms
     \<and> hs_phase (co_session cb) = PhNegotiated \<and> hs_parameters (co_session cb) = Some safe_terms
     \<and> hs_counterparty_btc_pubkey (co_session cb) = Some [3]"
proof -
  obtain ca cb where run: "joint_run sample_message_codec ''s'' ''s'' ([3], [4]) ([1], [2]) safe_terms sample_bundle sample_bundle
     (\<lambda>_. Inr ()) (\<lambda>_. Inr ()) ca cb" using honest_joint_run by blast
  note a = handshake_agreement [OF sample_message_codec_ok run]
  from a have ca: "co_session ca = finished (new_alice ''s'' \<lparr> hs_counterparty_btc_pubkey := Some [1],
      hs_counterparty_cync_pubkey := Some [2], hs_parameters := Some safe_terms \<rparr>)" by simp
  from a have cb: "co_session cb = finished (new_bob ''s'' \<lparr> hs_counterparty_btc_pubkey := Some [3],
      hs_counterparty_cync_pubkey := Some [4], hs_parameters := Some safe_terms \<rparr>)" by simp
  have "hs_phase (co_session ca) = PhNegotiated \<and> hs_parameters (co_session ca) = Some safe_terms
     \<and> hs_phase (co_session cb) = PhNegotiated \<and> hs_parameters (co_session cb) = Some safe_terms
     \<and> hs_counterparty_btc_pubkey (co_session cb) = Some [3]" unfolding ca cb finished_def by simp
  with run show ?thesis by blast
qed

theorem bob_accepts_any_terms_witness:
  "\<not> is_timeout_safe unsafe_terms \<and> (\<exists>stream c. run_bob sample_message_codec [1] [2] sample_bundle (\<lambda>_. Inr ())
      (start_of (new_bob ''s'') stream) = (Inr (), c) \<and> hs_parameters (co_session c) = Some unsafe_terms)"
  using bob_accepts_any_terms [OF sample_message_codec_ok, of "\<lambda>_. Inr ()" sample_bundle "[3]" "[4]" unsafe_terms "''s''" "[1]" "[2]" sample_bundle]
    sample_fits terms_safety(2) by blast

theorem listen_filtered_transparent_witness:
  "\<exists>peers c. listen_filtered sample_message_codec ''s'' 3 peers = Inr c \<and> hd peers = [0, 0]
     \<and> run_alice_post_hello sample_message_codec [3] [4] safe_terms sample_bundle (\<lambda>_. Inr ()) c
       = run_alice sample_message_codec [3] [4] safe_terms sample_bundle (\<lambda>_. Inr ()) (start_of (new_alice ''s'') (peers ! 1))"
proof -
  obtain b where b: "frame_message sample_message_codec (Hello ''s'' [1] [2]) = Inr b" using fits_frame [OF sample_fits(1)] by blast
  let ?peers = "[[0, 0], b]"
  have bad: "validate_hello sample_message_codec ''s'' [0, 0] = Inl ''TCP read length''"
    by (simp add: validate_hello_def co_defs recv_message_def recv_framed_bytes_def)
  from recv_frame [OF sample_message_codec_ok b, of "[]"] obtain c where good: "validate_hello sample_message_codec ''s'' b = Inr c"
    by (simp add: validate_hello_def co_defs session_defs new_alice_def new_session_def)
  have l: "listen_filtered sample_message_codec ''s'' 3 ?peers = Inr c"
    by (simp add: listen_filtered_def bad good eval_nat_numeral)
  from listen_filtered_transparent [OF l, of "[3]" "[4]" safe_terms sample_bundle "\<lambda>_. Inr ()"] obtain k where k:
    "k < length ?peers" "\<forall>j < k. \<exists>e. validate_hello sample_message_codec ''s'' (?peers ! j) = Inl e"
    "run_alice_post_hello sample_message_codec [3] [4] safe_terms sample_bundle (\<lambda>_. Inr ()) c
       = run_alice sample_message_codec [3] [4] safe_terms sample_bundle (\<lambda>_. Inr ()) (start_of (new_alice ''s'') (?peers ! k))" by blast
  show ?thesis
  proof (cases "k = 1")
    case True
    with k(3) l show ?thesis by (intro exI [of _ ?peers] exI [of _ c]) simp
  next
    case False
    have "run_alice_post_hello sample_message_codec [3] [4] safe_terms sample_bundle (\<lambda>_. Inr ()) c
       = run_alice sample_message_codec [3] [4] safe_terms sample_bundle (\<lambda>_. Inr ()) (start_of (new_alice ''s'') b)"
      by (rule validate_hello_run [OF good, symmetric])
    with l show ?thesis by (intro exI [of _ ?peers] exI [of _ c]) simp
  qed
qed

end
