(* ===== verification/Spec2Isabelle.thy ===== *)
theory Spec2Isabelle
  imports Node_Chain Mempool Fork_Signal Fee_Market Swap_Handshake
begin

text \<open>
  Verification of the CoinCync node: a privacy coin with CLSAG ring signatures, Pedersen commitments, RandomX proof of
  work, an ASERT/LWMA difficulty, a smooth emission curve, fee burning, and a rolling finality gadget. The paths below
  are relative to the root of the repository \<open>src/\<close>.

  \<^bold>\<open>How the program works.\<close> A block arrives at \<open>Blockchain::add_block\<close> (\<open>src/chain.rs\<close>). It is validated against its
  parent, the UTXO set, the difficulty rule and the checkpoints (\<open>consensus/validation.rs\<close>, \<open>consensus/pow.rs\<close>,
  \<open>consensus/difficulty.rs\<close>), stored, and either extends the tip or enters the fork choice, which may reorganise the
  chain. Extending the tip connects the block to the UTXO set (\<open>storage/utxos.rs\<close>), updates the money supply
  (\<open>emission\<close>, \<open>consensus/fee_market.rs\<close>), persists the new tip (\<open>db\<close>), and feeds the finality gadget
  (\<open>consensus/rolling_finality.rs\<close>, \<open>crates/coincync-rolling-finality\<close>). Transactions wait in the mempool
  (\<open>mempool.rs\<close>) until a template takes them. A restart replays the stored chain.

  \<^bold>\<open>Theories.\<close>
  \<^item> \<open>Rust_Prelude\<close>: machine integers as naturals with explicit checked, saturating and wrapping operations, results as
    sums, byte strings, the collections \<open>check_ok\<close> and \<open>block_ok\<close> of simplification rules.
  \<^item> \<open>Std_Maps\<close>: \<open>HashMap\<close> and \<open>BTreeMap\<close> as association lists behind one locale, interpreted for both.
  \<^item> \<open>Primitives\<close>, \<open>Amounts\<close>, \<open>Merkle\<close> (\<open>primitives/hash.rs\<close>, \<open>primitives/amount.rs\<close>): hashes and targets, amounts with
    their printing and parsing, Merkle roots.
  \<^item> \<open>Emission\<close>, \<open>Fee_Market\<close> (\<open>emission\<close>, \<open>consensus/fee_market.rs\<close>, \<open>constants.rs\<close>): block reward, supply estimates, fee
    schedule, fee distribution and burn.
  \<^item> \<open>Difficulty\<close> (\<open>consensus/difficulty.rs\<close>): LWMA, ASERT, clamps; \<open>Fork_Signal\<close> (\<open>consensus/fork_signal.rs\<close>): the
    deployment state machine.
  \<^item> \<open>Finality\<close>, \<open>Finality_Adapter\<close>: the finality tracker and its active set, the wire format of attestations and the
    adapter that finds them in coinbase transactions.
  \<^item> \<open>Transactions\<close>, \<open>Recovery\<close> (\<open>transaction/types.rs\<close>, \<open>transaction/recovery.rs\<close>): transactions, the bytes that are
    signed, recovery metadata.
  \<^item> \<open>Utxo_Set\<close> (\<open>storage/utxos.rs\<close>): the UTXO set with its indexes, batches for connecting and disconnecting blocks.
  \<^item> \<open>Verification_Cache\<close> (\<open>crypto/cache.rs\<close> and the verifiers behind it), \<open>Tx_Validation\<close>, \<open>Proof_Of_Work\<close>,
    \<open>Block_Validation\<close> (\<open>consensus/validation.rs\<close>, \<open>consensus/pow.rs\<close>, \<open>consensus/header.rs\<close>): validation.
  \<^item> \<open>Mempool\<close> (\<open>mempool.rs\<close>): admission, replacement, eviction, expiry, templates, and runs of the pool.
  \<^item> \<open>Fork_Choice\<close>, \<open>Chain\<close>, \<open>Chain_Load\<close> (\<open>chain.rs\<close>): fork choice, the blockchain with its block cache, height index,
    database and statistics; acceptance of blocks, reorganisation, roll back, and start on an existing database.
  \<^item> \<open>Chain_Invariant\<close>, \<open>Sample_Node\<close>, \<open>Node_Chain\<close>: the invariant of the blockchain, a concrete node, and the theorems
    about every reachable state of a node. This theory adds the properties that span emission, validation, the chain
    and the mempool.
  \<^item> \<open>Swap_Protocol\<close> (\<open>crates/coincync-swap\<close>: \<open>protocol.rs\<close>, \<open>state.rs\<close>, \<open>bin/cyncswap.rs\<close>): atomic swaps with BTC, the state
    machine of a party, its state file with crash points, the commands, and runs of two parties. \<open>Swap_Handshake\<close>
    (\<open>coordinator.rs\<close>): the negotiation, its framing on byte streams and the drivers of both roles.

  \<^bold>\<open>Code outside the repository.\<close> Blake3, RandomX, the curve operations, CLSAG and range-proof verification and the derived
  Borsh encodings are fields of the records \<open>'p crypto\<close> and \<open>'p node_env\<close>; group elements are an arbitrary abelian
  group. JSON, HMAC and the nodes' RPC are fields of \<open>swap_codec\<close>, \<open>message_codec\<close> and \<open>cli_env\<close>. Theorems that need
  something of them (injectivity on the strings in question, a round trip of an encoding) state it as a hypothesis, and
  each has a witness on a concrete instance. The clock, the order in which the inputs of a transaction are verified in
  parallel and the observations of another thread are arguments; the transactions of a block, which the code validates in
  parallel too, are taken in block order.

  \<^bold>\<open>What is shown.\<close> For every state of a run: the main chain is a linked list of accepted blocks from the hardcoded
  genesis block, supply and burn are its exact sums, no key image is spent twice, and coins are conserved. Blocks at or
  below the finality floor stay. A valid block on the tip is always accepted. A restart and a roll back restore the
  earlier state. A run (\<open>node_reachable\<close>) is one of the default build and leaves out three things: blocks refused two or
  more heights above the tip (a failed reorganisation can leave height entries behind, which is shown), rollbacks below
  the finality floor, and restarts once the burn total has outgrown the 64 bits it is persisted with. For each
  component: soundness of validation, round trips of encodings, bounds of the retarget, what an answer of the
  verification cache means, the agreement of incremental with recomputed work, the books of the mempool. For swaps: two ends that both finish a negotiation agree on everything, broadcasts come in the order that keeps a swap
  atomic, no party both claims and refunds unless an answer is lost or a save fails after its transaction went out (with
  a run in which one does), and a crash during a save never loses the state file. Several
  theorems state what the code does where it departs from its documentation; they are named for the behaviour.

  \<^bold>\<open>Bounds and fuel.\<close> Loops over heights, parents and candidates are structural or have a termination measure. The walk
  of \<open>find_fork_point\<close> and of the cumulative work is bounded by the visited set, as in the code. \<open>load_rounds\<close> gives the
  loader's self-call two rounds; a loaded chain whose index is rebuilt passes its check in the first
  (\<open>rebuild_tx_index_ok\<close>). The estimate of the supply at a height is a loop of at most the height.

  \<^bold>\<open>Not modelled.\<close> The peer-to-peer network, the RPC servers, wallets, miners and pool server, command line and
  explorer, snapshots, the storage engine, the cryptographic algorithms themselves (those of the swaps included), and
  the crates for threshold signing, shielded side pools, merge mining, bridging, the faucet and the rig: they perform
  I/O, or lean on cryptography that is not in the repository, and consensus does not
  depend on them. Database write errors, lock contention and the loss of unsynced writes at a power failure are not modelled: writes succeed and each locked section is one
  step.
\<close>

section \<open>Emission along the main chain\<close>

definition minted :: "block \<Rightarrow> nat" where
  "minted b = sum_list (map declared_amount (tx_outputs (hd (transactions b))))"

lemma was_accepted_conserves:
  assumes "was_accepted e network b p" and "0 < block_height b"
  shows "minted b + block_fee_burn e b = as_atomic (calculate_block_reward (block_height b)) + as_atomic (block_total_fees b)"
proof -
  from assms(1) obtain env u cp c pc where env: "same_node e env"
    and v: "bv_valid (fst (validate_block_with_checkpoint_for_network env b (Some p) u cp network (c, pc)))"
    by (auto simp: was_accepted_def)
  from env have "\<not> ne_insecure_fast_sync env" by (simp add: same_node_def)
  from accepted_coinbase [OF v assms(2) this] show ?thesis by (simp add: minted_def same_node_eqs(3) [OF env])
qed

lemma chain_list_conserves:
  "chain_list e network bs \<Longrightarrow> (\<Sum>b \<leftarrow> butlast bs. minted b + block_fee_burn e b)
     = (\<Sum>b \<leftarrow> butlast bs. as_atomic (calculate_block_reward (block_height b)) + as_atomic (block_total_fees b))"
proof (induction e network bs rule: chain_list.induct)
  case (3 e network b p bs)
  then show ?case using was_accepted_conserves [of e network b p] by simp
qed simp_all

lemma genesis_no_burn: "list_all is_coinbase (transactions g) \<Longrightarrow> block_fee_burn e g = 0"
proof -
  assume "list_all is_coinbase (transactions g)"
  then have "filter (\<lambda>tx. \<not> is_coinbase tx) (transactions g) = []" by (auto simp: list_all_iff filter_empty_conv)
  then show ?thesis by (simp add: block_fee_burn_def amount_sum_def amount_ZERO_def)
qed

lemma sum_list_last: "bs \<noteq> [] \<Longrightarrow> (\<Sum>b \<leftarrow> bs. f b) = (\<Sum>b \<leftarrow> butlast bs. f b) + f (last bs)" for f :: "'b \<Rightarrow> nat"
  by (induction bs) auto

lemma chain_list_last: "chain_list e network bs \<Longrightarrow> block_height (last bs) = 0 \<and> list_all is_coinbase (transactions (last bs))"
  by (induction e network bs rule: chain_list.induct) auto

text \<open>C2: in every state of a run, the coins that the coinbases of the main chain claim above the genesis block,
  plus the burned total and the genesis reward the node records, are exactly the recorded supply plus the fees paid:
  no branch, reorganisation, roll back or restart of the run mints or loses a unit. A run is what \<open>node_reachable\<close>
  describes, in the default build: genesis, blocks, rollbacks to the finality floor or above, and restarts. It leaves
  out blocks that are refused two or more heights above the tip, after which height entries of the refused branch can
  stay behind, and restarts once the burn total exceeds the 64 bits it is persisted with.\<close>

theorem node_supply_conserved:
  assumes "node_reachable e bc"
  shows "(\<Sum>b \<leftarrow> tl (main_blocks bc). minted b) + cs_total_burned (bc_stats bc) + as_atomic (calculate_block_reward 0)
       = cs_total_supply (bc_stats bc) + (\<Sum>b \<leftarrow> tl (main_blocks bc). as_atomic (block_total_fees b))"
proof -
  from node_inv [OF assms] obtain bs where inv: "chain_inv e bc bs" by blast
  then have ch: "chain_list e (bc_network bc) bs" and mo: "money_ok e bs (bc_stats bc)" by (auto simp: chain_inv_def work_ok_def)
  have ne: "bs \<noteq> []" by (rule chain_list_nonempty [OF ch])
  have g: "block_height (last bs) = 0" "block_fee_burn e (last bs) = 0"
    using chain_list_last [OF ch] genesis_no_burn by auto
  have "tl (rev bs) = rev (butlast bs)" using butlast_rev [of "rev bs"] by simp
  then have "tl (main_blocks bc) = rev (butlast bs)" by (simp only: inv_main_blocks [OF inv])
  then show ?thesis
    using chain_list_conserves [OF ch] mo g sum_list_last [OF ne, of "block_fee_burn e"]
      sum_list_last [OF ne, of "\<lambda>b. as_atomic (calculate_block_reward (block_height b))"]
    by (simp add: money_ok_def sum_list_addf rev_map [symmetric] sum_list_rev)
qed

section \<open>Blocks from the mempool\<close>

lemma distinct_concat_disjoint:
  assumes "\<forall>x \<in> set xs. distinct (f x)" and "sorted_wrt (\<lambda>a b. set (f a) \<inter> set (f b) = {}) xs"
  shows "distinct (concat (map f xs))"
  using assms by (induction xs) auto

lemma saturating_sum_le: "foldl (saturating_add u64_max) n xs \<le> n + sum_list xs"
proof (induction xs arbitrary: n)
  case (Cons x xs)
  have "foldl (saturating_add u64_max) (saturating_add u64_max n x) xs \<le> saturating_add u64_max n x + sum_list xs"
    by (rule Cons.IH)
  also have "\<dots> \<le> n + x + sum_list xs" by (simp add: saturating_add_def)
  finally show ?case by (simp add: add.assoc)
qed simp

text \<open>C15: a block assembled from the mempool is free of the in-block faults that validation looks for first.
  Put the transactions \<open>get_block_transactions\<close> selects from a reachable pool under a coinbase without
  key images: the block passes the duplicate-key-image check and contains no second coinbase; it
  passes the count check if fewer transactions than the block limit were asked for; its size is at
  most the size asked for plus the coinbase and 200 bytes for the header, so it passes the size check
  when the caller leaves that room below the block limit.\<close>

theorem mempool_template_valid:
  fixes env :: "'p::ab_group_add node_env" and h cb m ms mc
  defines "txs \<equiv> get_block_transactions m ms mc"
  assumes "mempool_reachable (ne_crypto env) mx m" and "key_images cb = []"
  shows "bv_valid (check_block_duplicate_key_images \<lparr> header = h, transactions = cb # txs \<rparr> bv_ok)
    \<and> bv_valid (check_multiple_coinbase \<lparr> header = h, transactions = cb # txs \<rparr> bv_ok)
    \<and> (mc < MAX_TXS_PER_BLOCK \<longrightarrow> bv_valid (check_block_tx_count \<lparr> header = h, transactions = cb # txs \<rparr> bv_ok))
    \<and> block_size env \<lparr> header = h, transactions = cb # txs \<rparr> \<le> 200 + tx_size (cr_borsh_tx (ne_crypto env)) cb + ms
    \<and> (200 + tx_size (cr_borsh_tx (ne_crypto env)) cb + ms \<le> MAX_BLOCK_SIZE \<longrightarrow>
         bv_valid (check_block_size (block_size env \<lparr> header = h, transactions = cb # txs \<rparr>) bv_ok))"
proof -
  have inv: "mempool_inv (ne_crypto env) m" by (rule reachable_inv [OF assms(2)])
  note tf = template_facts [OF assms(2), of ms mc, folded txs_def]
  have "distinct (key_images tx) \<and> \<not> is_coinbase tx" if tx: "tx \<in> set txs" for tx
  proof -
    from tf tx obtain p where "p \<in> set (mp_transactions m)" "tx = me_tx (snd p)" by blast
    moreover from inv this(1) have "entry_ok (ne_crypto env) (fst p) (snd p)" unfolding mempool_inv_def by blast
    ultimately show ?thesis by (simp add: entry_ok_def)
  qed
  then have "distinct (concat (map key_images txs))" and "\<forall>tx \<in> set txs. \<not> is_coinbase tx"
    using tf by (auto intro: distinct_concat_disjoint)
  moreover let ?sz = "tx_size (cr_borsh_tx (ne_crypto env))"
  have "block_size env \<lparr> header = h, transactions = cb # txs \<rparr> \<le> 200 + sum_list (map ?sz (cb # txs))"
    using saturating_sum_le [of 0 "map ?sz (cb # txs)"] by (simp add: block_size_def saturating_add_def min.coboundedI2)
  with tf have size: "block_size env \<lparr> header = h, transactions = cb # txs \<rparr> \<le> 200 + ?sz cb + ms" by simp
  ultimately show ?thesis using tf assms(3) le_trans [OF size]
    by (simp add: block_ok)
qed

subsection \<open>Concrete inputs\<close>

theorem node_supply_conserved_witness:
  "minted live_block + cs_total_burned (bc_stats live_next) + as_atomic (calculate_block_reward 0)
     = cs_total_supply (bc_stats live_next) + as_atomic (block_total_fees live_block)"
  using node_supply_conserved [OF live_next_reachable] by (simp add: live_next_main live_start_main)

definition template_block :: block where
  "template_block = \<lparr> header = sample_header,
     transactions = reward_tx 5 # get_block_transactions (fst (snd pool_result)) 500 3 \<rparr>"

theorem mempool_template_valid_witness:
  "bv_valid (check_block_duplicate_key_images template_block bv_ok)
   \<and> bv_valid (check_multiple_coinbase template_block bv_ok)
   \<and> bv_valid (check_block_tx_count template_block bv_ok)
   \<and> bv_valid (check_block_size (block_size (sample_env \<lparr> ne_crypto := sample_crypto \<rparr>) template_block) bv_ok)"
proof -
  let ?env = "sample_env \<lparr> ne_crypto := sample_crypto \<rparr>"
  have "mempool_reachable (ne_crypto ?env) 1000 (fst (snd pool_result))" using pool_reachable by simp
  moreover have "key_images (reward_tx 5) = []" by (simp add: reward_tx_def key_images_def)
  moreover have "3 < MAX_TXS_PER_BLOCK" by (simp add: MAX_TXS_PER_BLOCK_def)
  moreover have "200 + tx_size (cr_borsh_tx (ne_crypto ?env)) (reward_tx 5) + 500 \<le> MAX_BLOCK_SIZE"
    by (simp add: tx_size_def sample_crypto_def MAX_BLOCK_SIZE_def MIN_TX_SIZE_def)
  ultimately show ?thesis
    unfolding template_block_def
    using mempool_template_valid [of ?env 1000 "fst (snd pool_result)" "reward_tx 5" sample_header 500 3] by blast
qed

end
